(* ===== verification/Prelude.thy ===== *)
theory Prelude
  imports Complex_Main "HOL-Library.AList" "HOL-Library.Multiset" "HOL-Library.Sublist"
    "HOL-Library.Char_ord" "HOL-Library.List_Lexorder"
begin

text \<open>
  Shared vocabulary of the development: the Python run-time notions that several modules of
  \<open>dealfinder\<close> use, and the generic lemmas about them.

  \<^item> Python's \<open>float\<close> is modelled by exact real numbers (type \<open>pyfloat\<close>). Rounding errors,
    overflow to infinity and NaN are outside this model; the one place where the code treats
    non-finite values (\<open>serve._json_safe\<close>) has a datatype of its own.
  \<^item> A \<open>dict\<close> is an association list, because Python dicts keep insertion order and the code
    relies on it: writing an existing key keeps its place, a new key goes to the end.
  \<^item> \<open>sorted(key=f)\<close> is \<open>sort_key f\<close> (both stable), \<open>min(key=f)\<close> is \<open>py_min\<close> (the first minimal
    element), \<open>statistics.median\<close> is \<open>py_median\<close>, \<open>round(x, n)\<close> is \<open>py_round n x\<close>.
\<close>

named_theorems dict_simps \<open>rewrite rules for dictionaries\<close>
named_theorems inv_intros \<open>preservation of invariants, as introduction rules\<close>

type_synonym pyfloat = real
type_synonym ('k, 'v) dict = "('k \<times> 'v) list"

section \<open>Dictionaries\<close>

definition dict_get :: "('k, 'v) dict \<Rightarrow> 'k \<Rightarrow> 'v option" where
  "dict_get d k = map_of d k"

definition dict_get_or :: "('k, 'v) dict \<Rightarrow> 'k \<Rightarrow> 'v \<Rightarrow> 'v" where
  "dict_get_or d k v = (case map_of d k of None \<Rightarrow> v | Some w \<Rightarrow> w)"

definition dict_has :: "('k, 'v) dict \<Rightarrow> 'k \<Rightarrow> bool" where
  "dict_has d k \<longleftrightarrow> k \<in> set (map fst d)"

fun dict_set :: "'k \<Rightarrow> 'v \<Rightarrow> ('k, 'v) dict \<Rightarrow> ('k, 'v) dict" where
  "dict_set k v [] = [(k, v)]"
| "dict_set k v (p # d) = (if fst p = k then (k, v) # d else p # dict_set k v d)"

definition dict_del :: "'k \<Rightarrow> ('k, 'v) dict \<Rightarrow> ('k, 'v) dict" where
  "dict_del k d = filter (\<lambda>p. fst p \<noteq> k) d"

definition dict_values :: "('k, 'v) dict \<Rightarrow> 'v list" where
  "dict_values d = map snd d"

definition dict_keys :: "('k, 'v) dict \<Rightarrow> 'k list" where
  "dict_keys d = map fst d"

definition dict_wf :: "('k, 'v) dict \<Rightarrow> bool" where
  "dict_wf d \<longleftrightarrow> distinct (map fst d)"

lemma dict_get_set [dict_simps, simp]:
  "dict_get (dict_set k v d) k' = (if k' = k then Some v else dict_get d k')"
  by (induction d) (auto simp: dict_get_def)

lemma map_of_dict_set [dict_simps, simp]: "map_of (dict_set k v d) = (map_of d)(k \<mapsto> v)"
  by (induction d) (auto simp: fun_eq_iff)

lemma dict_get_del [dict_simps, simp]:
  "dict_get (dict_del k d) k' = (if k' = k then None else dict_get d k')"
  by (induction d) (auto simp: dict_get_def dict_del_def)

lemma map_of_dict_del [dict_simps, simp]: "map_of (dict_del k d) = (map_of d)(k := None)"
  by (induction d) (auto simp: dict_del_def fun_eq_iff)

lemma dict_get_Nil [dict_simps, simp]: "dict_get [] k = None"
  by (simp add: dict_get_def)

lemma keys_dict_set [dict_simps, simp]:
  "map fst (dict_set k v d) = (if k \<in> fst ` set d then map fst d else map fst d @ [k])"
  by (induction d) auto

lemma set_keys_dict_set [simp]: "fst ` set (dict_set k v d) = insert k (fst ` set d)"
  by (induction d) auto

lemma keys_dict_del [dict_simps, simp]:
  "map fst (dict_del k d) = filter (\<lambda>k'. k' \<noteq> k) (map fst d)"
  by (induction d) (auto simp: dict_del_def)

lemma set_keys_dict_del [simp]: "fst ` set (dict_del k d) = fst ` set d - {k}"
  by (auto simp: dict_del_def)

lemma set_dict_del [simp]: "set (dict_del k d) = {p \<in> set d. fst p \<noteq> k}"
  by (auto simp: dict_del_def)

lemma dict_wf_Nil [inv_intros, simp]: "dict_wf []"
  by (simp add: dict_wf_def)

lemma dict_wf_set [inv_intros, simp]: "dict_wf d \<Longrightarrow> dict_wf (dict_set k v d)"
  by (auto simp: dict_wf_def)

lemma dict_wf_del [inv_intros, simp]: "dict_wf d \<Longrightarrow> dict_wf (dict_del k d)"
  by (auto simp: dict_wf_def)

lemma dict_wf_filter [inv_intros, simp]: "dict_wf d \<Longrightarrow> dict_wf (filter P d)"
  by (auto simp: dict_wf_def distinct_map_filter)

lemma dict_get_None_iff: "dict_get d k = None \<longleftrightarrow> k \<notin> fst ` set d"
  by (simp add: dict_get_def map_of_eq_None_iff)

lemma dict_has_iff [simp]: "dict_has d k \<longleftrightarrow> dict_get d k \<noteq> None"
  by (simp add: dict_has_def dict_get_None_iff)

lemma dict_get_in_set: "dict_wf d \<Longrightarrow> dict_get d k = Some v \<longleftrightarrow> (k, v) \<in> set d"
  by (simp add: dict_wf_def dict_get_def)

lemma dict_get_SomeD: "dict_get d k = Some v \<Longrightarrow> (k, v) \<in> set d"
  by (simp add: dict_get_def map_of_SomeD)

lemma length_dict_set:
  "length (dict_set k v d) = (if k \<in> fst ` set d then length d else Suc (length d))"
  by (induction d) auto

lemma length_dict_set_le: "length (dict_set k v d) \<le> Suc (length d)"
  by (simp add: length_dict_set)

lemma length_dict_del_le: "length (dict_del k d) \<le> length d"
  by (simp add: dict_del_def)

lemma set_dict_setD: "(k', w) \<in> set (dict_set k v d) \<Longrightarrow> (k', w) = (k, v) \<or> (k', w) \<in> set d"
  by (induction d) (auto split: if_splits)

lemma set_dict_set: "dict_wf d \<Longrightarrow>
  set (dict_set k v d) = insert (k, v) {p \<in> set d. fst p \<noteq> k}"
  by (induction d) (force simp: dict_wf_def)+

lemma dict_get_filter:
  "dict_wf d \<Longrightarrow> dict_get (filter P d) k =
     (case dict_get d k of None \<Rightarrow> None | Some v \<Rightarrow> if P (k, v) then Some v else None)"
  by (induction d) (auto simp: dict_wf_def dict_get_def map_of_eq_None_iff split: option.splits)

lemma find_Some_split: "find Q xs = Some x \<longleftrightarrow> (\<exists>as bs. xs = as @ x # bs \<and> Q x \<and> (\<forall>a \<in> set as. \<not> Q a))"
proof (induction xs)
  case (Cons y ys)
  show ?case
  proof (cases "Q y")
    case True
    show ?thesis
    proof
      assume "find Q (y # ys) = Some x"
      with True show "\<exists>as bs. y # ys = as @ x # bs \<and> Q x \<and> (\<forall>a \<in> set as. \<not> Q a)"
        by (intro exI [of _ "[]"] exI [of _ ys]) auto
    next
      assume "\<exists>as bs. y # ys = as @ x # bs \<and> Q x \<and> (\<forall>a \<in> set as. \<not> Q a)"
      then obtain as bs where "y # ys = as @ x # bs" "\<forall>a \<in> set as. \<not> Q a" by blast
      with True show "find Q (y # ys) = Some x" by (cases as) auto
    qed
  next
    case False
    have "(\<exists>as bs. y # ys = as @ x # bs \<and> Q x \<and> (\<forall>a \<in> set as. \<not> Q a))
        \<longleftrightarrow> (\<exists>as bs. ys = as @ x # bs \<and> Q x \<and> (\<forall>a \<in> set as. \<not> Q a))"
    proof
      assume "\<exists>as bs. y # ys = as @ x # bs \<and> Q x \<and> (\<forall>a \<in> set as. \<not> Q a)"
      then obtain as bs where h: "y # ys = as @ x # bs" "Q x" "\<forall>a \<in> set as. \<not> Q a" by blast
      with False obtain as' where "as = y # as'" by (cases as) auto
      with h show "\<exists>as bs. ys = as @ x # bs \<and> Q x \<and> (\<forall>a \<in> set as. \<not> Q a)"
        by (intro exI [of _ as'] exI [of _ bs]) simp
    next
      assume "\<exists>as bs. ys = as @ x # bs \<and> Q x \<and> (\<forall>a \<in> set as. \<not> Q a)"
      then obtain as bs where "ys = as @ x # bs" "Q x" "\<forall>a \<in> set as. \<not> Q a" by blast
      with False show "\<exists>as bs. y # ys = as @ x # bs \<and> Q x \<and> (\<forall>a \<in> set as. \<not> Q a)"
        by (intro exI [of _ "y # as"] exI [of _ bs]) simp
    qed
    with False Cons.IH show ?thesis by simp
  qed
qed simp

section \<open>Ordered dictionaries as bounded caches\<close>

definition to_end :: "'k \<Rightarrow> 'v \<Rightarrow> ('k, 'v) dict \<Rightarrow> ('k, 'v) dict" where
  \<comment> \<open>write a key of an \<open>OrderedDict\<close> and \<open>move_to_end\<close>\<close>
  "to_end k v d = dict_del k d @ [(k, v)]"

definition trim_to :: "nat \<Rightarrow> 'a list \<Rightarrow> 'a list" where
  \<comment> \<open>\<open>while len(d) > n: d.popitem(last=False)\<close>\<close>
  "trim_to n d = drop (length d - n) d"

lemma set_to_end: "set (to_end k v d) = insert (k, v) {p \<in> set d. fst p \<noteq> k}"
  by (auto simp: to_end_def)

lemma dict_wf_to_end: "dict_wf d \<Longrightarrow> dict_wf (to_end k v d)"
  by (auto simp: to_end_def dict_wf_def dict_del_def distinct_map_filter)

lemma length_to_end: "dict_get d k = Some v \<Longrightarrow> length (to_end k w d) \<le> length d"
proof -
  assume "dict_get d k = Some v"
  then have "(k, v) \<in> set d" by (rule dict_get_SomeD)
  then have "length (filter (\<lambda>p. fst p \<noteq> k) d) < length d" by (intro length_filter_less) auto
  then show ?thesis by (simp add: to_end_def dict_del_def)
qed

lemma trim_to_props: "length (trim_to n d) \<le> n" "set (trim_to n d) \<subseteq> set d" "dict_wf d \<Longrightarrow> dict_wf (trim_to n d)"
  by (auto simp: trim_to_def dict_wf_def drop_map [symmetric] dest: in_set_dropD)

lemma get_to_end [simp]: "dict_get (to_end k v d) k' = (if k' = k then Some v else dict_get d k')"
  by (auto simp: to_end_def dict_get_def map_add_def split: option.split)

section \<open>Minimum, stable sorting, median\<close>

fun min_from :: "('a \<Rightarrow> 'b::linorder) \<Rightarrow> 'a \<Rightarrow> 'a list \<Rightarrow> 'a" where
  "min_from f m [] = m"
| "min_from f m (x # xs) = min_from f (if f x < f m then x else m) xs"

definition py_min :: "('a \<Rightarrow> 'b::linorder) \<Rightarrow> 'a list \<Rightarrow> 'a option" where
  "py_min f xs = (case xs of [] \<Rightarrow> None | x # ys \<Rightarrow> Some (min_from f x ys))"

lemma min_from_in: "min_from f m xs \<in> insert m (set xs)"
  by (induction xs arbitrary: m) (auto split: if_splits)

lemma min_from_le: "x \<in> insert m (set xs) \<Longrightarrow> f (min_from f m xs) \<le> f x"
proof (induction xs arbitrary: m x)
  case (Cons y ys)
  have "f (min_from f (if f y < f m then y else m) ys) \<le> f (if f y < f m then y else m)"
    by (rule Cons.IH) simp
  then have "f (min_from f (if f y < f m then y else m) ys) \<le> min (f y) (f m)"
    by (auto split: if_splits)
  with Cons show ?case by auto
qed simp

lemma py_min_None [simp]: "py_min f xs = None \<longleftrightarrow> xs = []"
  by (simp add: py_min_def split: list.splits)

lemma py_min_SomeD:
  assumes "py_min f xs = Some m"
  shows "m \<in> set xs" and "x \<in> set xs \<Longrightarrow> f m \<le> f x"
  using assms min_from_in [of f] min_from_le [of _ _ _ f]
  by (auto simp: py_min_def split: list.splits)

lemma sorted_sort_key_map [simp]: "sorted (map f (sort_key f xs))"
  by simp

lemma sort_key_sorted_wrt: "sorted_wrt (\<lambda>x y. f x \<le> f y) (sort_key f xs)"
  using sorted_sort_key [of f xs] by (simp add: sorted_map)

lemma take_sorted_wrt: "sorted_wrt P xs \<Longrightarrow> sorted_wrt P (take n xs)"
  by (metis append_take_drop_id sorted_wrt_append)

lemma sorted_wrt_take_drop:
  "sorted_wrt P xs \<Longrightarrow> x \<in> set (take n xs) \<Longrightarrow> y \<in> set (drop n xs) \<Longrightarrow> P x y"
  by (metis append_take_drop_id sorted_wrt_append)

definition py_median :: "pyfloat list \<Rightarrow> pyfloat option" where
  "py_median xs =
     (let s = sort xs; n = length s in
      if n = 0 then None
      else if odd n then Some (s ! (n div 2))
      else Some ((s ! (n div 2 - 1) + s ! (n div 2)) / 2))"

lemma py_median_None [simp]: "py_median xs = None \<longleftrightarrow> xs = []"
  unfolding py_median_def Let_def length_sort by (auto simp del: not_None_eq split: if_splits)

lemma py_median_bounds:
  assumes "py_median xs = Some m" and "\<And>x. x \<in> set xs \<Longrightarrow> a \<le> x \<and> x \<le> b"
  shows "a \<le> m \<and> m \<le> b"
proof -
  let ?s = "sort xs" and ?n = "length xs"
  from assms(1) have n: "?n \<noteq> 0" by (auto simp: py_median_def Let_def split: if_splits)
  have nth: "a \<le> ?s ! i \<and> ?s ! i \<le> b" if "i < ?n" for i
    using that assms(2) [of "?s ! i"] nth_mem [of i ?s] by simp
  have i1: "?n div 2 < ?n" and i2: "?n div 2 - 1 < ?n" using n by linarith+
  show ?thesis
    using assms(1) n nth [OF i1] nth [OF i2]
    by (auto simp: py_median_def Let_def field_simps split: if_splits)
qed

corollary py_median_pos:
  assumes "py_median xs = Some m" and "\<And>x. x \<in> set xs \<Longrightarrow> 0 < x"
  shows "0 < m"
proof -
  have ne: "xs \<noteq> []" using assms(1) by (auto simp: py_median_def)
  have "Min (set xs) \<le> m \<and> m \<le> Max (set xs)"
    by (rule py_median_bounds [OF assms(1)]) simp
  moreover have "0 < Min (set xs)" using ne assms(2) by simp
  ultimately show ?thesis by simp
qed

section \<open>Rounding\<close>

definition round_half_even :: "pyfloat \<Rightarrow> int" where
  "round_half_even x =
     (let f = \<lfloor>x\<rfloor>; d = x - of_int f in
      if d < 1/2 then f else if d > 1/2 then f + 1 else if even f then f else f + 1)"

definition py_round :: "nat \<Rightarrow> pyfloat \<Rightarrow> pyfloat" where
  "py_round n x = of_int (round_half_even (x * 10 ^ n)) / 10 ^ n"

lemma round_half_even_error: "\<bar>of_int (round_half_even x) - x\<bar> \<le> 1/2"
  unfolding round_half_even_def Let_def by (simp add: abs_le_iff)

lemma round_half_even_int [simp]: "round_half_even (of_int i) = i"
  by (simp add: round_half_even_def)

lemma round_half_even_mono: "x \<le> y \<Longrightarrow> round_half_even x \<le> round_half_even y"
proof -
  assume le: "x \<le> y"
  then have f: "\<lfloor>x\<rfloor> \<le> \<lfloor>y\<rfloor>" by (rule floor_mono)
  show ?thesis
  proof (cases "\<lfloor>x\<rfloor> = \<lfloor>y\<rfloor>")
    case True
    with le show ?thesis by (auto simp: round_half_even_def Let_def)
  next
    case False
    with f have "\<lfloor>x\<rfloor> + 1 \<le> \<lfloor>y\<rfloor>" by simp
    then show ?thesis by (auto simp: round_half_even_def Let_def)
  qed
qed

lemma py_round_error: "\<bar>py_round n x - x\<bar> \<le> 1 / (2 * 10 ^ n)"
proof -
  have "\<bar>of_int (round_half_even (x * 10 ^ n)) - x * 10 ^ n\<bar> / 10 ^ n \<le> (1/2) / (10::real) ^ n"
    by (rule divide_right_mono [OF round_half_even_error]) simp
  moreover have "py_round n x - x = (of_int (round_half_even (x * 10 ^ n)) - x * 10 ^ n) / 10 ^ n"
    by (simp add: py_round_def diff_divide_distrib)
  ultimately show ?thesis by simp
qed

lemma py_round_mono: "x \<le> y \<Longrightarrow> py_round n x \<le> py_round n y"
  by (simp add: py_round_def divide_right_mono round_half_even_mono)

lemma py_round_idem [simp]: "py_round n (py_round n x) = py_round n x"
  by (simp add: py_round_def)

lemma py_round_0 [simp]: "py_round n 0 = 0"
  using round_half_even_int [of 0] by (simp add: py_round_def)

section \<open>Lists\<close>

definition py_slice_to :: "int \<Rightarrow> 'a list \<Rightarrow> 'a list" where
  \<comment> \<open>\<open>xs[:k]\<close>, where a negative bound counts from the end\<close>
  "py_slice_to k xs = take (nat (if k < 0 then int (length xs) + k else k)) xs"

definition py_slice_from :: "int \<Rightarrow> 'a list \<Rightarrow> 'a list" where
  \<comment> \<open>\<open>xs[k:]\<close>\<close>
  "py_slice_from k xs = drop (nat (if k < 0 then int (length xs) + k else k)) xs"

lemma py_slice_append [simp]: "py_slice_to k xs @ py_slice_from k xs = xs"
  by (simp add: py_slice_to_def py_slice_from_def)

lemma py_slice_to_nonneg [simp]: "py_slice_to (int n) xs = take n xs"
  by (simp add: py_slice_to_def)

lemma length_py_slice_to_le: "0 \<le> k \<Longrightarrow> length (py_slice_to k xs) \<le> nat k"
  by (simp add: py_slice_to_def)

lemma set_py_slice_to: "set (py_slice_to k xs) \<subseteq> set xs"
  by (simp add: py_slice_to_def set_take_subset)

definition py_sum :: "pyfloat list \<Rightarrow> pyfloat" where
  "py_sum xs = foldl (+) 0 xs"

lemma py_sum_sum_list [simp]: "py_sum xs = sum_list xs"
proof -
  have "foldl (+) a xs = a + sum_list xs" for a :: pyfloat
    by (induction xs arbitrary: a) auto
  then show ?thesis by (simp add: py_sum_def)
qed

definition py_dedupe :: "'a list \<Rightarrow> 'a list" where
  \<comment> \<open>\<open>list(dict.fromkeys(xs))\<close>: the first occurrence of each element, in order\<close>
  "py_dedupe xs = foldl (\<lambda>acc x. if x \<in> set acc then acc else acc @ [x]) [] xs"

lemma py_dedupe_props: "distinct (py_dedupe xs) \<and> set (py_dedupe xs) = set xs"
proof -
  have "distinct acc \<Longrightarrow>
      distinct (foldl (\<lambda>acc x. if x \<in> set acc then acc else acc @ [x]) acc xs) \<and>
      set (foldl (\<lambda>acc x. if x \<in> set acc then acc else acc @ [x]) acc xs) = set acc \<union> set xs" for acc
    by (induction xs arbitrary: acc) auto
  from this [of "[]"] show ?thesis by (simp add: py_dedupe_def)
qed

lemma distinct_py_dedupe [simp]: "distinct (py_dedupe xs)"
  and set_py_dedupe [simp]: "set (py_dedupe xs) = set xs"
  using py_dedupe_props [of xs] by auto

lemma length_filter_mono:
  "(\<And>x. x \<in> set xs \<Longrightarrow> P x \<Longrightarrow> Q x) \<Longrightarrow> length (filter P xs) \<le> length (filter Q xs)"
  by (induction xs) (auto intro: le_SucI)

lemma length_filter_compl: "length (filter (\<lambda>x. \<not> P x) xs) + length (filter P xs) = length xs"
  by (induction xs) auto

lemma distinct_map_nth:
  assumes "distinct (map f xs)" and "distinct ks" and "set ks \<subseteq> {..<length xs}"
  shows "distinct (map f (map ((!) xs) ks))"
proof -
  have "f (xs ! i) = f (xs ! j) \<longleftrightarrow> i = j" if "i < length xs" "j < length xs" for i j
    using that nth_eq_iff_index_eq [OF assms(1), of i j] by simp
  with assms(2,3) show ?thesis by (auto simp: distinct_map inj_on_def)
qed

text \<open>\<open>sorted(xs, key=f)[:k]\<close>, the ranking step of several modules.\<close>

lemma ranked_slice:
  assumes "0 < k"
  shows "sorted (map f (py_slice_to k (sort_key f xs)))"
    and "set (py_slice_to k (sort_key f xs)) \<subseteq> set xs"
    and "distinct (map g xs) \<Longrightarrow> distinct (map g (py_slice_to k (sort_key f xs)))"
    and "int (length (py_slice_to k (sort_key f xs))) \<le> k"
    and "x \<in> set xs \<Longrightarrow> py_slice_to k (sort_key f xs) \<noteq> [] \<and> f (hd (py_slice_to k (sort_key f xs))) \<le> f x"
proof -
  let ?s = "sort_key f xs"
  have eq: "py_slice_to k ?s = take (nat k) ?s" using assms by (simp add: py_slice_to_def)
  show "sorted (map f (py_slice_to k ?s))"
    using take_sorted_wrt [OF sort_key_sorted_wrt [of f xs]] by (simp add: eq sorted_map)
  show "set (py_slice_to k ?s) \<subseteq> set xs" using set_take_subset [of "nat k" ?s] by (simp add: eq)
  show "distinct (map g (py_slice_to k ?s))" if "distinct (map g xs)"
  proof -
    have "distinct (map g ?s)" using that by (simp add: distinct_map)
    then show ?thesis by (simp add: eq take_map [symmetric] distinct_take)
  qed
  show "int (length (py_slice_to k ?s)) \<le> k" using assms by (simp add: eq)
  show "py_slice_to k ?s \<noteq> [] \<and> f (hd (py_slice_to k ?s)) \<le> f x" if "x \<in> set xs"
  proof -
    from that obtain y ys where y: "?s = y # ys" by (metis list.set_cases set_sort)
    have "x \<in> set ?s" using that by simp
    with y sort_key_sorted_wrt [of f xs] have "f y \<le> f x" by auto
    with assms y show ?thesis by (cases "nat k") (auto simp: py_slice_to_def)
  qed
qed

lemma enumerate_fst_lt: "(i, x) \<in> set (List.enumerate 0 xs) \<longleftrightarrow> i < length xs \<and> x = xs ! i"
  by (auto simp: in_set_enumerate_eq)

end
