(* ===== verification/PyStr.thy ===== *)
theory PyStr
  imports Prelude
begin

text \<open>
  Python strings and regular expressions, as far as the source uses them. A \<open>str\<close> is a list of
  characters; the model's characters are bytes, so \<open>lower\<close>, \<open>isdigit\<close>, \<open>\w\<close> and their kin are
  modelled on ASCII text (they leave other bytes alone), and \<open>length\<close> is Python's \<open>len\<close> on ASCII.

  The second half is an executable backtracking matcher for the \<open>re\<close> patterns of the source:
  \<open>rx_run r s\<close> lists the ways to match \<open>r\<close> at a position in the order in which \<open>re\<close> tries them
  (greedy and lazy stars, ordered alternatives, word boundaries, one capture group), and
  \<open>rx_search\<close>, \<open>rx_findall\<close> and \<open>rx_sub\<close> are \<open>re.search\<close>, \<open>re.findall\<close> and \<open>re.sub\<close>.
\<close>

section \<open>Characters\<close>

definition ord :: "char \<Rightarrow> nat" where "ord c = of_char c"

definition is_digit :: "char \<Rightarrow> bool" where "is_digit c \<longleftrightarrow> 48 \<le> ord c \<and> ord c \<le> 57"
definition is_upper :: "char \<Rightarrow> bool" where "is_upper c \<longleftrightarrow> 65 \<le> ord c \<and> ord c \<le> 90"
definition is_lower :: "char \<Rightarrow> bool" where "is_lower c \<longleftrightarrow> 97 \<le> ord c \<and> ord c \<le> 122"
definition is_alpha :: "char \<Rightarrow> bool" where "is_alpha c \<longleftrightarrow> is_upper c \<or> is_lower c"
definition is_word :: "char \<Rightarrow> bool" where "is_word c \<longleftrightarrow> is_alpha c \<or> is_digit c \<or> ord c = 95"
definition is_space :: "char \<Rightarrow> bool" where
  "is_space c \<longleftrightarrow> 9 \<le> ord c \<and> ord c \<le> 13 \<or> 28 \<le> ord c \<and> ord c \<le> 32"

definition lower_char :: "char \<Rightarrow> char" where
  "lower_char c = (if is_upper c then char_of (ord c + 32) else c)"

definition upper_char :: "char \<Rightarrow> char" where
  "upper_char c = (if is_lower c then char_of (ord c - 32) else c)"

lemmas char_defs = is_digit_def is_upper_def is_lower_def is_alpha_def is_word_def is_space_def ord_def

lemma ord_less: "ord c < 256"
  using of_char_mod_256 [of c, where 'a = nat] by (metis mod_less_divisor ord_def zero_less_numeral)

lemma lower_char_idem [simp]: "lower_char (lower_char c) = lower_char c"
proof (cases "is_upper c")
  case True
  then have "\<not> is_upper (char_of (ord c + 32))"
    by (simp add: char_defs)
  with True show ?thesis by (simp add: lower_char_def)
qed (simp add: lower_char_def)

lemma not_upper_lower_char [simp]: "\<not> is_upper (lower_char c)"
  by (cases "is_upper c") (auto simp: lower_char_def char_defs)

lemma lower_char_digit [simp]: "is_digit (lower_char c) \<longleftrightarrow> is_digit c"
  by (cases "is_upper c") (auto simp: lower_char_def char_defs)

section \<open>Strings\<close>

definition py_len :: "string \<Rightarrow> nat" where
  \<comment> \<open>the characters of a UTF-8 text: the bytes that do not continue one\<close>
  "py_len s = length (filter (\<lambda>c. ord c div 64 \<noteq> 2) s)"

definition py_lower :: "string \<Rightarrow> string" where "py_lower s = map lower_char s"
definition py_upper :: "string \<Rightarrow> string" where "py_upper s = map upper_char s"

definition py_lstrip :: "string \<Rightarrow> string" where "py_lstrip s = dropWhile is_space s"
definition py_strip :: "string \<Rightarrow> string" where
  "py_strip s = rev (dropWhile is_space (rev (dropWhile is_space s)))"
definition py_strip_chars :: "string \<Rightarrow> string \<Rightarrow> string" where
  "py_strip_chars cs s =
     rev (dropWhile (\<lambda>c. c \<in> set cs) (rev (dropWhile (\<lambda>c. c \<in> set cs) s)))"

definition py_startswith :: "string \<Rightarrow> string \<Rightarrow> bool" where "py_startswith s p \<longleftrightarrow> prefix p s"
definition py_endswith :: "string \<Rightarrow> string \<Rightarrow> bool" where "py_endswith s p \<longleftrightarrow> suffix p s"

fun py_in :: "string \<Rightarrow> string \<Rightarrow> bool" where
  \<comment> \<open>\<open>p in s\<close>\<close>
  "py_in p [] \<longleftrightarrow> p = []"
| "py_in p (c # s) \<longleftrightarrow> prefix p (c # s) \<or> py_in p s"

fun py_split_on :: "char \<Rightarrow> string \<Rightarrow> string list" where
  \<comment> \<open>\<open>s.split(c)\<close>\<close>
  "py_split_on d [] = [[]]"
| "py_split_on d (c # s) =
     (if c = d then [] # py_split_on d s
      else case py_split_on d s of [] \<Rightarrow> [[c]] | w # ws \<Rightarrow> (c # w) # ws)"

definition py_before :: "char \<Rightarrow> string \<Rightarrow> string" where
  \<comment> \<open>\<open>s.split(c, 1)[0]\<close>\<close>
  "py_before d s = takeWhile (\<lambda>c. c \<noteq> d) s"

definition py_after :: "char \<Rightarrow> string \<Rightarrow> string" where
  \<comment> \<open>\<open>s.split(c, 1)[1]\<close>, for a string that holds \<open>c\<close>\<close>
  "py_after d s = drop 1 (dropWhile (\<lambda>c. c \<noteq> d) s)"

fun py_words_acc :: "string \<Rightarrow> string \<Rightarrow> string list" where
  "py_words_acc acc [] = (if acc = [] then [] else [acc])"
| "py_words_acc acc (c # s) =
     (if is_space c then (if acc = [] then py_words_acc [] s else acc # py_words_acc [] s)
      else py_words_acc (acc @ [c]) s)"

definition py_words :: "string \<Rightarrow> string list" where
  \<comment> \<open>\<open>s.split()\<close>: the maximal runs of non-space characters\<close>
  "py_words s = py_words_acc [] s"

fun py_join :: "string \<Rightarrow> string list \<Rightarrow> string" where
  "py_join sep [] = []"
| "py_join sep [w] = w"
| "py_join sep (w # v # ws) = w @ sep @ py_join sep (v # ws)"

lemma py_in_iff_sublist: "py_in p s \<longleftrightarrow> sublist p s"
  by (induction s) (auto simp: sublist_Cons_right)

lemma py_lower_idem [simp]: "py_lower (py_lower s) = py_lower s"
  by (simp add: py_lower_def)

lemma py_lower_append [simp]: "py_lower (s @ t) = py_lower s @ py_lower t"
  by (simp add: py_lower_def)

lemma length_py_lower [simp]: "length (py_lower s) = length s"
  by (simp add: py_lower_def)

lemma py_before_append [simp]: "d \<notin> set s \<Longrightarrow> py_before d (s @ d # t) = s"
  by (simp add: py_before_def takeWhile_append)

lemma py_before_id [simp]: "d \<notin> set s \<Longrightarrow> py_before d s = s"
  by (auto simp: py_before_def takeWhile_eq_all_conv)

lemma py_after_append [simp]: "d \<notin> set s \<Longrightarrow> py_after d (s @ d # t) = t"
  by (simp add: py_after_def dropWhile_append)

lemma py_split_on_join: "py_split_on d s \<noteq> [] \<and> concat (map (\<lambda>w. w @ [d]) (py_split_on d s)) = s @ [d]"
  by (induction s) (auto split: list.splits)

lemma py_split_on_nonempty [simp]: "py_split_on d s \<noteq> []"
  using py_split_on_join by blast

lemma py_split_on_no_sep: "w \<in> set (py_split_on d s) \<Longrightarrow> d \<notin> set w"
  by (induction s arbitrary: w) (auto split: if_splits list.splits)

lemma dropWhile_rev_dropWhile_ends:
  "dropWhile P s = s \<Longrightarrow> dropWhile P (rev (dropWhile P (rev s))) = rev (dropWhile P (rev s))"
proof (induction s rule: rev_induct)
  case (snoc x xs)
  show ?case
  proof (cases "P x")
    case True
    have "dropWhile P xs = xs"
      using snoc.prems by (cases xs) (auto simp: dropWhile_append split: if_splits)
    with True snoc.IH show ?thesis by simp
  qed (use snoc.prems in simp)
qed simp

lemma py_strip_idem [simp]: "py_strip (py_strip s) = py_strip s"
  unfolding py_strip_def
  using dropWhile_rev_dropWhile_ends [of is_space "dropWhile is_space s"]
  by (simp add: dropWhile_idem)

section \<open>Decimal numbers\<close>

fun nat_digits :: "nat \<Rightarrow> string" where
  "nat_digits n = (if n < 10 then [char_of (48 + n)]
                   else nat_digits (n div 10) @ [char_of (48 + n mod 10)])"

declare nat_digits.simps [simp del]

definition int_str :: "int \<Rightarrow> string" where
  \<comment> \<open>\<open>str(i)\<close>\<close>
  "int_str i = (if i < 0 then ''-'' @ nat_digits (nat (- i)) else nat_digits (nat i))"

definition pad_left :: "nat \<Rightarrow> string \<Rightarrow> string" where
  "pad_left n s = replicate (n - length s) (CHR ''0'') @ s"

definition fmt_fixed :: "nat \<Rightarrow> pyfloat \<Rightarrow> string" where
  \<comment> \<open>\<open>f''{x:.nf}''\<close>: the sign, the integer part and, for \<open>n > 0\<close>, a point and \<open>n\<close> digits\<close>
  "fmt_fixed n x =
     (let i = round_half_even (x * 10 ^ n); m = nat \<bar>i\<bar> in
      (if i < 0 \<or> i = 0 \<and> x < 0 then ''-'' else '''') @ nat_digits (m div 10 ^ n) @
      (if n = 0 then '''' else ''.'' @ pad_left n (nat_digits (m mod 10 ^ n))))"

lemma is_digit_char_of [simp]: "d < 10 \<Longrightarrow> is_digit (char_of (48 + d :: nat))"
  by (simp add: char_defs)

lemma nat_digits_nonempty [simp]: "nat_digits n \<noteq> []"
  by (subst nat_digits.simps) simp

lemma nat_digits_digits: "c \<in> set (nat_digits n) \<Longrightarrow> is_digit c"
proof (induction n rule: nat_digits.induct)
  case (1 n)
  then show ?case by (subst (asm) (2) nat_digits.simps) (auto split: if_splits)
qed

lemma length_nat_digits: "n < 10 ^ k \<Longrightarrow> 0 < k \<Longrightarrow> length (nat_digits n) \<le> k"
proof (induction n arbitrary: k rule: nat_digits.induct)
  case (1 n)
  show ?case
  proof (cases "n < 10")
    case True
    with 1 show ?thesis by (subst nat_digits.simps) simp
  next
    case False
    then have k: "1 < k" using 1(2,3) by (cases "k = 1") auto
    then obtain j where j: "k = Suc j" "0 < j" by (cases k) auto
    with 1(2) have "n div 10 < 10 ^ j" by (simp add: less_mult_imp_div_less mult.commute)
    with False j 1(1) show ?thesis by (subst nat_digits.simps) simp
  qed
qed

fun digits_val :: "nat \<Rightarrow> string \<Rightarrow> nat" where
  "digits_val acc [] = acc"
| "digits_val acc (c # s) = digits_val (10 * acc + (ord c - 48)) s"

lemma digits_val_snoc: "digits_val acc (s @ [c]) = 10 * digits_val acc s + (ord c - 48)"
  by (induction s arbitrary: acc) auto

lemma digits_val_nat_digits [simp]: "digits_val 0 (nat_digits n) = n"
proof (induction n rule: nat_digits.induct)
  case (1 n)
  show ?case
    by (subst nat_digits.simps) (use 1 in \<open>auto simp: digits_val_snoc ord_def\<close>)
qed

section \<open>Regular expressions\<close>

datatype rx =
    Eps
  | Cls "char \<Rightarrow> bool"    \<comment> \<open>one character of a class\<close>
  | Bound                  \<comment> \<open>\<open>\b\<close>\<close>
  | AtEnd                  \<comment> \<open>\<open>$\<close>, and the end that \<open>re.fullmatch\<close> asks for\<close>
  | Cat rx rx
  | Alt rx rx              \<comment> \<open>the left one is tried first\<close>
  | Star rx                \<comment> \<open>greedy\<close>
  | Lazy rx                \<comment> \<open>\<open>*?\<close>\<close>
  | Grp rx                 \<comment> \<open>capture group 1\<close>

text \<open>A position: the character before it, the rest of the text, the text group 1 captured.\<close>

type_synonym rx_pos = "char option \<times> string \<times> string option"

fun rx_rest :: "rx_pos \<Rightarrow> string" where "rx_rest (pv, s, g) = s"

definition rx_word_at :: "char option \<Rightarrow> bool" where
  "rx_word_at c = (case c of None \<Rightarrow> False | Some x \<Rightarrow> is_word x)"

definition rx_head :: "string \<Rightarrow> char option" where
  "rx_head s = (case s of [] \<Rightarrow> None | c # _ \<Rightarrow> Some c)"

function (sequential) rx_run :: "rx \<Rightarrow> rx_pos \<Rightarrow> rx_pos list" where
  "rx_run Eps p = [p]"
| "rx_run (Cls P) (pv, [], g) = []"
| "rx_run (Cls P) (pv, c # s, g) = (if P c then [(Some c, s, g)] else [])"
| "rx_run Bound (pv, s, g) = (if rx_word_at pv \<noteq> rx_word_at (rx_head s) then [(pv, s, g)] else [])"
| "rx_run AtEnd (pv, s, g) = (if s = [] then [(pv, s, g)] else [])"
| "rx_run (Cat r1 r2) p = concat (map (\<lambda>q. rx_run r2 q) (rx_run r1 p))"
| "rx_run (Alt r1 r2) p = rx_run r1 p @ rx_run r2 p"
| "rx_run (Star r) p = concat (map (\<lambda>q. if length (rx_rest q) < length (rx_rest p)
     then rx_run (Star r) q else []) (rx_run r p)) @ [p]"
| "rx_run (Lazy r) p = p # concat (map (\<lambda>q. if length (rx_rest q) < length (rx_rest p)
     then rx_run (Lazy r) q else []) (rx_run r p))"
| "rx_run (Grp r) (pv, s, g) =
     map (\<lambda>(pv', s', g'). (pv', s', Some (take (length s - length s') s))) (rx_run r (pv, s, g))"
  by pat_completeness auto
termination
  by (relation "measures [\<lambda>(r, p). size r, \<lambda>(r, p). length (rx_rest p)]") auto

definition lit :: "char \<Rightarrow> rx" where "lit c = Cls (\<lambda>x. x = c)"
definition liti :: "char \<Rightarrow> rx" where "liti c = Cls (\<lambda>x. lower_char x = lower_char c)"
definition rdigit :: rx where "rdigit = Cls is_digit"
definition opt :: "rx \<Rightarrow> rx" where "opt r = Alt r Eps"
definition plus :: "rx \<Rightarrow> rx" where "plus r = Cat r (Star r)"
definition anych :: rx where "anych = Cls (\<lambda>c. ord c \<noteq> 10)"
definition seqs :: "rx list \<Rightarrow> rx" where "seqs rs = foldr Cat rs Eps"
definition alts :: "rx \<Rightarrow> rx list \<Rightarrow> rx" where "alts r rs = foldr (\<lambda>a b. Alt b a) (rev rs) r"
definition str :: "string \<Rightarrow> rx" where "str s = seqs (map lit s)"
definition stri :: "string \<Rightarrow> rx" where "stri s = seqs (map liti s)"
fun rep :: "nat \<Rightarrow> rx \<Rightarrow> rx" where "rep 0 r = Eps" | "rep (Suc n) r = Cat r (rep n r)"
fun rep_upto :: "nat \<Rightarrow> rx \<Rightarrow> rx" where
  \<comment> \<open>at most \<open>n\<close> times, as many as possible first\<close>
  "rep_upto 0 r = Eps" | "rep_upto (Suc n) r = opt (Cat r (rep_upto n r))"

definition rx_at :: "rx \<Rightarrow> char option \<Rightarrow> string \<Rightarrow> rx_pos option" where
  "rx_at r pv s = (case rx_run r (pv, s, None) of [] \<Rightarrow> None | q # _ \<Rightarrow> Some q)"

fun rx_search_from :: "rx \<Rightarrow> char option \<Rightarrow> string \<Rightarrow> (string \<times> rx_pos) option" where
  "rx_search_from r pv [] = map_option (Pair []) (rx_at r pv [])"
| "rx_search_from r pv (c # s) =
     (case rx_at r pv (c # s) of Some q \<Rightarrow> Some (c # s, q) | None \<Rightarrow> rx_search_from r (Some c) s)"

definition rx_found :: "rx \<Rightarrow> string \<Rightarrow> bool" where
  \<comment> \<open>\<open>re.search(r, s)\<close> is a match\<close>
  "rx_found r s \<longleftrightarrow> rx_search_from r None s \<noteq> None"

definition rx_group :: "rx \<Rightarrow> string \<Rightarrow> string option" where
  \<comment> \<open>\<open>re.search(r, s).group(1)\<close>, \<open>None\<close> when there is no match\<close>
  "rx_group r s = (case rx_search_from r None s of None \<Rightarrow> None | Some (_, _, _, g) \<Rightarrow> g)"

definition rx_text :: "rx \<Rightarrow> string \<Rightarrow> string option" where
  \<comment> \<open>\<open>re.search(r, s).group(0)\<close>\<close>
  "rx_text r s = (case rx_search_from r None s of None \<Rightarrow> None
     | Some (from, _, rest, _) \<Rightarrow> Some (take (length from - length rest) from))"

definition rx_fullmatch :: "rx \<Rightarrow> string \<Rightarrow> bool" where
  "rx_fullmatch r s \<longleftrightarrow> rx_at (Cat r AtEnd) None s \<noteq> None"

text \<open>\<open>findall\<close> and \<open>sub\<close> walk the text once; after a match they go on behind it.\<close>

function rx_matches :: "rx \<Rightarrow> char option \<Rightarrow> string \<Rightarrow> (string \<times> string option) list" where
  "rx_matches r pv [] = []"
| "rx_matches r pv (c # s) =
     (case rx_at r pv (c # s) of
        Some (pv', rest, g) \<Rightarrow>
          if length rest < length (c # s)
          then (take (length (c # s) - length rest) (c # s), g) # rx_matches r pv' rest
          else rx_matches r (Some c) s
      | None \<Rightarrow> rx_matches r (Some c) s)"
  by pat_completeness auto
termination
  by (relation "measure (\<lambda>(r, pv, s). length s)") auto

definition rx_findall :: "rx \<Rightarrow> string \<Rightarrow> string list" where
  \<comment> \<open>\<open>re.findall\<close> of a pattern with no group\<close>
  "rx_findall r s = map fst (rx_matches r None s)"

function rx_sub_from :: "rx \<Rightarrow> string \<Rightarrow> char option \<Rightarrow> string \<Rightarrow> string" where
  "rx_sub_from r w pv [] = []"
| "rx_sub_from r w pv (c # s) =
     (case rx_at r pv (c # s) of
        Some (pv', rest, g) \<Rightarrow>
          if length rest < length (c # s) then w @ rx_sub_from r w pv' rest
          else c # rx_sub_from r w (Some c) s
      | None \<Rightarrow> c # rx_sub_from r w (Some c) s)"
  by pat_completeness auto
termination
  by (relation "measure (\<lambda>(r, w, pv, s). length s)") auto

definition rx_sub :: "rx \<Rightarrow> string \<Rightarrow> string \<Rightarrow> string" where
  \<comment> \<open>\<open>re.sub(r, w, s)\<close> for a pattern that matches no empty text\<close>
  "rx_sub r w s = rx_sub_from r w None s"

lemmas rx_defs = lit_def liti_def rdigit_def opt_def plus_def anych_def seqs_def alts_def
  str_def stri_def rx_at_def rx_head_def rx_word_at_def

declare rx_run.simps(8) [simp del] rx_run.simps(9) [simp del]

lemma rx_run_suffix: "q \<in> set (rx_run r p) \<Longrightarrow> suffix (rx_rest q) (rx_rest p)"
proof (induction r p arbitrary: q rule: rx_run.induct)
  case (6 r1 r2 p)
  then obtain t where "t \<in> set (rx_run r1 p)" and "q \<in> set (rx_run r2 t)"
    by (auto simp del: split_paired_Ex)
  with 6 show ?case by (meson suffix_order.trans)
next
  case (8 r p)
  from 8(3) have "q = p \<or> (\<exists>t \<in> set (rx_run r p). length (rx_rest t) < length (rx_rest p) \<and>
      q \<in> set (rx_run (Star r) t))"
    unfolding rx_run.simps(8) [of r p]
    by (auto simp del: split_paired_Ex split_paired_All split: if_splits)
  with 8(1,2) show ?case by (metis suffix_order.order_refl suffix_order.trans)
next
  case (9 r p)
  from 9(3) have "q = p \<or> (\<exists>t \<in> set (rx_run r p). length (rx_rest t) < length (rx_rest p) \<and>
      q \<in> set (rx_run (Lazy r) t))"
    unfolding rx_run.simps(9) [of r p]
    by (auto simp del: split_paired_Ex split_paired_All split: if_splits)
  with 9(1,2) show ?case by (metis suffix_order.order_refl suffix_order.trans)
next
  case (10 r pv s g)
  then show ?case by fastforce
qed (auto split: if_splits simp: suffix_ConsI)

lemma rx_run_Star_nonempty [simp]: "rx_run (Star r) p \<noteq> []"
  by (subst rx_run.simps) simp

lemma rx_run_Star_Cls_Nil [simp]: "rx_run (Star (Cls P)) (pv, [], g) = [(pv, [], g)]"
  by (subst rx_run.simps) simp

lemma rx_run_Star_Cls_Cons [simp]:
  "rx_run (Star (Cls P)) (pv, c # s, g) =
     (if P c then rx_run (Star (Cls P)) (Some c, s, g) else []) @ [(pv, c # s, g)]"
  by (subst rx_run.simps) (simp del: rx_run.simps(8))

definition pos_after :: "char option \<Rightarrow> string \<Rightarrow> char option" where
  "pos_after pv s = (if s = [] then pv else Some (last s))"

lemma hd_rx_run_Star_Cls:
  "hd (rx_run (Star (Cls P)) (pv, s, g)) = (pos_after pv (takeWhile P s), dropWhile P s, g)"
  by (induction s arbitrary: pv) (auto simp: pos_after_def)

lemma hd_concat_map:
  "xs \<noteq> [] \<Longrightarrow> f (hd xs) \<noteq> [] \<Longrightarrow> hd (concat (map f xs)) = hd (f (hd xs))"
  by (cases xs) auto

end
