(* ===== verification/Json.thy ===== *)
theory Json
  imports PyStr
begin

text \<open>
  JSON values as \<open>json.loads\<close> returns them, and Python's view of them: truth value, \<open>.get\<close> on a
  dictionary, and the conversions the connectors use. An object is a dictionary in text order, a
  number is an exact real (an \<open>int\<close> is kept apart, because the code formats it differently).
\<close>

datatype json =
    JNull
  | JBool bool
  | JInt int
  | JNum pyfloat
  | JStr string
  | JArr "json list"
  | JObj "(string \<times> json) list"

fun j_truthy :: "json \<Rightarrow> bool" where
  \<comment> \<open>\<open>bool(v)\<close>\<close>
  "j_truthy JNull = False"
| "j_truthy (JBool b) = b"
| "j_truthy (JInt i) = (i \<noteq> 0)"
| "j_truthy (JNum x) = (x \<noteq> 0)"
| "j_truthy (JStr s) = (s \<noteq> [])"
| "j_truthy (JArr xs) = (xs \<noteq> [])"
| "j_truthy (JObj d) = (d \<noteq> [])"

fun j_get :: "string \<Rightarrow> json \<Rightarrow> json" where
  \<comment> \<open>\<open>v.get(k)\<close> on a dictionary, \<open>None\<close> where the key is absent\<close>
  "j_get k (JObj d) = (case map_of d k of None \<Rightarrow> JNull | Some v \<Rightarrow> v)"
| "j_get k _ = JNull"

definition j_or :: "json \<Rightarrow> json \<Rightarrow> json" where
  \<comment> \<open>\<open>a or b\<close>\<close>
  "j_or a b = (if j_truthy a then a else b)"

fun j_list :: "json \<Rightarrow> json list" where
  "j_list (JArr xs) = xs"
| "j_list _ = []"

fun is_obj :: "json \<Rightarrow> bool" where
  "is_obj (JObj d) = True"
| "is_obj _ = False"

lemma j_or_truthy [simp]: "j_truthy (j_or a b) \<longleftrightarrow> j_truthy a \<or> j_truthy b"
  by (simp add: j_or_def)

end
