(* ===== verification/Settings.thy ===== *)
theory Settings
  imports Json
begin

text \<open>
  \<open>dealfinder/settings.py\<close>: the environment as a dictionary, the production switch and the expansion
  of the one secret blob into environment variables. \<open>json.loads\<close> is the argument \<open>loads\<close>: \<open>None\<close>
  when the text is not JSON, else the value.
\<close>

type_synonym environ = "(string, string) dict"

fun as_strings :: "(string, json) dict \<Rightarrow> (string, string) dict option" where
  \<comment> \<open>\<open>all(isinstance(v, str) for v in blob.values())\<close>\<close>
  "as_strings [] = Some []"
| "as_strings ((k, JStr s) # d) = map_option (Cons (k, s)) (as_strings d)"
| "as_strings (_ # d) = None"

definition getenv :: "environ \<Rightarrow> string \<Rightarrow> string option" where
  "getenv env k = dict_get env k"

definition truthy :: "string option \<Rightarrow> bool" where
  "truthy v \<longleftrightarrow> (case v of None \<Rightarrow> False | Some s \<Rightarrow> s \<noteq> [])"

definition is_production :: "environ \<Rightarrow> bool" where
  "is_production env \<longleftrightarrow> getenv env ''DEALFINDER_ENV'' = Some ''production''"

definition setdefault :: "environ \<Rightarrow> string \<times> string \<Rightarrow> environ" where
  "setdefault env kv = (if dict_has env (fst kv) then env else dict_set (fst kv) (snd kv) env)"

definition SECRETS_ERROR :: string where
  "SECRETS_ERROR = ''DEALFINDER_SECRETS_JSON is not a JSON object''"

definition load_secrets :: "(string \<Rightarrow> json option) \<Rightarrow> environ \<Rightarrow> string + environ" where
  "load_secrets loads env =
     (case getenv env ''DEALFINDER_SECRETS_JSON'' of
        None \<Rightarrow> Inr env
      | Some raw \<Rightarrow>
          if raw = [] then Inr env
          else (case loads raw of
              Some (JObj blob) \<Rightarrow>
                (case as_strings blob of
                   Some kvs \<Rightarrow> Inr (foldl setdefault env kvs)
                 | None \<Rightarrow> Inl SECRETS_ERROR)
            | _ \<Rightarrow> Inl SECRETS_ERROR))"

lemma get_setdefault: "dict_get (setdefault env (k, v)) k' =
    (if k' = k \<and> dict_get env k = None then Some v else dict_get env k')"
  by (auto simp: setdefault_def simp del: not_None_eq)

lemma get_setdefaults: "dict_get (foldl setdefault env kvs) k =
    (case dict_get env k of Some v \<Rightarrow> Some v | None \<Rightarrow> map_of kvs k)"
proof (induction kvs arbitrary: env)
  case (Cons kv kvs)
  show ?case by (cases kv) (auto simp: Cons.IH get_setdefault split: option.split)
qed (simp split: option.split)

text \<open>Loading the secrets never overrides a variable that is set: either the environment after it
  agrees with the one before on every set variable and takes every other one from the blob's strings, or it fails, leaving
  the environment alone, with one fixed error text that holds no part of the blob.\<close>

theorem load_secrets_never_overrides:
  "case load_secrets loads env of
     Inl e \<Rightarrow> e = SECRETS_ERROR
   | Inr env' \<Rightarrow>
       (\<exists>kvs. (\<forall>k. dict_get env' k = (case dict_get env k of Some v \<Rightarrow> Some v | None \<Rightarrow> map_of kvs k))
          \<and> (truthy (getenv env ''DEALFINDER_SECRETS_JSON'') \<longrightarrow>
               (\<exists>raw blob. getenv env ''DEALFINDER_SECRETS_JSON'' = Some raw \<and> loads raw = Some (JObj blob)
                  \<and> as_strings blob = Some kvs)))"
proof (cases "load_secrets loads env")
  case (Inl e)
  then show ?thesis
    by (auto simp: load_secrets_def split: option.splits if_splits json.splits)
next
  case (Inr env')
  have none: "(case dict_get env k of Some v \<Rightarrow> Some v | None \<Rightarrow> map_of [] k) = dict_get env k" for k
    by (simp split: option.split)
  from Inr show ?thesis
    by (auto simp: load_secrets_def truthy_def get_setdefaults none
        split: option.splits if_splits json.splits intro!: exI [of _ "[]"])
qed

theorem load_secrets_never_overrides_witness:
  "case load_secrets (\<lambda>_. Some (JObj [(''A'', JStr ''2''), (''B'', JStr ''3'')]))
     [(''A'', ''1''), (''DEALFINDER_SECRETS_JSON'', ''{}'')] of
     Inl e \<Rightarrow> False
   | Inr env' \<Rightarrow> dict_get env' ''A'' = Some ''1''"
  using load_secrets_never_overrides [where loads = "\<lambda>_. Some (JObj [(''A'', JStr ''2''), (''B'', JStr ''3'')])"
      and env = "[(''A'', ''1''), (''DEALFINDER_SECRETS_JSON'', ''{}'')]"]
  by (auto simp: load_secrets_def getenv_def dict_get_def)

end
