(* ===== verification/Schema.thy ===== *)
theory Schema
  imports PyStr
begin

text \<open>
  \<open>dealfinder/schema.py\<close>: the normalized product row every connector produces, and
  \<open>dealfinder/ingest.py\<close> and \<open>dealfinder/store.py\<close>: the exact-key merge of the sources' rows
  and their persistence (a table keyed by product id). A date is its ordinal number.
\<close>

record price_point =
  pp_day :: int
  pp_price :: pyfloat

record product =
  p_id :: string
  title :: string
  brand :: "string option"
  category :: string
  price :: pyfloat
  currency :: string
  url :: string
  source :: string
  image_url :: "string option"
  sku :: "string option"
  regular_price :: "pyfloat option"
  marketplace :: "string option"
  condition :: string
  specs :: "(string, string) dict"
  price_history :: "price_point list"

text \<open>The constructor with the class's defaults: only the fields without one are arguments.\<close>

definition mk_product ::
  "string \<Rightarrow> string \<Rightarrow> string option \<Rightarrow> string \<Rightarrow> pyfloat \<Rightarrow> string \<Rightarrow> string \<Rightarrow> product" where
  "mk_product i t b c p u s =
     \<lparr>p_id = i, title = t, brand = b, category = c, price = p, currency = ''USD'', url = u,
      source = s, image_url = None, sku = None, regular_price = None, marketplace = None,
      condition = ''new'', specs = [], price_history = []\<rparr>"

section \<open>The exact-key merge\<close>

definition dedup_key :: "product \<Rightarrow> string" where
  "dedup_key p = py_lower (py_strip (case brand p of None \<Rightarrow> '''' | Some b \<Rightarrow> b)) @ ''|'' @
     py_lower (py_strip (title p))"

text \<open>One pass of the loop body shared by \<open>ingest\<close> and \<open>aggregate\<close>.\<close>

definition keep_cheapest :: "(string, product) dict \<Rightarrow> product \<Rightarrow> (string, product) dict" where
  "keep_cheapest best p =
     (let k = dedup_key p in
      case dict_get best k of
        None \<Rightarrow> dict_set k p best
      | Some q \<Rightarrow> if price p < price q then dict_set k p best else best)"

definition cheapest_by_key :: "product list \<Rightarrow> (string, product) dict" where
  "cheapest_by_key ps = foldl keep_cheapest [] ps"

definition ingest :: "product list list \<Rightarrow> product list" where
  "ingest sources = dict_values (foldl (\<lambda>best src. foldl keep_cheapest best src) [] sources)"

lemma foldl_concat: "foldl (\<lambda>b xs. foldl f b xs) a xss = foldl f a (concat xss)"
  by (induction xss arbitrary: a) auto

lemma ingest_concat: "ingest srcs = dict_values (cheapest_by_key (concat srcs))"
  by (simp add: ingest_def cheapest_by_key_def foldl_concat)

text \<open>What the merged dictionary promises about the rows seen so far.\<close>

definition merged :: "(string, product) dict \<Rightarrow> product list \<Rightarrow> bool" where
  "merged best ps \<longleftrightarrow> dict_wf best
     \<and> (\<forall>(k, p) \<in> set best. p \<in> set ps \<and> dedup_key p = k)
     \<and> (\<forall>p \<in> set ps. \<exists>q. dict_get best (dedup_key p) = Some q \<and> price q \<le> price p)"

lemma merged_Nil [inv_intros]: "merged [] []"
  by (simp add: merged_def)

lemma merged_step [inv_intros]:
  assumes "merged best ps"
  shows "merged (keep_cheapest best p) (ps @ [p])"
proof -
  have wf: "dict_wf best" and keys: "\<And>k q. (k, q) \<in> set best \<Longrightarrow> q \<in> set ps \<and> dedup_key q = k"
    and cov: "\<And>x. x \<in> set ps \<Longrightarrow> \<exists>q. dict_get best (dedup_key x) = Some q \<and> price q \<le> price x"
    using assms by (auto simp: merged_def)
  show ?thesis
  proof (cases "\<exists>q. dict_get best (dedup_key p) = Some q \<and> price q \<le> price p")
    case True
    then have "keep_cheapest best p = best" by (auto simp: keep_cheapest_def Let_def)
    with True wf keys cov show ?thesis unfolding merged_def by fastforce
  next
    case False
    then have step: "keep_cheapest best p = dict_set (dedup_key p) p best"
      by (auto simp: keep_cheapest_def Let_def split: option.splits)
    have "\<exists>q. dict_get (dict_set (dedup_key p) p best) (dedup_key x) = Some q \<and> price q \<le> price x"
      if "x \<in> set (ps @ [p])" for x
      using that cov [of x] False by fastforce
    with wf keys step show ?thesis
      unfolding merged_def by (fastforce dest: set_dict_setD)
  qed
qed

lemma merged_foldl: "merged best ps \<Longrightarrow> merged (foldl keep_cheapest best qs) (ps @ qs)"
proof (induction qs arbitrary: best ps)
  case (Cons q qs)
  from Cons.IH [OF merged_step [OF Cons.prems]] show ?case by simp
qed simp

lemma merged_cheapest_by_key: "merged (cheapest_by_key ps) ps"
  using merged_foldl [OF merged_Nil] by (simp add: cheapest_by_key_def)

lemma merged_values:
  assumes "merged best ps"
  shows "distinct (map dedup_key (dict_values best))"
    and "set (dict_values best) \<subseteq> set ps"
    and "p \<in> set ps \<Longrightarrow> \<exists>q \<in> set (dict_values best). dedup_key q = dedup_key p \<and> price q \<le> price p"
proof -
  have "map dedup_key (dict_values best) = map fst best"
    using assms by (auto simp: merged_def dict_values_def)
  then show "distinct (map dedup_key (dict_values best))"
    using assms by (simp add: merged_def dict_wf_def)
  show "set (dict_values best) \<subseteq> set ps"
    using assms by (auto simp: merged_def dict_values_def)
  show "\<exists>q \<in> set (dict_values best). dedup_key q = dedup_key p \<and> price q \<le> price p"
    if "p \<in> set ps"
  proof -
    from that assms obtain q where q: "dict_get best (dedup_key p) = Some q" "price q \<le> price p"
      unfolding merged_def by blast
    from dict_get_SomeD [OF q(1)] assms have "dedup_key q = dedup_key p" "q \<in> set (dict_values best)"
      by (force simp: merged_def dict_values_def)+
    with q(2) show ?thesis by blast
  qed
qed

section \<open>The SQLite store\<close>

text \<open>
  \<open>INSERT OR REPLACE\<close> by primary key; \<open>total_changes\<close> counts one change per row written. The
  JSON payload is the product itself (pydantic's dump and load are inverse to each other).
\<close>

definition save :: "product list \<Rightarrow> (string, product) dict \<Rightarrow> (string, product) dict \<times> nat" where
  "save ps table = (foldl (\<lambda>t p. dict_set (p_id p) p (dict_del (p_id p) t)) table ps, length ps)"

definition load :: "(string, product) dict \<Rightarrow> product list" where
  "load table = dict_values table"

lemma dict_del_absent: "k \<notin> fst ` set d \<Longrightarrow> dict_del k d = d"
  by (force simp: dict_del_def filter_id_conv)

lemma dict_set_absent: "k \<notin> fst ` set d \<Longrightarrow> dict_set k v d = d @ [(k, v)]"
  by (induction d) auto

lemma save_fresh:
  assumes "distinct (map fst table @ map p_id ps)"
  shows "fst (save ps table) = table @ map (\<lambda>p. (p_id p, p)) ps"
proof -
  have "distinct (map fst table @ map p_id ps) \<Longrightarrow>
      foldl (\<lambda>t p. dict_set (p_id p) p (dict_del (p_id p) t)) table ps
        = table @ map (\<lambda>p. (p_id p, p)) ps"
  proof (induction ps arbitrary: table)
    case (Cons p ps)
    then have "p_id p \<notin> fst ` set table" by force
    with Cons.prems Cons.IH [of "table @ [(p_id p, p)]"] show ?case
      by (simp add: dict_del_absent dict_set_absent)
  qed simp
  with assms show ?thesis by (simp add: save_def)
qed

text \<open>The exact-key merge of the sources' rows. The result has one row per key (trimmed lower-case brand
  and title), every row comes from a source, and for every row of a source the result holds a row of
  the same key that is at most as dear.\<close>

theorem ingest_cheapest_per_key:
  "distinct (map dedup_key (ingest srcs))
   \<and> set (ingest srcs) \<subseteq> \<Union> (set ` set srcs)
   \<and> dedup_key ` set (ingest srcs) = dedup_key ` \<Union> (set ` set srcs)
   \<and> {p \<in> \<Union> (set ` set srcs). \<exists>q \<in> set (ingest srcs). dedup_key q = dedup_key p \<and> price p < price q} = {}"
proof -
  define U where "U = \<Union> (set ` set srcs)"
  have U: "set (concat srcs) = U" by (simp add: U_def)
  note m = merged_values [OF merged_cheapest_by_key [of "concat srcs"], folded ingest_concat, unfolded U]
  have uniq: "q = q'" if "q \<in> set (ingest srcs)" "q' \<in> set (ingest srcs)" "dedup_key q = dedup_key q'" for q q'
    using m(1) that by (simp add: distinct_map inj_on_def)
  have keys: "dedup_key ` U \<subseteq> dedup_key ` set (ingest srcs)"
  proof (rule image_subsetI)
    fix p assume "p \<in> U"
    from m(3) [OF this] show "dedup_key p \<in> dedup_key ` set (ingest srcs)" by (metis imageI)
  qed
  have "\<not> price p < price q"
    if p: "p \<in> U" and q: "q \<in> set (ingest srcs)" "dedup_key q = dedup_key p" for p q
  proof -
    obtain q' where "q' \<in> set (ingest srcs)" "dedup_key q' = dedup_key p" "price q' \<le> price p"
      using m(3) [OF p] by blast
    with uniq [OF q(1)] q(2) show ?thesis by force
  qed
  with m(1,2) keys show ?thesis unfolding U_def [symmetric] by blast
qed

end
