(* ===== verification/Deal_Score.thy ===== *)
theory Deal_Score
  imports PyStr
begin

text \<open>
  \<open>dealfinder/deal.py\<close> and \<open>dealfinder/dealscore.py\<close>: the one-signal deal score, the two-signal
  verdict (cross-source median and model residual) and the badge of the web page. The model's
  fair price is an argument here; the linear model is in \<open>Search\<close>.
\<close>

section \<open>deal.py\<close>

definition deal_score :: "pyfloat \<Rightarrow> pyfloat \<Rightarrow> pyfloat" where
  "deal_score actual predicted = (predicted - actual) / predicted"

definition is_deal :: "pyfloat \<Rightarrow> pyfloat \<Rightarrow> pyfloat \<Rightarrow> bool" where
  "is_deal actual predicted threshold \<longleftrightarrow> deal_score actual predicted \<ge> threshold"

section \<open>dealscore.py\<close>

definition SUSPICIOUS_RESIDUAL_FRAC :: pyfloat where "SUSPICIOUS_RESIDUAL_FRAC = 0.70"
definition DEAL_MEDIAN_FRAC :: pyfloat where "DEAL_MEDIAN_FRAC = 0.15"

lemmas thresholds = SUSPICIOUS_RESIDUAL_FRAC_def DEAL_MEDIAN_FRAC_def

definition median_signal :: "pyfloat \<Rightarrow> pyfloat \<Rightarrow> pyfloat" where
  "median_signal actual median = (if median \<le> 0 then 0 else (median - actual) / median)"

definition residual :: "pyfloat \<Rightarrow> pyfloat \<Rightarrow> pyfloat" where
  "residual actual fair = fair - actual"

definition residual_fraction :: "pyfloat \<Rightarrow> pyfloat \<Rightarrow> pyfloat" where
  "residual_fraction actual fair = (if fair \<le> 0 then 0 else (fair - actual) / fair)"

datatype label = Deal | Fair | Suspicious | Overpriced

fun label_str :: "label \<Rightarrow> string" where
  "label_str Deal = ''deal''"
| "label_str Fair = ''fair''"
| "label_str Suspicious = ''suspicious''"
| "label_str Overpriced = ''overpriced''"

definition em_dash :: string where "em_dash = map char_of [226, 128, 148 :: nat]"

record verdict_rec =
  v_label :: label
  v_median_signal :: pyfloat
  v_fair_price :: pyfloat
  v_residual_frac :: pyfloat
  v_reason :: string

definition verdict_with :: "pyfloat \<Rightarrow> pyfloat \<Rightarrow> pyfloat \<Rightarrow> pyfloat \<Rightarrow> pyfloat \<Rightarrow> verdict_rec" where
  "verdict_with deal_frac susp_frac actual median fair =
     (let m = median_signal actual median; rf = residual_fraction actual fair in
      if m \<ge> deal_frac \<and> rf \<ge> susp_frac then
        \<lparr>v_label = Suspicious, v_median_signal = m, v_fair_price = fair, v_residual_frac = rf,
         v_reason = fmt_fixed 0 (m * 100) @ ''% under median but '' @ fmt_fixed 0 (rf * 100) @
           ''% under model fair price $'' @ fmt_fixed 0 fair @ '' '' @ em_dash @
           '' too far below to be real (likely refurb/mislisted).''\<rparr>
      else if m \<ge> deal_frac then
        \<lparr>v_label = Deal, v_median_signal = m, v_fair_price = fair, v_residual_frac = rf,
         v_reason = fmt_fixed 0 (m * 100) @ ''% under the $'' @ fmt_fixed 2 median @
           '' median and consistent with the model's $'' @ fmt_fixed 0 fair @ '' fair price '' @
           em_dash @ '' a genuine value pick.''\<rparr>
      else if m < 0 then
        \<lparr>v_label = Overpriced, v_median_signal = m, v_fair_price = fair, v_residual_frac = rf,
         v_reason = fmt_fixed 0 (- m * 100) @ ''% above the market median.''\<rparr>
      else
        \<lparr>v_label = Fair, v_median_signal = m, v_fair_price = fair, v_residual_frac = rf,
         v_reason = ''priced near the market median.''\<rparr>)"

definition verdict :: "pyfloat \<Rightarrow> pyfloat \<Rightarrow> pyfloat \<Rightarrow> verdict_rec" where
  "verdict = verdict_with DEAL_MEDIAN_FRAC SUSPICIOUS_RESIDUAL_FRAC"

definition render_badge :: "pyfloat \<Rightarrow> pyfloat \<Rightarrow> string" where
  "render_badge deal_pct residual_frac =
     (if deal_pct \<ge> DEAL_MEDIAN_FRAC \<and> residual_frac \<ge> SUSPICIOUS_RESIDUAL_FRAC then ''SUSPICIOUS''
      else if deal_pct \<ge> DEAL_MEDIAN_FRAC then ''DEAL''
      else if deal_pct < 0 then ''OVERPRICED''
      else ''FAIR'')"

definition verdict_of :: "pyfloat \<Rightarrow> pyfloat \<Rightarrow> label" where
  \<comment> \<open>the label behind \<open>render_badge(m, rf).lower()\<close>\<close>
  "verdict_of m rf =
     (if m \<ge> DEAL_MEDIAN_FRAC \<and> rf \<ge> SUSPICIOUS_RESIDUAL_FRAC then Suspicious
      else if m \<ge> DEAL_MEDIAN_FRAC then Deal else if m < 0 then Overpriced else Fair)"

lemma upper_label_str [simp]:
  "py_upper (label_str Deal) = ''DEAL''" "py_upper (label_str Fair) = ''FAIR''"
  "py_upper (label_str Suspicious) = ''SUSPICIOUS''" "py_upper (label_str Overpriced) = ''OVERPRICED''"
  by code_simp+

lemma label_str_inj [simp]: "label_str a = label_str b \<longleftrightarrow> a = b"
  by (cases a; cases b) auto

lemma v_label_verdict: "v_label (verdict a m f) = verdict_of (median_signal a m) (residual_fraction a f)"
  by (simp add: verdict_def verdict_with_def verdict_of_def Let_def)

lemma verdict_signals [simp]:
  "v_median_signal (verdict a m f) = median_signal a m"
  "v_residual_frac (verdict a m f) = residual_fraction a f"
  "v_fair_price (verdict a m f) = f"
  by (simp_all add: verdict_def verdict_with_def Let_def)

lemma render_badge_verdict_of: "render_badge m rf = py_upper (label_str (verdict_of m rf))"
  by (simp add: render_badge_def verdict_of_def del: label_str.simps)

lemma median_signal_ge: "0 < c \<Longrightarrow> median_signal a m \<ge> c \<longleftrightarrow> 0 < m \<and> a \<le> (1 - c) * m"
  by (auto simp: median_signal_def field_simps)

lemma median_signal_neg: "median_signal a m < 0 \<longleftrightarrow> 0 < m \<and> m < a"
  by (auto simp: median_signal_def field_simps)

lemma residual_fraction_ge: "0 < c \<Longrightarrow> residual_fraction a f \<ge> c \<longleftrightarrow> 0 < f \<and> a \<le> (1 - c) * f"
  by (auto simp: residual_fraction_def field_simps)

lemma verdict_of_iff:
  "verdict_of m rf = Suspicious \<longleftrightarrow> 0.15 \<le> m \<and> 0.70 \<le> rf"
  "verdict_of m rf = Deal \<longleftrightarrow> 0.15 \<le> m \<and> rf < 0.70"
  "verdict_of m rf = Overpriced \<longleftrightarrow> m < 0"
  "verdict_of m rf = Fair \<longleftrightarrow> 0 \<le> m \<and> m < 0.15"
  by (auto simp: verdict_of_def thresholds)

text \<open>The order of \<open>dataset.LABELS\<close>: deal, fair, suspicious, overpriced.\<close>

fun label_code :: "label \<Rightarrow> nat" where
  "label_code Deal = 0" | "label_code Fair = 1" | "label_code Suspicious = 2" | "label_code Overpriced = 3"

instantiation label :: linorder
begin

definition "(x :: label) \<le> y \<longleftrightarrow> label_code x \<le> label_code y"
definition "(x :: label) < y \<longleftrightarrow> label_code x < label_code y"

instance
proof
  show "x = y" if "x \<le> y" "y \<le> x" for x y :: label
    using that by (cases x; cases y) (auto simp: less_eq_label_def)
qed (auto simp: less_eq_label_def less_label_def)

end

text \<open>C40: The two-signal verdict in terms of prices. At least 15 percent under the median is a deal, unless the
  price is also at most 30 percent of the model's fair price, which is suspicious; above the median
  is overpriced; everything else is fair. The badge shows the same label in upper case.\<close>

theorem verdict_by_price:
  "v_label (verdict actual median fair) =
     (if 0 < median \<and> actual \<le> 0.85 * median
      then if 0 < fair \<and> actual \<le> 0.3 * fair then Suspicious else Deal
      else if 0 < median \<and> median < actual then Overpriced else Fair)
   \<and> render_badge (median_signal actual median) (residual_fraction actual fair)
     = py_upper (label_str (v_label (verdict actual median fair)))"
proof -
  have "0.15 \<le> median_signal actual median \<longleftrightarrow> 0 < median \<and> actual \<le> 0.85 * median"
    using median_signal_ge [of "0.15" actual median] by simp
  moreover have "0.70 \<le> residual_fraction actual fair \<longleftrightarrow> 0 < fair \<and> actual \<le> 0.3 * fair"
    using residual_fraction_ge [of "0.70" actual fair] by simp
  ultimately show ?thesis
    by (simp add: v_label_verdict render_badge_verdict_of verdict_of_def thresholds median_signal_neg
        del: label_str.simps)
qed

end
