(* ===== verification/Licensing.thy ===== *)
theory Licensing
  imports PyStr
begin

text \<open>
  \<open>dealfinder/licensing.py\<close>: what each store's terms allow, keyed by the text before the first
  colon of a row's source. The rules are asked by the scorer, the store, the stream and the
  retention job, so the interface they rely on is the locale \<open>license\<close>: a permission of a row
  holds only under a policy that grants it, and a source with no policy is denied everything.
\<close>

record attribution =
  at_source :: string
  at_text :: string
  at_url :: string
  at_logo :: string

record source_policy =
  sp_key :: string
  verdicts :: bool
  store :: bool
  embed :: bool
  comingle :: bool
  max_age_s :: int
  launch :: bool
  attribution :: "attribution option"

definition BESTBUY_ATTRIBUTION :: attribution where
  "BESTBUY_ATTRIBUTION =
     \<lparr>at_source = ''BestBuy'', at_text = ''Prices and product data from Best Buy'',
      at_url = ''https://www.bestbuy.com'', at_logo = ''bestbuy''\<rparr>"

definition course :: "string \<Rightarrow> source_policy" where
  "course k = \<lparr>sp_key = k, verdicts = True, store = True, embed = True, comingle = True,
     max_age_s = 72 * 3600, launch = False, attribution = None\<rparr>"

definition course_keys :: "string list" where
  "course_keys = [''RapidAPI'', ''Apify'', ''Amazon'', ''Shopify'', ''Firecrawl'', ''iTunes'']"

definition POLICIES :: "(string, source_policy) dict" where
  "POLICIES =
     [(''BestBuy'', \<lparr>sp_key = ''BestBuy'', verdicts = True, store = True, embed = True,
        comingle = True, max_age_s = 72 * 3600, launch = True,
        attribution = Some BESTBUY_ATTRIBUTION\<rparr>),
      (''eBay'', \<lparr>sp_key = ''eBay'', verdicts = False, store = False, embed = False,
        comingle = False, max_age_s = 6 * 3600, launch = True, attribution = None\<rparr>)]
     @ map (\<lambda>k. (k, course k)) course_keys"

definition LAUNCH_SOURCES :: "string list" where
  "LAUNCH_SOURCES = map fst (filter (\<lambda>(k, p). launch p) POLICIES)"

definition source_key :: "string \<Rightarrow> string" where
  "source_key s = py_before (CHR '':'') s"

definition policy_for :: "string \<Rightarrow> source_policy option" where
  "policy_for s = dict_get POLICIES (source_key s)"

definition may_verdict :: "string \<Rightarrow> bool" where
  "may_verdict s \<longleftrightarrow> (case policy_for s of None \<Rightarrow> False | Some p \<Rightarrow> verdicts p)"
definition may_store :: "string \<Rightarrow> bool" where
  "may_store s \<longleftrightarrow> (case policy_for s of None \<Rightarrow> False | Some p \<Rightarrow> store p)"
definition may_embed :: "string \<Rightarrow> bool" where
  "may_embed s \<longleftrightarrow> (case policy_for s of None \<Rightarrow> False | Some p \<Rightarrow> embed p)"
definition may_comingle :: "string \<Rightarrow> bool" where
  "may_comingle s \<longleftrightarrow> (case policy_for s of None \<Rightarrow> False | Some p \<Rightarrow> comingle p)"

lemmas may_defs = may_verdict_def may_store_def may_embed_def may_comingle_def
lemmas policy_table = POLICIES_def course_def course_keys_def BESTBUY_ATTRIBUTION_def

lemma POLICIES_wf: "dict_wf POLICIES"
  by (simp add: dict_wf_def policy_table)

lemma policy_key: "(k, p) \<in> set POLICIES \<Longrightarrow> sp_key p = k"
  by (auto simp: policy_table)

lemma policy_for_SomeD: "policy_for s = Some p \<Longrightarrow> (source_key s, p) \<in> set POLICIES \<and> sp_key p = source_key s"
  by (auto simp: policy_for_def policy_key dest: dict_get_SomeD)

text \<open>The text after the colon never changes the policy.\<close>

lemma source_key_detail: "CHR '':'' \<notin> set k \<Longrightarrow> source_key (k @ CHR '':'' # d) = k"
  by (simp add: source_key_def)

lemma source_key_ebay: "source_key (''eBay:'' @ d) = ''eBay''"
  by (simp add: source_key_def py_before_def)

section \<open>The interface\<close>

locale license =
  fixes policy :: "string \<Rightarrow> source_policy option"
    and grants :: "(source_policy \<Rightarrow> bool) \<Rightarrow> string \<Rightarrow> bool"
  assumes denied_without_policy: "policy s = None \<Longrightarrow> \<not> grants f s"
    and granted_iff: "policy s = Some p \<Longrightarrow> grants f s \<longleftrightarrow> f p"
begin

lemma granted_obtains_policy: "grants f s \<Longrightarrow> \<exists>p. policy s = Some p \<and> f p"
  by (cases "policy s") (auto simp: denied_without_policy granted_iff)

lemma filter_granted: "r \<in> set (filter (\<lambda>r. grants f (src r)) rows) \<Longrightarrow>
    \<exists>p. policy (src r) = Some p \<and> f p"
  by (simp add: granted_obtains_policy)

lemma same_policy_same_grants: "policy s = policy t \<Longrightarrow> grants f s = grants f t"
  by (metis denied_without_policy granted_iff not_None_eq)

end

definition grants :: "(source_policy \<Rightarrow> bool) \<Rightarrow> string \<Rightarrow> bool" where
  "grants f s \<longleftrightarrow> (case policy_for s of None \<Rightarrow> False | Some p \<Rightarrow> f p)"

interpretation lic: license policy_for grants
  by unfold_locales (auto simp: grants_def)

lemma may_grants:
  "may_verdict s = grants verdicts s" "may_store s = grants store s"
  "may_embed s = grants embed s" "may_comingle s = grants comingle s"
  by (simp_all add: may_defs grants_def)

text \<open>The whole table, decided once: which keys have which permission.\<close>

lemma granted_key:
  assumes "grants f s"
  shows "source_key s \<in> set (map fst (filter (\<lambda>(k, p). f p) POLICIES))"
proof -
  from lic.granted_obtains_policy [OF assms] obtain p where "policy_for s = Some p" "f p" by blast
  then show ?thesis using policy_for_SomeD by force
qed

lemma may_iff_key:
  "may_verdict s \<longleftrightarrow> source_key s \<in> set (''BestBuy'' # course_keys)"
  "may_store s \<longleftrightarrow> source_key s \<in> set (''BestBuy'' # course_keys)"
  "may_embed s \<longleftrightarrow> source_key s \<in> set (''BestBuy'' # course_keys)"
  "may_comingle s \<longleftrightarrow> source_key s \<in> set (''BestBuy'' # course_keys)"
  by (auto simp: may_defs policy_for_def dict_get_def policy_table)

lemma may_all_equal:
  "may_store s = may_verdict s" "may_embed s = may_verdict s" "may_comingle s = may_verdict s"
  by (simp_all only: may_iff_key)

lemma ebay_denied: "source_key s = ''eBay'' \<Longrightarrow>
  \<not> may_verdict s \<and> \<not> may_store s \<and> \<not> may_embed s \<and> \<not> may_comingle s"
  by (simp add: may_iff_key course_keys_def)

text \<open>The licence gate. A verdict, storing, embedding and co-mingling are allowed for exactly the sources whose
  key is \<open>BestBuy\<close> or one of the course sources; so an eBay row, whatever its detail, and a row of a
  source without a policy are denied everything.\<close>

theorem license_gate:
  "(may_verdict s \<longleftrightarrow> source_key s \<in> set (''BestBuy'' # course_keys))
   \<and> (may_store s \<longleftrightarrow> may_verdict s) \<and> (may_embed s \<longleftrightarrow> may_verdict s) \<and> (may_comingle s \<longleftrightarrow> may_verdict s)
   \<and> \<not> may_verdict (''eBay:'' @ detail)
   \<and> (may_verdict s \<longrightarrow> policy_for s \<noteq> None)"
proof -
  have "\<not> may_verdict (''eBay:'' @ detail)" using ebay_denied [OF source_key_ebay] by blast
  moreover have "policy_for s \<noteq> None" if "may_verdict s"
    using lic.granted_obtains_policy [of verdicts s] that by (auto simp: may_grants)
  ultimately show ?thesis using may_iff_key(1) may_all_equal by blast
qed

theorem license_gate_witness: "policy_for ''BestBuy:sale'' \<noteq> None"
proof -
  have "may_verdict ''BestBuy:sale''" by (simp add: may_iff_key source_key_def py_before_def)
  then show ?thesis using license_gate [of "''BestBuy:sale''"] by blast
qed

end
