(* ===== verification/Union_Find.thy ===== *)
theory Union_Find
  imports Prelude
begin

text \<open>
  The union-find of \<open>dedup_by_embedding\<close> (\<open>dealfinder/dedup.py\<close>): a parent list, \<open>find\<close> with path
  halving, and \<open>union\<close> without ranks. \<open>find\<close> is a loop that stops only on an acyclic parent list,
  so it is a partial function; \<open>uf_find_total\<close> shows that it returns on every list the program can
  build. The clustering loop is proved against the interface \<open>partition_structure\<close>.
\<close>

section \<open>The code\<close>

definition uf_init :: "nat \<Rightarrow> nat list" where "uf_init n = [0..<n]"

partial_function (option) uf_find :: "nat list \<Rightarrow> nat \<Rightarrow> (nat \<times> nat list) option" where
  "uf_find parent x =
     (if parent ! x = x then Some (x, parent)
      else let parent' = parent[x := parent ! (parent ! x)] in uf_find parent' (parent' ! x))"

definition uf_union :: "nat list \<Rightarrow> nat \<Rightarrow> nat \<Rightarrow> nat list option" where
  \<comment> \<open>\<open>parent[find(a)] = find(b)\<close>: Python evaluates the right-hand side first\<close>
  "uf_union parent a b =
     Option.bind (uf_find parent b) (\<lambda>(rb, p1).
       Option.bind (uf_find p1 a) (\<lambda>(ra, p2). Some (p2[ra := rb])))"

declare uf_find.simps [code]

section \<open>Well-formed parent lists and roots\<close>

definition ranked :: "nat list \<Rightarrow> (nat \<Rightarrow> nat) \<Rightarrow> bool" where
  "ranked p rk \<longleftrightarrow> (\<forall>x < length p. p ! x < length p \<and> (p ! x \<noteq> x \<longrightarrow> rk x < rk (p ! x)))"

definition uf_inv :: "nat list \<Rightarrow> bool" where
  "uf_inv p \<longleftrightarrow> (\<exists>rk. ranked p rk)"

inductive root :: "nat list \<Rightarrow> nat \<Rightarrow> nat \<Rightarrow> bool" for p where
  root_here: "p ! x = x \<Longrightarrow> root p x x"
| root_up: "p ! x \<noteq> x \<Longrightarrow> root p (p ! x) r \<Longrightarrow> root p x r"

inductive_cases rootE: "root p x r"
inductive_simps root_self_simp: "root p x x"

lemma root_step: "root p x r \<longleftrightarrow> (if p ! x = x then r = x else root p (p ! x) r)"
  by (auto elim: rootE intro: root.intros)

lemma root_det: "root p x r \<Longrightarrow> root p x s \<Longrightarrow> r = s"
  by (induction rule: root.induct) (auto elim: rootE)

lemma root_is_root: "root p x r \<Longrightarrow> p ! r = r"
  by (induction rule: root.induct) auto

lemma rank_climb_induct [consumes 2, case_names climb]:
  assumes "ranked p rk" and "x < length p"
    and climb: "\<And>x. x < length p \<Longrightarrow> (\<And>y. y < length p \<Longrightarrow> rk x < rk y \<Longrightarrow> P y) \<Longrightarrow> P x"
  shows "P x"
proof -
  define b where "b = Max (rk ` {..<length p})"
  have bound: "rk y \<le> b" if "y < length p" for y
    using that by (auto simp: b_def)
  show ?thesis using assms(2)
  proof (induction "b - rk x" arbitrary: x rule: less_induct)
    case less
    show ?case
    proof (rule climb [OF less.prems])
      fix y assume y: "y < length p" "rk x < rk y"
      with bound [OF y(1)] bound [OF less.prems] have "b - rk y < b - rk x" by linarith
      from less.hyps [OF this y(1)] show "P y" .
    qed
  qed
qed

lemma root_exists:
  assumes rk: "ranked p rk" and "x < length p"
  shows "\<exists>r < length p. root p x r"
  using assms
proof (induction x rule: rank_climb_induct)
  case (climb x)
  show ?case
  proof (cases "p ! x = x")
    case True
    with climb show ?thesis by (auto intro: root.intros)
  next
    case False
    with climb(1) rk have "p ! x < length p" "rk x < rk (p ! x)" by (auto simp: ranked_def)
    from climb(2) [OF this] False show ?thesis by (auto intro: root.intros)
  qed
qed

section \<open>Path halving keeps every root\<close>

definition halve :: "nat list \<Rightarrow> nat \<Rightarrow> nat list" where
  "halve p x = p[x := p ! (p ! x)]"

lemma length_halve [simp]: "length (halve p x) = length p"
  by (simp add: halve_def)

lemma ranked_halve: "ranked p rk \<Longrightarrow> x < length p \<Longrightarrow> ranked (halve p x) rk"
  unfolding ranked_def halve_def by (auto simp: nth_list_update) (metis less_trans)

lemma root_halve:
  assumes "ranked p rk" and "x < length p" and "root p z r" and "z < length p"
  shows "root (halve p x) z r"
  using assms(3,4)
proof (induction rule: root.induct)
  case (root_here z)
  then show ?case by (intro root.root_here) (cases "z = x"; simp add: halve_def)
next
  case (root_up z r)
  have pz: "p ! z < length p" "rk z < rk (p ! z)"
    using assms(1) root_up by (auto simp: ranked_def)
  have IH: "root (halve p x) (p ! z) r" using root_up pz by blast
  show ?case
  proof (cases "z = x")
    case False
    then have "halve p x ! z = p ! z" by (simp add: halve_def)
    with IH root_up(1) show ?thesis by (auto intro: root.root_up)
  next
    case True
    let ?y = "p ! x"
    have new: "halve p x ! x = p ! ?y" using assms(2) by (simp add: halve_def)
    show ?thesis
    proof (cases "p ! ?y = ?y")
      case same: True
      with IH True new root_up(1) show ?thesis by (auto intro: root.root_up)
    next
      case up: False
      have "rk ?y < rk (p ! ?y)" using assms(1) pz up True by (auto simp: ranked_def)
      with pz True have ne: "p ! ?y \<noteq> x" by auto
      have "halve p x ! ?y = p ! ?y" using root_up(1) True by (auto simp: halve_def)
      with IH True up have "root (halve p x) (p ! ?y) r" by (metis root_step)
      with new ne True show ?thesis by (metis root.root_up)
    qed
  qed
qed

lemma root_halve_iff:
  assumes "ranked p rk" and "x < length p" and "z < length p"
  shows "root (halve p x) z r \<longleftrightarrow> root p z r"
  using root_halve [OF assms(1,2) _ assms(3)] root_exists [OF assms(1,3)] root_det by metis

lemma uf_find_ranked:
  assumes "ranked p rk" and "x < length p"
  shows "\<exists>r p'. uf_find p x = Some (r, p') \<and> root p x r \<and> r < length p \<and> length p' = length p
    \<and> ranked p' rk \<and> (\<forall>z < length p. \<forall>s. root p' z s \<longleftrightarrow> root p z s)"
proof -
  have "\<forall>q. length q = length p \<longrightarrow> ranked q rk \<longrightarrow>
      (\<exists>r p'. uf_find q x = Some (r, p') \<and> root q x r \<and> r < length p \<and> length p' = length p
        \<and> ranked p' rk \<and> (\<forall>z < length p. \<forall>s. root p' z s \<longleftrightarrow> root q z s))"
    using assms
  proof (induction x rule: rank_climb_induct)
    case (climb x)
    show ?case
    proof (intro allI impI)
      fix q assume q: "length q = length p" "ranked q rk"
      show "\<exists>r p'. uf_find q x = Some (r, p') \<and> root q x r \<and> r < length p \<and> length p' = length p
        \<and> ranked p' rk \<and> (\<forall>z < length p. \<forall>s. root p' z s \<longleftrightarrow> root q z s)"
      proof (cases "q ! x = x")
        case True
        with climb(1) q show ?thesis by (auto simp: uf_find.simps [of q x] intro: root.intros)
      next
        case False
        let ?h = "halve q x"
        have x: "x < length q" using climb(1) q(1) by simp
        have h: "ranked ?h rk" "length ?h = length p" using q x by (simp_all add: ranked_halve)
        have y: "?h ! x < length p" using h climb(1) by (auto simp: ranked_def)
        have "rk x < rk (?h ! x)"
          using q(2) x False by (auto simp: halve_def ranked_def) (metis less_trans)
        from climb(2) [OF y this] h
        obtain r p' where r: "uf_find ?h (?h ! x) = Some (r, p')" "root ?h (?h ! x) r" "r < length p"
          "length p' = length p" "ranked p' rk" "\<forall>z < length p. \<forall>s. root p' z s \<longleftrightarrow> root ?h z s"
          by blast
        have "uf_find q x = Some (r, p')"
          using False r(1) by (simp add: uf_find.simps [of q x] Let_def halve_def)
        moreover have "root q x r"
          using root_halve_iff [OF q(2) x x] r(2) \<open>rk x < rk (?h ! x)\<close> by (metis less_irrefl root.root_up)
        moreover have "\<forall>z < length p. \<forall>s. root p' z s \<longleftrightarrow> root q z s"
          using r(6) root_halve_iff [OF q(2) x] q(1) by simp
        ultimately show ?thesis using r by blast
      qed
    qed
  qed
  with assms show ?thesis by blast
qed

theorem uf_find_total:
  assumes "uf_inv p" and "x < length p"
  shows "\<exists>r p'. uf_find p x = Some (r, p') \<and> root p x r \<and> r < length p \<and> length p' = length p
    \<and> uf_inv p' \<and> (\<forall>z < length p. \<forall>s. root p' z s \<longleftrightarrow> root p z s)"
  using assms uf_find_ranked unfolding uf_inv_def by metis

lemma length_uf_init [simp]: "length (uf_init n) = n"
  by (simp add: uf_init_def)

lemma root_init: "x < n \<Longrightarrow> root (uf_init n) x r \<longleftrightarrow> r = x"
  by (subst root_step) (simp add: uf_init_def)

lemma uf_inv_init: "uf_inv (uf_init n)"
  by (auto simp: uf_inv_def ranked_def uf_init_def)

section \<open>The partition a parent list stands for\<close>

definition eqv :: "nat list \<Rightarrow> (nat \<times> nat) set" where
  "eqv p = {(x, y). x < length p \<and> y < length p \<and> (\<exists>r. root p x r \<and> root p y r)}"

definition join :: "nat \<Rightarrow> nat \<Rightarrow> (nat \<times> nat) set \<Rightarrow> (nat \<times> nat) set" where
  \<comment> \<open>the least equivalence over \<open>E\<close> that also relates \<open>a\<close> and \<open>b\<close>\<close>
  "join a b E = E \<union> {(x, y). (x, a) \<in> E \<and> (b, y) \<in> E} \<union> {(x, y). (x, b) \<in> E \<and> (a, y) \<in> E}"

lemma eqv_init: "eqv (uf_init n) = Id_on {..<n}"
  by (auto simp: eqv_def root_init Id_on_def)

lemma eqv_cong:
  "length q = length p \<Longrightarrow> (\<And>z s. z < length p \<Longrightarrow> root q z s \<longleftrightarrow> root p z s) \<Longrightarrow> eqv q = eqv p"
  by (auto simp: eqv_def)

lemma root_link:
  assumes "ranked p rk" and "x < length p" and "p ! ra = ra" and "p ! rb = rb"
    and "ra < length p" and "rb < length p"
  shows "root (p[ra := rb]) x s \<longleftrightarrow> (\<exists>r. root p x r \<and> s = (if r = ra then rb else r))"
  using assms(1,2)
proof (induction x arbitrary: s rule: rank_climb_induct)
  case (climb x)
  have here: "root p x r \<longleftrightarrow> (if p ! x = x then r = x else root p (p ! x) r)" for r
    by (rule root_step)
  show ?case
  proof (cases "p ! x = x")
    case True
    have "root (p[ra := rb]) x s \<longleftrightarrow> s = (if x = ra then rb else x)"
    proof (cases "x = ra")
      case xa: True
      have "root (p[ra := rb]) rb t \<longleftrightarrow> t = rb" for t
        by (subst root_step) (use assms in \<open>cases "rb = ra"; simp\<close>)
      then show ?thesis
        by (subst root_step) (use xa assms(5) in \<open>cases "rb = ra"; simp\<close>)
    next
      case False
      with True show ?thesis by (subst root_step) simp
    qed
    with here True show ?thesis by auto
  next
    case False
    with climb(1) assms(1) have y: "p ! x < length p" "rk x < rk (p ! x)" by (auto simp: ranked_def)
    have "x \<noteq> ra" using False assms(3) by auto
    then have "root (p[ra := rb]) x s \<longleftrightarrow> root (p[ra := rb]) (p ! x) s"
      by (subst root_step) (use False in simp)
    with climb(2) [OF y] here False show ?thesis by auto
  qed
qed

lemma ranked_link:
  assumes "ranked p rk" and "p ! ra = ra" and "p ! rb = rb" and "ra < length p" and "rb < length p"
  shows "uf_inv (p[ra := rb])"
proof (cases "ra = rb")
  case True
  with assms have "p[ra := rb] = p" by (metis list_update_id)
  with assms(1) show ?thesis by (auto simp: uf_inv_def)
next
  case False
  define rk' where "rk' z = (if root p z rb then rk z + rk ra + 1 else rk z)" for z
  have up: "root p x rb \<longleftrightarrow> root p (p ! x) rb" if "p ! x \<noteq> x" for x
    using that by (subst root_step) simp
  have self: "root p rb rb" "\<not> root p ra rb"
    using assms False by (auto intro: root.intros) (subst (asm) root_step, simp)
  have "ranked (p[ra := rb]) rk'"
    unfolding ranked_def
  proof (intro allI impI)
    fix x assume x: "x < length (p[ra := rb])"
    show "p[ra := rb] ! x < length (p[ra := rb]) \<and> (p[ra := rb] ! x \<noteq> x \<longrightarrow> rk' x < rk' (p[ra := rb] ! x))"
    proof (cases "x = ra")
      case True
      with self assms show ?thesis by (simp add: rk'_def)
    next
      case False
      with x assms(1) up [of x] show ?thesis by (auto simp: rk'_def ranked_def)
    qed
  qed
  then show ?thesis by (auto simp: uf_inv_def)
qed

theorem uf_union_total:
  assumes "uf_inv p" and "a < length p" and "b < length p"
  shows "\<exists>p'. uf_union p a b = Some p' \<and> length p' = length p \<and> uf_inv p' \<and> eqv p' = join a b (eqv p)"
proof -
  obtain rb p1 where f1: "uf_find p b = Some (rb, p1)" "root p b rb" "rb < length p"
      "length p1 = length p" "uf_inv p1" "\<forall>z < length p. \<forall>s. root p1 z s \<longleftrightarrow> root p z s"
    using uf_find_total [OF assms(1,3)] by blast
  obtain ra p2 where f2: "uf_find p1 a = Some (ra, p2)" "root p1 a ra" "ra < length p"
      "length p2 = length p" "uf_inv p2" "\<forall>z < length p. \<forall>s. root p2 z s \<longleftrightarrow> root p1 z s"
    using uf_find_total [OF f1(5), of a] f1(4) assms(2) by auto
  have same: "root p2 z s \<longleftrightarrow> root p z s" if "z < length p" for z s
    using that f1(6) f2(6) by blast
  have ra: "root p a ra" using f1(6) f2(2) assms(2) by blast
  have fixed: "p2 ! ra = ra" "p2 ! rb = rb"
    using same [OF assms(2)] same [OF assms(3)] ra f1(2) root_is_root by blast+
  obtain rk where rk: "ranked p2 rk" using f2(5) by (auto simp: uf_inv_def)
  have link: "root (p2[ra := rb]) z s \<longleftrightarrow> (\<exists>r. root p z r \<and> s = (if r = ra then rb else r))"
    if "z < length p" for z s
    using root_link [OF rk _ fixed] f2 f1(3) same that by simp
  have run: "uf_union p a b = Some (p2[ra := rb])"
    using f1(1) f2(1) by (simp add: uf_union_def)
  moreover have "uf_inv (p2[ra := rb])"
    using ranked_link [OF rk fixed] f2(3,4) f1(3) by simp
  moreover have "eqv (p2[ra := rb]) = join a b (eqv p)"
  proof -
    obtain rkp where "ranked p rkp" using assms(1) by (auto simp: uf_inv_def)
    then have ex: "\<exists>r. root p z r" if "z < length p" for z using root_exists that by blast
    have "(x, y) \<in> eqv (p2[ra := rb]) \<longleftrightarrow> (x, y) \<in> join a b (eqv p)" for x y
    proof (cases "x < length p \<and> y < length p")
      case True
      then obtain rx ry where r: "root p x rx" "root p y ry" using ex by blast
      have "(x, y) \<in> eqv (p2[ra := rb]) \<longleftrightarrow> (if rx = ra then rb else rx) = (if ry = ra then rb else ry)"
        using True r link root_det f2(4) by (auto simp: eqv_def; metis)
      moreover have "(u, v) \<in> eqv p \<longleftrightarrow> ru = rv"
        if "u < length p" "v < length p" "root p u ru" "root p v rv" for u v ru rv
        using that by (auto simp: eqv_def) (metis root_det)
      ultimately show ?thesis
        using True r ra f1(2) assms(2,3) by (auto simp: join_def)
    next
      case False
      then show ?thesis by (auto simp: join_def eqv_def f2(4))
    qed
    then show ?thesis by auto
  qed
  ultimately show ?thesis using f2(4) by simp
qed

end
