(* ===== verification/Dedup.thy ===== *)
theory Dedup
  imports Union_Find Schema
begin

text \<open>
  \<open>dealfinder/dedup.py\<close>: offers whose titles mean the same product are clustered and each
  cluster keeps its cheapest offer. The embedding model is not part of the repository: \<open>emb\<close>
  maps the titles to vectors. The merging loop is verified once, against the interface
  \<open>partition_structure\<close>, and then used with the union-find of \<open>Union_Find\<close>.
\<close>

section \<open>Titles\<close>

definition is_token_char :: "char \<Rightarrow> bool" where
  "is_token_char c \<longleftrightarrow> is_lower c \<or> is_digit c"

definition TOKEN :: rx where "TOKEN = plus (Cls is_token_char)"

definition model_tokens :: "string \<Rightarrow> string list" where
  \<comment> \<open>the set as a list without repetition, in the order of first occurrence\<close>
  "model_tokens t = py_dedupe (filter (\<lambda>w. \<exists>c \<in> set w. is_digit c) (rx_findall TOKEN (py_lower t)))"

definition first_token :: "string \<Rightarrow> string" where
  "first_token t = (case rx_findall TOKEN (py_lower t) of [] \<Rightarrow> '''' | w # _ \<Rightarrow> w)"

section \<open>Cosine similarity\<close>

definition dot :: "pyfloat list \<Rightarrow> pyfloat list \<Rightarrow> pyfloat" where
  "dot v w = sum_list (map2 (*) v w)"

definition vnorm :: "pyfloat list \<Rightarrow> pyfloat" where
  "vnorm v = sqrt (dot v v)"

definition normed :: "pyfloat list \<Rightarrow> pyfloat list" where
  "normed v = map (\<lambda>x. x / (if vnorm v > 0 then vnorm v else 1)) v"

definition cosine_matrix :: "pyfloat list list \<Rightarrow> pyfloat list list" where
  "cosine_matrix vecs = map (\<lambda>v. map (\<lambda>w. dot (normed v) (normed w)) vecs) vecs"

section \<open>The pairwise test\<close>

definition same_product ::
  "string list \<Rightarrow> string list list \<Rightarrow> pyfloat list list \<Rightarrow> pyfloat \<Rightarrow> pyfloat \<Rightarrow> nat \<Rightarrow> nat \<Rightarrow> bool" where
  "same_product brands models sim sim_threshold no_model_threshold i j =
     (if brands ! i \<noteq> brands ! j then False
      else if models ! i \<noteq> [] \<and> models ! j \<noteq> []
        then set (models ! i) = set (models ! j) \<and> sim ! i ! j \<ge> sim_threshold
      else if models ! i = [] \<and> models ! j = [] then sim ! i ! j \<ge> no_model_threshold
      else False)"

definition index_pairs :: "nat \<Rightarrow> (nat \<times> nat) list" where
  \<comment> \<open>\<open>for i in range(n): for j in range(i + 1, n)\<close>\<close>
  "index_pairs n = concat (map (\<lambda>i. map (Pair i) [Suc i..<n]) [0..<n])"

section \<open>Merging pairs in a partition structure\<close>

fun merge_pairs :: "('u \<Rightarrow> nat \<Rightarrow> nat \<Rightarrow> 'u option) \<Rightarrow> (nat \<times> nat) list \<Rightarrow> 'u \<Rightarrow> 'u option" where
  "merge_pairs un [] u = Some u"
| "merge_pairs un ((i, j) # ps) u = Option.bind (un u i j) (merge_pairs un ps)"

definition closure :: "(nat \<times> nat) set \<Rightarrow> (nat \<times> nat) set" where
  "closure E = (E \<union> E\<inverse>)\<^sup>*"

locale partition_structure =
  fixes inv :: "'u \<Rightarrow> bool"
    and size_of :: "'u \<Rightarrow> nat"
    and rel :: "'u \<Rightarrow> (nat \<times> nat) set"
    and un :: "'u \<Rightarrow> nat \<Rightarrow> nat \<Rightarrow> 'u option"
  assumes un_law: "inv u \<Longrightarrow> a < size_of u \<Longrightarrow> b < size_of u \<Longrightarrow>
      \<exists>u'. un u a b = Some u' \<and> size_of u' = size_of u \<and> inv u' \<and> rel u' = join a b (rel u)"
begin

lemma join_closure:
  assumes E: "R = closure E \<inter> {..<n} \<times> {..<n}" and "a < n" and "b < n"
  shows "join a b R = closure (insert (a, b) E) \<inter> {..<n} \<times> {..<n}"
proof -
  let ?S = "E \<union> E\<inverse>"
  have sym: "sym (?S\<^sup>*)" by (simp add: sym_Un_converse sym_rtrancl)
  have eq: "insert (a, b) E \<union> (insert (a, b) E)\<inverse> = insert (a, b) (insert (b, a) ?S)" by auto
  have "(x, y) \<in> closure (insert (a, b) E) \<longleftrightarrow>
      (x, y) \<in> ?S\<^sup>* \<or> (x, a) \<in> ?S\<^sup>* \<and> (b, y) \<in> ?S\<^sup>* \<or> (x, b) \<in> ?S\<^sup>* \<and> (a, y) \<in> ?S\<^sup>*" for x y
    unfolding closure_def eq rtrancl_insert
    using sym by (auto dest: symD intro: rtrancl_trans)
  then show ?thesis
    using assms by (auto simp: join_def closure_def)
qed

lemma merge_pairs_law:
  assumes "inv u" and "\<forall>(i, j) \<in> set ps. i < size_of u \<and> j < size_of u"
    and "rel u = closure E \<inter> {..<size_of u} \<times> {..<size_of u}"
  shows "\<exists>u'. merge_pairs un ps u = Some u' \<and> inv u' \<and> size_of u' = size_of u
    \<and> rel u' = closure (E \<union> set ps) \<inter> {..<size_of u} \<times> {..<size_of u}"
  using assms
proof (induction ps arbitrary: u E)
  case (Cons p ps)
  obtain i j where p: "p = (i, j)" by force
  with Cons.prems obtain u' where u': "un u i j = Some u'" "size_of u' = size_of u" "inv u'"
    "rel u' = join i j (rel u)" using un_law [of u i j] by auto
  have "rel u' = closure (insert (i, j) E) \<inter> {..<size_of u'} \<times> {..<size_of u'}"
    using u' Cons.prems p join_closure by simp
  from Cons.IH [OF u'(3) _ this] Cons.prems u'(2)
  show ?case by (auto simp: p u'(1))
qed simp

end

interpretation uf: partition_structure uf_inv length eqv uf_union
  by unfold_locales (use uf_union_total in blast)


section \<open>The clusters and the result\<close>

fun collect_clusters :: "nat list \<Rightarrow> nat list \<Rightarrow> product list \<Rightarrow> (nat, product list) dict \<Rightarrow>
    (nat, product list) dict option" where
  \<comment> \<open>\<open>for i, p in enumerate(items): clusters.setdefault(find(i), []).append(p)\<close>\<close>
  "collect_clusters parent (i # js) (p # ps) cl =
     Option.bind (uf_find parent i) (\<lambda>(r, parent').
       collect_clusters parent' js ps (dict_set r (dict_get_or cl r [] @ [p]) cl))"
| "collect_clusters parent _ _ cl = Some cl"

definition title_same ::
  "(string list \<Rightarrow> pyfloat list list) \<Rightarrow> pyfloat \<Rightarrow> pyfloat \<Rightarrow> product list \<Rightarrow> nat \<Rightarrow> nat \<Rightarrow> bool" where
  "title_same emb sim_threshold no_model_threshold items =
     (let titles = map title items in
      same_product (map first_token titles) (map model_tokens titles)
        (cosine_matrix (emb titles)) sim_threshold no_model_threshold)"

definition dedup_by_embedding ::
  "(string list \<Rightarrow> pyfloat list list) \<Rightarrow> pyfloat \<Rightarrow> pyfloat \<Rightarrow> product list \<Rightarrow> product list option" where
  "dedup_by_embedding emb sim_threshold no_model_threshold items =
     (if items = [] then Some []
      else
        let n = length items; same = title_same emb sim_threshold no_model_threshold items in
        Option.bind (merge_pairs uf_union (filter (\<lambda>(i, j). same i j) (index_pairs n)) (uf_init n))
          (\<lambda>parent. Option.bind (collect_clusters parent [0..<n] items [])
            (\<lambda>cl. Some (map (\<lambda>c. the (py_min price c)) (dict_values cl)))))"

definition sim_default :: pyfloat where "sim_default = 0.90"
definition no_model_default :: pyfloat where "no_model_default = 0.95"

text \<open>Two offers are in one cluster when a chain of pairwise tests links them.\<close>

definition cluster_rel :: "(nat \<Rightarrow> nat \<Rightarrow> bool) \<Rightarrow> nat \<Rightarrow> (nat \<times> nat) set" where
  "cluster_rel same n = closure {(i, j). i < j \<and> j < n \<and> same i j}"

lemma set_index_pairs: "set (index_pairs n) = {(i, j). i < j \<and> j < n}"
  by (fastforce simp: index_pairs_def)

lemma merged_partition:
  "\<exists>p. merge_pairs uf_union (filter (\<lambda>(i, j). same i j) (index_pairs n)) (uf_init n) = Some p
     \<and> uf_inv p \<and> length p = n \<and> eqv p = cluster_rel same n \<inter> {..<n} \<times> {..<n}"
proof -
  have start: "eqv (uf_init n) = closure {} \<inter> {..<n} \<times> {..<n}"
    by (auto simp: eqv_init closure_def)
  have "{} \<union> set (filter (\<lambda>(i, j). same i j) (index_pairs n)) = {(i, j). i < j \<and> j < n \<and> same i j}"
    by (auto simp: set_index_pairs)
  with uf.merge_pairs_law [OF uf_inv_init, of "filter (\<lambda>(i, j). same i j) (index_pairs n)" n "{}"]
    start show ?thesis by (auto simp: set_index_pairs cluster_rel_def)
qed

lemma collect_clusters_law:
  assumes "uf_inv p" "length p = n" "\<forall>i < n. root p i (rt i)" "m \<le> n"
    and "length items = n" "dict_wf cl" "fst ` set cl = rt ` {..<m}"
    and "\<forall>r \<in> rt ` {..<m}. dict_get cl r = Some (map ((!) items) (filter (\<lambda>i. rt i = r) [0..<m]))"
  shows "\<exists>cl'. collect_clusters p [m..<n] (drop m items) cl = Some cl' \<and> dict_wf cl'
    \<and> fst ` set cl' = rt ` {..<n}
    \<and> (\<forall>r \<in> rt ` {..<n}. dict_get cl' r = Some (map ((!) items) (filter (\<lambda>i. rt i = r) [0..<n])))"
  using assms
proof (induction "n - m" arbitrary: m p cl)
  case 0
  then show ?case by simp
next
  case (Suc k)
  then have m: "m < n" by simp
  have split: "[m..<n] = m # [Suc m..<n]" "drop m items = items ! m # drop (Suc m) items"
    using m Suc.prems(5) by (simp_all add: upt_conv_Cons Cons_nth_drop_Suc)
  obtain p' where p': "uf_find p m = Some (rt m, p')" "length p' = n" "uf_inv p'"
      "\<forall>z < n. \<forall>s. root p' z s \<longleftrightarrow> root p z s"
    using uf_find_total [OF Suc.prems(1)] Suc.prems(2,3) m root_det by metis
  define cl2 where "cl2 = dict_set (rt m) (dict_get_or cl (rt m) [] @ [items ! m]) cl"
  have old: "dict_get_or cl r [] = map ((!) items) (filter (\<lambda>i. rt i = r) [0..<m])" for r
  proof (cases "r \<in> rt ` {..<m}")
    case True
    with bspec [OF Suc.prems(8) True] show ?thesis by (simp add: dict_get_or_def dict_get_def)
  next
    case False
    with Suc.prems(7) have "map_of cl r = None" by (simp add: map_of_eq_None_iff)
    with False show ?thesis by (auto simp: dict_get_or_def filter_empty_conv)
  qed
  have "\<forall>r \<in> rt ` {..<Suc m}. dict_get cl2 r = Some (map ((!) items) (filter (\<lambda>i. rt i = r) [0..<Suc m]))"
  proof
    fix r assume r: "r \<in> rt ` {..<Suc m}"
    show "dict_get cl2 r = Some (map ((!) items) (filter (\<lambda>i. rt i = r) [0..<Suc m]))"
    proof (cases "r = rt m")
      case True
      then show ?thesis by (simp add: cl2_def old)
    next
      case False
      with r Suc.prems(8) show ?thesis by (auto simp: cl2_def lessThan_Suc)
    qed
  qed
  moreover have "dict_wf cl2" "fst ` set cl2 = rt ` {..<Suc m}"
    using Suc.prems(6,7) by (auto simp: cl2_def lessThan_Suc)
  moreover have "\<forall>i < n. root p' i (rt i)" using p'(4) Suc.prems(3) by blast
  ultimately show ?case
    using Suc.hyps(1) [of "Suc m" p' cl2] Suc.hyps(2) Suc.prems(5) m p'
    by (simp add: split cl2_def)
qed

text \<open>The clusters as index lists: what the result is made of.\<close>

lemma clusters_exist:
  fixes items :: "product list"
  defines "n \<equiv> length items"
  obtains p cl rt where
      "merge_pairs uf_union (filter (\<lambda>(i, j). same i j) (index_pairs n)) (uf_init n) = Some p"
      "collect_clusters p [0..<n] items [] = Some cl" "dict_wf cl" "fst ` set cl = rt ` {..<n}"
      "\<forall>r \<in> rt ` {..<n}. dict_get cl r = Some (map ((!) items) (filter (\<lambda>i. rt i = r) [0..<n]))"
      "\<And>i j. i < n \<Longrightarrow> j < n \<Longrightarrow> rt i = rt j \<longleftrightarrow> (i, j) \<in> cluster_rel same n"
proof -
  obtain p where p: "merge_pairs uf_union (filter (\<lambda>(i, j). same i j) (index_pairs n)) (uf_init n) = Some p"
      "uf_inv p" "length p = n" "eqv p = cluster_rel same n \<inter> {..<n} \<times> {..<n}"
    using merged_partition by blast
  from p(2) obtain rk where "ranked p rk" by (auto simp: uf_inv_def)
  then have "\<forall>i < n. \<exists>r. root p i r" using root_exists p(3) by metis
  then obtain rt where rt: "\<forall>i < n. root p i (rt i)" by metis
  have rel: "rt i = rt j \<longleftrightarrow> (i, j) \<in> cluster_rel same n" if ij: "i < n" "j < n" for i j
  proof -
    have "rt i = rt j \<longleftrightarrow> (i, j) \<in> eqv p"
      using ij rt p(3) by (auto simp: eqv_def) (metis root_det)
    with p(4) ij show ?thesis by simp
  qed
  have len: "length items = n" by (simp add: n_def)
  from collect_clusters_law [where m = 0 and cl = "[]", OF p(2,3) rt _ len]
  obtain cl where "collect_clusters p [0..<n] items [] = Some cl" "dict_wf cl" "fst ` set cl = rt ` {..<n}"
      "\<forall>r \<in> rt ` {..<n}. dict_get cl r = Some (map ((!) items) (filter (\<lambda>i. rt i = r) [0..<n]))"
    by auto
  from that [OF p(1) this rel] show ?thesis .
qed

lemma py_min_of_map:
  assumes "py_min f (map g xs) = Some m"
  shows "\<exists>x \<in> set xs. m = g x \<and> (\<forall>y \<in> set xs. f (g x) \<le> f (g y))"
  using py_min_SomeD [OF assms] by force

lemma cheapest_index:
  assumes "idx \<noteq> []"
  shows "\<exists>k \<in> set idx. the (py_min price (map ((!) items) idx)) = items ! k
    \<and> (\<forall>i \<in> set idx. price (items ! k) \<le> price (items ! i))"
proof -
  from assms obtain m where m: "py_min price (map ((!) items) idx) = Some m"
    by (metis map_is_Nil_conv option.exhaust py_min_None)
  from py_min_of_map [OF m] m show ?thesis by auto
qed

lemma dedup_by_embedding_keeps:
  fixes items :: "product list" and emb :: "string list \<Rightarrow> pyfloat list list" and st nt :: pyfloat
  defines "n \<equiv> length items"
  defines "R \<equiv> cluster_rel (title_same emb st nt items) n"
  shows "\<exists>ks. dedup_by_embedding emb st nt items = Some (map ((!) items) ks)
    \<and> distinct ks \<and> set ks \<subseteq> {..<n}
    \<and> (\<forall>i < n. \<exists>k \<in> set ks. (i, k) \<in> R \<and> price (items ! k) \<le> price (items ! i))
    \<and> (\<forall>k \<in> set ks. \<forall>k' \<in> set ks. (k, k') \<in> R \<longrightarrow> k = k')"
proof (cases "items = []")
  case True
  then show ?thesis by (intro exI [of _ "[]"]) (simp add: dedup_by_embedding_def n_def)
next
  case False
  obtain p cl rt where run: "merge_pairs uf_union
        (filter (\<lambda>(i, j). title_same emb st nt items i j) (index_pairs n)) (uf_init n) = Some p"
      "collect_clusters p [0..<n] items [] = Some cl"
    and cl: "dict_wf cl" "fst ` set cl = rt ` {..<n}"
      "\<forall>r \<in> rt ` {..<n}. dict_get cl r = Some (map ((!) items) (filter (\<lambda>i. rt i = r) [0..<n]))"
    and rel: "\<And>i j. i < n \<Longrightarrow> j < n \<Longrightarrow> rt i = rt j \<longleftrightarrow> (i, j) \<in> R"
    by (rule clusters_exist [where items = items and same = "title_same emb st nt items",
          folded n_def, folded R_def]) (rule that; assumption)
  define idx where "idx r = filter (\<lambda>i. rt i = r) [0..<n]" for r
  have "\<exists>k \<in> set (idx r). the (py_min price (map ((!) items) (idx r))) = items ! k
      \<and> (\<forall>i \<in> set (idx r). price (items ! k) \<le> price (items ! i))" if "r \<in> rt ` {..<n}" for r
    by (rule cheapest_index) (use that in \<open>auto simp: idx_def filter_empty_conv\<close>)
  then obtain kf where kf: "\<And>r. r \<in> rt ` {..<n} \<Longrightarrow> kf r \<in> set (idx r)
      \<and> the (py_min price (map ((!) items) (idx r))) = items ! kf r
      \<and> (\<forall>i \<in> set (idx r). price (items ! kf r) \<le> price (items ! i))" by metis
  let ?ks = "map kf (map fst cl)"
  have val: "the (py_min price (snd e)) = items ! kf (fst e)" if "e \<in> set cl" for e
  proof -
    have r: "fst e \<in> rt ` {..<n}" using that cl(2) by force
    have "dict_get cl (fst e) = Some (snd e)" using that cl(1) by (simp add: dict_get_in_set)
    with bspec [OF cl(3) r] kf [OF r] show ?thesis by (simp add: idx_def)
  qed
  then have "dedup_by_embedding emb st nt items = Some (map ((!) items) ?ks)"
    using False run by (simp add: dedup_by_embedding_def Let_def dict_values_def n_def [symmetric])
  moreover have kn: "kf r < n \<and> rt (kf r) = r" if "r \<in> rt ` {..<n}" for r
    using kf [OF that] by (simp add: idx_def)
  moreover have "inj_on kf (rt ` {..<n})" using kn by (metis inj_onI)
  with cl(1,2) have "distinct ?ks" by (metis dict_wf_def distinct_map set_map)
  moreover have "\<exists>k \<in> set ?ks. (i, k) \<in> R \<and> price (items ! k) \<le> price (items ! i)" if "i < n" for i
  proof -
    have r: "rt i \<in> rt ` {..<n}" using that by blast
    then have "kf (rt i) \<in> set ?ks" using cl(2) by (metis image_set imageI list.map_comp)
    moreover have "i \<in> set (idx (rt i))" using that by (simp add: idx_def)
    ultimately show ?thesis using kf [OF r] kn [OF r] rel [OF that] by metis
  qed
  moreover have ks: "set ?ks = kf ` rt ` {..<n}" using cl(2) by (simp only: set_map)
  moreover have "k = k'" if k: "k \<in> set ?ks" "k' \<in> set ?ks" "(k, k') \<in> R" for k k'
  proof -
    from k(1,2) obtain r r' where "r \<in> rt ` {..<n}" "r' \<in> rt ` {..<n}" "k = kf r" "k' = kf r'"
      unfolding ks by blast
    with kn [of r] kn [of r'] rel [of k k'] k(3) show ?thesis by auto
  qed
  moreover have "set ?ks \<subseteq> {..<n}" unfolding ks using kn by blast
  ultimately show ?thesis by (intro exI [of _ ?ks]) blast
qed

section \<open>Properties\<close>

text \<open>C8: Semantic deduplication. The routine always returns, and it returns one offer per cluster: each
  offer is linked, by a chain of pairwise tests, to exactly one offer of the result, and that one is at most
  as dear. Two offers of the result are never linked.\<close>

theorem dedup_clusters:
  "\<exists>ks. dedup_by_embedding emb st nt items = Some (map ((!) items) ks)
    \<and> distinct ks \<and> set ks \<subseteq> {..<length items}
    \<and> (\<forall>i < length items. \<exists>!k. k \<in> set ks \<and> (i, k) \<in> cluster_rel (title_same emb st nt items) (length items))
    \<and> (\<forall>i < length items. \<exists>k \<in> set ks. (i, k) \<in> cluster_rel (title_same emb st nt items) (length items)
         \<and> price (items ! k) \<le> price (items ! i))"
proof -
  let ?R = "cluster_rel (title_same emb st nt items) (length items)"
  obtain ks where ks: "dedup_by_embedding emb st nt items = Some (map ((!) items) ks)"
      "distinct ks" "set ks \<subseteq> {..<length items}"
      "\<forall>i < length items. \<exists>k \<in> set ks. (i, k) \<in> ?R \<and> price (items ! k) \<le> price (items ! i)"
      "\<forall>k \<in> set ks. \<forall>k' \<in> set ks. (k, k') \<in> ?R \<longrightarrow> k = k'"
    using dedup_by_embedding_keeps [of emb st nt items] by blast
  have sym: "sym ?R" by (simp add: cluster_rel_def closure_def sym_Un_converse sym_rtrancl)
  have "(k, k') \<in> ?R" if "(i, k) \<in> ?R" "(i, k') \<in> ?R" for i k k'
    using that sym unfolding cluster_rel_def closure_def by (meson rtrancl_trans symD)
  with ks(4,5) have "\<forall>i < length items. \<exists>!k. k \<in> set ks \<and> (i, k) \<in> ?R" by metis
  with ks show ?thesis by blast
qed

theorem dedup_clusters_witness:
  "\<exists>ks. dedup_by_embedding (map (\<lambda>_. [1])) sim_default no_model_default
      [mk_product ''1'' ''tv'' None ''x'' 9 ''u'' ''a'', mk_product ''2'' ''TV'' None ''x'' 8 ''u'' ''b'']
    = Some (map ((!) [mk_product ''1'' ''tv'' None ''x'' 9 ''u'' ''a'',
        mk_product ''2'' ''TV'' None ''x'' 8 ''u'' ''b'']) ks)"
  using dedup_clusters [of "map (\<lambda>_. [1])" sim_default no_model_default
      "[mk_product ''1'' ''tv'' None ''x'' 9 ''u'' ''a'', mk_product ''2'' ''TV'' None ''x'' 8 ''u'' ''b'']"]
  by blast

end
