(* ===== verification/Aggregate.thy ===== *)
theory Aggregate
  imports Dedup
begin

text \<open>
  \<open>dealfinder/aggregate.py\<close>: sources are asked tier by tier until enough offers are in hand, a
  source that errors or misses the deadline is benched for the cooldown, and the merged offers are
  ranked by price.

  What the code cannot decide is an argument. \<open>net\<close> says how each source's \<open>search\<close> ends (an
  answer with its time stamp, an exception, or still pending at the deadline). \<open>clock k\<close> is the
  \<open>k\<close>-th reading of the monotonic clock during the call. The threads of one tier run at the same
  time, but the code reads the finished futures in submission order, and so does the model.
  \<open>asked\<close> logs the sources whose \<open>search\<close> was started, in order.
\<close>

definition COOLDOWN_SECONDS :: pyfloat where "COOLDOWN_SECONDS = 90"
definition TARGET_RESULTS :: nat where "TARGET_RESULTS = 12"
definition SOURCE_TIMEOUT_S :: pyfloat where "SOURCE_TIMEOUT_S = 8"

section \<open>The circuit breaker\<close>

type_synonym cooldowns = "(string, pyfloat) dict"

definition benched_at :: "cooldowns \<Rightarrow> string \<Rightarrow> pyfloat \<Rightarrow> bool" where
  "benched_at cd name now \<longleftrightarrow> now < dict_get_or cd name 0"

definition bench :: "cooldowns \<Rightarrow> string \<Rightarrow> pyfloat \<Rightarrow> cooldowns" where
  "bench cd name now = dict_set name (now + COOLDOWN_SECONDS) cd"

locale breaker =
  fixes off :: "'s \<Rightarrow> string \<Rightarrow> pyfloat \<Rightarrow> bool"
    and trip :: "'s \<Rightarrow> string \<Rightarrow> pyfloat \<Rightarrow> 's"
    and period :: pyfloat
  assumes trip_same: "off (trip s n t) n t' \<longleftrightarrow> t' < t + period"
    and trip_other: "m \<noteq> n \<Longrightarrow> off (trip s n t) m t' \<longleftrightarrow> off s m t'"
begin

lemma trip_expires: "t + period \<le> t' \<Longrightarrow> \<not> off (trip s n t) n t'"
  by (simp add: trip_same)

text \<open>Later failures of other sources do not shorten a cooldown.\<close>

lemma trips_keep_off:
  "off s n t \<Longrightarrow> (\<forall>(m, t') \<in> set ms. m \<noteq> n) \<Longrightarrow> off (foldl (\<lambda>s (m, t'). trip s m t') s ms) n t"
  by (induction ms arbitrary: s) (auto simp: trip_other)

end

interpretation cb: breaker benched_at bench COOLDOWN_SECONDS
  by unfold_locales (simp_all add: benched_at_def bench_def dict_get_or_def)

section \<open>Sources and the state of one call\<close>

record source_info =
  s_name :: string
  tier :: int
  fallback_only :: bool
  available :: bool

datatype outcome = Answered "product list" string | Raised | Pending

record agg_state =
  cooldown :: cooldowns
  ticks :: nat
  products :: "product list"
  live :: "string list"
  throttled :: "string list"
  timed_out :: "string list"
  fetched :: "(product, string) dict"
  asked :: "source_info list"

definition bench_now :: "(nat \<Rightarrow> pyfloat) \<Rightarrow> string \<Rightarrow> agg_state \<Rightarrow> agg_state" where
  "bench_now clock n st =
     st\<lparr>cooldown := bench (cooldown st) n (clock (ticks st)), ticks := Suc (ticks st)\<rparr>"

text \<open>The code stamps the offers by object identity. A value stands for its first object here: two sources do not hand out the same
  object, and of two equal offers only the first can be shown, since the second is not cheaper and replaces nothing.\<close>

definition stamp_new :: "string \<Rightarrow> (product, string) dict \<Rightarrow> product \<Rightarrow> (product, string) dict" where
  "stamp_new stamp d p = (if dict_has d p then d else dict_set p stamp d)"

definition collect_future ::
  "(nat \<Rightarrow> pyfloat) \<Rightarrow> (source_info \<Rightarrow> outcome) \<Rightarrow> agg_state \<Rightarrow> source_info \<Rightarrow> agg_state" where
  \<comment> \<open>one turn of the loop over the futures\<close>
  "collect_future clock net st src =
     (case net src of
        Pending \<Rightarrow>
          (let st' = bench_now clock (s_name src) st in
           st'\<lparr>throttled := throttled st' @ [s_name src], timed_out := timed_out st' @ [s_name src]\<rparr>)
      | Raised \<Rightarrow>
          (let st' = bench_now clock (s_name src) st in
           st'\<lparr>throttled := throttled st' @ [s_name src]\<rparr>)
      | Answered found stamp \<Rightarrow>
          (if found = [] then st
           else st\<lparr>live := live st @ [s_name src], products := products st @ found,
                   fetched := foldl (stamp_new stamp) (fetched st) found\<rparr>))"

definition run_batch ::
  "(nat \<Rightarrow> pyfloat) \<Rightarrow> (source_info \<Rightarrow> outcome) \<Rightarrow> source_info list \<Rightarrow> agg_state \<Rightarrow> agg_state" where
  "run_batch clock net batch st =
     (if batch = [] then st
      else foldl (collect_future clock net) (st\<lparr>asked := asked st @ batch\<rparr>) batch)"

definition n_offers :: "agg_state \<Rightarrow> nat" where
  "n_offers st = length (py_dedupe (map dedup_key (products st)))"

definition in_tier :: "source_info list \<Rightarrow> int \<Rightarrow> source_info list" where
  "in_tier srcs t = filter (\<lambda>s. tier s = t) srcs"

definition tiers_of :: "source_info list \<Rightarrow> int list" where
  "tiers_of srcs = sort (py_dedupe (map tier srcs))"

fun run_tiers ::
  "(nat \<Rightarrow> pyfloat) \<Rightarrow> (source_info \<Rightarrow> outcome) \<Rightarrow> nat \<Rightarrow> source_info list \<Rightarrow> int list \<Rightarrow> agg_state \<Rightarrow> agg_state" where
  "run_tiers clock net target srcs [] st = st"
| "run_tiers clock net target srcs (t # ts) st =
     (let st' = run_batch clock net (in_tier srcs t) st in
      if n_offers st' \<ge> target then st' else run_tiers clock net target srcs ts st')"

fun check_benched ::
  "(nat \<Rightarrow> pyfloat) \<Rightarrow> cooldowns \<Rightarrow> nat \<Rightarrow> source_info list \<Rightarrow> string list \<times> nat" where
  \<comment> \<open>\<open>[s.name for s in configured if _benched(s.name)]\<close>, one clock reading each\<close>
  "check_benched clock cd k [] = ([], k)"
| "check_benched clock cd k (s # ss) =
     (let (names, k') = check_benched clock cd (Suc k) ss in
      (if benched_at cd (s_name s) (clock k) then s_name s # names else names, k'))"

definition start_state :: "cooldowns \<Rightarrow> nat \<Rightarrow> agg_state" where
  "start_state cd k = \<lparr>cooldown = cd, ticks = k, products = [], live = [], throttled = [],
     timed_out = [], fetched = [], asked = []\<rparr>"

definition benched_names :: "(nat \<Rightarrow> pyfloat) \<Rightarrow> cooldowns \<Rightarrow> source_info list \<Rightarrow> string list" where
  "benched_names clock cd sources = fst (check_benched clock cd 0 (filter available sources))"

definition usable :: "(nat \<Rightarrow> pyfloat) \<Rightarrow> cooldowns \<Rightarrow> source_info list \<Rightarrow> source_info list" where
  "usable clock cd sources =
     filter (\<lambda>s. s_name s \<notin> set (benched_names clock cd sources)) (filter available sources)"

definition fetch_all ::
  "(nat \<Rightarrow> pyfloat) \<Rightarrow> (source_info \<Rightarrow> outcome) \<Rightarrow> nat \<Rightarrow> source_info list \<Rightarrow> cooldowns \<Rightarrow> agg_state" where
  "fetch_all clock net target sources cd =
     (let avail = usable clock cd sources;
          firsts = filter (\<lambda>s. \<not> fallback_only s) avail;
          st0 = start_state cd (snd (check_benched clock cd 0 (filter available sources)));
          st1 = run_tiers clock net target firsts (tiers_of firsts) st0
      in if products st1 = [] then run_batch clock net (filter fallback_only avail) st1 else st1)"

record result_row =
  rr_product :: product
  fetched_at :: string
  deal_pct :: pyfloat

record agg_result =
  ar_query :: string
  sources_live :: "string list"
  ar_throttled :: "string list"
  ar_timed_out :: "string list"
  ar_benched :: "string list"
  median_price :: pyfloat
  ar_count :: nat
  results :: "result_row list"

definition aggregate ::
  "(string list \<Rightarrow> pyfloat list list) \<Rightarrow> (nat \<Rightarrow> pyfloat) \<Rightarrow> (source_info \<Rightarrow> outcome) \<Rightarrow> string \<Rightarrow>
   string \<Rightarrow> source_info list \<Rightarrow> int \<Rightarrow> nat \<Rightarrow> cooldowns \<Rightarrow> (agg_result \<times> cooldowns) option" where
  "aggregate emb clock net now_iso query sources limit target cd =
     (let st = fetch_all clock net target sources cd in
      Option.bind (dedup_by_embedding emb sim_default no_model_default
                     (dict_values (cheapest_by_key (products st))))
      (\<lambda>items.
        let median = (case py_median (map price items) of None \<Rightarrow> 0 | Some m \<Rightarrow> m);
            ranked = py_slice_to limit (sort_key price items)
        in Some (\<lparr>ar_query = query, sources_live = live st, ar_throttled = throttled st,
             ar_timed_out = timed_out st, ar_benched = benched_names clock cd sources,
             median_price = py_round 2 median, ar_count = length ranked,
             results = map (\<lambda>p. \<lparr>rr_product = p, fetched_at = dict_get_or (fetched st) p now_iso,
                deal_pct = (if median \<noteq> 0 then py_round 1 ((median - price p) / median * 100) else 0)\<rparr>)
               ranked\<rparr>, cooldown st)))"


section \<open>What one call does\<close>

lemma collect_future_asked [simp]: "asked (collect_future clock net st src) = asked st"
  by (auto simp: collect_future_def bench_now_def Let_def split: outcome.splits)

lemma foldl_collect_asked [simp]: "asked (foldl (collect_future clock net) st batch) = asked st"
  by (induction batch arbitrary: st) auto

lemma asked_run_batch [simp]: "asked (run_batch clock net batch st) = asked st @ batch"
  by (simp add: run_batch_def)

text \<open>Every offer in hand came out of a source that was asked and answered, with its time stamp.\<close>

definition offers_asked :: "(source_info \<Rightarrow> outcome) \<Rightarrow> agg_state \<Rightarrow> bool" where
  "offers_asked net st \<longleftrightarrow>
     (\<forall>p \<in> set (products st). dict_get (fetched st) p \<noteq> None)
   \<and> (\<forall>p stamp. dict_get (fetched st) p = Some stamp \<longrightarrow>
        (\<exists>s \<in> set (asked st). \<exists>found. net s = Answered found stamp \<and> p \<in> set found))"

lemma offers_asked_start [inv_intros]: "offers_asked net (start_state cd k)"
  by (simp add: offers_asked_def start_state_def)

lemma get_stamped [simp]: "dict_get (foldl (stamp_new stamp) d ps) p =
    (case dict_get d p of Some t \<Rightarrow> Some t | None \<Rightarrow> if p \<in> set ps then Some stamp else None)"
  by (induction ps arbitrary: d) (auto simp: stamp_new_def dict_has_def dict_get_def split: option.split)

lemma offers_asked_collect:
  assumes "offers_asked net st" and "src \<in> set (asked st)"
  shows "offers_asked net (collect_future clock net st src)"
proof (cases "net src")
  case (Answered found stamp)
  with assms show ?thesis unfolding offers_asked_def collect_future_def by (auto split: if_splits option.splits)
qed (use assms in \<open>simp_all add: offers_asked_def collect_future_def bench_now_def Let_def\<close>)

lemma offers_asked_foldl:
  "offers_asked net st \<Longrightarrow> set batch \<subseteq> set (asked st) \<Longrightarrow>
     offers_asked net (foldl (collect_future clock net) st batch)"
  by (induction batch arbitrary: st) (auto simp: offers_asked_collect)

lemma offers_asked_run_batch [inv_intros]:
  assumes "offers_asked net st" shows "offers_asked net (run_batch clock net batch st)"
proof -
  have "offers_asked net (st\<lparr>asked := asked st @ batch\<rparr>)"
    using assms by (fastforce simp: offers_asked_def)
  then show ?thesis using assms by (auto simp: run_batch_def intro: offers_asked_foldl)
qed

lemma offers_asked_run_tiers [inv_intros]:
  "offers_asked net st \<Longrightarrow> offers_asked net (run_tiers clock net target srcs ts st)"
  by (induction ts arbitrary: st) (auto simp: Let_def intro: inv_intros)

lemma offers_asked_fetch_all: "offers_asked net (fetch_all clock net target sources cd)"
  by (auto simp: fetch_all_def Let_def intro: inv_intros)

text \<open>How far the escalation goes.\<close>

definition run_batches ::
  "(nat \<Rightarrow> pyfloat) \<Rightarrow> (source_info \<Rightarrow> outcome) \<Rightarrow> source_info list list \<Rightarrow> agg_state \<Rightarrow> agg_state" where
  "run_batches clock net bs st = foldl (\<lambda>st b. run_batch clock net b st) st bs"

lemma asked_run_batches [simp]: "asked (run_batches clock net bs st) = asked st @ concat bs"
  by (induction bs arbitrary: st) (simp_all add: run_batches_def)

lemma run_tiers_stops:
  "\<exists>k \<le> length ts. run_tiers clock net target srcs ts st
       = run_batches clock net (map (in_tier srcs) (take k ts)) st
     \<and> (k < length ts \<longrightarrow> target \<le> n_offers (run_tiers clock net target srcs ts st))
     \<and> (\<forall>j. 0 < j \<and> j < k \<longrightarrow> n_offers (run_batches clock net (map (in_tier srcs) (take j ts)) st) < target)"
proof (induction ts arbitrary: st)
  case Nil
  then show ?case by (simp add: run_batches_def)
next
  case (Cons t ts)
  let ?st' = "run_batch clock net (in_tier srcs t) st"
  show ?case
  proof (cases "n_offers ?st' \<ge> target")
    case True
    then show ?thesis
      by (intro exI [of _ 1]) (simp add: run_batches_def)
  next
    case False
    from Cons.IH [of ?st'] obtain k where k: "k \<le> length ts"
      "run_tiers clock net target srcs ts ?st' = run_batches clock net (map (in_tier srcs) (take k ts)) ?st'"
      "k < length ts \<longrightarrow> target \<le> n_offers (run_tiers clock net target srcs ts ?st')"
      "\<And>j. 0 < j \<Longrightarrow> j < k \<Longrightarrow> n_offers (run_batches clock net (map (in_tier srcs) (take j ts)) ?st') < target"
      by blast
    have "n_offers (run_batches clock net (map (in_tier srcs) (take j (t # ts))) st) < target"
      if "0 < j" "j < Suc k" for j
    proof (cases "j = 1")
      case True
      with False show ?thesis by (simp add: run_batches_def)
    next
      case ne: False
      with that have "n_offers (run_batches clock net (map (in_tier srcs) (take (j - 1) ts)) ?st') < target"
        by (intro k(4)) auto
      with that show ?thesis by (cases j) (simp_all add: run_batches_def)
    qed
    with False k(1-3) show ?thesis
      by (intro exI [of _ "Suc k"]) (auto simp: run_batches_def Let_def)
  qed
qed

lemma products_mono_collect:
  "products st \<noteq> [] \<Longrightarrow> products (collect_future clock net st src) \<noteq> []"
  by (auto simp: collect_future_def bench_now_def Let_def split: outcome.splits)

text \<open>The breaker's part: who is benched, until when.\<close>

definition tripped :: "(nat \<Rightarrow> pyfloat) \<Rightarrow> agg_state \<Rightarrow> bool" where
  "tripped clock st \<longleftrightarrow> set (timed_out st) \<subseteq> set (throttled st)
     \<and> (\<forall>n \<in> set (throttled st). \<exists>k < ticks st. dict_get (cooldown st) n = Some (clock k + COOLDOWN_SECONDS))"

lemma tripped_start [inv_intros]: "tripped clock (start_state cd k)"
  by (simp add: tripped_def start_state_def)

lemma tripped_collect [inv_intros]:
  "tripped clock st \<Longrightarrow> tripped clock (collect_future clock net st src)"
  unfolding tripped_def collect_future_def bench_now_def bench_def
  by (fastforce simp: Let_def less_Suc_eq split: outcome.splits)

lemma tripped_foldl [inv_intros]:
  "tripped clock st \<Longrightarrow> tripped clock (foldl (collect_future clock net) st batch)"
  by (induction batch arbitrary: st) (auto intro: inv_intros)

lemma tripped_run_batch [inv_intros]:
  "tripped clock st \<Longrightarrow> tripped clock (run_batch clock net batch st)"
  using tripped_foldl [of clock "st\<lparr>asked := asked st @ batch\<rparr>"]
  by (auto simp: run_batch_def) (simp add: tripped_def)

lemma tripped_run_tiers [inv_intros]:
  "tripped clock st \<Longrightarrow> tripped clock (run_tiers clock net target srcs ts st)"
  by (induction ts arbitrary: st) (auto simp: Let_def intro: inv_intros)

lemma tripped_fetch_all: "tripped clock (fetch_all clock net target sources cd)"
  by (auto simp: fetch_all_def Let_def intro: inv_intros)

lemma check_benched_in:
  "s \<in> set ss \<Longrightarrow> \<forall>j. benched_at cd (s_name s) (clock j) \<Longrightarrow> s_name s \<in> set (fst (check_benched clock cd k ss))"
proof (induction ss arbitrary: k)
  case (Cons a ss)
  from Cons.IH [of "Suc k"] Cons.prems show ?case by (auto split: prod.splits)
qed simp

lemma check_benched_sound:
  "n \<in> set (fst (check_benched clock cd k ss)) \<Longrightarrow> \<exists>j. benched_at cd n (clock j)"
proof (induction ss arbitrary: k)
  case (Cons a ss)
  from Cons.IH [of "Suc k"] Cons.prems show ?case by (auto split: prod.splits if_splits)
qed simp

lemma usable_sub: "set (usable clock cd sources) \<subseteq> {s \<in> set sources. available s}"
  by (auto simp: usable_def)

lemma distinct_tiers: "distinct ts \<Longrightarrow> distinct (map f srcs) \<Longrightarrow>
    distinct (map f (concat (map (in_tier srcs) ts)))"
proof (induction ts)
  case (Cons t ts)
  have "set (in_tier srcs t) \<inter> set (concat (map (in_tier srcs) ts)) = {}"
    using Cons.prems(1) by (auto simp: in_tier_def)
  with Cons show ?case
    by (auto simp: distinct_map in_tier_def inj_on_def) 
qed simp

definition reals :: "(nat \<Rightarrow> pyfloat) \<Rightarrow> cooldowns \<Rightarrow> source_info list \<Rightarrow> source_info list" where
  "reals clock cd sources = filter (\<lambda>s. \<not> fallback_only s) (usable clock cd sources)"

definition fresh_state :: "(nat \<Rightarrow> pyfloat) \<Rightarrow> cooldowns \<Rightarrow> source_info list \<Rightarrow> agg_state" where
  "fresh_state clock cd sources = start_state cd (snd (check_benched clock cd 0 (filter available sources)))"

definition lower_tiers ::
  "(nat \<Rightarrow> pyfloat) \<Rightarrow> (source_info \<Rightarrow> outcome) \<Rightarrow> source_info list \<Rightarrow> cooldowns \<Rightarrow> nat \<Rightarrow> agg_state" where
  \<comment> \<open>the state once the cheapest \<open>j\<close> tiers have been asked\<close>
  "lower_tiers clock net sources cd j =
     run_batches clock net (map (in_tier (reals clock cd sources)) (take j (tiers_of (reals clock cd sources))))
       (fresh_state clock cd sources)"

lemma fetch_all_eq: "fetch_all clock net target sources cd =
    (let st1 = run_tiers clock net target (reals clock cd sources) (tiers_of (reals clock cd sources))
                 (fresh_state clock cd sources)
     in if products st1 = [] then run_batch clock net (filter fallback_only (usable clock cd sources)) st1 else st1)"
  by (simp add: fetch_all_def reals_def fresh_state_def Let_def)

lemma fetch_all_tiers:
  "\<exists>k \<le> length (tiers_of (reals clock cd sources)).
     (k < length (tiers_of (reals clock cd sources)) \<longrightarrow> target \<le> n_offers (lower_tiers clock net sources cd k))
   \<and> (\<forall>j. 0 < j \<and> j < k \<longrightarrow> n_offers (lower_tiers clock net sources cd j) < target)
   \<and> fetch_all clock net target sources cd =
       (let st = lower_tiers clock net sources cd k in
        if products st = [] then run_batch clock net (filter fallback_only (usable clock cd sources)) st
        else st)"
  using run_tiers_stops [of "tiers_of (reals clock cd sources)" clock net target "reals clock cd sources"
      "fresh_state clock cd sources"]
  by (auto simp: fetch_all_eq lower_tiers_def)

lemma asked_fetch_all:
  "\<exists>k. asked (fetch_all clock net target sources cd) =
     concat (map (in_tier (reals clock cd sources)) (take k (tiers_of (reals clock cd sources))))
   \<or> asked (fetch_all clock net target sources cd) =
     concat (map (in_tier (reals clock cd sources)) (take k (tiers_of (reals clock cd sources))))
       @ filter fallback_only (usable clock cd sources)"
proof -
  obtain k where k: "fetch_all clock net target sources cd =
       (let st = lower_tiers clock net sources cd k in
        if products st = [] then run_batch clock net (filter fallback_only (usable clock cd sources)) st
        else st)"
    using fetch_all_tiers [of clock cd sources target net] by blast
  have "asked (lower_tiers clock net sources cd k) =
      concat (map (in_tier (reals clock cd sources)) (take k (tiers_of (reals clock cd sources))))"
    by (simp add: lower_tiers_def fresh_state_def start_state_def)
  with k show ?thesis by (intro exI [of _ k]) (simp add: Let_def)
qed

lemma asked_fetch_all_usable:
  "set (asked (fetch_all clock net target sources cd)) \<subseteq> set (usable clock cd sources)"
  using asked_fetch_all [of clock net target sources cd] by (auto simp: reals_def in_tier_def)

lemma distinct_asked:
  assumes "distinct (map s_name sources)"
  shows "distinct (map s_name (asked (fetch_all clock net target sources cd)))"
proof -
  let ?us = "usable clock cd sources" and ?rs = "reals clock cd sources"
  have us: "distinct (map s_name ?us)" "distinct (map s_name ?rs)"
    using assms by (simp_all add: usable_def reals_def distinct_map_filter)
  have ts: "distinct (take k (tiers_of ?rs))" for k by (simp add: tiers_of_def)
  have tier: "distinct (map s_name (concat (map (in_tier ?rs) (take k (tiers_of ?rs)))))" for k
    by (rule distinct_tiers [OF ts us(2)])
  have sub: "set (concat (map (in_tier ?rs) (take k (tiers_of ?rs)))) \<subseteq> {s \<in> set ?us. \<not> fallback_only s}" for k
    by (auto simp: reals_def in_tier_def)
  have "distinct (map s_name (concat (map (in_tier ?rs) (take k (tiers_of ?rs))) @ filter fallback_only ?us))" for k
  proof -
    have "x = y" if "x \<in> set ?us" "y \<in> set ?us" "s_name x = s_name y" for x y
      using us(1) that by (auto simp: distinct_map dest: inj_onD)
    with sub [of k] tier [of k] us(1) show ?thesis
      by (fastforce simp: distinct_map_filter simp del: set_concat map_map)
  qed
  with tier asked_fetch_all [of clock net target sources cd] show ?thesis by fastforce
qed


text \<open>The two merging passes keep, for every offer, one that is at most as dear.\<close>

lemma merged_items:
  "\<exists>items. dedup_by_embedding emb st nt (dict_values (cheapest_by_key ps)) = Some items
     \<and> distinct (map dedup_key items) \<and> set items \<subseteq> set ps
     \<and> (\<forall>p \<in> set ps. \<exists>q \<in> set items. price q \<le> price p)"
proof -
  let ?best = "dict_values (cheapest_by_key ps)"
  note m = merged_values [OF merged_cheapest_by_key [of ps]]
  obtain ks where ks: "dedup_by_embedding emb st nt ?best = Some (map ((!) ?best) ks)"
      "distinct ks" "set ks \<subseteq> {..<length ?best}"
      "\<And>i. i < length ?best \<Longrightarrow> \<exists>k \<in> set ks. price (?best ! k) \<le> price (?best ! i)"
    using dedup_by_embedding_keeps [of emb st nt ?best] by blast
  have "\<exists>q \<in> set (map ((!) ?best) ks). price q \<le> price p" if p: "p \<in> set ps" for p
  proof -
    obtain q where q: "q \<in> set ?best" "price q \<le> price p" using m(3) [OF p] by blast
    then obtain i where "i < length ?best" "q = ?best ! i" by (auto simp: in_set_conv_nth)
    with ks(4) [of i] obtain k where "k \<in> set ks" "price (?best ! k) \<le> price q" by blast
    with q(2) show ?thesis by (intro bexI [of _ "?best ! k"]) auto
  qed
  moreover have "set (map ((!) ?best) ks) \<subseteq> set ps" using ks(3) m(2) by (auto simp: subset_iff)
  ultimately show ?thesis using ks(1) distinct_map_nth [OF m(1) ks(2,3)] by blast
qed

section \<open>Properties\<close>

text \<open>C5: Escalation. For some \<open>k\<close>, exactly the cheapest \<open>k\<close> tiers of the usable ordinary sources were
  asked, tier by tier in ascending order; every shorter escalation had left fewer than \<open>target\<close>
  offers in hand, and stopping before the last tier means that the target was reached. The fallback
  sources are asked after them, and only when the tiers found nothing at all.\<close>

theorem escalation_is_minimal:
  "sorted_wrt (<) (tiers_of (reals clock cd sources)) \<and>
   (\<exists>k \<le> length (tiers_of (reals clock cd sources)).
     (k < length (tiers_of (reals clock cd sources)) \<longrightarrow> target \<le> n_offers (lower_tiers clock net sources cd k))
   \<and> (\<forall>j. 0 < j \<and> j < k \<longrightarrow> n_offers (lower_tiers clock net sources cd j) < target)
   \<and> fetch_all clock net target sources cd =
       (let st = lower_tiers clock net sources cd k in
        if products st = [] then run_batch clock net (filter fallback_only (usable clock cd sources)) st
        else st))"
  using fetch_all_tiers [of clock cd sources target net]
  by (simp add: tiers_of_def strict_sorted_iff)

theorem escalation_is_minimal_witness:
  "\<exists>k \<le> length (tiers_of (reals (\<lambda>_. 0) [] [\<lparr>s_name = ''a'', tier = 1, fallback_only = False, available = True\<rparr>])).
     fetch_all (\<lambda>_. 0) (\<lambda>_. Raised) 12 [\<lparr>s_name = ''a'', tier = 1, fallback_only = False, available = True\<rparr>] [] =
       (let st = lower_tiers (\<lambda>_. 0) (\<lambda>_. Raised)
          [\<lparr>s_name = ''a'', tier = 1, fallback_only = False, available = True\<rparr>] [] k in
        if products st = [] then run_batch (\<lambda>_. 0) (\<lambda>_. Raised) (filter fallback_only (usable (\<lambda>_. 0) []
          [\<lparr>s_name = ''a'', tier = 1, fallback_only = False, available = True\<rparr>])) st
        else st)"
  using escalation_is_minimal [of "\<lambda>_. 0" "[]"
      "[\<lparr>s_name = ''a'', tier = 1, fallback_only = False, available = True\<rparr>]" 12 "\<lambda>_. Raised"]
  by blast

text \<open>No source is hammered. With distinctly named sources, one call starts the search of a source
  at most once, and only of sources that are configured and were not cooling down when asked.\<close>

theorem asked_at_most_once:
  assumes "distinct (map s_name sources)"
  shows "distinct (map s_name (asked (fetch_all clock net target sources cd)))
    \<and> (\<forall>s \<in> set (asked (fetch_all clock net target sources cd)). s \<in> set sources \<and> available s
         \<and> s_name s \<notin> set (benched_names clock cd sources)
         \<and> (\<exists>j. \<not> benched_at cd (s_name s) (clock j)))"
proof -
  have "\<exists>j. \<not> benched_at cd (s_name s) (clock j)"
    if "s \<in> set (asked (fetch_all clock net target sources cd))" for s
    using that asked_fetch_all_usable [of clock net target sources cd]
      check_benched_in [of s "filter available sources" cd clock 0]
    by (auto simp: usable_def benched_names_def)
  with distinct_asked [OF assms] asked_fetch_all_usable [of clock net target sources cd]
  show ?thesis by (auto simp: usable_def)
qed

theorem asked_at_most_once_witness:
  "distinct (map s_name (asked (fetch_all (\<lambda>_. 5) (\<lambda>_. Raised) 12
     [\<lparr>s_name = ''a'', tier = 1, fallback_only = False, available = True\<rparr>,
      \<lparr>s_name = ''b'', tier = 2, fallback_only = True, available = True\<rparr>] [(''a'', 7)])))"
  using asked_at_most_once [of "[\<lparr>s_name = ''a'', tier = 1, fallback_only = False, available = True\<rparr>,
      \<lparr>s_name = ''b'', tier = 2, fallback_only = True, available = True\<rparr>]" "\<lambda>_. 5" "\<lambda>_. Raised" 12 "[(''a'', 7)]"]
  by simp

text \<open>The circuit breaker. A source reported as throttled by one call (it raised or missed the
  deadline) is not asked again by a later call on the same breaker state all of whose clock readings
  lie within the cooldown of 90 seconds after the first call began.\<close>

theorem benched_source_is_skipped:
  assumes "mono clock"
    and "n \<in> set (throttled (fetch_all clock net target sources cd))"
    and "\<forall>j. clock' j < clock 0 + COOLDOWN_SECONDS"
  shows "n \<notin> s_name ` set (asked (fetch_all clock' net' target' sources'
           (cooldown (fetch_all clock net target sources cd))))"
proof
  let ?cd = "cooldown (fetch_all clock net target sources cd)"
  assume "n \<in> s_name ` set (asked (fetch_all clock' net' target' sources' ?cd))"
  then obtain s where s: "s \<in> set (filter available sources')" "s_name s = n"
      "n \<notin> set (benched_names clock' ?cd sources')"
    using asked_fetch_all_usable [of clock' net' target' sources' ?cd] by (auto simp: usable_def)
  obtain k where "dict_get ?cd n = Some (clock k + COOLDOWN_SECONDS)"
    using tripped_fetch_all [of clock net target sources cd] assms(2) by (auto simp: tripped_def)
  moreover have "clock 0 \<le> clock k" using assms(1) by (simp add: mono_def)
  ultimately have "benched_at ?cd n (clock' j)" for j
    using spec [OF assms(3), of j] by (auto simp: benched_at_def dict_get_or_def dict_get_def)
  with check_benched_in [OF s(1)] s(2,3) show False by (auto simp: benched_names_def)
qed

theorem benched_source_is_skipped_witness:
  "''a'' \<notin> s_name ` set (asked (fetch_all (\<lambda>_. 60) (\<lambda>_. Raised) 12
     [\<lparr>s_name = ''a'', tier = 1, fallback_only = False, available = True\<rparr>]
     (cooldown (fetch_all (\<lambda>_. 5) (\<lambda>_. Raised) 12
        [\<lparr>s_name = ''a'', tier = 1, fallback_only = False, available = True\<rparr>] []))))"
  by (rule benched_source_is_skipped)
    (simp_all add: mono_def COOLDOWN_SECONDS_def fetch_all_def usable_def benched_names_def benched_at_def
      start_state_def tiers_of_def py_dedupe_def in_tier_def run_batch_def collect_future_def
      bench_now_def bench_def dict_get_or_def n_offers_def Let_def)

text \<open>The answer. A search always returns. Its rows are sorted by price, have distinct keys, are at
  most \<open>limit\<close> many, and each row is an offer that an asked source answered with, under the time stamp
  of that answer. The first row is at most as dear as every offer any source returned.\<close>

theorem aggregate_answer:
  assumes "0 < limit"
  shows "\<exists>r. aggregate emb clock net now_iso query sources limit target cd =
           Some (r, cooldown (fetch_all clock net target sources cd))
    \<and> sorted (map (price \<circ> rr_product) (results r))
    \<and> distinct (map (dedup_key \<circ> rr_product) (results r))
    \<and> ar_count r = length (results r) \<and> int (length (results r)) \<le> limit
    \<and> (\<forall>row \<in> set (results r). \<exists>s \<in> set (asked (fetch_all clock net target sources cd)).
         \<exists>found. net s = Answered found (fetched_at row) \<and> rr_product row \<in> set found)
    \<and> (\<forall>p \<in> set (products (fetch_all clock net target sources cd)).
         results r \<noteq> [] \<and> price (rr_product (hd (results r))) \<le> price p)"
proof -
  let ?st = "fetch_all clock net target sources cd"
  obtain items where items: "dedup_by_embedding emb sim_default no_model_default
        (dict_values (cheapest_by_key (products ?st))) = Some items"
      "distinct (map dedup_key items)" "set items \<subseteq> set (products ?st)"
      "\<And>p. p \<in> set (products ?st) \<Longrightarrow> \<exists>q \<in> set items. price q \<le> price p"
    using merged_items [of emb sim_default no_model_default "products ?st"] by blast
  note rk = ranked_slice [OF assms, where f = price and xs = items]
  have stamp: "\<exists>s \<in> set (asked ?st). \<exists>found. net s = Answered found (dict_get_or (fetched ?st) p now_iso)
      \<and> p \<in> set found" if "p \<in> set (products ?st)" for p
    using that offers_asked_fetch_all [of net clock target sources cd]
    by (fastforce simp: offers_asked_def dict_get_or_def dict_get_def)
  have "py_slice_to limit (sort_key price items) \<noteq> []
      \<and> price (hd (py_slice_to limit (sort_key price items))) \<le> price p" if "p \<in> set (products ?st)" for p
    using items(4) [OF that] rk(5) order_trans by blast
  with items(1,3) rk(1,2,4) rk(3) [OF items(2)] stamp show ?thesis
    by (simp add: aggregate_def Let_def comp_def hd_map subset_iff)
qed

theorem aggregate_answer_witness:
  "\<exists>r. aggregate (map (\<lambda>_. [1])) (\<lambda>_. 0) (\<lambda>_. Answered [mk_product ''1'' ''tv'' None ''x'' 9 ''u'' ''a''] ''t'')
      ''now'' ''tv'' [\<lparr>s_name = ''a'', tier = 1, fallback_only = False, available = True\<rparr>] 24 12 [] = Some r"
  using aggregate_answer [of 24 "map (\<lambda>_. [1])" "\<lambda>_. 0"
      "\<lambda>_. Answered [mk_product ''1'' ''tv'' None ''x'' 9 ''u'' ''a''] ''t''" "''now''" "''tv''"
      "[\<lparr>s_name = ''a'', tier = 1, fallback_only = False, available = True\<rparr>]" 12 "[]"]
  by auto

end
