(* ===== verification/Features.thy ===== *)
theory Features
  imports Schema
begin

text \<open>
  The text side of the price model and of the agent: \<open>dealfinder/features.py\<close> (the numeric feature
  vector), \<open>dealfinder/extract.py\<close> (typed specs out of a free-text listing) and \<open>nl_to_sql\<close> of
  \<open>dealfinder/tools.py\<close>. The patterns are the source's regular expressions, written with the
  constructors of \<open>PyStr\<close>; \<open>ci s\<close> is the case-insensitive literal. Product titles are ASCII here. The
  prompts and the parsing of a model's reply are in \<open>Llm_Extract\<close>.
\<close>

definition ci :: "string \<Rightarrow> rx" where "ci s = stri s"
definition osp :: rx where "osp = opt (lit CHR '' '')"
definition maybe :: "string \<Rightarrow> rx" where "maybe s = opt (ci s)"
definition whole :: "rx \<Rightarrow> rx" where "whole r = seqs [Bound, r, Bound]"

section \<open>Categories\<close>

definition CATEGORY_CODES :: "(string, int) dict" where
  "CATEGORY_CODES = [(''accessories'', 0), (''peripherals'', 1), (''storage'', 2), (''audio'', 3),
     (''smart-home'', 4), (''wearables'', 5), (''mobile'', 6), (''components'', 7),
     (''displays'', 8), (''computers'', 9), (''misc'', 10)]"

definition KNOWN_CATEGORIES :: "string list" where "KNOWN_CATEGORIES = dict_keys CATEGORY_CODES"

definition category_code :: "string \<Rightarrow> int" where
  "category_code c = dict_get_or CATEGORY_CODES (py_lower (py_strip c)) (dict_get_or CATEGORY_CODES ''misc'' 0)"

definition CATEGORY_PATTERNS :: "(string \<times> rx) list" where
  "CATEGORY_PATTERNS =
     [(''audio'', alts (seqs [ci ''head'', osp, ci ''phone'', maybe ''s''])
         [seqs [ci ''earbud'', maybe ''s''], seqs [ci ''ear'', osp, ci ''bud'', maybe ''s''], ci ''speaker'',
          ci ''soundbar'', ci ''sound bar'', ci ''airpods'']),
      (''peripherals'', alts (ci ''keyboard'') [ci ''mouse'', ci ''webcam'', ci ''mousepad'', ci ''mouse pad'']),
      (''storage'', alts (whole (ci ''ssd'')) [ci ''hard drive'', ci ''hdd'', seqs [ci ''micro'', osp, ci ''sd''],
          ci ''memory card'', ci ''flash drive'']),
      (''displays'', alts (ci ''monitor'') [ci ''display'', seqs [plus rdigit, ci ''k'', Bound]]),
      (''computers'', alts (ci ''laptop'') [ci ''desktop'', ci ''chromebook'', whole (ci ''pc''), ci ''mini pc'']),
      (''mobile'', alts (ci ''tablet'') [ci ''kindle'', seqs [ci ''e'', maybe ''-'', ci ''reader''],
          ci ''smartphone'', whole (ci ''phone'')]),
      (''wearables'', alts (ci ''watch'') [ci ''smartwatch'',
          seqs [ci ''fitness '', alts (ci ''band'') [ci ''tracker'']], whole (ci ''band'')]),
      (''smart-home'', alts (ci ''vacuum'') [ci ''security camera'',
          seqs [ci ''smart '', alts (ci ''plug'') [ci ''bulb'', ci ''home'']], ci ''doorbell'', ci ''thermostat'']),
      (''components'', alts (ci ''graphics card'') [whole (ci ''gpu''), whole (ci ''rtx''), whole (ci ''cpu''),
          ci ''processor'', ci ''motherboard'', whole (ci ''ram'')]),
      (''accessories'', alts (ci ''hub'') [ci ''adapter'', ci ''cable'', ci ''charger'', ci ''power bank'',
          ci ''dock'', ci ''case'', ci ''mount''])]"

definition guess_category :: "string \<Rightarrow> string option" where
  "guess_category text = map_option fst (find (\<lambda>(cat, pat). rx_found pat text) CATEGORY_PATTERNS)"

section \<open>Brands\<close>

definition KNOWN_BRANDS :: "string list" where
  "KNOWN_BRANDS =
     [''Amazon Basics'', ''Google Nest'', ''Ultimate Ears'', ''Western Digital'',
      ''Anker'', ''Soundcore'', ''Bose'', ''Sony'', ''JBL'', ''Samsung'', ''Logitech'', ''Razer'',
      ''Acer'', ''ASUS'', ''Apple'', ''Beats'', ''Skullcandy'', ''Sennheiser'', ''Keychron'',
      ''Glorious'', ''SteelSeries'', ''Corsair'', ''HyperX'', ''Dell'', ''HP'', ''Lenovo'', ''MSI'',
      ''LG'', ''Google'', ''Kindle'', ''Amazon'', ''PNY'', ''SanDisk'', ''Seagate'', ''WD'',
      ''Crucial'', ''Kingston'', ''JLab'', ''Onn'', ''LINSAY'', ''Shark'', ''Blink'', ''Roku'',
      ''TP-Link'', ''Wyze'', ''Ring'', ''Echo'', ''Cowin'', ''Marshall'', ''Sonos'', ''Nintendo'',
      ''Microsoft'', ''Intel'', ''AMD'', ''NVIDIA'', ''Netgear'', ''Belkin'', ''Yubico'',
      ''Fitbit'', ''Garmin'', ''Motorola'']"

definition BRAND_LIST :: "string list" where
  \<comment> \<open>longest first, the order of the table among equals\<close>
  "BRAND_LIST = sort_key (\<lambda>b. - int (length b)) (py_dedupe KNOWN_BRANDS)"

definition BRAND_TIER :: "(string, int) dict" where
  "BRAND_TIER =
     map (\<lambda>b. (b, 4)) [''Apple'', ''Sony'', ''Bose'', ''Sonos'', ''Sennheiser'', ''Garmin''] @
     map (\<lambda>b. (b, 3)) [''Samsung'', ''LG'', ''Dell'', ''Lenovo'', ''HP'', ''ASUS'', ''Acer'', ''MSI'',
       ''Logitech'', ''Razer'', ''Beats'', ''JBL'', ''Marshall'', ''Google'', ''Google Nest'', ''Nest'',
       ''Microsoft'', ''Nintendo'', ''Ultimate Ears'', ''SteelSeries'', ''Corsair'', ''HyperX'', ''Fitbit''] @
     map (\<lambda>b. (b, 2)) [''Anker'', ''Soundcore'', ''JLab'', ''Skullcandy'', ''Keychron'', ''Glorious'',
       ''TP-Link'', ''Wyze'', ''Ring'', ''Blink'', ''Roku'', ''SanDisk'', ''Seagate'', ''Western Digital'',
       ''WD'', ''Crucial'', ''Kingston'', ''PNY'', ''Shark'', ''Netgear'', ''Belkin'', ''Motorola'',
       ''Cowin'', ''Amazon Basics'', ''Amazon'', ''Kindle'', ''Echo''] @
     map (\<lambda>b. (b, 1)) [''Onn'', ''LINSAY'']"

definition DEFAULT_BRAND_TIER :: int where "DEFAULT_BRAND_TIER = 1"

definition title_brand :: "string \<Rightarrow> string option" where
  "title_brand t =
     (if t = [] then None
      else case find (\<lambda>b. rx_found (whole (ci b)) t) BRAND_LIST of
        Some b \<Rightarrow> Some b
      | None \<Rightarrow>
          (let first = (case py_words (py_strip t) of [] \<Rightarrow> [] | f # _ \<Rightarrow> py_strip_chars ''.,'' f) in
           if first \<noteq> [] \<and> is_alpha (hd first) \<and> is_upper (hd first) \<and> length first > 1
           then Some first else None))"

definition brand_tier :: "string \<Rightarrow> int" where
  "brand_tier t =
     dict_get_or BRAND_TIER (case title_brand t of None \<Rightarrow> '''' | Some b \<Rightarrow> b) DEFAULT_BRAND_TIER"

section \<open>Condition\<close>

definition CONDITION_CODES :: "(string, int) dict" where
  "CONDITION_CODES = [(''new'', 2), (''refurb'', 1), (''used'', 0)]"

definition dash_or_space :: rx where "dash_or_space = opt (Cls (\<lambda>c. is_space c \<or> c = CHR ''-''))"

definition REFURB_RE :: rx where
  "REFURB_RE = whole (Grp (alts (seqs [ci ''refurb'', maybe ''ished'']) [seqs [ci ''renew'', maybe ''ed''],
     ci ''recertified'', seqs [ci ''open'', dash_or_space, ci ''box'']]))"

definition USED_RE :: rx where
  "USED_RE = whole (Grp (alts (ci ''used'') [seqs [ci ''pre'', dash_or_space, ci ''owned''], ci ''preowned'',
     seqs [ci ''second'', dash_or_space, ci ''hand'']]))"

definition parse_condition :: "string \<Rightarrow> string" where
  "parse_condition t =
     (if t = [] then ''new'' else if rx_found REFURB_RE t then ''refurb''
      else if rx_found USED_RE t then ''used'' else ''new'')"

definition condition_code :: "string \<Rightarrow> int" where
  "condition_code c =
     dict_get_or CONDITION_CODES (py_lower (py_strip (if c = [] then ''new'' else c)))
       (dict_get_or CONDITION_CODES ''new'' 0)"

definition featurize :: "product \<Rightarrow> int list" where
  "featurize p =
     (let cond = (if condition p \<noteq> [] then condition p else parse_condition (title p)) in
      [category_code (category p), brand_tier (title p), condition_code cond])"

definition feature_matrix :: "product list \<Rightarrow> int list list" where
  "feature_matrix ps = map featurize ps"

section \<open>Extraction\<close>

record listing_specs =
  ls_brand :: "string option"
  ls_category :: "string option"
  ls_condition :: string
  ls_model :: "string option"

definition is_alnum :: "char \<Rightarrow> bool" where "is_alnum c \<longleftrightarrow> is_alpha c \<or> is_digit c"

definition MODEL_RE :: rx where
  "MODEL_RE = whole (Grp (Cat (plus (Cls is_alnum)) (Star (Cat (lit CHR ''-'') (plus (Cls is_alnum))))))"

definition MEASURE_RE :: rx where
  "MEASURE_RE = seqs [plus rdigit, opt (Cat (lit CHR ''.'') (plus rdigit)), maybe ''-'',
     alts (ci ''inch'') [ci ''in'', ci ''tb'', ci ''gb'', ci ''mb'', ci ''k'', ci ''hz'', ci ''mah'', ci ''w'',
       ci ''wh'', ci ''mm'', ci ''cm''], AtEnd]"

definition model_step :: "string option \<Rightarrow> string \<Rightarrow> string option" where
  "model_step best tok =
     (if \<not> ((\<exists>c \<in> set tok. is_digit c) \<and> (\<exists>c \<in> set tok. is_alpha c)) then best
      else if rx_at MEASURE_RE None tok \<noteq> None then best
      else case best of None \<Rightarrow> Some tok | Some b \<Rightarrow> if length tok > length b then Some tok else best)"

definition guess_model :: "string \<Rightarrow> string option" where
  \<comment> \<open>a pattern with one group: \<open>findall\<close> returns the group, which here is the whole match\<close>
  "guess_model text = foldl model_step None (rx_findall MODEL_RE text)"

definition rule_extract :: "string \<Rightarrow> listing_specs" where
  "rule_extract text = \<lparr>ls_brand = title_brand text, ls_category = guess_category text,
     ls_condition = parse_condition text, ls_model = guess_model text\<rparr>"

text \<open>
  \<open>llm_extract\<close> tries the fine-tuned adapter, an explicit client, then OpenRouter. Each of the
  first and third may fail (\<open>None\<close>, any exception) and falls through; the explicit client's reply is
  parsed without a safety net, so a reply outside the schema is an error (\<open>Inl\<close>).
\<close>

definition llm_extract ::
  "(string \<Rightarrow> listing_specs option) option \<Rightarrow> (string \<Rightarrow> string + listing_specs) option \<Rightarrow>
   (string \<Rightarrow> listing_specs option) option \<Rightarrow> string \<Rightarrow> string + listing_specs" where
  "llm_extract adapter client openrouter text =
     (case Option.bind adapter (\<lambda>f. f text) of
        Some ls \<Rightarrow> Inr ls
      | None \<Rightarrow>
          (case client of
             Some c \<Rightarrow> c text
           | None \<Rightarrow>
               (case Option.bind openrouter (\<lambda>f. f text) of
                  Some ls \<Rightarrow> Inr ls
                | None \<Rightarrow> Inr (rule_extract text))))"

section \<open>Text to SQL\<close>

definition CONDITION_WORDS :: "(string, string) dict" where
  "CONDITION_WORDS = [(''new'', ''new''), (''refurb'', ''refurb''), (''refurbished'', ''refurb''),
     (''renewed'', ''refurb''), (''open box'', ''refurb''), (''used'', ''used'')]"

definition TYPE_WORDS :: "string list" where
  "TYPE_WORDS = [''headphone'', ''earbud'', ''speaker'', ''soundbar'', ''keyboard'', ''mouse'',
     ''monitor'', ''laptop'', ''tablet'', ''watch'', ''webcam'']"

definition price_re :: "string \<Rightarrow> rx" where
  "price_re word = seqs [str word, lit CHR '' '', opt (lit CHR ''$''), Grp (plus rdigit)]"

definition quote :: char where "quote = CHR 0x27"

definition clause :: "string \<Rightarrow> string option \<Rightarrow> string \<Rightarrow> string list" where
  \<comment> \<open>\<open>if v: clauses.append(pre + v + post)\<close>\<close>
  "clause pre v post = (case v of None \<Rightarrow> [] | Some x \<Rightarrow> if x = [] then [] else [pre @ x @ post])"

definition sql_category :: "string \<Rightarrow> string option" where
  "sql_category question =
     (case find (\<lambda>c. c \<noteq> ''misc'' \<and> py_in c (py_lower question)) KNOWN_CATEGORIES of
        Some c \<Rightarrow> Some c | None \<Rightarrow> guess_category question)"

definition sql_condition :: "string \<Rightarrow> string option" where
  "sql_condition question =
     map_option snd (find (\<lambda>(k, v). py_in k (py_lower question)) CONDITION_WORDS)"

definition sql_brand :: "string \<Rightarrow> string option" where
  "sql_brand question = (case title_brand question of None \<Rightarrow> None
     | Some b \<Rightarrow> if b \<in> set BRAND_LIST then Some b else None)"

definition sql_clauses :: "string \<Rightarrow> string list" where
  "sql_clauses question =
     (let q = py_lower question in
      clause ''price < '' (rx_group (price_re ''under'') q) [] @
      clause ''price > '' (rx_group (price_re ''over'') q) [] @
      clause (''category = '' @ [quote]) (sql_category question) [quote] @
      clause (''condition = '' @ [quote]) (sql_condition question) [quote] @
      clause (''title LIKE '' @ quote # ''%'') (sql_brand question) (''%'' @ [quote]) @
      clause (''title LIKE '' @ quote # ''%'') (find (\<lambda>kw. py_in kw q) TYPE_WORDS) (''%'' @ [quote]))"

definition nl_to_sql :: "string \<Rightarrow> string \<Rightarrow> string" where
  "nl_to_sql question table =
     ''SELECT * FROM '' @ table @ '' WHERE '' @
     (if sql_clauses question = [] then ''1=1'' else py_join '' AND '' (sql_clauses question))"

section \<open>Vocabulary lemmas\<close>

lemma find_in: "find P xs = Some x \<Longrightarrow> x \<in> set xs \<and> P x"
  by (auto simp: find_Some_iff in_set_conv_nth)

lemma guess_category_known: "guess_category t = Some c \<Longrightarrow> c \<in> set (map fst CATEGORY_PATTERNS)"
  by (force simp: guess_category_def dest!: find_in)

lemma pattern_categories: "map fst CATEGORY_PATTERNS = [''audio'', ''peripherals'', ''storage'', ''displays'',
    ''computers'', ''mobile'', ''wearables'', ''smart-home'', ''components'', ''accessories'']"
  by (simp add: CATEGORY_PATTERNS_def)

lemma known_categories: "KNOWN_CATEGORIES = [''accessories'', ''peripherals'', ''storage'', ''audio'',
    ''smart-home'', ''wearables'', ''mobile'', ''components'', ''displays'', ''computers'', ''misc'']"
  by (simp add: KNOWN_CATEGORIES_def CATEGORY_CODES_def dict_keys_def)

lemma sql_category_known:
  assumes "sql_category t = Some c" shows "c \<in> set KNOWN_CATEGORIES"
proof (cases "find (\<lambda>c. c \<noteq> ''misc'' \<and> py_in c (py_lower t)) KNOWN_CATEGORIES")
  case None
  with assms have "guess_category t = Some c" by (simp add: sql_category_def)
  from guess_category_known [OF this] show ?thesis
    unfolding pattern_categories known_categories by auto
next
  case (Some d)
  with assms find_in [OF Some] show ?thesis by (simp add: sql_category_def)
qed

lemma sql_brand_known: "sql_brand t = Some b \<Longrightarrow> b \<in> set KNOWN_BRANDS"
  by (auto simp: sql_brand_def BRAND_LIST_def split: option.splits if_splits)

lemma sql_condition_known:
  assumes "sql_condition t = Some c" shows "c \<in> {''new'', ''refurb'', ''used''}"
proof -
  from assms obtain p where "find (\<lambda>(k, v). py_in k (py_lower t)) CONDITION_WORDS = Some p" "c = snd p"
    by (auto simp: sql_condition_def)
  from find_in [OF this(1)] this(2) show ?thesis by (auto simp: CONDITION_WORDS_def)
qed

text \<open>What a group of digits captures.\<close>

lemma rx_run_Star_Cls_run:
  "(pv', s', g') \<in> set (rx_run (Star (Cls P)) (pv, s, g)) \<Longrightarrow>
     \<exists>u. s = u @ s' \<and> (\<forall>c \<in> set u. P c) \<and> g' = g"
proof (induction s arbitrary: pv)
  case (Cons c s)
  then show ?case
    by (auto split: if_splits) (metis append_Cons set_ConsD)+
qed simp

lemma rx_run_plus_Cls:
  "(pv', s', g') \<in> set (rx_run (plus (Cls P)) (pv, s, g)) \<Longrightarrow>
     \<exists>u. s = u @ s' \<and> u \<noteq> [] \<and> (\<forall>c \<in> set u. P c)"
proof (cases s)
  case (Cons c s1)
  assume "(pv', s', g') \<in> set (rx_run (plus (Cls P)) (pv, s, g))"
  with Cons show ?thesis
    by (force simp: plus_def split: if_splits dest!: rx_run_Star_Cls_run)
qed (simp add: plus_def)

lemma rx_run_last_group:
  assumes "q \<in> set (rx_run (seqs (rs @ [Grp (plus (Cls P))])) p)"
  shows "\<exists>pv s u. q = (pv, s, Some u) \<and> u \<noteq> [] \<and> (\<forall>c \<in> set u. P c)"
  using assms
proof (induction rs arbitrary: p)
  case Nil
  obtain pv s g where p: "p = (pv, s, g)" by (cases p) auto
  from Nil obtain pv' s' g' where "(pv', s', g') \<in> set (rx_run (plus (Cls P)) (pv, s, g))"
      and q: "q = (pv', s', Some (take (length s - length s') s))"
    by (auto simp: p seqs_def)
  then show ?case by (auto dest!: rx_run_plus_Cls)
next
  case (Cons r rs)
  then show ?case by (auto simp: seqs_def simp del: split_paired_Ex)
qed

lemma rx_search_from_at:
  "rx_search_from r pv s = Some (t, q) \<Longrightarrow> \<exists>pv'. rx_at r pv' t = Some q"
  by (induction r pv s rule: rx_search_from.induct) (auto split: option.splits)

lemma rx_group_last:
  assumes "rx_group (seqs (rs @ [Grp (plus (Cls P))])) s = Some u"
  shows "u \<noteq> [] \<and> (\<forall>c \<in> set u. P c)"
proof -
  let ?r = "seqs (rs @ [Grp (plus (Cls P))])"
  obtain t pv rest where "rx_search_from ?r None s = Some (t, pv, rest, Some u)"
    using assms by (auto simp: rx_group_def split: option.splits)
  then obtain pv' where "rx_at ?r pv' t = Some (pv, rest, Some u)" using rx_search_from_at by blast
  then have "(pv, rest, Some u) \<in> set (rx_run ?r (pv', t, None))"
    by (auto simp: rx_at_def split: list.splits)
  from rx_run_last_group [OF this] show ?thesis by auto
qed

lemma price_digits: "rx_group (price_re word) q = Some u \<Longrightarrow> u \<noteq> [] \<and> (\<forall>c \<in> set u. is_digit c)"
  using rx_group_last [of "[str word, lit CHR '' '', opt (lit CHR ''$'')]" is_digit q u]
  by (simp add: price_re_def rdigit_def)

lemma clauseD: "x \<in> set (clause pre v post) \<Longrightarrow> \<exists>u. v = Some u \<and> u \<noteq> [] \<and> x = pre @ u @ post"
  by (auto simp: clause_def split: option.splits if_splits)

lemma sql_clausesE:
  assumes "x \<in> set (sql_clauses question)"
  obtains u where "u \<noteq> []" "list_all is_digit u" "x = ''price < '' @ u"
  | u where "u \<noteq> []" "list_all is_digit u" "x = ''price > '' @ u"
  | c where "c \<in> set KNOWN_CATEGORIES" "x = ''category = '' @ quote # c @ [quote]"
  | c where "c \<in> {''new'', ''refurb'', ''used''}" "x = ''condition = '' @ quote # c @ [quote]"
  | b where "b \<in> set KNOWN_BRANDS \<union> set TYPE_WORDS" "x = ''title LIKE '' @ quote # ''%'' @ b @ ''%'' @ [quote]"
proof -
  let ?q = "py_lower question"
  from assms consider
      "x \<in> set (clause ''price < '' (rx_group (price_re ''under'') ?q) [])"
    | "x \<in> set (clause ''price > '' (rx_group (price_re ''over'') ?q) [])"
    | "x \<in> set (clause (''category = '' @ [quote]) (sql_category question) [quote])"
    | "x \<in> set (clause (''condition = '' @ [quote]) (sql_condition question) [quote])"
    | "x \<in> set (clause (''title LIKE '' @ quote # ''%'') (sql_brand question) (''%'' @ [quote]))"
    | "x \<in> set (clause (''title LIKE '' @ quote # ''%'') (find (\<lambda>kw. py_in kw ?q) TYPE_WORDS) (''%'' @ [quote]))"
    unfolding sql_clauses_def Let_def set_append by blast
  then show ?thesis
  proof cases
    case 1
    from clauseD [OF this] obtain u where u: "rx_group (price_re ''under'') ?q = Some u" "x = ''price < '' @ u"
      by auto
    from price_digits [OF u(1)] u(2) show ?thesis by (intro that(1)) (auto simp: list_all_iff)
  next
    case 2
    from clauseD [OF this] obtain u where u: "rx_group (price_re ''over'') ?q = Some u" "x = ''price > '' @ u"
      by auto
    from price_digits [OF u(1)] u(2) show ?thesis by (intro that(2)) (auto simp: list_all_iff)
  next
    case 3
    from clauseD [OF this] that(3) show ?thesis by (metis append.assoc append_Cons append_Nil sql_category_known)
  next
    case 4
    from clauseD [OF this] that(4) show ?thesis by (metis append.assoc append_Cons append_Nil sql_condition_known)
  next
    case 5
    from clauseD [OF this] obtain b where "sql_brand question = Some b"
      "x = ''title LIKE '' @ quote # ''%'' @ b @ ''%'' @ [quote]" by auto
    with that(5) [of b] sql_brand_known show ?thesis by blast
  next
    case 6
    from clauseD [OF this] obtain b where "find (\<lambda>kw. py_in kw ?q) TYPE_WORDS = Some b"
      "x = ''title LIKE '' @ quote # ''%'' @ b @ ''%'' @ [quote]" by auto
    with that(5) [of b] find_in [of _ TYPE_WORDS b] show ?thesis by blast
  qed
qed

section \<open>Properties\<close>

text \<open>The text-to-SQL tool is immune to injection: whatever the question says, every clause of the
  query is one of the templates, filled with a run of decimal digits or with a word of a fixed
  vocabulary (a category, a condition, a known brand, a product-type keyword). No other text of the
  question reaches the query.\<close>

theorem nl_to_sql_vocabulary:
  "\<exists>cs. nl_to_sql question table = ''SELECT * FROM '' @ table @ '' WHERE '' @
       (if cs = [] then ''1=1'' else py_join '' AND '' cs)
     \<and> set cs \<subseteq>
         {''price < '' @ u | u. u \<noteq> [] \<and> list_all is_digit u} \<union>
         {''price > '' @ u | u. u \<noteq> [] \<and> list_all is_digit u} \<union>
         (\<lambda>c. ''category = '' @ quote # c @ [quote]) ` set KNOWN_CATEGORIES \<union>
         (\<lambda>c. ''condition = '' @ quote # c @ [quote]) ` {''new'', ''refurb'', ''used''} \<union>
         (\<lambda>b. ''title LIKE '' @ quote # ''%'' @ b @ ''%'' @ [quote]) ` (set KNOWN_BRANDS \<union> set TYPE_WORDS)"
proof (intro exI conjI)
  show "nl_to_sql question table = ''SELECT * FROM '' @ table @ '' WHERE '' @
       (if sql_clauses question = [] then ''1=1'' else py_join '' AND '' (sql_clauses question))"
    by (rule nl_to_sql_def)
  show "set (sql_clauses question) \<subseteq>
         {''price < '' @ u | u. u \<noteq> [] \<and> list_all is_digit u} \<union>
         {''price > '' @ u | u. u \<noteq> [] \<and> list_all is_digit u} \<union>
         (\<lambda>c. ''category = '' @ quote # c @ [quote]) ` set KNOWN_CATEGORIES \<union>
         (\<lambda>c. ''condition = '' @ quote # c @ [quote]) ` {''new'', ''refurb'', ''used''} \<union>
         (\<lambda>b. ''title LIKE '' @ quote # ''%'' @ b @ ''%'' @ [quote]) ` (set KNOWN_BRANDS \<union> set TYPE_WORDS)"
    by (rule subsetI, erule sql_clausesE) (simp_all only: UnCI mem_Collect_eq image_eqI, blast+)
qed

text \<open>The feature vector of the price model stays in its ranges: three columns, a category code from 0
  to 10, a brand tier from 1 to 4 and a condition code from 0 to 2, for any product whatever its texts.\<close>

theorem featurize_bounds:
  "\<exists>c b d. featurize p = [c, b, d] \<and> 0 \<le> c \<and> c \<le> 10 \<and> 1 \<le> b \<and> b \<le> 4 \<and> 0 \<le> d \<and> d \<le> 2"
proof -
  have "0 \<le> category_code (category p) \<and> category_code (category p) \<le> 10"
    by (auto simp: category_code_def dict_get_or_def CATEGORY_CODES_def)
  moreover have "\<forall>(k, v) \<in> set BRAND_TIER. 1 \<le> v \<and> v \<le> 4"
    by (auto simp: BRAND_TIER_def)
  then have "1 \<le> brand_tier (title p) \<and> brand_tier (title p) \<le> 4"
    by (fastforce simp: brand_tier_def dict_get_or_def DEFAULT_BRAND_TIER_def split: option.split dest: map_of_SomeD)
  moreover have "0 \<le> condition_code c \<and> condition_code c \<le> 2" for c
    by (auto simp: condition_code_def dict_get_or_def CONDITION_CODES_def)
  ultimately show ?thesis by (simp add: featurize_def Let_def)
qed

end
