(* ===== verification/Compliance.thy ===== *)
theory Compliance
  imports Features
begin

text \<open>
  \<open>dealfinder/safety.py\<close> (injection patterns, PII redaction, the audit log) and
  \<open>dealfinder/compliance.py\<close>: the sliding-window rate limiter, the data-subject store and the abuse
  detector. The interface \<open>sliding_window\<close> states what one limiter call does to the time stamps
  of its key; \<open>Ratelimit\<close> relies on it.
\<close>

section \<open>Single-request guards\<close>

definition INJECTION :: "rx list" where
  "INJECTION =
     [seqs [ci ''ignore '', opt (alts (ci ''all '') [ci ''the '']), ci ''previous''],
      seqs [ci ''disregard '', Star anych, ci ''instructions''],
      ci ''system prompt'',
      seqs [ci ''reveal '', Star anych, alts (ci ''secret'') [ci ''key'', ci ''password'', ci ''prompt'']],
      ci ''you are now'']"

definition detect_prompt_injection :: "string \<Rightarrow> bool" where
  "detect_prompt_injection text \<longleftrightarrow> (\<exists>p \<in> set INJECTION. rx_found p text)"

definition EMAIL :: rx where
  "EMAIL = seqs [plus (Cls (\<lambda>c. is_word c \<or> c \<in> set ''.+-'')), lit CHR ''@'',
     plus (Cls (\<lambda>c. is_word c \<or> c = CHR ''-'')), lit CHR ''.'', plus (Cls (\<lambda>c. is_word c \<or> c \<in> set ''.-''))]"

definition CARD :: rx where
  "CARD = (let d = Cat rdigit (opt (Cls (\<lambda>c. c \<in> set '' -''))) in
     seqs [Bound, rep 13 d, rep_upto 3 d, Bound])"

definition PHONE :: rx where
  "PHONE = (let s = opt (Cls (\<lambda>c. is_space c \<or> c \<in> set ''-.'')) in
     seqs [Bound, rep 3 rdigit, s, rep 3 rdigit, s, rep 4 rdigit, Bound])"

definition redact_pii :: "string \<Rightarrow> string" where
  "redact_pii text = rx_sub PHONE ''[phone]'' (rx_sub CARD ''[card]'' (rx_sub EMAIL ''[email]'' text))"

definition validate_listing_specs :: "listing_specs \<Rightarrow> string list" where
  "validate_listing_specs ls =
     (case ls_category ls of None \<Rightarrow> []
      | Some c \<Rightarrow> if c \<notin> set KNOWN_CATEGORIES then [''category unknown''] else []) @
     (if ls_condition ls \<notin> {''new'', ''refurb'', ''used''} then [''condition invalid''] else [])"

lemma rule_extract_valid: "validate_listing_specs (rule_extract text) = []"
proof -
  have "c \<in> set KNOWN_CATEGORIES" if "guess_category text = Some c" for c
    using guess_category_known [OF that] unfolding pattern_categories known_categories by auto
  then show ?thesis
    by (auto simp: validate_listing_specs_def rule_extract_def parse_condition_def split: option.split)
qed

section \<open>The audit log\<close>

record audit_entry =
  ae_action :: string
  ae_user :: string
  ae_count :: nat

definition record_audit :: "string \<Rightarrow> string \<Rightarrow> nat \<Rightarrow> audit_entry list \<Rightarrow> audit_entry list" where
  "record_audit action user n entries = entries @ [\<lparr>ae_action = action, ae_user = user, ae_count = n\<rparr>]"

section \<open>The sliding window\<close>

record window =
  w_limit :: nat
  w_window :: pyfloat
  w_events :: "(string, pyfloat list) dict"

definition new_window :: "nat \<Rightarrow> pyfloat \<Rightarrow> window option" where
  \<comment> \<open>\<open>None\<close>: \<open>ValueError\<close>\<close>
  "new_window limit wd = (if limit < 1 then None else Some \<lparr>w_limit = limit, w_window = wd, w_events = []\<rparr>)"

definition evict :: "pyfloat \<Rightarrow> pyfloat list \<Rightarrow> pyfloat list" where
  "evict cutoff ts = dropWhile (\<lambda>t. t \<le> cutoff) ts"

definition allow :: "string \<Rightarrow> pyfloat \<Rightarrow> window \<Rightarrow> window \<times> bool" where
  "allow user now w =
     (let events = evict (now - w_window w) (dict_get_or (w_events w) user []) in
      if length events \<ge> w_limit w then (w\<lparr>w_events := dict_set user events (w_events w)\<rparr>, False)
      else (w\<lparr>w_events := dict_set user (events @ [now]) (w_events w)\<rparr>, True))"

definition remaining :: "string \<Rightarrow> pyfloat \<Rightarrow> window \<Rightarrow> window \<times> nat" where
  \<comment> \<open>reading a \<open>defaultdict\<close> creates the key\<close>
  "remaining user now w =
     (let events = dict_get_or (w_events w) user [] in
      (if dict_has (w_events w) user then w else w\<lparr>w_events := dict_set user [] (w_events w)\<rparr>,
       w_limit w - length (filter (\<lambda>t. t > now - w_window w) events)))"

text \<open>A sequence of requests and the granted time stamps of one key.\<close>

fun run_reqs :: "('k \<Rightarrow> pyfloat \<Rightarrow> 's \<Rightarrow> 's \<times> bool) \<Rightarrow> ('k \<times> pyfloat) list \<Rightarrow> 's \<Rightarrow> 's \<times> bool list" where
  "run_reqs grant [] s = (s, [])"
| "run_reqs grant ((k, now) # rs) s =
     (let (s1, ok) = grant k now s; (s2, oks) = run_reqs grant rs s1 in (s2, ok # oks))"

fun grants_of :: "'k \<Rightarrow> ('k \<times> pyfloat) list \<Rightarrow> bool list \<Rightarrow> pyfloat list" where
  "grants_of k ((k', t) # rs) (ok # oks) = (if k' = k \<and> ok then [t] else []) @ grants_of k rs oks"
| "grants_of k _ _ = []"

locale sliding_window =
  fixes grant :: "'k \<Rightarrow> pyfloat \<Rightarrow> 's \<Rightarrow> 's \<times> bool"
    and stamps :: "'s \<Rightarrow> 'k \<Rightarrow> pyfloat list"
    and bound :: "'s \<Rightarrow> nat"
    and span :: "'s \<Rightarrow> pyfloat"
  assumes granted: "snd (grant k now s) \<longleftrightarrow> length (evict (now - span s) (stamps s k)) < bound s"
    and stamps_same: "stamps (fst (grant k now s)) k =
      evict (now - span s) (stamps s k) @ (if snd (grant k now s) then [now] else [])"
    and stamps_other: "k' \<noteq> k \<Longrightarrow> stamps (fst (grant k now s)) k' = stamps s k'"
    and bound_fixed: "bound (fst (grant k now s)) = bound s"
    and span_fixed: "span (fst (grant k now s)) = span s"
begin

lemma run_fixed:
  "bound (fst (run_reqs grant rs s)) = bound s \<and> span (fst (run_reqs grant rs s)) = span s"
proof (induction rs arbitrary: s)
  case (Cons r rs)
  obtain k now where r: "r = (k, now)" by (cases r) auto
  obtain s1 ok where g: "grant k now s = (s1, ok)" by (cases "grant k now s") auto
  from Cons.IH [of s1] bound_fixed [of k now s] span_fixed [of k now s] show ?case
    by (auto simp: r g Let_def split: prod.split)
qed simp

lemma sorted_evict: "sorted ts \<Longrightarrow> evict c ts = filter (\<lambda>t. c < t) ts"
  unfolding evict_def
proof (induction ts)
  case (Cons a ts)
  show ?case
  proof (cases "a \<le> c")
    case False
    with Cons.prems have "\<forall>x \<in> set ts. c < x" by auto
    with False show ?thesis by (simp add: filter_id_conv)
  qed (use Cons in simp)
qed simp

lemma evict_evict: "c \<le> c' \<Longrightarrow> sorted G \<Longrightarrow> evict c' (filter (\<lambda>t. c < t) G) = filter (\<lambda>t. c' < t) G"
proof -
  assume le: "c \<le> c'" and G: "sorted G"
  have "sorted (filter (\<lambda>t. c < t) G)" using G by (rule sorted_wrt_filter)
  then show ?thesis using le by (auto simp: sorted_evict intro: filter_cong)
qed

text \<open>
  What the time stamps kept for a key know about all the grants \<open>G\<close> of that key: they are the
  ones after some cutoff \<open>c\<close> that no later request can reach behind.
\<close>

definition knows :: "'s \<Rightarrow> 'k \<Rightarrow> pyfloat list \<Rightarrow> pyfloat \<Rightarrow> bool" where
  "knows s k G now \<longleftrightarrow> sorted G \<and> (\<forall>g \<in> set G. g \<le> now)
     \<and> (\<exists>c. stamps s k = filter (\<lambda>t. c < t) G \<and> (\<forall>t. now \<le> t \<longrightarrow> c \<le> t - span s))
     \<and> (\<forall>t. length (filter (\<lambda>g. t < g \<and> g \<le> t + span s) G) \<le> bound s)"

lemma knows_decides:
  assumes "knows s k G t0" and "t0 \<le> now"
  shows "snd (grant k now s) \<longleftrightarrow> length (filter (\<lambda>g. now - span s < g) G) < bound s"
    and "evict (now - span s) (stamps s k) = filter (\<lambda>g. now - span s < g) G"
proof -
  show "evict (now - span s) (stamps s k) = filter (\<lambda>g. now - span s < g) G"
    using assms evict_evict unfolding knows_def by metis
  then show "snd (grant k now s) \<longleftrightarrow> length (filter (\<lambda>g. now - span s < g) G) < bound s"
    by (simp add: granted)
qed

lemma knows_other:
  assumes "knows s k G t0" and "t0 \<le> now" and "k' \<noteq> k"
  shows "knows (fst (grant k' now s)) k G now"
  using assms unfolding knows_def stamps_other [OF not_sym [OF assms(3)]] bound_fixed span_fixed
  by (meson order_trans)

lemma knows_step:
  assumes "knows s k G t0" and "t0 \<le> now" and "0 < span s"
  shows "knows (fst (grant k now s)) k (G @ (if snd (grant k now s) then [now] else [])) now"
proof -
  let ?ok = "snd (grant k now s)" and ?W = "now - span s"
  have G: "sorted G" "\<And>g. g \<in> set G \<Longrightarrow> g \<le> now"
    and win: "\<And>t. length (filter (\<lambda>g. t < g \<and> g \<le> t + span s) G) \<le> bound s"
    using assms(1,2) by (auto simp: knows_def)
  have st: "stamps (fst (grant k now s)) k = filter (\<lambda>g. ?W < g) (G @ (if ?ok then [now] else []))"
    using assms(3) by (simp add: stamps_same knows_decides(2) [OF assms(1,2)])
  have new: "length (filter (\<lambda>g. t < g \<and> g \<le> t + span s) (G @ [now])) \<le> bound s" if ok: ?ok for t
  proof (cases "t < now \<and> now \<le> t + span s")
    case True
    then have "length (filter (\<lambda>g. t < g \<and> g \<le> t + span s) G) \<le> length (filter (\<lambda>g. ?W < g) G)"
      by (intro length_filter_mono) auto
    also have "\<dots> < bound s" using ok knows_decides(1) [OF assms(1,2)] by simp
    finally show ?thesis using True by simp
  next
    case False
    with win [of t] show ?thesis by auto
  qed
  have "sorted (G @ (if ?ok then [now] else []))" using G by (auto simp: sorted_append)
  moreover have "\<forall>t. now \<le> t \<longrightarrow> ?W \<le> t - span s" by simp
  moreover have "length (filter (\<lambda>g. t < g \<and> g \<le> t + span s) (G @ (if ?ok then [now] else []))) \<le> bound s" for t
    using new [of t] win [of t] by (cases ?ok) simp_all
  ultimately show ?thesis
    unfolding knows_def bound_fixed span_fixed using st G(2) by (intro conjI exI [of _ ?W]) auto
qed

lemma run_knows:
  assumes "knows s k G t0" and "0 < span s" and "sorted (t0 # map snd rs)"
  shows "\<exists>t1. knows (fst (run_reqs grant rs s)) k (G @ grants_of k rs (snd (run_reqs grant rs s))) t1"
  using assms
proof (induction rs arbitrary: s G t0)
  case Nil
  then show ?case by auto
next
  case (Cons r rs)
  obtain k' now where r: "r = (k', now)" by (cases r) auto
  obtain s1 ok where g: "grant k' now s = (s1, ok)" by (cases "grant k' now s") auto
  have sp: "0 < span s1" using span_fixed [of k' now s] Cons.prems(2) g by simp
  have "knows s1 k (G @ (if k' = k \<and> ok then [now] else [])) now"
  proof (cases "k' = k")
    case True
    with knows_step [OF Cons.prems(1) _ Cons.prems(2), of now] Cons.prems(3) g show ?thesis by (simp add: r)
  next
    case False
    with knows_other [OF Cons.prems(1) _ False, of now] Cons.prems(3) g show ?thesis by (simp add: r)
  qed
  from Cons.IH [OF this sp] Cons.prems(3) obtain t1
    where "knows (fst (run_reqs grant rs s1)) k ((G @ (if k' = k \<and> ok then [now] else [])) @ grants_of k rs (snd (run_reqs grant rs s1))) t1"
    by (auto simp: r)
  then show ?case by (auto simp: r g Let_def split: prod.split)
qed

text \<open>Over any run from a fresh state, no half-open window holds more than \<open>bound\<close> grants of a key.\<close>

lemma window_bound:
  assumes "stamps s k = []" and "0 < span s" and "sorted (map snd rs)"
  shows "length (filter (\<lambda>g. t < g \<and> g \<le> t + span s) (grants_of k rs (snd (run_reqs grant rs s)))) \<le> bound s"
proof (cases rs)
  case (Cons r rs')
  have "knows s k [] (snd r)"
    using assms(1) by (auto simp: knows_def intro!: exI [of _ "snd r - span s"])
  from run_knows [OF this assms(2), of rs] assms(3) Cons
  show ?thesis using run_fixed [of rs s] by (auto simp: knows_def)
qed simp

end

interpretation sw: sliding_window allow "\<lambda>w k. dict_get_or (w_events w) k []" w_limit w_window
  by unfold_locales (auto simp: allow_def Let_def dict_get_or_def not_le)

section \<open>Data-subject requests\<close>

record 'r subject_store =
  ss_audit :: "audit_entry list"
  ss_records :: "(string, 'r list) dict"

definition ss_add :: "string \<Rightarrow> 'r \<Rightarrow> 'r subject_store \<Rightarrow> 'r subject_store" where
  "ss_add user r s = s\<lparr>ss_records := dict_set user (dict_get_or (ss_records s) user [] @ [r]) (ss_records s)\<rparr>"

definition ss_export :: "string \<Rightarrow> 'r subject_store \<Rightarrow> 'r list \<times> 'r subject_store" where
  "ss_export user s =
     (let records = dict_get_or (ss_records s) user [] in
      (records, s\<lparr>ss_audit := record_audit ''gdpr_export'' user (length records) (ss_audit s)\<rparr>))"

definition ss_delete :: "string \<Rightarrow> 'r subject_store \<Rightarrow> nat \<times> 'r subject_store" where
  "ss_delete user s =
     (let removed = length (dict_get_or (ss_records s) user []) in
      (removed, s\<lparr>ss_records := dict_del user (ss_records s),
                  ss_audit := record_audit ''gdpr_delete'' user removed (ss_audit s)\<rparr>))"

definition ss_count :: "string \<Rightarrow> 'r subject_store \<Rightarrow> nat" where
  "ss_count user s = length (dict_get_or (ss_records s) user [])"

section \<open>Abuse detection\<close>

record abuse_detector =
  ad_window :: pyfloat
  ad_max_events :: nat
  ad_max_injections :: nat
  ad_events :: "(string, (pyfloat \<times> bool) list) dict"

record abuse_signal =
  as_user :: string
  as_flagged :: bool
  as_reasons :: "string list"

definition observe :: "string \<Rightarrow> string \<Rightarrow> pyfloat \<Rightarrow> abuse_detector \<Rightarrow> abuse_detector \<times> abuse_signal" where
  "observe user text now d =
     (let events = dropWhile (\<lambda>e. fst e \<le> now - ad_window d)
            (dict_get_or (ad_events d) user [] @ [(now, detect_prompt_injection text)]);
          injections = length (filter snd events);
          reasons =
            (if length events > ad_max_events d
             then [''velocity: '' @ nat_digits (length events) @ '' requests in '' @ fmt_fixed 0 (ad_window d) @ ''s'']
             else []) @
            (if injections \<ge> ad_max_injections d
             then [''injection: '' @ nat_digits injections @ '' attempts in '' @ fmt_fixed 0 (ad_window d) @ ''s'']
             else [])
      in (d\<lparr>ad_events := dict_set user events (ad_events d)\<rparr>,
          \<lparr>as_user = user, as_flagged = reasons \<noteq> [], as_reasons = reasons\<rparr>))"

section \<open>Properties\<close>

text \<open>The sliding-window limiter. Over any sequence of requests in time order, by any users, no half-open window
  \<open>(t, t + window]\<close> holds more than \<open>limit\<close> allowed requests of one user.\<close>

theorem limiter_never_exceeds:
  assumes "new_window limit wd = Some w" and "0 < wd" and "sorted (map snd reqs)"
  shows "length (filter (\<lambda>g. t < g \<and> g \<le> t + wd) (grants_of user reqs (snd (run_reqs allow reqs w)))) \<le> limit"
proof -
  have w: "w = \<lparr>w_limit = limit, w_window = wd, w_events = []\<rparr>"
    using assms(1) by (auto simp: new_window_def split: if_splits)
  from sw.window_bound [of w user reqs t] assms(2,3) show ?thesis by (simp add: w dict_get_or_def)
qed

theorem limiter_never_exceeds_witness:
  "length (filter (\<lambda>g. 0 < g \<and> g \<le> 0 + 10)
     (grants_of ''u'' [(''u'', 1), (''u'', 2), (''v'', 3), (''u'', 11), (''u'', 12)]
       (snd (run_reqs allow [(''u'', 1), (''u'', 2), (''v'', 3), (''u'', 11), (''u'', 12)]
         \<lparr>w_limit = 1, w_window = 10, w_events = []\<rparr>)))) \<le> 1"
  by (rule limiter_never_exceeds) (simp_all add: new_window_def)

end
