(* ===== verification/Ratelimit.thy ===== *)
theory Ratelimit
  imports Compliance Settings "HOL-Library.Product_Lexorder"
begin

text \<open>
  \<open>dealfinder/ratelimit.py\<close>: one sliding window per limited path, keyed by path and client, with a
  bound on the number of tracked clients. The clock reading of a check is an argument. A missing
  key in \<open>events[key]\<close> would be a \<open>KeyError\<close>: the model returns \<open>Inl\<close> there, and it is proved
  unreachable.
\<close>

definition SHRINK_EVERY_S :: pyfloat where "SHRINK_EVERY_S = 1"

definition LIMITS :: "(string, nat \<times> pyfloat) dict" where
  "LIMITS = [(''/ask'', (5, 60)), (''/ask_agentic'', (5, 60)), (''/review'', (5, 60)),
     (''/search'', (30, 10)), (''/search/stream'', (30, 10)), (''/check'', (30, 10)),
     (''/ranked'', (30, 10)), (''/semantic'', (30, 10))]"

record limiter =
  l_windows :: "(string, window) dict"
  l_max_keys :: nat
  l_last_shrink :: "(string, pyfloat) dict"

definition new_limiter :: "(string, nat \<times> pyfloat) dict \<Rightarrow> nat \<Rightarrow> limiter" where
  "new_limiter limits n =
     \<lparr>l_windows = map (\<lambda>(path, n, wd). (path, \<lparr>w_limit = n, w_window = wd, w_events = []\<rparr>)) limits,
      l_max_keys = n, l_last_shrink = []\<rparr>"

definition limiter_len :: "limiter \<Rightarrow> nat" where
  "limiter_len l = sum_list (map (\<lambda>(p, w). length (w_events w)) (l_windows l))"

definition is_idle :: "window \<Rightarrow> pyfloat \<Rightarrow> pyfloat list \<Rightarrow> bool" where
  "is_idle w now ev \<longleftrightarrow> ev = [] \<or> last ev \<le> now - w_window w"

definition drop_idle :: "window \<Rightarrow> pyfloat \<Rightarrow> (string, pyfloat list) dict" where
  "drop_idle w now = filter (\<lambda>(k, ev). \<not> is_idle w now ev) (w_events w)"

definition open_keys :: "window \<Rightarrow> (string, pyfloat list) dict \<Rightarrow> (pyfloat \<times> string) list" where
  "open_keys w d = sort (map (\<lambda>(k, ev). (last ev, k)) (filter (\<lambda>(k, ev). length ev < w_limit w) d))"

definition shrink :: "nat \<Rightarrow> window \<Rightarrow> pyfloat \<Rightarrow> window" where
  "shrink max_keys w now =
     (let d = drop_idle w now; excess = int (length d) - \<lfloor>of_nat max_keys * (0.9 :: pyfloat)\<rfloor> in
      if excess \<le> 0 then w\<lparr>w_events := d\<rparr>
      else w\<lparr>w_events := foldl (\<lambda>d (_, k). dict_del k d) d (py_slice_to excess (open_keys w d))\<rparr>)"

definition put_window :: "string \<Rightarrow> window \<Rightarrow> limiter \<Rightarrow> limiter" where
  "put_window path w l = l\<lparr>l_windows := dict_set path w (l_windows l)\<rparr>"

definition may_shrink :: "string \<Rightarrow> window \<Rightarrow> pyfloat \<Rightarrow> limiter \<Rightarrow> limiter \<times> window" where
  \<comment> \<open>\<open>_maybe_shrink\<close>; a path that was never shrunk counts as shrunk infinitely long ago\<close>
  "may_shrink path w now l =
     (if (case dict_get (l_last_shrink l) path of None \<Rightarrow> True | Some t \<Rightarrow> now - t \<ge> SHRINK_EVERY_S)
      then let w' = shrink (l_max_keys l) w now in
           (put_window path w' l\<lparr>l_last_shrink := dict_set path now (l_last_shrink l)\<rparr>, w')
      else (l, w))"

definition client_path_key :: "string \<Rightarrow> string \<Rightarrow> string" where
  "client_path_key path client = path @ ''|'' @ client"

datatype key_error = KeyError

definition admit :: "string \<Rightarrow> string \<Rightarrow> pyfloat \<Rightarrow> limiter \<Rightarrow> window \<Rightarrow>
    limiter \<times> (key_error + pyfloat option)" where
  \<comment> \<open>the second half of \<open>check\<close>, for a client that may be tracked\<close>
  "admit path key now l w =
     (let (w1, allowed) = allow key now w;
          l1 = put_window path w1 l;
          (l2, w2) = (if length (w_events w1) > l_max_keys l then may_shrink path w1 now l1 else (l1, w1))
      in (l2, if allowed then Inr None
              else (case dict_get (w_events w2) key of
                 Some (t # _) \<Rightarrow> Inr (Some (t + w_window w2 - now))
               | _ \<Rightarrow> Inl KeyError)))"

definition check :: "string \<Rightarrow> string \<Rightarrow> pyfloat \<Rightarrow> limiter \<Rightarrow> limiter \<times> (key_error + pyfloat option)" where
  "check path client now l =
     (case dict_get (l_windows l) path of
        None \<Rightarrow> (l, Inr None)
      | Some w \<Rightarrow>
          (let key = client_path_key path client in
           if \<not> dict_has (w_events w) key \<and> length (w_events w) \<ge> 2 * l_max_keys l
           then (let (l1, w1) = may_shrink path w now l in
                 if length (w_events w1) \<ge> 2 * l_max_keys l then (l1, Inr (Some (w_window w1)))
                 else admit path key now l1 w1)
           else admit path key now l w))"

text \<open>
  Who a request counts against. The socket's address and the header are the request's; parsing
  an address (\<open>ipaddress\<close>) is the argument: \<open>None\<close> for no address, else its version and, for
  version 6, the text of its /64 network.
\<close>

datatype ip_addr = IPv4 | IPv6 string

definition client_key ::
  "(string \<Rightarrow> ip_addr option) \<Rightarrow> environ \<Rightarrow> string option \<Rightarrow> string option \<Rightarrow> string" where
  "client_key parse env cf_header host =
     (let ip0 = (if truthy (getenv env ''EDGE_SHARED_SECRET'') then cf_header else None);
          ip = (case ip0 of Some (c # s) \<Rightarrow> c # s
                | _ \<Rightarrow> (case host of Some h \<Rightarrow> h | None \<Rightarrow> ''unknown''))
      in case parse ip of Some (IPv6 net) \<Rightarrow> net | _ \<Rightarrow> ip)"

definition ratelimit_enabled :: "environ \<Rightarrow> bool" where
  "ratelimit_enabled env \<longleftrightarrow> is_production env \<or> getenv env ''DEALFINDER_RATELIMIT'' = Some ''on''"

section \<open>Cleaning up\<close>

lemma wf_drop_idle: "dict_wf (w_events w) \<Longrightarrow> dict_wf (drop_idle w now)"
  by (simp add: drop_idle_def)

lemma foldl_del_get: "dict_get (foldl (\<lambda>d (_, k). dict_del k d) d ks) key =
    (if key \<in> snd ` set ks then None else dict_get d key)"
  by (induction ks arbitrary: d) auto

lemma foldl_del_wf: "dict_wf d \<Longrightarrow> dict_wf (foldl (\<lambda>d (_, k). dict_del k d) d ks)"
  by (induction ks arbitrary: d) auto

lemma foldl_del_len: "length (foldl (\<lambda>d (_, k). dict_del k d) d ks) \<le> length d"
proof (induction ks arbitrary: d)
  case (Cons k ks)
  from Cons [of "dict_del (snd k) d"] length_dict_del_le [of "snd k" d] show ?case
    by (cases k) (simp add: order_trans)
qed simp

lemma shrink_frame [simp]: "w_limit (shrink n w now) = w_limit w" "w_window (shrink n w now) = w_window w"
  by (simp_all add: shrink_def Let_def)

lemma shrink_wf: "dict_wf (w_events w) \<Longrightarrow> dict_wf (w_events (shrink n w now))"
  by (simp add: shrink_def Let_def wf_drop_idle foldl_del_wf)

lemma shrink_len: "length (w_events (shrink n w now)) \<le> length (w_events w)"
proof -
  have "length (drop_idle w now) \<le> length (w_events w)" by (simp add: drop_idle_def)
  then show ?thesis
    using foldl_del_len [of "drop_idle w now"] by (auto simp: shrink_def Let_def intro: order_trans)
qed

lemma shrink_sub: "dict_wf (w_events w) \<Longrightarrow> dict_get (w_events (shrink n w now)) key = Some ev \<Longrightarrow>
    dict_get (w_events w) key = Some ev"
  by (auto simp: shrink_def Let_def foldl_del_get drop_idle_def dict_get_filter split: if_splits option.splits)

text \<open>A client at its limit whose newest request is still in the window is never evicted.\<close>

lemma shrink_keeps_limited:
  assumes wf: "dict_wf (w_events w)" and ev: "dict_get (w_events w) key = Some ev"
    and lim: "length ev = w_limit w" "\<not> is_idle w now ev"
  shows "dict_get (w_events (shrink n w now)) key = Some ev"
proof -
  have kept: "dict_get (drop_idle w now) key = Some ev"
    using wf ev lim(2) by (simp add: drop_idle_def dict_get_filter)
  have "key \<notin> snd ` set (open_keys w (drop_idle w now))"
  proof
    assume "key \<in> snd ` set (open_keys w (drop_idle w now))"
    then obtain ev' where "(key, ev') \<in> set (drop_idle w now)" "length ev' < w_limit w"
      by (auto simp: open_keys_def)
    with kept wf_drop_idle [OF wf] lim(1) show False by (simp add: dict_get_in_set [symmetric])
  qed
  then have "key \<notin> snd ` set (py_slice_to x (open_keys w (drop_idle w now)))" for x
    using set_py_slice_to [of x "open_keys w (drop_idle w now)"] by blast
  with kept show ?thesis by (simp add: shrink_def Let_def foldl_del_get)
qed

section \<open>The limiter's invariant\<close>

definition window_ok :: "nat \<Rightarrow> pyfloat \<Rightarrow> window \<Rightarrow> bool" where
  "window_ok cap now w \<longleftrightarrow> dict_wf (w_events w) \<and> 1 \<le> w_limit w \<and> 0 < w_window w \<and> w_window w \<le> 60
     \<and> length (w_events w) \<le> cap
     \<and> (\<forall>k ev. dict_get (w_events w) k = Some ev \<longrightarrow> length ev \<le> w_limit w \<and> sorted ev \<and> (\<forall>t \<in> set ev. t \<le> now))"

definition limiter_ok :: "pyfloat \<Rightarrow> limiter \<Rightarrow> bool" where
  "limiter_ok now l \<longleftrightarrow> (\<forall>path w. dict_get (l_windows l) path = Some w \<longrightarrow> window_ok (2 * l_max_keys l) now w)"

lemma window_ok_later: "window_ok cap t w \<Longrightarrow> t \<le> now \<Longrightarrow> cap \<le> cap' \<Longrightarrow> window_ok cap' now w"
  unfolding window_ok_def by (meson order_trans)

lemma window_ok_shrink [inv_intros]: "window_ok cap now w \<Longrightarrow> window_ok cap now (shrink n w now)"
  using shrink_len [of n w now] by (auto simp: window_ok_def shrink_wf dest: shrink_sub)

lemma set_evict: "set (evict c ts) \<subseteq> set ts"
  unfolding evict_def by (metis set_dropWhileD subsetI)

lemma evict_sorted [simp]: "sorted ts \<Longrightarrow> sorted (evict c ts)"
  by (simp add: evict_def sorted_wrt_dropWhile)

lemma length_evict: "length (evict c ts) \<le> length ts"
  by (simp add: evict_def length_dropWhile_le)

lemma limiter_ok_later: "limiter_ok t l \<Longrightarrow> t \<le> now \<Longrightarrow> limiter_ok now l"
  unfolding limiter_ok_def by (blast intro: window_ok_later)

lemma window_ok_events:
  assumes "window_ok cap now w" and "events = evict (now - w_window w) (dict_get_or (w_events w) key [])"
  shows "length events \<le> w_limit w" and "sorted events" and "\<forall>x \<in> set events. x \<le> now"
proof -
  let ?old = "dict_get_or (w_events w) key []"
  have "length ?old \<le> w_limit w \<and> sorted ?old \<and> (\<forall>x \<in> set ?old. x \<le> now)"
    using assms(1) by (cases "dict_get (w_events w) key") (simp_all add: window_ok_def dict_get_or_def dict_get_def)
  then show "length events \<le> w_limit w" "sorted events" "\<forall>x \<in> set events. x \<le> now"
    using length_evict [of "now - w_window w" ?old] set_evict [of "now - w_window w" ?old]
    by (auto simp: assms(2))
qed

lemma allow_ok:
  assumes "window_ok cap now w" and "allow key now w = (w', ok)"
    and "cap' = (if dict_has (w_events w) key then cap else Suc (length (w_events w)))" and "length (w_events w) \<le> cap'"
  shows "window_ok cap' now w'" and "w_window w' = w_window w"
    and "\<not> ok \<Longrightarrow> \<exists>x xs. dict_get (w_events w') key = Some (x # xs) \<and> length (x # xs) = w_limit w'
           \<and> \<not> is_idle w' now (x # xs) \<and> now - w_window w < x \<and> x \<le> now"
proof -
  define events where "events = evict (now - w_window w) (dict_get_or (w_events w) key [])"
  note ev = window_ok_events [OF assms(1) events_def]
  have w': "w' = w\<lparr>w_events := dict_set key (if ok then events @ [now] else events) (w_events w)\<rparr>"
    and ok: "ok \<longleftrightarrow> length events < w_limit w"
    using assms(2) by (auto simp: allow_def Let_def events_def split: if_splits)
  have len: "length (dict_set key v (w_events w)) \<le> cap'" for v
    using assms(3,4) by (auto simp: length_dict_set dict_get_None_iff dict_has_def split: if_splits)
  show "window_ok cap' now w'"
    using assms(1) ev ok len unfolding window_ok_def w' by (auto simp: sorted_append Suc_le_eq)
  show "w_window w' = w_window w" by (simp add: w')
  show "\<exists>x xs. dict_get (w_events w') key = Some (x # xs) \<and> length (x # xs) = w_limit w'
           \<and> \<not> is_idle w' now (x # xs) \<and> now - w_window w < x \<and> x \<le> now" if "\<not> ok"
  proof -
    have full: "length events = w_limit w" "1 \<le> w_limit w"
      using that ok ev(1) assms(1) by (auto simp: window_ok_def)
    then obtain x xs where x: "events = x # xs" by (cases events) auto
    then have "now - w_window w < x" unfolding events_def evict_def
      by (metis dropWhile_eq_Cons_conv not_le)
    moreover have "x \<le> last events" using ev(2) x by (cases xs rule: rev_cases) auto
    ultimately show ?thesis using that full x ev(3) by (auto simp: w' is_idle_def)
  qed
qed

lemma get_put_window [simp]:
  "dict_get (l_windows (put_window path w l)) p = (if p = path then Some w else dict_get (l_windows l) p)"
  "l_max_keys (put_window path w l) = l_max_keys l"
  by (simp_all add: put_window_def)

text \<open>What a shrink may do, as an interface to the two callers of \<open>may_shrink\<close>.\<close>

lemma may_shrink_cases:
  assumes "dict_get (l_windows l) path = Some w" and "may_shrink path w now l = (l', w')"
  shows "dict_get (l_windows l') path = Some w'" and "l_max_keys l' = l_max_keys l"
    and "p \<noteq> path \<Longrightarrow> dict_get (l_windows l') p = dict_get (l_windows l) p"
    and "w' = w \<or> w' = shrink (l_max_keys l) w now"
  using assms by (auto simp: may_shrink_def Let_def split: if_splits)

lemma admit_ok:
  assumes l: "limiter_ok now l" "dict_get (l_windows l) path = Some w"
    and room: "dict_has (w_events w) key \<or> length (w_events w) < 2 * l_max_keys l"
    and adm: "admit path key now l w = (l', r)"
  shows "limiter_ok now l' \<and> l_max_keys l' = l_max_keys l
    \<and> (\<exists>res. r = Inr res \<and> (\<forall>d. res = Some d \<longrightarrow> 0 < d \<and> d \<le> w_window w))"
proof -
  obtain w1 ok where a: "allow key now w = (w1, ok)" by (cases "allow key now w") auto
  let ?cap = "if dict_has (w_events w) key then 2 * l_max_keys l else Suc (length (w_events w))"
  have wok: "window_ok (2 * l_max_keys l) now w" using l by (auto simp: limiter_ok_def)
  have cap: "length (w_events w) \<le> ?cap" "?cap \<le> 2 * l_max_keys l"
    using wok room by (auto simp: window_ok_def)
  note al = allow_ok [OF wok a refl cap(1)]
  have w1: "window_ok (2 * l_max_keys l) now w1" by (rule window_ok_later [OF al(1) order.refl cap(2)])
  obtain l2 w2 where sh: "(if length (w_events w1) > l_max_keys l
      then may_shrink path w1 now (put_window path w1 l) else (put_window path w1 l, w1)) = (l2, w2)" by force
  have l1: "dict_get (l_windows (put_window path w1 l)) path = Some w1" by simp
  have two: "dict_get (l_windows l2) path = Some w2 \<and> l_max_keys l2 = l_max_keys l
      \<and> (\<forall>p. p \<noteq> path \<longrightarrow> dict_get (l_windows l2) p = dict_get (l_windows l) p)
      \<and> (w2 = w1 \<or> w2 = shrink (l_max_keys l) w1 now)"
    using sh may_shrink_cases [OF l1, of now l2 w2] by (auto split: if_splits)
  then have w2: "window_ok (2 * l_max_keys l) now w2" "w_window w2 = w_window w"
    using w1 al(2) by (auto intro: inv_intros)
  have "limiter_ok now l2"
    unfolding limiter_ok_def
  proof (intro allI impI)
    fix p v assume "dict_get (l_windows l2) p = Some v"
    with l(1) two w2(1) show "window_ok (2 * l_max_keys l2) now v"
      by (cases "p = path") (auto simp: limiter_ok_def)
  qed
  moreover have "\<exists>x xs. dict_get (w_events w2) key = Some (x # xs) \<and> now - w_window w < x \<and> x \<le> now"
    if no: "\<not> ok"
  proof -
    obtain x xs where x: "dict_get (w_events w1) key = Some (x # xs)" "length (x # xs) = w_limit w1"
        "\<not> is_idle w1 now (x # xs)" "now - w_window w < x" "x \<le> now"
      using al(3) [OF no] by blast
    have "dict_wf (w_events w1)" using w1 by (simp add: window_ok_def)
    from shrink_keeps_limited [OF this x(1-3)] two x show ?thesis by blast
  qed
  ultimately show ?thesis
    using adm a sh two w2(2) by (cases ok) (auto simp: admit_def Let_def)
qed

lemma check_ok:
  assumes "limiter_ok now l" and "check path client now l = (l', r)"
  shows "limiter_ok now l' \<and> l_max_keys l' = l_max_keys l
    \<and> (\<exists>res. r = Inr res \<and> (\<forall>d. res = Some d \<longrightarrow> 0 < d \<and> (\<exists>w. dict_get (l_windows l) path = Some w \<and> d \<le> w_window w)))"
proof (cases "dict_get (l_windows l) path")
  case None
  with assms show ?thesis by (auto simp: check_def)
next
  case (Some w)
  let ?key = "client_path_key path client"
  show ?thesis
  proof (cases "\<not> dict_has (w_events w) ?key \<and> length (w_events w) \<ge> 2 * l_max_keys l")
    case False
    with admit_ok [OF assms(1) Some, of ?key] assms(2) Some show ?thesis by (auto simp: check_def)
  next
    case True
    obtain l1 w1 where s: "may_shrink path w now l = (l1, w1)" by (cases "may_shrink path w now l") auto
    note ms = may_shrink_cases [OF Some s]
    have wok: "window_ok (2 * l_max_keys l) now w" using assms(1) Some by (simp add: limiter_ok_def)
    then have w1: "window_ok (2 * l_max_keys l) now w1" "w_window w1 = w_window w"
      using ms(4) by (auto intro: inv_intros)
    have l1: "limiter_ok now l1" unfolding limiter_ok_def
    proof (intro allI impI)
      fix p v assume "dict_get (l_windows l1) p = Some v"
      with assms(1) ms(1-3) w1(1) show "window_ok (2 * l_max_keys l1) now v"
        by (cases "p = path") (auto simp: limiter_ok_def)
    qed
    show ?thesis
    proof (cases "length (w_events w1) \<ge> 2 * l_max_keys l")
      case full: True
      with True s Some assms(2) l1 w1 ms(2) show ?thesis by (auto simp: check_def window_ok_def)
    next
      case False
      with True s Some assms(2) have "admit path ?key now l1 w1 = (l', r)" by (auto simp: check_def)
      with admit_ok [OF l1 ms(1), of ?key l' r] False Some w1(2) ms(2) show ?thesis by auto
    qed
  qed
qed

section \<open>A limited client stays limited\<close>

definition limited :: "string \<Rightarrow> string \<Rightarrow> pyfloat list \<Rightarrow> limiter \<Rightarrow> bool" where
  \<comment> \<open>the client of this key has used up its allowance, at the times \<open>ev\<close>\<close>
  "limited path key ev l \<longleftrightarrow> (\<exists>w. dict_get (l_windows l) path = Some w \<and> dict_wf (w_events w)
     \<and> dict_get (w_events w) key = Some ev \<and> length ev = w_limit w)"

lemma not_idle: "sorted (x # xs) \<Longrightarrow> now < x + w_window w \<Longrightarrow> \<not> is_idle w now (x # xs)"
  by (cases xs rule: rev_cases) (auto simp: is_idle_def)

lemma shrink_limited:
  assumes "dict_wf (w_events w)" "dict_get (w_events w) key = Some (x # xs)" "length (x # xs) = w_limit w"
    and "sorted (x # xs)" "now < x + w_window w" "v = w \<or> v = shrink n w now"
  shows "dict_wf (w_events v) \<and> dict_get (w_events v) key = Some (x # xs) \<and> w_limit v = w_limit w \<and> w_window v = w_window w"
  using assms shrink_keeps_limited [OF assms(1-3) not_idle [OF assms(4,5)]] by (auto simp: shrink_wf)

lemma allow_limited:
  assumes "dict_wf (w_events w)" "dict_get (w_events w) key = Some (x # xs)" "length (x # xs) = w_limit w"
    and "now < x + w_window w" and "allow key' now w = (w', ok)"
  shows "dict_wf (w_events w') \<and> dict_get (w_events w') key = Some (x # xs) \<and> w_limit w' = w_limit w
    \<and> w_window w' = w_window w \<and> (key' = key \<longrightarrow> \<not> ok)"
proof -
  have "evict (now - w_window w) (x # xs) = x # xs" using assms(4) by (simp add: evict_def)
  with assms show ?thesis
    by (auto simp: allow_def Let_def dict_get_or_def dict_get_def split: if_splits)
qed

lemma admit_limited:
  assumes l: "dict_get (l_windows l) path = Some w" "dict_wf (w_events w)"
      "dict_get (w_events w) key = Some (x # xs)" "length (x # xs) = w_limit w"
    and srt: "sorted (x # xs)" "now < x + w_window w"
    and adm: "admit path key' now l w = (l', r)"
  shows "\<exists>w'. dict_get (l_windows l') path = Some w' \<and> dict_wf (w_events w')
    \<and> dict_get (w_events w') key = Some (x # xs) \<and> w_limit w' = w_limit w \<and> w_window w' = w_window w
    \<and> (key' = key \<longrightarrow> r = Inr (Some (x + w_window w - now)))"
proof -
  obtain w1 ok where a: "allow key' now w = (w1, ok)" by (cases "allow key' now w") auto
  note w1 = allow_limited [OF l(2-4) srt(2) a]
  obtain l2 w2 where sh: "(if length (w_events w1) > l_max_keys l
      then may_shrink path w1 now (put_window path w1 l) else (put_window path w1 l, w1)) = (l2, w2)" by force
  have two: "dict_get (l_windows l2) path = Some w2 \<and> (w2 = w1 \<or> w2 = shrink (l_max_keys l) w1 now)"
    using sh may_shrink_cases [of "put_window path w1 l" path w1 now l2 w2] by (auto split: if_splits)
  from shrink_limited [of w1 key x xs now w2 "l_max_keys l"] w1 l(4) srt two
  have w2: "dict_wf (w_events w2) \<and> dict_get (w_events w2) key = Some (x # xs) \<and> w_limit w2 = w_limit w
      \<and> w_window w2 = w_window w" by auto
  with adm a sh two w1 show ?thesis by (auto simp: admit_def Let_def)
qed

lemma check_limited:
  assumes l: "dict_get (l_windows l) path = Some w" "dict_wf (w_events w)"
      "dict_get (w_events w) key = Some (x # xs)" "length (x # xs) = w_limit w"
    and srt: "sorted (x # xs)" "now < x + w_window w"
    and chk: "check path' client now l = (l', r)"
  shows "\<exists>w'. dict_get (l_windows l') path = Some w' \<and> dict_wf (w_events w')
    \<and> dict_get (w_events w') key = Some (x # xs) \<and> w_limit w' = w_limit w \<and> w_window w' = w_window w
    \<and> (path' = path \<longrightarrow> client_path_key path' client = key \<longrightarrow> r = Inr (Some (x + w_window w - now)))"
proof (cases "path' = path")
  case False
  have "dict_get (l_windows (fst (admit path' k now m v))) path = dict_get (l_windows m) path" for k m v
    using False by (auto simp: admit_def may_shrink_def put_window_def Let_def split: prod.split)
  moreover have "dict_get (l_windows (fst (may_shrink path' v now l))) path = dict_get (l_windows l) path" for v
    using False by (auto simp: may_shrink_def put_window_def Let_def)
  ultimately have "dict_get (l_windows l') path = dict_get (l_windows l) path"
    using chk by (auto simp: check_def Let_def split: option.splits if_splits prod.splits) (metis fst_conv)+
  with l False show ?thesis by auto
next
  case True
  let ?key = "client_path_key path client"
  show ?thesis
  proof (cases "\<not> dict_has (w_events w) ?key \<and> length (w_events w) \<ge> 2 * l_max_keys l")
    case False
    with admit_limited [OF l srt, of ?key] chk l(1) True show ?thesis by (auto simp: check_def)
  next
    case full: True
    obtain l1 w1 where s: "may_shrink path w now l = (l1, w1)" by (cases "may_shrink path w now l") auto
    note ms = may_shrink_cases [OF l(1) s]
    note w1 = shrink_limited [OF l(2-4) srt ms(4)]
    have key: "?key \<noteq> key" using full l(3) by auto
    show ?thesis
    proof (cases "length (w_events w1) \<ge> 2 * l_max_keys l")
      case True
      with full s chk l(1) \<open>path' = path\<close> have "l' = l1" by (simp add: check_def)
      with w1 ms(1) key \<open>path' = path\<close> show ?thesis by auto
    next
      case False
      with full s chk l(1) \<open>path' = path\<close> have "admit path ?key now l1 w1 = (l', r)" by (simp add: check_def)
      with admit_limited [OF ms(1), of key x xs now ?key l' r] w1 l(4) srt key \<open>path' = path\<close> show ?thesis by auto
    qed
  qed
qed

section \<open>Properties\<close>

fun run_checks :: "(string \<times> string \<times> pyfloat) list \<Rightarrow> limiter \<Rightarrow> limiter \<times> (key_error + pyfloat option) list" where
  "run_checks [] l = (l, [])"
| "run_checks ((path, client, now) # rs) l =
     (let (l1, r) = check path client now l; (l2, res) = run_checks rs l1 in (l2, r # res))"

lemma run_checks_ok:
  assumes "limiter_ok t l" and "sorted (t # map (\<lambda>q. snd (snd q)) rs)" and "run_checks rs l = (l', res)"
  shows "(\<exists>t'. limiter_ok t' l') \<and> l_max_keys l' = l_max_keys l
    \<and> (\<forall>r \<in> set res. \<exists>v. r = Inr v \<and> (\<forall>d. v = Some d \<longrightarrow> 0 < d \<and> d \<le> 60))"
  using assms
proof (induction rs arbitrary: t l res)
  case Nil
  then show ?case by auto
next
  case (Cons q rs)
  obtain path client now where q: "q = (path, client, now)" by (cases q) auto
  obtain l1 r where c: "check path client now l = (l1, r)" by (cases "check path client now l") auto
  obtain res' where run: "run_checks rs l1 = (l', res')" "res = r # res'"
    using Cons.prems(3) by (auto simp: q c Let_def split: prod.splits)
  have l: "limiter_ok now l" using Cons.prems(1,2) limiter_ok_later by (auto simp: q)
  note ok = check_ok [OF l c]
  have "w_window w \<le> 60" if "dict_get (l_windows l) path = Some w" for w
    using l that by (auto simp: limiter_ok_def window_ok_def)
  then have "\<exists>v. r = Inr v \<and> (\<forall>d. v = Some d \<longrightarrow> 0 < d \<and> d \<le> 60)" using ok by fastforce
  moreover have "sorted (now # map (\<lambda>q. snd (snd q)) rs)" using Cons.prems(2) by (simp add: q comp_def)
  ultimately show ?case using ok Cons.IH [of now l1 res'] run by simp
qed

lemma new_limiter_ok: "limiter_ok t (new_limiter LIMITS n)"
  by (auto simp: limiter_ok_def window_ok_def new_limiter_def LIMITS_def dict_get_def split: if_splits)

text \<open>C27: The per-instance limiter over any sequence of requests in time order, from any clients on any
  paths: no check fails, every refusal names a wait that is positive and at most 60 seconds, and no path
  ever tracks more than twice \<open>max_keys\<close> clients.\<close>

theorem limiter_memory_and_answers:
  assumes "sorted (map (\<lambda>q. snd (snd q)) reqs)"
  shows "(\<forall>r \<in> set (snd (run_checks reqs (new_limiter LIMITS n))). \<exists>v. r = Inr v \<and> (\<forall>d. v = Some d \<longrightarrow> 0 < d \<and> d \<le> 60))
    \<and> (\<forall>path w. dict_get (l_windows (fst (run_checks reqs (new_limiter LIMITS n)))) path = Some w \<longrightarrow>
         length (w_events w) \<le> 2 * n)"
proof -
  obtain l' res where run: "run_checks reqs (new_limiter LIMITS n) = (l', res)"
    by (cases "run_checks reqs (new_limiter LIMITS n)") auto
  have "sorted ((case reqs of [] \<Rightarrow> 0 | q # _ \<Rightarrow> snd (snd q)) # map (\<lambda>q. snd (snd q)) reqs)"
    using assms by (cases reqs) simp_all
  from run_checks_ok [OF new_limiter_ok this run]
  have "(\<exists>t'. limiter_ok t' l') \<and> l_max_keys l' = n
      \<and> (\<forall>r \<in> set res. \<exists>v. r = Inr v \<and> (\<forall>d. v = Some d \<longrightarrow> 0 < d \<and> d \<le> 60))"
    by (simp add: new_limiter_def)
  then show ?thesis
    by (auto simp: run limiter_ok_def window_ok_def)
qed

theorem limiter_memory_and_answers_witness:
  "Inl KeyError \<notin> set (snd (run_checks [(''/ask'', ''a'', 1), (''/search'', ''b'', 2), (''/ask'', ''c'', 2)] (new_limiter LIMITS 1)))"
  using limiter_memory_and_answers [of "[(''/ask'', ''a'', 1), (''/search'', ''b'', 2), (''/ask'', ''c'', 2)]" 1]
  by fastforce

text \<open>C28: A flood cannot buy a limited client a fresh allowance. Once a client has used up its allowance on a path, the first
  of those requests at time \<open>x\<close>, every request of that client on that path before \<open>x + window\<close> is refused
  with the exact wait, whatever other clients request in between and however often the limiter cleans up.\<close>

theorem limited_client_stays_limited:
  assumes "dict_get (l_windows l) path = Some w" and "dict_wf (w_events w)"
    and "dict_get (w_events w) (client_path_key path client) = Some (x # xs)" and "length (x # xs) = w_limit w"
    and "sorted (x # xs)" and "\<forall>(p, c, now) \<in> set reqs. now < x + w_window w" and "now < x + w_window w"
  shows "snd (check path client now (fst (run_checks reqs l))) = Inr (Some (x + w_window w - now))"
proof -
  have "\<exists>w'. dict_get (l_windows (fst (run_checks reqs l))) path = Some w' \<and> dict_wf (w_events w')
      \<and> dict_get (w_events w') (client_path_key path client) = Some (x # xs)
      \<and> w_limit w' = w_limit w \<and> w_window w' = w_window w"
    using assms(1-4,6)
  proof (induction reqs arbitrary: l w)
    case (Cons q rs)
    obtain p c t where q: "q = (p, c, t)" by (cases q) auto
    obtain l1 r where chk: "check p c t l = (l1, r)" by (cases "check p c t l") auto
    have "t < x + w_window w" using Cons.prems(5) by (auto simp: q)
    from check_limited [OF Cons.prems(1-4) assms(5) this chk] obtain w1
      where w1: "dict_get (l_windows l1) path = Some w1" "dict_wf (w_events w1)"
        "dict_get (w_events w1) (client_path_key path client) = Some (x # xs)"
        "w_limit w1 = w_limit w" "w_window w1 = w_window w" by blast
    have "length (x # xs) = w_limit w1" "\<forall>(p, c, now) \<in> set rs. now < x + w_window w1"
      using Cons.prems(4,5) w1(4,5) by auto
    from Cons.IH [OF w1(1-3) this] w1(4,5) show ?case by (auto simp: q chk Let_def split: prod.split)
  qed auto
  then obtain w' where w': "dict_get (l_windows (fst (run_checks reqs l))) path = Some w'" "dict_wf (w_events w')"
      "dict_get (w_events w') (client_path_key path client) = Some (x # xs)"
      "w_limit w' = w_limit w" "w_window w' = w_window w" by blast
  obtain l2 r where chk: "check path client now (fst (run_checks reqs l)) = (l2, r)"
    by (cases "check path client now (fst (run_checks reqs l))") auto
  have "length (x # xs) = w_limit w'" "now < x + w_window w'" using assms(4,7) w'(4,5) by simp_all
  from check_limited [OF w'(1-3) this(1) assms(5) this(2) chk] show ?thesis using w'(5) by (auto simp: chk)
qed

theorem limited_client_stays_limited_witness:
  "snd (check ''/x'' ''a'' 5 (fst (run_checks [(''/x'', ''b'', 2), (''/x'', ''c'', 3), (''/x'', ''a'', 4)]
     \<lparr>l_windows = [(''/x'', \<lparr>w_limit = 1, w_window = 10, w_events = [(''/x|a'', [1])]\<rparr>)],
      l_max_keys = 1, l_last_shrink = []\<rparr>))) = Inr (Some (1 + 10 - 5))"
proof -
  let ?w = "\<lparr>w_limit = 1, w_window = 10, w_events = [(''/x|a'', [1])]\<rparr>"
  have "snd (check ''/x'' ''a'' 5 (fst (run_checks [(''/x'', ''b'', 2), (''/x'', ''c'', 3), (''/x'', ''a'', 4)]
     \<lparr>l_windows = [(''/x'', ?w)], l_max_keys = 1, l_last_shrink = []\<rparr>))) = Inr (Some (1 + w_window ?w - 5))"
    by (rule limited_client_stays_limited [where xs = "[]"])
      (simp_all add: dict_get_def dict_wf_def client_path_key_def)
  then show ?thesis by simp
qed

section \<open>Waiting as told\<close>

definition shrunk_by :: "pyfloat \<Rightarrow> limiter \<Rightarrow> bool" where
  \<comment> \<open>no cleanup is stamped later than \<open>now\<close>\<close>
  "shrunk_by now l \<longleftrightarrow> (\<forall>p t. dict_get (l_last_shrink l) p = Some t \<longrightarrow> t \<le> now)"

lemma shrunk_by_may_shrink: "shrunk_by now l \<Longrightarrow> may_shrink path w now l = (l', w') \<Longrightarrow> shrunk_by now l'"
  by (auto simp: shrunk_by_def may_shrink_def put_window_def Let_def split: if_splits)

lemma shrunk_by_put [simp]: "shrunk_by now (put_window path w l) = shrunk_by now l"
  by (simp add: shrunk_by_def put_window_def)

lemma shrunk_by_admit: "shrunk_by now l \<Longrightarrow> shrunk_by now (fst (admit path key now l w))"
  by (auto simp: admit_def Let_def split: prod.split dest: shrunk_by_may_shrink [rotated])

lemma shrunk_by_check: "shrunk_by t l \<Longrightarrow> t \<le> now \<Longrightarrow> shrunk_by now (fst (check path client now l))"
proof -
  assume "shrunk_by t l" "t \<le> now"
  then have now: "shrunk_by now l" unfolding shrunk_by_def by (meson order_trans)
  have "shrunk_by now (fst (admit path key now l1 w1))" if "may_shrink path w now l = (l1, w1)" for key w l1 w1
    by (rule shrunk_by_admit [OF shrunk_by_may_shrink [OF now that]])
  with now show ?thesis
    by (auto simp: check_def Let_def split: option.split prod.split intro: shrunk_by_may_shrink shrunk_by_admit)
qed

lemma drop_idle_empty: "\<forall>(k, ev) \<in> set (w_events w). is_idle w now ev \<Longrightarrow> drop_idle w now = []"
  by (auto simp: drop_idle_def filter_empty_conv)

lemma admit_served:
  assumes "length (evict (t - w_window w) (dict_get_or (w_events w) key [])) < w_limit w"
  shows "snd (admit path key t l w) = Inr None"
  using assms by (auto simp: admit_def allow_def Let_def split: prod.split)

lemma refused_tracked:
  assumes l: "limiter_ok now l" "dict_get (l_windows l) path = Some w"
    and room: "dict_has (w_events w) key \<or> length (w_events w) < 2 * l_max_keys l"
    and adm: "admit path key now l w = (l', Inr (Some d))"
  shows "\<exists>w' x xs. dict_get (l_windows l') path = Some w' \<and> dict_get (w_events w') key = Some (x # xs)
    \<and> length (x # xs) = w_limit w' \<and> d = x + w_window w' - now"
proof -
  obtain w1 ok where a: "allow key now w = (w1, ok)" by (cases "allow key now w") auto
  let ?cap = "if dict_has (w_events w) key then 2 * l_max_keys l else Suc (length (w_events w))"
  have wok: "window_ok (2 * l_max_keys l) now w" using l by (auto simp: limiter_ok_def)
  have cap: "length (w_events w) \<le> ?cap" using wok room by (auto simp: window_ok_def)
  note al = allow_ok [OF wok a refl cap]
  obtain l2 w2 where sh: "(if length (w_events w1) > l_max_keys l
      then may_shrink path w1 now (put_window path w1 l) else (put_window path w1 l, w1)) = (l2, w2)" by force
  have l1: "dict_get (l_windows (put_window path w1 l)) path = Some w1" by simp
  have two: "dict_get (l_windows l2) path = Some w2 \<and> (w2 = w1 \<or> w2 = shrink (l_max_keys l) w1 now)"
    using sh may_shrink_cases [OF l1, of now l2 w2] by (auto split: if_splits)
  have no: "\<not> ok" using adm a sh by (auto simp: admit_def Let_def)
  obtain x xs where x: "dict_get (w_events w1) key = Some (x # xs)" "length (x # xs) = w_limit w1"
      "\<not> is_idle w1 now (x # xs)" using al(3) [OF no] by blast
  have wf: "dict_wf (w_events w1)" using al(1) by (simp add: window_ok_def)
  from shrink_keeps_limited [OF wf x] two x
  have "dict_get (w_events w2) key = Some (x # xs)" "w_limit w2 = w_limit w1" by auto
  with adm a sh no two x(2) show ?thesis by (auto simp: admit_def Let_def)
qed

lemma wait_is_enough:
  assumes l: "limiter_ok now l" "shrunk_by now l" "l_max_keys l \<ge> 1" "dict_get (l_windows l) path = Some w"
    and wd: "w_window w \<ge> SHRINK_EVERY_S"
    and chk: "check path client now l = (l', Inr (Some d))" and later: "now + d \<le> t"
  shows "snd (check path client t l') = Inr None"
proof -
  let ?key = "client_path_key path client"
  have wok: "window_ok (2 * l_max_keys l) now w" using l by (simp add: limiter_ok_def)
  have served: "snd (check path client t l') = Inr None"
    if adm: "admit path ?key now m v = (l', Inr (Some d))" and m: "limiter_ok now m" "dict_get (l_windows m) path = Some v"
      and room: "dict_has (w_events v) ?key \<or> length (w_events v) < 2 * l_max_keys m" for m v
  proof -
    from refused_tracked [OF m room adm] obtain w' x xs
      where w': "dict_get (l_windows l') path = Some w'" "dict_get (w_events w') ?key = Some (x # xs)"
        "length (x # xs) = w_limit w'" "d = x + w_window w' - now" by blast
    have "evict (t - w_window w') (x # xs) = evict (t - w_window w') xs" using later w'(4) by (simp add: evict_def)
    then have "length (evict (t - w_window w') (x # xs)) < w_limit w'"
      using length_evict [of "t - w_window w'" xs] w'(3) by simp
    with w'(1,2) show ?thesis by (auto simp: check_def Let_def dict_has_def dict_get_or_def dict_get_def intro!: admit_served)
  qed
  show ?thesis
  proof (cases "\<not> dict_has (w_events w) ?key \<and> length (w_events w) \<ge> 2 * l_max_keys l")
    case False
    with served [of l w] l chk show ?thesis by (auto simp: check_def Let_def)
  next
    case True
    obtain l1 w1 where s: "may_shrink path w now l = (l1, w1)" by (cases "may_shrink path w now l") auto
    note ms = may_shrink_cases [OF l(4) s]
    have w1: "window_ok (2 * l_max_keys l) now w1" "w_window w1 = w_window w" "w_limit w1 = w_limit w"
      using wok ms(4) by (auto intro: inv_intros)
    show ?thesis
    proof (cases "length (w_events w1) \<ge> 2 * l_max_keys l")
      case False
      have "limiter_ok now l1" unfolding limiter_ok_def
      proof (intro allI impI)
        fix p v assume "dict_get (l_windows l1) p = Some v"
        with l(1) ms(1-3) w1(1) show "window_ok (2 * l_max_keys l1) now v"
          by (cases "p = path") (auto simp: limiter_ok_def)
      qed
      with False True s l(4) chk served [of l1 w1] ms(1,2) show ?thesis by (auto simp: check_def Let_def)
    next
      case full: True
      with True s l(4) chk have l': "l' = l1" "d = w_window w" by (auto simp: check_def Let_def w1(2))
      have untracked: "\<not> dict_has (w_events w1) ?key"
        using True ms(4) shrink_sub [of w "l_max_keys l" now ?key] wok
        by (cases "dict_get (w_events w1) ?key") (auto simp: dict_has_def window_ok_def)
      have "is_idle w1 t ev" if "(k, ev) \<in> set (w_events w1)" for k ev
      proof -
        have "dict_get (w_events w1) k = Some ev" using w1(1) that by (simp add: window_ok_def dict_get_in_set)
        then have "\<forall>x \<in> set ev. x \<le> now" using w1(1) by (simp add: window_ok_def)
        then show ?thesis using later l'(2) w1(2) by (cases ev rule: rev_cases) (auto simp: is_idle_def)
      qed
      then have "drop_idle w1 t = []" by (intro drop_idle_empty) auto
      then have sh: "w_events (shrink n w1 t) = []" for n by (simp add: shrink_def Let_def)
      have "case dict_get (l_last_shrink l1) path of None \<Rightarrow> True | Some u \<Rightarrow> t - u \<ge> SHRINK_EVERY_S"
        using shrunk_by_may_shrink [OF l(2) s] later l'(2) wd by (fastforce simp: shrunk_by_def split: option.splits)
      then obtain l2 w2 where s2: "may_shrink path w1 t l1 = (l2, w2)" "w2 = shrink (l_max_keys l1) w1 t"
        by (simp add: may_shrink_def Let_def)
      then have "w_events w2 = []" "1 \<le> w_limit w2" using sh w1(1,3) by (auto simp: window_ok_def)
      then have "snd (admit path ?key t l2 w2) = Inr None"
        by (intro admit_served) (simp add: evict_def dict_get_or_def dict_get_def)
      with \<open>w_events w2 = []\<close> s2(1) untracked full l(3) ms(1,2) l'(1) show ?thesis by (auto simp: check_def Let_def)
    qed
  qed
qed

text \<open>The same with other clients' requests in between: the entry of the refused client stays as it is or is evicted.\<close>

definition only_evicted :: "string \<Rightarrow> window \<Rightarrow> window \<Rightarrow> bool" where
  "only_evicted key w w' \<longleftrightarrow> dict_wf (w_events w') \<and> w_limit w' = w_limit w \<and> w_window w' = w_window w
     \<and> (\<forall>ev. dict_get (w_events w') key = Some ev \<longrightarrow> dict_get (w_events w) key = Some ev)"

lemma only_evicted_trans: "only_evicted key w w1 \<Longrightarrow> only_evicted key w1 w2 \<Longrightarrow> only_evicted key w w2"
  by (simp add: only_evicted_def)

lemma only_evicted_shrink: "dict_wf (w_events w) \<Longrightarrow> v = w \<or> v = shrink n w now \<Longrightarrow> only_evicted key w v"
  by (auto simp: only_evicted_def shrink_wf dest: shrink_sub)

lemma only_evicted_allow: "dict_wf (w_events w) \<Longrightarrow> key' \<noteq> key \<Longrightarrow> only_evicted key w (fst (allow key' now w))"
  by (simp add: only_evicted_def allow_def Let_def)

lemma admit_other:
  assumes "dict_wf (w_events w)" and "key' \<noteq> key"
  shows "\<exists>w'. dict_get (l_windows (fst (admit path key' now l w))) path = Some w' \<and> only_evicted key w w'"
proof -
  obtain w1 ok where a: "allow key' now w = (w1, ok)" by (cases "allow key' now w") auto
  have w1: "only_evicted key w w1" using only_evicted_allow [OF assms, of now] a by simp
  then have wf: "dict_wf (w_events w1)" by (simp add: only_evicted_def)
  obtain l2 w2 where sh: "(if length (w_events w1) > l_max_keys l
      then may_shrink path w1 now (put_window path w1 l) else (put_window path w1 l, w1)) = (l2, w2)" by force
  have "dict_get (l_windows l2) path = Some w2 \<and> (w2 = w1 \<or> w2 = shrink (l_max_keys l) w1 now)"
    using sh may_shrink_cases [of "put_window path w1 l" path w1 now l2 w2] by (auto split: if_splits)
  with only_evicted_shrink [OF wf] only_evicted_trans [OF w1] a sh show ?thesis by (fastforce simp: admit_def Let_def)
qed

lemma check_elsewhere: "path' \<noteq> path \<Longrightarrow> dict_get (l_windows (fst (check path' client now l))) path = dict_get (l_windows l) path"
proof -
  assume ne: "path' \<noteq> path"
  have "dict_get (l_windows (fst (admit path' k now m v))) path = dict_get (l_windows m) path" for k m v
    using ne by (auto simp: admit_def may_shrink_def put_window_def Let_def split: prod.split)
  moreover have "dict_get (l_windows (fst (may_shrink path' v now l))) path = dict_get (l_windows l) path" for v
    using ne by (auto simp: may_shrink_def put_window_def Let_def)
  ultimately show ?thesis by (auto simp: check_def Let_def split: option.splits prod.splits) (metis fst_conv)+
qed

lemma check_other:
  assumes "dict_get (l_windows l) path = Some w" and "dict_wf (w_events w)" and "(path', client') \<noteq> (path, client)"
  shows "\<exists>w'. dict_get (l_windows (fst (check path' client' now l))) path = Some w' \<and> only_evicted (client_path_key path client) w w'"
proof (cases "path' = path")
  case False
  with assms(1,2) show ?thesis by (simp add: check_elsewhere only_evicted_def)
next
  case True
  let ?key = "client_path_key path client" and ?key' = "client_path_key path client'"
  have ne: "?key' \<noteq> ?key" using assms(3) True by (simp add: client_path_key_def)
  show ?thesis
  proof (cases "\<not> dict_has (w_events w) ?key' \<and> length (w_events w) \<ge> 2 * l_max_keys l")
    case False
    with admit_other [OF assms(2) ne] assms(1) True show ?thesis by (auto simp: check_def)
  next
    case full: True
    obtain l1 w1 where s: "may_shrink path w now l = (l1, w1)" by (cases "may_shrink path w now l") auto
    note ms = may_shrink_cases [OF assms(1) s]
    have w1: "only_evicted ?key w w1" by (rule only_evicted_shrink [OF assms(2) ms(4)])
    then have wf: "dict_wf (w_events w1)" by (simp add: only_evicted_def)
    from admit_other [OF wf ne, of path now l1] only_evicted_trans [OF w1] w1 ms(1) full s assms(1) True
    show ?thesis by (auto simp: check_def)
  qed
qed

lemma run_checks_other:
  assumes "dict_get (l_windows l) path = Some w" and "dict_wf (w_events w)"
    and "\<forall>(p, c, u) \<in> set reqs. (p, c) \<noteq> (path, client)"
  shows "\<exists>w'. dict_get (l_windows (fst (run_checks reqs l))) path = Some w' \<and> only_evicted (client_path_key path client) w w'"
  using assms
proof (induction reqs arbitrary: l w)
  case Nil
  then show ?case by (simp add: only_evicted_def)
next
  case (Cons q rs)
  obtain p c u where q: "q = (p, c, u)" by (cases q) auto
  have "(p, c) \<noteq> (path, client)" using Cons.prems(3) q by auto
  from check_other [OF Cons.prems(1,2) this] obtain w1
    where w1: "dict_get (l_windows (fst (check p c u l))) path = Some w1" "only_evicted (client_path_key path client) w w1" by blast
  then have "dict_wf (w_events w1)" by (simp add: only_evicted_def)
  from Cons.IH [OF w1(1) this] Cons.prems(3) only_evicted_trans [OF w1(2)] show ?case
    by (auto simp: q Let_def split_beta)
qed

definition has_room :: "string \<Rightarrow> string \<Rightarrow> pyfloat \<Rightarrow> window \<Rightarrow> bool" where
  \<comment> \<open>at time \<open>t\<close> the client's requests in the window are below the limit\<close>
  "has_room path client t w \<longleftrightarrow> dict_wf (w_events w) \<and> 1 \<le> w_limit w
     \<and> (\<forall>ev. dict_get (w_events w) (client_path_key path client) = Some ev \<longrightarrow> length (evict (t - w_window w) ev) < w_limit w)"

lemma has_room_evicted: "has_room path client t w \<Longrightarrow> only_evicted (client_path_key path client) w w' \<Longrightarrow> has_room path client t w'"
  by (simp add: has_room_def only_evicted_def)

lemma refused_has_room:
  assumes l: "limiter_ok now l" "dict_get (l_windows l) path = Some w"
    and chk: "check path client now l = (l', Inr (Some d))" and later: "now + d \<le> t"
  shows "\<exists>w'. dict_get (l_windows l') path = Some w' \<and> has_room path client t w'"
proof -
  let ?key = "client_path_key path client"
  have wok: "window_ok (2 * l_max_keys l) now w" using l by (simp add: limiter_ok_def)
  have l': "limiter_ok now l'" using check_ok [OF l(1) chk] by simp
  have tracked: "\<exists>w'. dict_get (l_windows l') path = Some w' \<and> has_room path client t w'"
    if adm: "admit path ?key now m v = (l', Inr (Some d))" and m: "limiter_ok now m" "dict_get (l_windows m) path = Some v"
      and room: "dict_has (w_events v) ?key \<or> length (w_events v) < 2 * l_max_keys m" for m v
  proof -
    from refused_tracked [OF m room adm] obtain w' x xs
      where w': "dict_get (l_windows l') path = Some w'" "dict_get (w_events w') ?key = Some (x # xs)"
        "length (x # xs) = w_limit w'" "d = x + w_window w' - now" by blast
    have "evict (t - w_window w') (x # xs) = evict (t - w_window w') xs" using later w'(4) by (simp add: evict_def)
    then have "length (evict (t - w_window w') (x # xs)) < w_limit w'"
      using length_evict [of "t - w_window w'" xs] w'(3) by simp
    moreover have "dict_wf (w_events w')" "1 \<le> w_limit w'" using l' w'(1) by (auto simp: limiter_ok_def window_ok_def)
    ultimately show ?thesis using w'(1,2) by (auto simp: has_room_def)
  qed
  show ?thesis
  proof (cases "\<not> dict_has (w_events w) ?key \<and> length (w_events w) \<ge> 2 * l_max_keys l")
    case False
    with tracked [of l w] l chk show ?thesis by (auto simp: check_def Let_def)
  next
    case True
    obtain l1 w1 where s: "may_shrink path w now l = (l1, w1)" by (cases "may_shrink path w now l") auto
    note ms = may_shrink_cases [OF l(2) s]
    have w1: "window_ok (2 * l_max_keys l) now w1" using wok ms(4) by (auto intro: inv_intros)
    show ?thesis
    proof (cases "length (w_events w1) \<ge> 2 * l_max_keys l")
      case False
      have "limiter_ok now l1" unfolding limiter_ok_def
      proof (intro allI impI)
        fix p v assume "dict_get (l_windows l1) p = Some v"
        with l(1) ms(1-3) w1 show "window_ok (2 * l_max_keys l1) now v"
          by (cases "p = path") (auto simp: limiter_ok_def)
      qed
      with False True s l(2) chk tracked [of l1 w1] ms(1,2) show ?thesis by (auto simp: check_def Let_def)
    next
      case full: True
      with True s l(2) chk have l': "l' = l1" by (auto simp: check_def Let_def)
      have "dict_get (w_events w1) ?key = None"
        using True ms(4) shrink_sub [of w "l_max_keys l" now ?key] wok
        by (cases "dict_get (w_events w1) ?key") (auto simp: dict_has_def window_ok_def)
      with w1 ms(1) show ?thesis by (auto simp: l' has_room_def window_ok_def)
    qed
  qed
qed

definition crowded_out :: "string \<Rightarrow> string \<Rightarrow> limiter \<Rightarrow> bool" where
  \<comment> \<open>the path does not track the client, and tracks as many others as it may\<close>
  "crowded_out path client l \<longleftrightarrow> (\<exists>w. dict_get (l_windows l) path = Some w
     \<and> \<not> dict_has (w_events w) (client_path_key path client) \<and> 2 * l_max_keys l \<le> length (w_events w))"

lemma has_room_checked:
  assumes "dict_get (l_windows l) path = Some w" and "has_room path client t w"
  shows "snd (check path client t l) = Inr None
    \<or> crowded_out path client l \<and> snd (check path client t l) = Inr (Some (w_window w))"
proof (cases "crowded_out path client l")
  case False
  then have "check path client t l = admit path (client_path_key path client) t l w"
    using assms(1) by (auto simp: crowded_out_def check_def)
  moreover have "length (evict (t - w_window w) (dict_get_or (w_events w) (client_path_key path client) [])) < w_limit w"
    using assms(2) by (cases "dict_get (w_events w) (client_path_key path client)")
      (auto simp: has_room_def dict_get_or_def dict_get_def evict_def)
  ultimately show ?thesis by (simp add: admit_served)
next
  case True
  let ?key = "client_path_key path client"
  obtain l1 w1 where s: "may_shrink path w t l = (l1, w1)" by (cases "may_shrink path w t l") auto
  note ms = may_shrink_cases [OF assms(1) s]
  have wf: "dict_wf (w_events w)" "1 \<le> w_limit w" using assms(2) by (auto simp: has_room_def)
  have "only_evicted ?key w w1" by (rule only_evicted_shrink [OF wf(1) ms(4)])
  then have w1: "has_room path client t w1" "w_window w1 = w_window w"
    using has_room_evicted [OF assms(2)] by (auto simp: only_evicted_def)
  have "length (evict (t - w_window w1) (dict_get_or (w_events w1) ?key [])) < w_limit w1"
    using w1(1) by (cases "dict_get (w_events w1) ?key") (auto simp: has_room_def dict_get_or_def dict_get_def evict_def)
  then have "snd (admit path ?key t l1 w1) = Inr None" by (rule admit_served)
  with True s assms(1) w1(2) show ?thesis by (auto simp: crowded_out_def check_def)
qed

lemma wait_in_traffic:
  assumes "limiter_ok now l" and "dict_get (l_windows l) path = Some w"
    and "check path client now l = (l', Inr (Some d))" and "now + d \<le> t"
    and "\<forall>(p, c, u) \<in> set reqs. (p, c) \<noteq> (path, client)"
  shows "\<exists>w'. dict_get (l_windows (fst (run_checks reqs l'))) path = Some w'
    \<and> (snd (check path client t (fst (run_checks reqs l'))) = Inr None
       \<or> crowded_out path client (fst (run_checks reqs l'))
         \<and> snd (check path client t (fst (run_checks reqs l'))) = Inr (Some (w_window w')))"
proof -
  from refused_has_room [OF assms(1-4)] obtain w1
    where w1: "dict_get (l_windows l') path = Some w1" "has_room path client t w1" by blast
  then have "dict_wf (w_events w1)" by (simp add: has_room_def)
  from run_checks_other [OF w1(1) this assms(5)] obtain w2
    where w2: "dict_get (l_windows (fst (run_checks reqs l'))) path = Some w2" "only_evicted (client_path_key path client) w1 w2" by blast
  from has_room_checked [OF w2(1) has_room_evicted [OF w1(2) w2(2)]] w2(1) show ?thesis by blast
qed

end
