(* ===== verification/Billing.thy ===== *)
theory Billing
  imports Settings
begin

text \<open>
  \<open>dealfinder/billing.py\<close>: the plans, usage metering against the monthly quota, checkout sessions and
  webhooks. Stripe is not part of the repository: creating a session is the argument \<open>create\<close>, and
  \<open>construct_event\<close> the argument \<open>verify\<close>, \<open>None\<close> when the signature is bad.
\<close>

record plan =
  pl_key :: string
  pl_name :: string
  pl_searches :: int
  pl_price_env :: string

definition PLANS :: "(string, plan) dict" where
  "PLANS = [(''free'', \<lparr>pl_key = ''free'', pl_name = ''Free'', pl_searches = 25, pl_price_env = ''''\<rparr>),
     (''pro'', \<lparr>pl_key = ''pro'', pl_name = ''Pro'', pl_searches = 1000, pl_price_env = ''STRIPE_PRICE_PRO''\<rparr>)]"

definition plan_for :: "string \<Rightarrow> plan" where
  "plan_for k = dict_get_or PLANS k (the (dict_get PLANS ''free''))"

type_synonym usage = "(string, int) dict"

definition within_quota :: "usage \<Rightarrow> string \<Rightarrow> string \<Rightarrow> bool" where
  "within_quota store user plan_key =
     (let plan = plan_for plan_key in
      if pl_searches plan < 0 then True else dict_get_or store user 0 < pl_searches plan)"

definition meter_usage :: "usage \<Rightarrow> string \<Rightarrow> string \<Rightarrow> int \<Rightarrow> string + int \<times> usage" where
  "meter_usage store user plan_key n =
     (let plan = plan_for plan_key; used = dict_get_or store user 0 in
      if pl_searches plan \<ge> 0 \<and> used + n > pl_searches plan
      then Inl (pl_name plan @ '' plan allows '' @ int_str (pl_searches plan) @ '' searches/mo (used '' @
             int_str used @ '')'')
      else Inr (used + n, dict_set user (used + n) store))"

record checkout_request =
  cr_price :: string
  cr_quantity :: nat
  cr_success :: string
  cr_cancel :: string
  cr_reference :: string
  cr_email :: "string option"
  cr_user :: string
  cr_plan :: string

definition create_checkout_session ::
  "(checkout_request \<Rightarrow> string \<times> string) \<Rightarrow> environ \<Rightarrow> string \<times> string option \<Rightarrow> string \<Rightarrow> string \<Rightarrow> string \<Rightarrow>
   string + string \<times> string" where
  "create_checkout_session create env user plan_key success cancel =
     (let plan = plan_for plan_key;
          price_id = (if pl_price_env plan = [] then None else getenv env (pl_price_env plan))
      in case price_id of
           Some (c # cs) \<Rightarrow> Inr (create \<lparr>cr_price = c # cs, cr_quantity = 1, cr_success = success,
              cr_cancel = cancel, cr_reference = fst user, cr_email = snd user, cr_user = fst user, cr_plan = plan_key\<rparr>)
         | _ \<Rightarrow> Inl (''no Stripe price configured for plan '' @ plan_key @ '' ('' @ pl_price_env plan @ '')''))"

record event =
  ev_type :: string
  ev_reference :: "string option"
  ev_metadata :: "(string, string) dict"

record entitlement =
  en_user :: string
  en_plan :: string

definition handle_webhook ::
  "(string \<Rightarrow> string \<Rightarrow> string \<Rightarrow> event option) \<Rightarrow> string \<Rightarrow> string \<Rightarrow> string \<Rightarrow> string + entitlement option" where
  "handle_webhook verify payload sig_header secret =
     (case verify payload sig_header secret of
        None \<Rightarrow> Inl ''SignatureVerificationError''
      | Some e \<Rightarrow>
          if ev_type e \<noteq> ''checkout.session.completed'' then Inr None
          else (let user = (if truthy (ev_reference e) then ev_reference e else dict_get (ev_metadata e) ''user_id'')
                in if truthy user
                   then Inr (Some \<lparr>en_user = the user, en_plan = dict_get_or (ev_metadata e) ''plan'' ''pro''\<rparr>)
                   else Inr None))"

text \<open>The gate and the meter as one interface: what a metered resource promises.\<close>

locale metered =
  fixes open_for :: "'s \<Rightarrow> 'u \<Rightarrow> bool"
    and spend :: "'s \<Rightarrow> 'u \<Rightarrow> int \<Rightarrow> ('e + int \<times> 's)"
    and used :: "'s \<Rightarrow> 'u \<Rightarrow> int"
    and quota :: int
  assumes gate: "open_for s u \<longleftrightarrow> used s u < quota"
    and spend_ok: "used s u + n \<le> quota \<Longrightarrow> \<exists>s'. spend s u n = Inr (used s u + n, s') \<and> used s' u = used s u + n
          \<and> (\<forall>v. v \<noteq> u \<longrightarrow> used s' v = used s v)"
    and spend_refused: "quota < used s u + n \<Longrightarrow> \<exists>e. spend s u n = Inl e"
begin

lemma gate_iff_spend_one: "open_for s u \<longleftrightarrow> (\<exists>r. spend s u 1 = Inr r)"
  using spend_ok [of s u 1] spend_refused [of s u 1] by (cases "used s u < quota") (auto simp: gate)

fun spend_all :: "('u \<times> int) list \<Rightarrow> 's \<Rightarrow> 's" where
  "spend_all [] s = s"
| "spend_all ((u, n) # rs) s = spend_all rs (case spend s u n of Inl e \<Rightarrow> s | Inr (t, s') \<Rightarrow> s')"

lemma spend_all_bounded: "used s v \<le> quota \<Longrightarrow> used (spend_all rs s) v \<le> quota"
proof (induction rs arbitrary: s)
  case (Cons r rs)
  obtain u n where r: "r = (u, n)" by (cases r) auto
  have "used (case spend s u n of Inl e \<Rightarrow> s | Inr (t, s') \<Rightarrow> s') v \<le> quota"
  proof (cases "used s u + n \<le> quota")
    case True
    with spend_ok [OF True] Cons.prems show ?thesis by (cases "v = u") auto
  next
    case False
    with spend_refused [of s u n] Cons.prems show ?thesis by auto
  qed
  from Cons.IH [OF this] show ?case by (simp add: r)
qed simp

end

lemma plan_quota: "pl_searches (plan_for k) = (if k = ''pro'' then 1000 else 25)"
  by (simp add: plan_for_def PLANS_def dict_get_or_def dict_get_def)

interpretation free: metered "\<lambda>s u. within_quota s u ''free''" "\<lambda>s u n. meter_usage s u ''free'' n"
    "\<lambda>s u. dict_get_or s u 0" 25
  by unfold_locales (auto simp: within_quota_def meter_usage_def plan_quota Let_def dict_get_or_def)

interpretation pro: metered "\<lambda>s u. within_quota s u ''pro''" "\<lambda>s u n. meter_usage s u ''pro'' n"
    "\<lambda>s u. dict_get_or s u 0" 1000
  by unfold_locales (auto simp: within_quota_def meter_usage_def plan_quota Let_def dict_get_or_def)

fun meter_all :: "string \<Rightarrow> (string \<times> int) list \<Rightarrow> usage \<Rightarrow> usage" where
  "meter_all plan_key [] store = store"
| "meter_all plan_key ((u, n) # rs) store =
     meter_all plan_key rs (case meter_usage store u plan_key n of Inl e \<Rightarrow> store | Inr (t, store') \<Rightarrow> store')"

lemma meter_all_pro: "meter_all ''pro'' rs store = pro.spend_all rs store"
  by (induction rs arbitrary: store) auto

lemma plan_for_other: "k \<noteq> ''pro'' \<Longrightarrow> plan_for k = plan_for ''free''"
  by (simp add: plan_for_def PLANS_def dict_get_or_def dict_get_def)

lemma meter_other: "k \<noteq> ''pro'' \<Longrightarrow> meter_usage s u k n = meter_usage s u ''free'' n
    \<and> within_quota s u k = within_quota s u ''free''"
  by (drule plan_for_other) (simp add: meter_usage_def within_quota_def)

text \<open>C29: The quota. Whatever the plan's name, no sequence of metered requests lifts any user's count above
  the plan's quota (25, or 1000 on the pro plan), and the gate says yes to a user in exactly the
  states where metering one more search succeeds.\<close>

theorem quota_never_exceeded:
  assumes "\<forall>u. dict_get_or store u 0 \<le> (if k = ''pro'' then 1000 else 25)"
  shows "(\<forall>u. dict_get_or (meter_all k reqs store) u 0 \<le> (if k = ''pro'' then 1000 else 25))
    \<and> (\<forall>u. within_quota store u k \<longleftrightarrow> (\<exists>r. meter_usage store u k 1 = Inr r))"
proof (cases "k = ''pro''")
  case True
  with assms pro.spend_all_bounded [of store _ reqs] pro.gate_iff_spend_one [of store] show ?thesis
    by (simp add: meter_all_pro)
next
  case False
  note eqs = meter_other [OF False, THEN conjunct1] meter_other [OF False, THEN conjunct2]
  have run: "meter_all k rs s = free.spend_all rs s" for rs s
    by (induction rs arbitrary: s) (auto simp only: meter_all.simps free.spend_all.simps eqs(1))
  show ?thesis
    using False assms free.spend_all_bounded [of store _ reqs] free.gate_iff_spend_one [of store]
    by (simp only: run eqs) simp
qed

theorem quota_never_exceeded_witness:
  "dict_get_or (meter_all ''free'' [(''u'', 20), (''u'', 6), (''u'', 5)] []) ''u'' 0 \<le> 25"
  using quota_never_exceeded [of "[]" "''free''" "[(''u'', 20), (''u'', 6), (''u'', 5)]"]
  by (simp add: dict_get_or_def)

end
