(* ===== verification/Auth.thy ===== *)
theory Auth
  imports Settings
begin

text \<open>
  \<open>dealfinder/auth.py\<close> and \<open>dealfinder/tenancy.py\<close>: the cached signing keys, the verification of a session
  token, the roles and the request's principal.

  The key-set cache is shared by the request threads. One call of \<open>key_for\<close> reads the clock up to
  four times (\<open>t1\<close> to \<open>t4\<close>) and may wait for the lock: \<open>lock\<close> is \<open>None\<close> when the wait timed out, else
  the cache as this thread finds it then, which other threads may have changed. \<open>net\<close> is the outcome
  of the HTTP fetch, \<open>None\<close> for any exception. A key set is the list of its keys with their
  optional ids. PyJWT's checks are arguments too: \<open>kid_of\<close> reads the unverified header (\<open>None\<close>: a
  \<open>PyJWTError\<close>) and \<open>decode\<close> verifies signature, expiry, issuer and audience.
\<close>

definition JWKS_TTL_S :: pyfloat where "JWKS_TTL_S = 600"
definition JWKS_MIN_REFRESH_S :: pyfloat where "JWKS_MIN_REFRESH_S = 60"
definition JWKS_RETRY_S :: pyfloat where "JWKS_RETRY_S = 30"

section \<open>The cache of signing keys\<close>

type_synonym 'k keyset = "(string option \<times> 'k) list"

text \<open>A time stamp of \<open>None\<close> is the initial minus infinity.\<close>

record 'k jwks =
  jw_keys :: "'k keyset option"
  jw_fetched_at :: "pyfloat option"
  jw_failed_at :: "pyfloat option"

definition new_jwks :: "'k jwks" where
  "new_jwks = \<lparr>jw_keys = None, jw_fetched_at = None, jw_failed_at = None\<rparr>"

datatype key_failure = Unavailable | InvalidKey

definition age_ge :: "pyfloat \<Rightarrow> pyfloat option \<Rightarrow> pyfloat \<Rightarrow> bool" where
  \<comment> \<open>\<open>now - stamp >= s\<close>\<close>
  "age_ge now stamp s \<longleftrightarrow> (case stamp of None \<Rightarrow> True | Some t \<Rightarrow> now - t \<ge> s)"

definition fetch :: "'k keyset option \<Rightarrow> pyfloat \<Rightarrow> 'k jwks \<Rightarrow> 'k jwks \<times> bool" where
  "fetch net now j = (case net of
     None \<Rightarrow> (j\<lparr>jw_failed_at := Some now\<rparr>, False)
   | Some ks \<Rightarrow> (j\<lparr>jw_keys := Some ks, jw_fetched_at := Some now\<rparr>, True))"

definition lookup_key :: "string option \<Rightarrow> 'k jwks \<Rightarrow> 'k option" where
  "lookup_key kid j = (case jw_keys j of None \<Rightarrow> None | Some ks \<Rightarrow> map_of ks kid)"

definition needs_fetch :: "string option \<Rightarrow> pyfloat \<Rightarrow> 'k jwks \<Rightarrow> bool" where
  "needs_fetch kid now j \<longleftrightarrow> age_ge now (jw_fetched_at j) JWKS_TTL_S
     \<or> lookup_key kid j = None \<and> age_ge now (jw_fetched_at j) JWKS_MIN_REFRESH_S"

definition or_fail :: "'k option \<Rightarrow> key_failure \<Rightarrow> key_failure + 'k" where
  "or_fail key e = (case key of None \<Rightarrow> Inl e | Some k \<Rightarrow> Inr k)"

definition key_for ::
  "'k keyset option \<Rightarrow> pyfloat \<Rightarrow> pyfloat \<Rightarrow> pyfloat \<Rightarrow> pyfloat \<Rightarrow> 'k jwks option \<Rightarrow> string option \<Rightarrow> 'k jwks \<Rightarrow>
   'k jwks \<times> (key_failure + 'k)" where
  "key_for net t1 t2 t3 t4 lock kid j =
     (let key = lookup_key kid j in
      if \<not> needs_fetch kid t1 j then (j, or_fail key InvalidKey)
      else if \<not> age_ge t2 (jw_failed_at j) JWKS_RETRY_S then (j, or_fail key Unavailable)
      else (case lock of
              None \<Rightarrow> (j, or_fail key Unavailable)
            | Some j1 \<Rightarrow>
                if needs_fetch kid t3 j1
                then (let (j2, ok) = fetch net t4 j1 in
                      (j2, if ok then or_fail (lookup_key kid j2) InvalidKey else or_fail key Unavailable))
                else (j1, or_fail (lookup_key kid j1) InvalidKey)))"

section \<open>Verifying a token\<close>

type_synonym http_error = "nat \<times> string"

datatype decoded = Claims json | Expired | BadToken

definition unavailable :: http_error where "unavailable = (503, ''auth unavailable'')"
definition invalid_token :: http_error where "invalid_token = (401, ''invalid token'')"

definition py_rstrip :: "char \<Rightarrow> string \<Rightarrow> string" where
  "py_rstrip c s = rev (dropWhile (\<lambda>x. x = c) (rev s))"

definition supabase_url :: "environ \<Rightarrow> http_error + string" where
  "supabase_url env = (if truthy (getenv env ''SUPABASE_URL'')
     then Inr (py_rstrip CHR ''/'' (the (getenv env ''SUPABASE_URL''))) else Inl unavailable)"

definition decode_claims :: "(string \<Rightarrow> 'k \<Rightarrow> string \<Rightarrow> decoded) \<Rightarrow> string \<Rightarrow> 'k \<Rightarrow> string \<Rightarrow> http_error + json" where
  "decode_claims decode token key issuer =
     (case decode token key issuer of
        Claims c \<Rightarrow> Inr c | Expired \<Rightarrow> Inl (401, ''token expired'') | BadToken \<Rightarrow> Inl invalid_token)"

definition key_from_set :: "string option option \<Rightarrow> 'k keyset \<Rightarrow> 'k option" where
  \<comment> \<open>\<open>None\<close>: a \<open>PyJWTError\<close>, from the header or from an unknown id\<close>
  "key_from_set kid ks = (case kid of None \<Rightarrow> None | Some k \<Rightarrow> map_of ks k)"

definition verify_with_jwks ::
  "(string \<Rightarrow> string option option) \<Rightarrow> (string \<Rightarrow> 'k \<Rightarrow> string \<Rightarrow> decoded) \<Rightarrow> string \<Rightarrow> 'k keyset \<Rightarrow> string \<Rightarrow>
   http_error + json" where
  "verify_with_jwks kid_of decode token ks issuer =
     (case key_from_set (kid_of token) ks of
        None \<Rightarrow> Inl invalid_token | Some key \<Rightarrow> decode_claims decode token key issuer)"

text \<open>\<open>keys kid\<close> is the answer of this process's cache for the project's key URL.\<close>

definition verify_token ::
  "environ \<Rightarrow> 'k keyset option \<Rightarrow> (string option \<Rightarrow> key_failure + 'k) \<Rightarrow> (string \<Rightarrow> string option option) \<Rightarrow>
   (string \<Rightarrow> 'k \<Rightarrow> string \<Rightarrow> decoded) \<Rightarrow> string \<Rightarrow> http_error + json" where
  "verify_token env test_jwks keys kid_of decode token =
     (case supabase_url env of
        Inl e \<Rightarrow> Inl e
      | Inr url \<Rightarrow>
          (let issuer = url @ ''/auth/v1'' in
           case test_jwks of
             Some ks \<Rightarrow> verify_with_jwks kid_of decode token ks issuer
           | None \<Rightarrow>
               (case kid_of token of
                  None \<Rightarrow> Inl invalid_token
                | Some kid \<Rightarrow>
                    (case keys kid of
                       Inl Unavailable \<Rightarrow> Inl unavailable
                     | Inl InvalidKey \<Rightarrow> Inl invalid_token
                     | Inr key \<Rightarrow> decode_claims decode token key issuer))))"

section \<open>Users, roles, principals\<close>

fun first_true :: "json list \<Rightarrow> json" where
  \<comment> \<open>\<open>a or b or ...\<close>: the last value when none is true\<close>
  "first_true [] = JNull"
| "first_true [v] = v"
| "first_true (v # vs) = (if j_truthy v then v else first_true vs)"

definition app_metadata :: "json \<Rightarrow> json option" where
  \<comment> \<open>\<open>claims.get("app_metadata") or {}\<close>; \<open>None\<close> where its own \<open>get\<close> raises\<close>
  "app_metadata claims = (let app = j_or (j_get ''app_metadata'' claims) (JObj []) in if is_obj app then Some app else None)"

definition role_from_claims :: "json \<Rightarrow> json option" where
  "role_from_claims claims = map_option (\<lambda>app.
     first_true [j_get ''user_role'' claims, j_get ''plan'' app, j_get ''role'' app, JStr ''free'']) (app_metadata claims)"

record user =
  u_id :: string
  u_email :: "string option"
  u_role :: string

definition claims_error :: http_error where
  \<comment> \<open>an exception that nothing handles\<close>
  "claims_error = (500, ''Internal Server Error'')"

definition user_of :: "json \<Rightarrow> http_error + user" where
  \<comment> \<open>\<open>User(...)\<close> refuses a value that is no text\<close>
  "user_of claims =
     (case (j_get ''sub'' claims, j_get ''email'' claims, role_from_claims claims) of
        (JStr sub, JStr email, Some (JStr role)) \<Rightarrow> Inr \<lparr>u_id = sub, u_email = Some email, u_role = role\<rparr>
      | (JStr sub, JNull, Some (JStr role)) \<Rightarrow> Inr \<lparr>u_id = sub, u_email = None, u_role = role\<rparr>
      | _ \<Rightarrow> Inl claims_error)"

definition require_user :: "(string \<Rightarrow> http_error + json) \<Rightarrow> string \<Rightarrow> http_error + user" where
  "require_user verify token =
     (case verify token of
        Inl e \<Rightarrow> Inl e
      | Inr claims \<Rightarrow> if \<not> j_truthy (j_get ''sub'' claims) then Inl (401, ''token missing subject'') else user_of claims)"

definition require_role :: "string \<Rightarrow> http_error + user \<Rightarrow> http_error + user" where
  "require_role role u =
     (case u of Inl e \<Rightarrow> Inl e
      | Inr v \<Rightarrow> if u_role v \<noteq> role then Inl (403, ''requires role '' @ [CHR 0x27] @ role @ [CHR 0x27]) else Inr v)"

record principal =
  pr_tenant :: string
  pr_user :: "string option"
  pr_role :: string

definition DEFAULT_TENANT :: string where "DEFAULT_TENANT = ''public''"

definition tenant_from_claims :: "json \<Rightarrow> json option" where
  "tenant_from_claims claims = map_option (\<lambda>app.
     first_true [j_get ''tenant'' claims, j_get ''tenant'' app, j_get ''tenant_id'' app, j_get ''org_id'' claims]) (app_metadata claims)"

definition principal_of :: "json \<Rightarrow> principal option" where
  \<comment> \<open>\<open>None\<close>: a \<open>get\<close> raises, or a value is no text as \<open>Principal\<close> declares it. The source carries such a value along, to
    fail where it is first used as a text; here the request ends with it\<close>
  "principal_of claims =
     (case (tenant_from_claims claims, role_from_claims claims) of
        (Some t, Some (JStr role)) \<Rightarrow>
          (case j_or t (JStr DEFAULT_TENANT) of
             JStr tenant \<Rightarrow>
               (case j_get ''sub'' claims of
                  JStr s \<Rightarrow> Some \<lparr>pr_tenant = tenant, pr_user = Some s, pr_role = role\<rparr>
                | v \<Rightarrow> if j_truthy v then None else Some \<lparr>pr_tenant = tenant, pr_user = None, pr_role = role\<rparr>)
           | _ \<Rightarrow> None)
      | _ \<Rightarrow> None)"

definition current_principal :: "(string \<Rightarrow> http_error + json) \<Rightarrow> string option \<Rightarrow> http_error + principal" where
  "current_principal verify creds =
     (case creds of
        None \<Rightarrow> Inr \<lparr>pr_tenant = DEFAULT_TENANT, pr_user = None, pr_role = ''anonymous''\<rparr>
      | Some token \<Rightarrow>
          (case verify token of
             Inl e \<Rightarrow> Inl e
           | Inr claims \<Rightarrow> (case principal_of claims of None \<Rightarrow> Inl claims_error | Some p \<Rightarrow> Inr p)))"

definition require_account :: "http_error + principal \<Rightarrow> http_error + principal" where
  "require_account who =
     (case who of Inl e \<Rightarrow> Inl e
      | Inr p \<Rightarrow> if truthy (pr_user p) then Inr p else Inl (401, ''sign in to use account features''))"

section \<open>One cache per project\<close>

definition jwks_url :: "environ \<Rightarrow> http_error + string" where
  "jwks_url env = (case supabase_url env of Inl e \<Rightarrow> Inl e | Inr u \<Rightarrow> Inr (u @ ''/auth/v1/.well-known/jwks.json''))"

definition cache_for :: "string \<Rightarrow> (string, 'k jwks) dict \<Rightarrow> (string, 'k jwks) dict \<times> 'k jwks" where
  \<comment> \<open>the whole body is one locked section\<close>
  "cache_for u caches =
     (if dict_has caches u then (caches, dict_get_or caches u new_jwks) else (dict_set u new_jwks caches, new_jwks))"

lemma cache_for_shared: "cache_for u caches = (caches', j) \<Longrightarrow> cache_for u caches' = (caches', j)"
  by (auto simp: cache_for_def dict_get_or_def dict_get_def split: if_splits)

lemma cache_for_other: "cache_for u caches = (caches', j) \<Longrightarrow> u' \<noteq> u \<Longrightarrow> dict_get caches' u' = dict_get caches u'"
  by (auto simp: cache_for_def split: if_splits)

section \<open>The cache's invariant\<close>

lemma lookup_key_in: "lookup_key kid j = Some k \<Longrightarrow> \<exists>ks. jw_keys j = Some ks \<and> (kid, k) \<in> set ks"
  by (auto simp: lookup_key_def dest: map_of_SomeD split: option.splits)

lemma or_fail_Inr [simp]: "or_fail key e = Inr k \<longleftrightarrow> key = Some k"
  by (simp add: or_fail_def split: option.split)

text \<open>
  Calls one after the other: a call's clock readings, what the network would answer and the key id.
  \<open>lg\<close> collects the fetches, each with its time and whether it succeeded.
\<close>

record 'k key_call =
  kc_net :: "'k keyset option"
  kc_t1 :: pyfloat
  kc_t2 :: pyfloat
  kc_t3 :: pyfloat
  kc_t4 :: pyfloat
  kc_kid :: "string option"
  kc_others :: "('k jwks \<Rightarrow> 'k jwks) option"
    \<comment> \<open>\<open>None\<close>: the wait for the lock timed out; else what other threads did to the cache until it was granted\<close>

definition reaches_net :: "'k key_call \<Rightarrow> 'k jwks \<Rightarrow> bool" where
  "reaches_net c j \<longleftrightarrow> needs_fetch (kc_kid c) (kc_t1 c) j \<and> age_ge (kc_t2 c) (jw_failed_at j) JWKS_RETRY_S
     \<and> (case kc_others c of None \<Rightarrow> False | Some f \<Rightarrow> needs_fetch (kc_kid c) (kc_t3 c) (f j))"

definition serve_call :: "'k key_call \<Rightarrow> 'k jwks \<Rightarrow> 'k jwks \<times> (key_failure + 'k)" where
  "serve_call c j = key_for (kc_net c) (kc_t1 c) (kc_t2 c) (kc_t3 c) (kc_t4 c)
     (map_option (\<lambda>f. f j) (kc_others c)) (kc_kid c) j"

definition alone :: "'k key_call \<Rightarrow> bool" where
  \<comment> \<open>it gets the lock, and no other thread changed the cache\<close>
  "alone c \<longleftrightarrow> kc_others c = Some (\<lambda>j. j)"

fun serve_calls :: "'k key_call list \<Rightarrow> 'k jwks \<Rightarrow> (pyfloat \<times> bool) list \<Rightarrow> 'k jwks \<times> (pyfloat \<times> bool) list" where
  "serve_calls [] j lg = (j, lg)"
| "serve_calls (c # cs) j lg =
     serve_calls cs (fst (serve_call c j))
       (if reaches_net c j then lg @ [(kc_t4 c, kc_net c \<noteq> None)] else lg)"

definition readings :: "'k key_call \<Rightarrow> pyfloat list" where
  "readings c = [kc_t1 c, kc_t2 c, kc_t3 c, kc_t4 c]"

definition logged :: "(pyfloat \<times> bool) list \<Rightarrow> 'k jwks \<Rightarrow> bool" where
  "logged lg j \<longleftrightarrow> (\<forall>(t, ok) \<in> set lg. \<exists>f. (if ok then jw_fetched_at j else jw_failed_at j) = Some f \<and> t \<le> f)"

definition spaced :: "(pyfloat \<times> bool) \<Rightarrow> (pyfloat \<times> bool) \<Rightarrow> bool" where
  "spaced a b \<longleftrightarrow> fst a + (if snd a then JWKS_MIN_REFRESH_S else JWKS_RETRY_S) \<le> fst b"

lemmas jwks_periods = JWKS_TTL_S_def JWKS_MIN_REFRESH_S_def JWKS_RETRY_S_def

lemma needs_fetch_age: "needs_fetch kid now j \<Longrightarrow> jw_fetched_at j = Some f \<Longrightarrow> f + JWKS_MIN_REFRESH_S \<le> now"
  by (auto simp: needs_fetch_def age_ge_def jwks_periods)

lemma serve_call_state: "alone c \<Longrightarrow> fst (serve_call c j) =
    (if reaches_net c j then fst (fetch (kc_net c) (kc_t4 c) j) else j)"
  by (auto simp: alone_def serve_call_def key_for_def reaches_net_def Let_def split: prod.split)

lemma serve_call_logged:
  assumes "logged lg j" and "sorted (readings c)" and "\<forall>f. jw_fetched_at j = Some f \<longrightarrow> f \<le> kc_t1 c"
    and "\<forall>f. jw_failed_at j = Some f \<longrightarrow> f \<le> kc_t1 c" and "reaches_net c j" and "alone c"
  shows "logged (lg @ [(kc_t4 c, kc_net c \<noteq> None)]) (fst (serve_call c j))"
    and "\<forall>a \<in> set lg. spaced a (kc_t4 c, b)"
proof -
  have t: "kc_t1 c \<le> kc_t2 c" "kc_t2 c \<le> kc_t3 c" "kc_t3 c \<le> kc_t4 c"
    using assms(2) by (auto simp: readings_def)
  show "logged (lg @ [(kc_t4 c, kc_net c \<noteq> None)]) (fst (serve_call c j))"
    using assms(1,3,4,5) t unfolding logged_def serve_call_state [OF assms(6)] fetch_def
    by (cases "kc_net c") (fastforce split: if_splits)+
  show "\<forall>a \<in> set lg. spaced a (kc_t4 c, b)"
  proof
    fix a assume a: "a \<in> set lg"
    obtain s ok where s: "a = (s, ok)" by (cases a) auto
    with assms(1) a obtain f where f: "(if ok then jw_fetched_at j else jw_failed_at j) = Some f" "s \<le> f"
      by (auto simp: logged_def)
    show "spaced a (kc_t4 c, b)"
    proof (cases ok)
      case True
      with assms(5) f needs_fetch_age [of "kc_kid c" "kc_t3 c" j f] t show ?thesis
        by (simp add: s spaced_def reaches_net_def alone_def [THEN iffD1, OF assms(6)])
    next
      case False
      with assms(5) f t show ?thesis by (simp add: s spaced_def reaches_net_def age_ge_def)
    qed
  qed
qed

lemma serve_calls_spaced:
  assumes "logged lg j" and "sorted_wrt spaced lg" and "sorted (t0 # concat (map readings cs))"
    and "\<forall>f. jw_fetched_at j = Some f \<longrightarrow> f \<le> t0" and "\<forall>f. jw_failed_at j = Some f \<longrightarrow> f \<le> t0" and "list_all alone cs"
  shows "sorted_wrt spaced (snd (serve_calls cs j lg))"
  using assms
proof (induction cs arbitrary: j lg t0)
  case (Cons c cs)
  have c: "alone c" "list_all alone cs" using Cons.prems(6) by simp_all
  have r: "readings c = [kc_t1 c, kc_t2 c, kc_t3 c, kc_t4 c]" by (simp add: readings_def)
  have t: "sorted (readings c)" "t0 \<le> kc_t1 c" "sorted (kc_t4 c # concat (map readings cs))"
    "kc_t1 c \<le> kc_t4 c" using Cons.prems(3) by (simp_all add: r)
  have old: "\<forall>f. jw_fetched_at j = Some f \<longrightarrow> f \<le> kc_t1 c" "\<forall>f. jw_failed_at j = Some f \<longrightarrow> f \<le> kc_t1 c"
    using Cons.prems(4,5) t(2) by (meson order_trans)+
  have new: "\<forall>f. jw_fetched_at (fst (serve_call c j)) = Some f \<longrightarrow> f \<le> kc_t4 c"
    "\<forall>f. jw_failed_at (fst (serve_call c j)) = Some f \<longrightarrow> f \<le> kc_t4 c"
    using old t(4) by (auto simp: serve_call_state [OF c(1)] fetch_def split: option.splits intro: order_trans)
  show ?case
  proof (cases "reaches_net c j")
    case True
    note step = serve_call_logged [OF Cons.prems(1) t(1) old True c(1)]
    have "sorted_wrt spaced (lg @ [(kc_t4 c, kc_net c \<noteq> None)])"
      using Cons.prems(2) step(2) by (simp add: sorted_wrt_append)
    from Cons.IH [OF step(1) this t(3) new c(2)] True show ?thesis by simp
  next
    case False
    then have same: "fst (serve_call c j) = j" by (simp add: serve_call_state [OF c(1)])
    from Cons.IH [OF Cons.prems(1,2) t(3) _ _ c(2)] new same False show ?thesis by simp
  qed
qed simp

section \<open>Properties\<close>

text \<open>The key endpoint is not hammered. Over any sequence of calls one after the other, with clock readings in order, whatever
  key ids the tokens name, the next fetch after a successful one comes at least 60 seconds later, and
  after a failed one at least 30 seconds later.\<close>

theorem jwks_fetches_spaced:
  assumes "sorted (concat (map readings cs))" and "list_all alone cs"
  shows "sorted_wrt spaced (snd (serve_calls cs new_jwks []))"
proof (cases cs)
  case (Cons c cs')
  have "sorted (kc_t1 c # concat (map readings cs))" using assms by (auto simp: Cons readings_def)
  then show ?thesis by (rule serve_calls_spaced [rotated 2]) (use assms(2) in \<open>simp_all add: logged_def new_jwks_def Cons\<close>)
qed simp

theorem jwks_fetches_spaced_witness:
  "sorted_wrt spaced (snd (serve_calls
     [\<lparr>kc_net = None, kc_t1 = 0, kc_t2 = 0, kc_t3 = 0, kc_t4 = 1, kc_kid = Some ''a'', kc_others = Some (\<lambda>j. j)\<rparr>,
      \<lparr>kc_net = Some [(Some ''a'', ''k'')], kc_t1 = 5, kc_t2 = 5, kc_t3 = 5, kc_t4 = 5, kc_kid = Some ''a'', kc_others = Some (\<lambda>j. j)\<rparr>,
      \<lparr>kc_net = Some [(Some ''a'', ''k'')], kc_t1 = 40, kc_t2 = 40, kc_t3 = 40, kc_t4 = 40, kc_kid = Some ''a'', kc_others = Some (\<lambda>j. j)\<rparr>]
     new_jwks []))"
  by (rule jwks_fetches_spaced) (simp_all add: readings_def alone_def)

definition set_between :: "pyfloat \<Rightarrow> pyfloat \<Rightarrow> 'k jwks \<Rightarrow> 'k jwks \<Rightarrow> bool" where
  \<comment> \<open>what other threads may have made of the cache between two readings of the clock: the old key set, or one fetched then\<close>
  "set_between t t' j j1 \<longleftrightarrow> jw_keys j1 = jw_keys j \<and> jw_fetched_at j1 = jw_fetched_at j
     \<or> (\<exists>f. jw_fetched_at j1 = Some f \<and> t \<le> f \<and> f \<le> t')"

lemma serve_calls_between:
  assumes "list_all alone cs" and "list_all (\<lambda>c. t \<le> kc_t4 c \<and> kc_t4 c \<le> t') cs"
  shows "set_between t t' j (fst (serve_calls cs j lg))"
proof -
  have "set_between t t' j0 j \<Longrightarrow> set_between t t' j0 (fst (serve_calls cs j lg))" for j0
    using assms
  proof (induction cs arbitrary: j lg)
    case (Cons c cs)
    have "set_between t t' j0 (fst (serve_call c j))"
      using Cons.prems by (auto simp: serve_call_state set_between_def fetch_def split: option.splits)
    with Cons show ?case by simp
  qed simp
  then show ?thesis by (simp add: set_between_def)
qed

text \<open>C30: Which keys are trusted. While a call waits for the lock, which takes less than a minute, other threads may fetch. A key
  that a call returns is then in the cache's key set under the token's key id, the set that the call leaves behind or,
  when its wait for the lock timed out, the one it started from. And if that set is past its lifetime of 600
  seconds at the call's start, the endpoint has failed, in this very call or less than 30 seconds before it, or the wait
  timed out behind another thread's fetch.\<close>

theorem returned_key_is_current:
  assumes "serve_call c j = (j', Inr k)" and "sorted (readings c)"
    and "\<forall>f. kc_others c = Some f \<longrightarrow> set_between (kc_t2 c) (kc_t3 c) j (f j) \<and> kc_t3 c - kc_t2 c < JWKS_MIN_REFRESH_S"
  shows "lookup_key (kc_kid c) j' = Some k \<and> (kc_others c = None \<longrightarrow> j' = j)
    \<and> (age_ge (kc_t1 c) (jw_fetched_at j') JWKS_TTL_S \<longrightarrow>
         (\<exists>f. jw_failed_at j' = Some f \<and> (f = kc_t4 c \<or> kc_t2 c - f < JWKS_RETRY_S))
       \<or> kc_others c = None \<and> age_ge (kc_t2 c) (jw_failed_at j) JWKS_RETRY_S)"
proof -
  have t: "kc_t1 c \<le> kc_t2 c" "kc_t2 c \<le> kc_t3 c" "kc_t3 c \<le> kc_t4 c"
    using assms(2) by (auto simp: readings_def)
  show ?thesis
  proof (cases "\<not> needs_fetch (kc_kid c) (kc_t1 c) j \<or> \<not> age_ge (kc_t2 c) (jw_failed_at j) JWKS_RETRY_S \<or> kc_others c = None")
    case True
    then show ?thesis using assms(1)
      by (auto simp: serve_call_def key_for_def needs_fetch_def age_ge_def Let_def split: if_splits option.splits)
  next
    case False
    then obtain f where f: "kc_others c = Some f" and due: "needs_fetch (kc_kid c) (kc_t1 c) j" "age_ge (kc_t2 c) (jw_failed_at j) JWKS_RETRY_S"
      by auto
    note fj = assms(3) [rule_format, OF f]
    have later: "needs_fetch kid (kc_t3 c) j1" if "age_ge (kc_t1 c) (jw_fetched_at j1) JWKS_TTL_S" for kid and j1 :: "'a jwks"
      using that t by (auto simp: needs_fetch_def age_ge_def split: option.splits)
    show ?thesis
    proof (cases "needs_fetch (kc_kid c) (kc_t3 c) (f j)")
      case True
      have old: "jw_keys (f j) = jw_keys j \<and> jw_fetched_at (f j) = jw_fetched_at j"
        using True fj by (auto simp: set_between_def needs_fetch_def age_ge_def jwks_periods)
      with True due f assms(1) t show ?thesis
        by (auto simp: serve_call_def key_for_def Let_def fetch_def lookup_key_def age_ge_def jwks_periods split: if_splits option.splits)
    next
      case False
      with due f assms(1) later [of "f j" "kc_kid c"] show ?thesis
        by (auto simp: serve_call_def key_for_def Let_def)
    qed
  qed
qed

definition waited :: "string key_call" where
  \<comment> \<open>another thread fetched while this one waited\<close>
  "waited = \<lparr>kc_net = None, kc_t1 = 5, kc_t2 = 5, kc_t3 = 7, kc_t4 = 8, kc_kid = Some ''a'',
     kc_others = Some (\<lambda>j. j\<lparr>jw_keys := Some [(Some ''a'', ''k'')], jw_fetched_at := Some 6\<rparr>)\<rparr>"

theorem returned_key_is_current_witness:
  "\<exists>j'. serve_call waited new_jwks = (j', Inr ''k'') \<and> lookup_key (Some ''a'') j' = Some ''k''"
proof -
  have run: "serve_call waited new_jwks =
      (\<lparr>jw_keys = Some [(Some ''a'', ''k'')], jw_fetched_at = Some 6, jw_failed_at = None\<rparr>, Inr ''k'')"
    by (simp add: serve_call_def key_for_def new_jwks_def needs_fetch_def age_ge_def lookup_key_def waited_def
        or_fail_def Let_def jwks_periods)
  from returned_key_is_current [OF run] show ?thesis
    unfolding run by (simp add: readings_def waited_def set_between_def jwks_periods)
qed

lemma decode_claims_Inr: "decode_claims decode token key issuer = Inr c \<longleftrightarrow> decode token key issuer = Claims c"
  by (simp add: decode_claims_def split: decoded.split)

lemma decode_claims_Inl: "decode_claims decode token key issuer = Inl e \<Longrightarrow> fst e = 401"
  by (auto simp: decode_claims_def invalid_token_def split: decoded.splits)

lemma verify_token_Inr:
  "verify_token env test keys kid_of decode token = Inr c \<Longrightarrow>
     \<exists>url kid key. supabase_url env = Inr url \<and> kid_of token = Some kid
       \<and> (case test of Some ks \<Rightarrow> map_of ks kid = Some key | None \<Rightarrow> keys kid = Inr key)
       \<and> decode token key (url @ ''/auth/v1'') = Claims c"
  by (auto simp: verify_token_def verify_with_jwks_def key_from_set_def Let_def decode_claims_Inr
      split: sum.splits option.splits key_failure.splits)

lemma verify_token_Inl:
  "verify_token env test keys kid_of decode token = Inl e \<Longrightarrow> fst e = 401 \<or> e = unavailable"
  by (auto simp: verify_token_def verify_with_jwks_def supabase_url_def Let_def invalid_token_def
      split: sum.splits option.splits key_failure.splits if_splits dest: decode_claims_Inl)

lemma principal_of_user:
  assumes "principal_of claims = Some p" and "truthy (pr_user p)"
  obtains sub t where "j_get ''sub'' claims = JStr sub" "sub \<noteq> []" "pr_user p = Some sub"
    "tenant_from_claims claims = Some t" "j_or t (JStr DEFAULT_TENANT) = JStr (pr_tenant p)"
  using assms by (auto simp: principal_of_def truthy_def split: option.splits json.splits if_splits)

text \<open>C7: Accounts fail closed. A request reaches the account features only with a token whose signature,
  issuer and expiry the decoder accepted under a key of the trusted set, for the configured project, and
  as the token's own non-empty subject, in the tenant its claims name (or the public one). Every other request ends
  in a 401, in the 503 of an auth outage, or, when such a token's claims are not the texts they are declared to be, in an
  internal error.\<close>

theorem account_needs_verified_token:
  "case require_account (current_principal (verify_token env test keys kid_of decode) creds) of
     Inl e \<Rightarrow> fst e = 401 \<or> e = unavailable
       \<or> e = claims_error \<and> (\<exists>token claims. creds = Some token \<and> verify_token env test keys kid_of decode token = Inr claims
            \<and> principal_of claims = None)
   | Inr p \<Rightarrow>
      (\<exists>token url kid key claims sub t. creds = Some token \<and> supabase_url env = Inr url \<and> kid_of token = Some kid
         \<and> (case test of Some ks \<Rightarrow> map_of ks kid = Some key | None \<Rightarrow> keys kid = Inr key)
         \<and> decode token key (url @ ''/auth/v1'') = Claims claims
         \<and> j_get ''sub'' claims = JStr sub \<and> sub \<noteq> [] \<and> pr_user p = Some sub
         \<and> tenant_from_claims claims = Some t \<and> j_or t (JStr DEFAULT_TENANT) = JStr (pr_tenant p))"
proof (cases creds)
  case None
  then show ?thesis by (simp add: current_principal_def require_account_def truthy_def)
next
  case (Some token)
  show ?thesis
  proof (cases "verify_token env test keys kid_of decode token")
    case (Inl e)
    from verify_token_Inl [OF this] Some Inl show ?thesis
      by (auto simp: current_principal_def require_account_def)
  next
    case (Inr claims)
    note ver = this
    show ?thesis
    proof (cases "principal_of claims")
      case None
      with Some ver show ?thesis by (simp add: current_principal_def require_account_def)
    next
      case (Some p)
      show ?thesis
      proof (cases "truthy (pr_user p)")
        case False
        with \<open>creds = Some token\<close> ver Some show ?thesis by (simp add: current_principal_def require_account_def)
      next
        case True
        obtain sub t where "j_get ''sub'' claims = JStr sub" "sub \<noteq> []" "pr_user p = Some sub"
          "tenant_from_claims claims = Some t" "j_or t (JStr DEFAULT_TENANT) = JStr (pr_tenant p)"
          by (rule principal_of_user [OF Some True])
        with verify_token_Inr [OF ver] \<open>creds = Some token\<close> ver Some True show ?thesis
          by (simp add: current_principal_def require_account_def) blast
      qed
    qed
  qed
qed

end
