(* ===== verification/Userdata.thy ===== *)
theory Userdata
  imports Schema Licensing Settings
begin

text \<open>
  The Postgres side: \<open>dealfinder/db.py\<close> (the scope of a transaction), \<open>dealfinder/pgstore.py\<close> (the
  tenants' offers), \<open>dealfinder/userstore.py\<close> (watchlist and saved searches), \<open>dealfinder/retention.py\<close>
  (the purge) and \<open>dealfinder/migrate.py\<close>, over the tables of \<open>dealfinder/migrations\<close>.

  A table is the list of its rows. \<open>db.scoped\<close> runs one transaction under the row-level-security
  policies: a statement sees, and writes, only the rows of its scope (\<open>Db_Session\<close> shows that the session does so). An exception rolls the
  transaction back, so an operation that fails returns the database it was given. A transaction is one
  step: \<open>_lock_user\<close> makes one user's writes take turns. Time stamps are real numbers (seconds);
  \<open>now\<close> is the transaction's time, \<open>new_id\<close> a generated key, \<open>cdist\<close> pgvector's cosine distance, asked only with
  a query vector of the column's dimension (the one embedding model makes both).
\<close>

record offer =
  o_tenant :: string
  o_id :: string
  o_title :: string
  o_brand :: "string option"
  o_source :: string
  o_price :: pyfloat
  o_currency :: string
  o_url :: "string option"
  o_image :: "string option"
  o_vec :: "pyfloat list option"
  o_sku :: "string option"
  o_regular :: "pyfloat option"
  o_fetched :: pyfloat

record watch =
  wa_user :: string
  wa_tenant :: string
  wa_offer :: string
  wa_title :: string
  wa_url :: "string option"
  wa_image :: "string option"
  wa_source :: "string option"
  wa_target :: "pyfloat option"
  wa_price :: pyfloat
  wa_checked :: pyfloat
  wa_created :: pyfloat

record saved_search =
  sv_id :: string
  sv_user :: string
  sv_query :: string
  sv_max :: "pyfloat option"
  sv_created :: pyfloat

record database =
  offers :: "offer list"
  watchlist :: "watch list"
  saved :: "saved_search list"

section \<open>Row-level security\<close>

record scope =
  sc_tenant :: string
  sc_user :: string

definition own_offer :: "scope \<Rightarrow> offer \<Rightarrow> bool" where "own_offer s r \<longleftrightarrow> o_tenant r = sc_tenant s"
definition own_watch :: "scope \<Rightarrow> watch \<Rightarrow> bool" where "own_watch s r \<longleftrightarrow> wa_user r = sc_user s"
definition own_saved :: "scope \<Rightarrow> saved_search \<Rightarrow> bool" where "own_saved s r \<longleftrightarrow> sv_user r = sc_user s"

definition on_conflict :: "('r \<Rightarrow> bool) \<Rightarrow> ('r \<Rightarrow> 'r) \<Rightarrow> 'r \<Rightarrow> 'r list \<Rightarrow> 'r list" where
  \<comment> \<open>\<open>INSERT ... ON CONFLICT (key) DO UPDATE SET ...\<close>\<close>
  "on_conflict same upd new rows =
     (if \<exists>r \<in> set rows. same r then map (\<lambda>r. if same r then upd r else r) rows else rows @ [new])"

section \<open>The tenants' offers\<close>

definition EMBED_DIM :: nat where "EMBED_DIM = 384"

definition vec_text :: "pyfloat list \<Rightarrow> pyfloat list" where
  \<comment> \<open>the components as \<open>_vec\<close> writes them: six decimals\<close>
  "vec_text v = map (py_round 6) v"

definition vec_fits :: "pyfloat list option \<Rightarrow> bool" where
  \<comment> \<open>the column is \<open>vector(384)\<close>; another length is an error of the statement\<close>
  "vec_fits v \<longleftrightarrow> (case v of None \<Rightarrow> True | Some x \<Rightarrow> length x = EMBED_DIM)"

definition offer_row :: "scope \<Rightarrow> pyfloat \<Rightarrow> product \<Rightarrow> pyfloat option \<Rightarrow> pyfloat list option \<Rightarrow> offer" where
  \<comment> \<open>the VALUES\<close>
  "offer_row s now p tm v =
     \<lparr>o_tenant = sc_tenant s, o_id = p_id p, o_title = title p, o_brand = brand p, o_source = source p,
      o_price = price p, o_currency = (if currency p = [] then ''USD'' else currency p), o_url = Some (url p),
      o_image = image_url p, o_vec = map_option vec_text v, o_sku = sku p, o_regular = regular_price p,
      o_fetched = (case tm of None \<Rightarrow> now | Some t \<Rightarrow> t)\<rparr>"

definition refreshed_row :: "scope \<Rightarrow> pyfloat \<Rightarrow> product \<Rightarrow> pyfloat option \<Rightarrow> pyfloat list option \<Rightarrow> offer \<Rightarrow> offer" where
  \<comment> \<open>the DO UPDATE: every column but the key, and the vector only when there is a new one\<close>
  "refreshed_row s now p tm v r =
     (offer_row s now p tm v)\<lparr>o_vec := (case v of None \<Rightarrow> o_vec r | Some x \<Rightarrow> Some (vec_text x))\<rparr>"

definition upsert_row :: "scope \<Rightarrow> pyfloat \<Rightarrow> product \<Rightarrow> pyfloat option \<Rightarrow> pyfloat list option \<Rightarrow> offer list \<Rightarrow> offer list" where
  "upsert_row s now p tm v rows =
     on_conflict (\<lambda>r. o_tenant r = sc_tenant s \<and> o_id r = p_id p)
       (refreshed_row s now p tm v) (offer_row s now p tm v) rows"

lemma offer_row_keys [simp]:
  "o_tenant (offer_row s now p tm v) = sc_tenant s" "o_id (offer_row s now p tm v) = p_id p"
  "o_source (offer_row s now p tm v) = source p" "o_price (offer_row s now p tm v) = price p"
  "o_title (offer_row s now p tm v) = title p" "o_vec (offer_row s now p tm v) = map_option vec_text v"
  "o_tenant (refreshed_row s now p tm v r) = sc_tenant s" "o_id (refreshed_row s now p tm v r) = p_id p"
  "o_source (refreshed_row s now p tm v r) = source p" "o_price (refreshed_row s now p tm v r) = price p"
  "o_title (refreshed_row s now p tm v r) = title p"
  "o_vec (refreshed_row s now p tm v r) = (case v of None \<Rightarrow> o_vec r | Some x \<Rightarrow> Some (vec_text x))"
  by (simp_all add: offer_row_def refreshed_row_def)

fun upsert :: "scope \<Rightarrow> pyfloat \<Rightarrow> (product \<times> pyfloat option \<times> pyfloat list option) list \<Rightarrow> offer list \<Rightarrow> offer list \<times> nat" where
  \<comment> \<open>the rows, zipped with their time stamps and vectors\<close>
  "upsert s now [] rows = (rows, 0)"
| "upsert s now ((p, tm, v) # ps) rows =
     (if \<not> may_store (source p) then upsert s now ps rows
      else (let v' = (if may_embed (source p) then v else None);
                (rows', n) = upsert s now ps (upsert_row s now p tm v' rows)
            in (rows', Suc n)))"

definition upsert_fits :: "(product \<times> pyfloat option \<times> pyfloat list option) list \<Rightarrow> bool" where
  \<comment> \<open>no row that is written fails on its vector; one that fails rolls the whole batch back\<close>
  "upsert_fits ps \<longleftrightarrow> list_all (\<lambda>(p, tm, v). may_store (source p) \<and> may_embed (source p) \<longrightarrow> vec_fits v) ps"

definition nearest :: "(pyfloat list \<Rightarrow> pyfloat list \<Rightarrow> pyfloat) \<Rightarrow> pyfloat list \<Rightarrow> nat \<Rightarrow> offer list \<Rightarrow> (offer \<times> pyfloat) list" where
  \<comment> \<open>\<open>ORDER BY embedding <=> q LIMIT k\<close>, with the similarity\<close>
  "nearest cdist q k rows =
     (let d = (\<lambda>r. cdist (the (o_vec r)) (vec_text q)) in map (\<lambda>r. (r, 1 - d r)) (take k (sort_key d rows)))"

definition semantic_search ::
  "(pyfloat list \<Rightarrow> pyfloat list \<Rightarrow> pyfloat) \<Rightarrow> scope \<Rightarrow> pyfloat list \<Rightarrow> nat \<Rightarrow> offer list \<Rightarrow> (offer \<times> pyfloat) list" where
  "semantic_search cdist s q k rows = nearest cdist q k (filter (\<lambda>r. own_offer s r \<and> o_vec r \<noteq> None) rows)"

definition count_offers :: "scope \<Rightarrow> offer list \<Rightarrow> nat" where
  "count_offers s rows = length (filter (own_offer s) rows)"

section \<open>Watchlist and saved searches\<close>

definition WATCH_LIMIT :: nat where "WATCH_LIMIT = 200"
definition SAVED_SEARCH_LIMIT :: nat where "SAVED_SEARCH_LIMIT = 50"

datatype store_error = LookupFailed | LimitExceeded | CheckViolation

definition positive_price :: "pyfloat option \<Rightarrow> bool" where
  \<comment> \<open>the CHECK constraint of both tables\<close>
  "positive_price x \<longleftrightarrow> (case x of None \<Rightarrow> True | Some p \<Rightarrow> p > 0)"

definition hit :: "watch \<Rightarrow> bool" where
  "hit r \<longleftrightarrow> (case wa_target r of None \<Rightarrow> False | Some t \<Rightarrow> wa_price r \<le> t)"

definition watch_row :: "scope \<Rightarrow> pyfloat \<Rightarrow> offer \<Rightarrow> pyfloat option \<Rightarrow> watch" where
  "watch_row s now off target =
     \<lparr>wa_user = sc_user s, wa_tenant = sc_tenant s, wa_offer = o_id off, wa_title = o_title off,
      wa_url = o_url off, wa_image = o_image off, wa_source = Some (o_source off), wa_target = target,
      wa_price = o_price off, wa_checked = o_fetched off, wa_created = now\<rparr>"

definition add_watch ::
  "scope \<Rightarrow> pyfloat \<Rightarrow> string \<Rightarrow> pyfloat option \<Rightarrow> database \<Rightarrow> database \<times> (store_error + watch)" where
  "add_watch s now offer_id target db =
     (case find (\<lambda>r. own_offer s r \<and> o_id r = offer_id) (offers db) of
        None \<Rightarrow> (db, Inl LookupFailed)
      | Some off \<Rightarrow>
          if \<not> may_store (o_source off) then (db, Inl LookupFailed)
          else
            (let mine = filter (own_watch s) (watchlist db);
                 new = watch_row s now off target;
                 same = (\<lambda>r. wa_user r = sc_user s \<and> wa_offer r = offer_id);
                 rows = on_conflict same
                   (\<lambda>r. new\<lparr>wa_tenant := wa_tenant r, wa_created := wa_created r\<rparr>) new (watchlist db)
             in if \<not> (\<exists>r \<in> set mine. wa_offer r = offer_id) \<and> length mine \<ge> WATCH_LIMIT then (db, Inl LimitExceeded)
                else if \<not> positive_price target then (db, Inl CheckViolation)
                else (db\<lparr>watchlist := rows\<rparr>, Inr (the (find same rows)))))"

definition list_watch :: "scope \<Rightarrow> database \<Rightarrow> (watch \<times> bool) list" where
  "list_watch s db = map (\<lambda>r. (r, hit r)) (sort_key (\<lambda>r. - wa_created r) (filter (own_watch s) (watchlist db)))"

definition remove_watch :: "scope \<Rightarrow> string \<Rightarrow> database \<Rightarrow> database \<times> nat" where
  "remove_watch s offer_id db =
     (let gone = (\<lambda>r. own_watch s r \<and> wa_offer r = offer_id) in
      (db\<lparr>watchlist := filter (\<lambda>r. \<not> gone r) (watchlist db)\<rparr>, length (filter gone (watchlist db))))"

definition add_saved_search ::
  "scope \<Rightarrow> pyfloat \<Rightarrow> string \<Rightarrow> string \<Rightarrow> pyfloat option \<Rightarrow> database \<Rightarrow> database \<times> (store_error + saved_search)" where
  "add_saved_search s now new_id query max_price db =
     (if length (filter (own_saved s) (saved db)) \<ge> SAVED_SEARCH_LIMIT then (db, Inl LimitExceeded)
      else if \<not> (1 \<le> py_len query \<and> py_len query \<le> 200 \<and> positive_price max_price) then (db, Inl CheckViolation)
      else (let new = \<lparr>sv_id = new_id, sv_user = sc_user s, sv_query = query, sv_max = max_price, sv_created = now\<rparr>
            in (db\<lparr>saved := saved db @ [new]\<rparr>, Inr new)))"

definition list_saved_searches :: "scope \<Rightarrow> database \<Rightarrow> saved_search list" where
  "list_saved_searches s db = sort_key (\<lambda>r. - sv_created r) (filter (own_saved s) (saved db))"

definition remove_saved_search :: "scope \<Rightarrow> string \<Rightarrow> database \<Rightarrow> database \<times> nat" where
  "remove_saved_search s search_id db =
     (let gone = (\<lambda>r. own_saved s r \<and> sv_id r = search_id) in
      (db\<lparr>saved := filter (\<lambda>r. \<not> gone r) (saved db)\<rparr>, length (filter gone (saved db))))"

text \<open>Every request-path transaction, as one operation type.\<close>

datatype request =
    Upsert "(product \<times> pyfloat option \<times> pyfloat list option) list"
  | Semantic "pyfloat list" nat
  | CountOffers
  | AddWatch string "pyfloat option"
  | ListWatch
  | RemoveWatch string
  | AddSaved string string "pyfloat option"
  | ListSaved
  | RemoveSaved string

datatype reply =
    RCount nat
  | ROffers "(offer \<times> pyfloat) list"
  | RWatch "store_error + watch"
  | RWatches "(watch \<times> bool) list"
  | RSaved "store_error + saved_search"
  | RSearches "saved_search list"
  | RFailed  \<comment> \<open>an error of the database\<close>

fun exec :: "(pyfloat list \<Rightarrow> pyfloat list \<Rightarrow> pyfloat) \<Rightarrow> scope \<Rightarrow> pyfloat \<Rightarrow> request \<Rightarrow> database \<Rightarrow> database \<times> reply" where
  "exec cdist s now (Upsert ps) db =
     (if upsert_fits ps then (let (rows, n) = upsert s now ps (offers db) in (db\<lparr>offers := rows\<rparr>, RCount n))
      else (db, RFailed))"
| "exec cdist s now (Semantic q k) db = (db, ROffers (semantic_search cdist s q k (offers db)))"
| "exec cdist s now CountOffers db = (db, RCount (count_offers s (offers db)))"
| "exec cdist s now (AddWatch i t) db = (let (db', r) = add_watch s now i t db in (db', RWatch r))"
| "exec cdist s now ListWatch db = (db, RWatches (list_watch s db))"
| "exec cdist s now (RemoveWatch i) db = (let (db', n) = remove_watch s i db in (db', RCount n))"
| "exec cdist s now (AddSaved i q m) db = (let (db', r) = add_saved_search s now i q m db in (db', RSaved r))"
| "exec cdist s now ListSaved db = (db, RSearches (list_saved_searches s db))"
| "exec cdist s now (RemoveSaved i) db = (let (db', n) = remove_saved_search s i db in (db', RCount n))"

section \<open>Isolation as an interface\<close>

definition view :: "scope \<Rightarrow> database \<Rightarrow> database" where
  "view s db = \<lparr>offers = filter (own_offer s) (offers db), watchlist = filter (own_watch s) (watchlist db),
     saved = filter (own_saved s) (saved db)\<rparr>"

definition hidden :: "scope \<Rightarrow> database \<Rightarrow> database" where
  "hidden s db = \<lparr>offers = filter (\<lambda>r. \<not> own_offer s r) (offers db),
     watchlist = filter (\<lambda>r. \<not> own_watch s r) (watchlist db), saved = filter (\<lambda>r. \<not> own_saved s r) (saved db)\<rparr>"

text \<open>A run of requests, each with its time.\<close>

fun run_requests :: "(pyfloat \<Rightarrow> 'q \<Rightarrow> 'd \<Rightarrow> 'd \<times> 'r) \<Rightarrow> (pyfloat \<times> 'q) list \<Rightarrow> 'd \<Rightarrow> 'd \<times> 'r list" where
  "run_requests ex [] db = (db, [])"
| "run_requests ex ((t, q) # qs) db =
     (let (db1, r) = ex t q db; (db2, rs) = run_requests ex qs db1 in (db2, r # rs))"

locale isolated =
  fixes seen :: "'d \<Rightarrow> 'd" and rest :: "'d \<Rightarrow> 'd" and ex :: "pyfloat \<Rightarrow> 'q \<Rightarrow> 'd \<Rightarrow> 'd \<times> 'r"
  assumes frame: "rest (fst (ex t q db)) = rest db"
    and local_reply: "snd (ex t q db) = snd (ex t q (seen db))"
    and local_state: "seen (fst (ex t q db)) = seen (fst (ex t q (seen db)))"
    and seen_seen: "seen (seen db) = seen db"
begin

lemma run_frame: "rest (fst (run_requests ex qs db)) = rest db"
proof (induction qs arbitrary: db)
  case (Cons q qs)
  obtain t r where q: "q = (t, r)" by (cases q) auto
  obtain db1 x where e: "ex t r db = (db1, x)" by (cases "ex t r db") auto
  obtain db2 xs where run: "run_requests ex qs db1 = (db2, xs)" by (cases "run_requests ex qs db1") auto
  with Cons.IH [of db1] frame [of t r db] show ?case by (simp add: q e run)
qed simp

lemma run_local:
  assumes "seen d1 = seen d2"
  shows "snd (run_requests ex qs d1) = snd (run_requests ex qs d2)
    \<and> seen (fst (run_requests ex qs d1)) = seen (fst (run_requests ex qs d2))"
  using assms
proof (induction qs arbitrary: d1 d2)
  case (Cons q qs)
  obtain t r where q: "q = (t, r)" by (cases q) auto
  have "snd (ex t r d1) = snd (ex t r d2)" "seen (fst (ex t r d1)) = seen (fst (ex t r d2))"
    using local_reply [of t r d1] local_reply [of t r d2] local_state [of t r d1] local_state [of t r d2]
    by (simp_all add: Cons.prems)
  with Cons.IH [of "fst (ex t r d1)" "fst (ex t r d2)"] show ?case
    by (simp add: q split_beta)
qed simp

end

section \<open>The scope is a partition\<close>

lemma filter_on_conflict_in:
  assumes "\<And>r. same r \<Longrightarrow> P r \<and> P (upd r)" and "P new"
  shows "filter P (on_conflict same upd new rows) = on_conflict same upd new (filter P rows)"
proof -
  have "filter P (map (\<lambda>r. if same r then upd r else r) rows) =
      map (\<lambda>r. if same r then upd r else r) (filter P rows)" for rows
    using assms(1) by (induction rows) auto
  then show ?thesis using assms by (auto simp: on_conflict_def)
qed

lemma filter_on_conflict_out:
  assumes "\<And>r. same r \<Longrightarrow> P r \<and> P (upd r)" and "P new"
  shows "filter (\<lambda>r. \<not> P r) (on_conflict same upd new rows) = filter (\<lambda>r. \<not> P r) rows"
proof -
  have "filter (\<lambda>r. \<not> P r) (map (\<lambda>r. if same r then upd r else r) rows) = filter (\<lambda>r. \<not> P r) rows" for rows
    using assms(1) by (induction rows) auto
  then show ?thesis using assms by (auto simp: on_conflict_def)
qed

lemma find_filter: "(\<And>r. same r \<Longrightarrow> P r) \<Longrightarrow> find same (filter P rows) = find same rows"
  by (induction rows) auto

lemma upsert_row_scope:
  "filter (own_offer s) (upsert_row s now p tm v rows) = upsert_row s now p tm v (filter (own_offer s) rows)"
  "filter (\<lambda>r. \<not> own_offer s r) (upsert_row s now p tm v rows) = filter (\<lambda>r. \<not> own_offer s r) rows"
  unfolding upsert_row_def
  by (rule filter_on_conflict_in filter_on_conflict_out; simp add: own_offer_def)+

lemma upsert_scope:
  "filter (own_offer s) (fst (upsert s now ps rows)) = fst (upsert s now ps (filter (own_offer s) rows))
   \<and> filter (\<lambda>r. \<not> own_offer s r) (fst (upsert s now ps rows)) = filter (\<lambda>r. \<not> own_offer s r) rows
   \<and> snd (upsert s now ps rows) = snd (upsert s now ps (filter (own_offer s) rows))"
proof (induction ps arbitrary: rows)
  case (Cons q ps)
  obtain p tm v where q: "q = (p, tm, v)" by (cases q) auto
  from Cons.IH [of rows] Cons.IH [of "upsert_row s now p tm (if may_embed (source p) then v else None) rows"]
  show ?case by (simp add: q Let_def split_beta upsert_row_scope)
qed simp

lemma add_watch_scope:
  "hidden s (fst (add_watch s now i t db)) = hidden s db"
  "snd (add_watch s now i t db) = snd (add_watch s now i t (view s db))"
  "view s (fst (add_watch s now i t db)) = view s (fst (add_watch s now i t (view s db)))"
proof -
  define same :: "watch \<Rightarrow> bool" where "same = (\<lambda>r. wa_user r = sc_user s \<and> wa_offer r = i)"
  have own: "same r \<Longrightarrow> own_watch s r" for r by (simp add: same_def own_watch_def)
  have fo: "find (\<lambda>r. own_offer s r \<and> o_id r = i) (filter (own_offer s) (offers db)) =
      find (\<lambda>r. own_offer s r \<and> o_id r = i) (offers db)" by (rule find_filter) simp
  define rows where "rows off rs = on_conflict same
      (\<lambda>r. (watch_row s now off t)\<lparr>wa_tenant := wa_tenant r, wa_created := wa_created r\<rparr>) (watch_row s now off t) rs" for off rs
  have ro: "filter (own_watch s) (rows off rs) = rows off (filter (own_watch s) rs)"
    "filter (\<lambda>r. \<not> own_watch s r) (rows off rs) = filter (\<lambda>r. \<not> own_watch s r) rs" for off rs
    unfolding rows_def
    by (rule filter_on_conflict_in filter_on_conflict_out;
        simp add: same_def watch_row_def own_watch_def)+
  have fr: "find same (rows off (filter (own_watch s) rs)) = find same (rows off rs)" for off rs
    using find_filter [of same "own_watch s" "rows off rs"] own by (simp add: ro)
  note aw = add_watch_def [of s now i t, unfolded Let_def, folded same_def, folded rows_def]
  show "hidden s (fst (add_watch s now i t db)) = hidden s db"
    by (simp add: aw hidden_def Let_def ro split: option.split)
  show "snd (add_watch s now i t db) = snd (add_watch s now i t (view s db))"
    unfolding aw view_def by (auto simp: fo fr split: option.split)
  show "view s (fst (add_watch s now i t db)) = view s (fst (add_watch s now i t (view s db)))"
    unfolding aw view_def by (auto simp: fo ro split: option.split)
qed

lemma view_simps [simp]:
  "offers (view s db) = filter (own_offer s) (offers db)"
  "watchlist (view s db) = filter (own_watch s) (watchlist db)"
  "saved (view s db) = filter (own_saved s) (saved db)"
  by (simp_all add: view_def)

lemma remove_watch_scope:
  "hidden s (fst (remove_watch s i db)) = hidden s db"
  "snd (remove_watch s i db) = snd (remove_watch s i (view s db))"
  "view s (fst (remove_watch s i db)) = view s (fst (remove_watch s i (view s db)))"
  by (auto simp: remove_watch_def hidden_def view_def Let_def intro!: arg_cong [where f = length] filter_cong)

lemma own_saved_new [simp]: "own_saved s \<lparr>sv_id = i, sv_user = sc_user s, sv_query = q, sv_max = m, sv_created = t\<rparr>"
  by (simp add: own_saved_def)

lemma saved_scope:
  "hidden s (fst (add_saved_search s now i q m db)) = hidden s db"
  "snd (add_saved_search s now i q m db) = snd (add_saved_search s now i q m (view s db))"
  "view s (fst (add_saved_search s now i q m db)) = view s (fst (add_saved_search s now i q m (view s db)))"
  "hidden s (fst (remove_saved_search s i db)) = hidden s db"
  "snd (remove_saved_search s i db) = snd (remove_saved_search s i (view s db))"
  "view s (fst (remove_saved_search s i db)) = view s (fst (remove_saved_search s i (view s db)))"
  by (auto simp: add_saved_search_def remove_saved_search_def hidden_def view_def Let_def
      intro!: arg_cong [where f = length] filter_cong)

lemma exec_frame: "hidden s (fst (exec cdist s t q db)) = hidden s db"
proof (cases q)
  case (Upsert ps)
  with upsert_scope [of s t ps "offers db"] show ?thesis by (simp add: split_beta hidden_def)
qed (simp_all add: split_beta add_watch_scope(1) remove_watch_scope(1) saved_scope(1,4))

lemma exec_reply: "snd (exec cdist s t q db) = snd (exec cdist s t q (view s db))"
proof (cases q)
  case (Upsert ps)
  with upsert_scope [of s t ps "offers db"] show ?thesis by (simp add: split_beta)
next
  case (AddWatch i x)
  with add_watch_scope(2) [of s t i x db] show ?thesis by (simp add: split_beta)
next
  case (RemoveWatch i)
  with remove_watch_scope(2) [of s i db] show ?thesis by (simp add: split_beta)
next
  case (AddSaved i x m)
  with saved_scope(2) [of s t i x m db] show ?thesis by (simp add: split_beta)
next
  case (RemoveSaved i)
  with saved_scope(5) [of s i db] show ?thesis by (simp add: split_beta)
qed (simp_all add: semantic_search_def count_offers_def list_watch_def list_saved_searches_def conj_commute)

lemma view_view [simp]: "view s (view s db) = view s db"
  by (simp add: view_def)

lemma exec_state: "view s (fst (exec cdist s t q db)) = view s (fst (exec cdist s t q (view s db)))"
proof (cases q)
  case (Upsert ps)
  have "filter (own_offer s) (fst (upsert s t ps (filter (own_offer s) (offers db)))) =
      fst (upsert s t ps (filter (own_offer s) (filter (own_offer s) (offers db))))"
    using upsert_scope by blast
  with upsert_scope [of s t ps "offers db", THEN conjunct1] Upsert
  show ?thesis by (simp add: split_beta view_def)
next
  case (AddWatch i x)
  with add_watch_scope(3) [of s t i x db] show ?thesis by (simp add: split_beta)
next
  case (RemoveWatch i)
  with remove_watch_scope(3) [of s i db] show ?thesis by (simp add: split_beta)
next
  case (AddSaved i x m)
  with saved_scope(3) [of s t i x m db] show ?thesis by (simp add: split_beta)
next
  case (RemoveSaved i)
  with saved_scope(6) [of s i db] show ?thesis by (simp add: split_beta)
qed simp_all

interpretation rls: isolated "view s" "hidden s" "exec cdist s" for s cdist
  by unfold_locales (rule exec_frame exec_reply exec_state view_view)+

section \<open>Caps\<close>

definition watches_of :: "string \<Rightarrow> database \<Rightarrow> nat" where
  "watches_of u db = length (filter (\<lambda>r. wa_user r = u) (watchlist db))"

definition searches_of :: "string \<Rightarrow> database \<Rightarrow> nat" where
  "searches_of u db = length (filter (\<lambda>r. sv_user r = u) (saved db))"

lemma own_eqs: "own_watch s = (\<lambda>r. wa_user r = sc_user s)" "own_saved s = (\<lambda>r. sv_user r = sc_user s)"
  by (simp_all add: fun_eq_iff own_watch_def own_saved_def)

definition capped :: "database \<Rightarrow> bool" where
  "capped db \<longleftrightarrow> (\<forall>u. watches_of u db \<le> WATCH_LIMIT \<and> searches_of u db \<le> SAVED_SEARCH_LIMIT)"

lemma length_on_conflict: "length (on_conflict same upd new rows) =
    (if \<exists>r \<in> set rows. same r then length rows else Suc (length rows))"
  by (simp add: on_conflict_def)

lemma add_watch_capped: "capped db \<Longrightarrow> capped (fst (add_watch s now i t db))"
proof -
  assume c: "capped db"
  show ?thesis
  proof (cases "watchlist (fst (add_watch s now i t db)) = watchlist db")
    case True
    moreover have "saved (fst (add_watch s now i t db)) = saved db"
      by (simp add: add_watch_def Let_def split: option.split)
    ultimately show ?thesis using c by (simp add: capped_def watches_of_def searches_of_def)
  next
    case False
    define same :: "watch \<Rightarrow> bool" where "same = (\<lambda>r. wa_user r = sc_user s \<and> wa_offer r = i)"
    obtain off where room: "(\<exists>r \<in> set (filter (own_watch s) (watchlist db)). wa_offer r = i)
          \<or> length (filter (own_watch s) (watchlist db)) < WATCH_LIMIT"
      and db': "fst (add_watch s now i t db) = db\<lparr>watchlist := on_conflict same
          (\<lambda>r. (watch_row s now off t)\<lparr>wa_tenant := wa_tenant r, wa_created := wa_created r\<rparr>)
          (watch_row s now off t) (watchlist db)\<rparr>"
      using False by (auto simp: add_watch_def Let_def same_def not_le split: option.splits if_splits)
    have "watches_of u (fst (add_watch s now i t db)) \<le> WATCH_LIMIT" for u
    proof (cases "u = sc_user s")
      case True
      have own: "(\<lambda>r. wa_user r = u) = own_watch s" by (simp add: fun_eq_iff own_watch_def True)
      have "watches_of u (fst (add_watch s now i t db)) = length (on_conflict same
          (\<lambda>r. (watch_row s now off t)\<lparr>wa_tenant := wa_tenant r, wa_created := wa_created r\<rparr>)
          (watch_row s now off t) (filter (own_watch s) (watchlist db)))"
        unfolding watches_of_def own db'
        by (simp, subst filter_on_conflict_in) (auto simp: same_def own_watch_def watch_row_def)
      also have "\<dots> \<le> WATCH_LIMIT"
        using room c unfolding own_eqs by (auto simp: length_on_conflict same_def capped_def watches_of_def)
      finally show ?thesis .
    next
      case other: False
      have "hidden s (fst (add_watch s now i t db)) = hidden s db" by (rule add_watch_scope(1))
      then have "filter (\<lambda>r. \<not> own_watch s r) (watchlist (fst (add_watch s now i t db))) =
          filter (\<lambda>r. \<not> own_watch s r) (watchlist db)" by (simp add: hidden_def)
      then have "filter (\<lambda>r. wa_user r = u) (filter (\<lambda>r. \<not> own_watch s r) (watchlist (fst (add_watch s now i t db)))) =
          filter (\<lambda>r. wa_user r = u) (filter (\<lambda>r. \<not> own_watch s r) (watchlist db))" by simp
      moreover have "filter (\<lambda>r. wa_user r = u) (filter (\<lambda>r. \<not> own_watch s r) rs) = filter (\<lambda>r. wa_user r = u) rs" for rs
        using other by (auto simp: own_watch_def intro!: filter_cong)
      ultimately have "watches_of u (fst (add_watch s now i t db)) = watches_of u db"
        unfolding watches_of_def by simp
      with c show ?thesis by (simp add: capped_def)
    qed
    moreover have "searches_of u (fst (add_watch s now i t db)) = searches_of u db" for u
      by (simp add: db' searches_of_def)
    ultimately show ?thesis using c by (simp add: capped_def)
  qed
qed

lemma exec_capped: "capped db \<Longrightarrow> capped (fst (exec cdist s t q db))"
proof (cases q)
  case (AddWatch i x)
  assume "capped db"
  with AddWatch add_watch_capped show ?thesis by (simp add: split_beta)
next
  case (AddSaved i x m)
  assume "capped db"
  with AddSaved show ?thesis
    by (auto simp: split_beta add_saved_search_def Let_def capped_def watches_of_def searches_of_def own_eqs not_le)
next
  case (RemoveWatch i)
  assume c: "capped db"
  have "watches_of u (fst (remove_watch s i db)) \<le> watches_of u db" for u
    by (auto simp: remove_watch_def watches_of_def Let_def intro!: length_filter_mono)
  moreover have "searches_of u (fst (remove_watch s i db)) = searches_of u db" for u
    by (simp add: remove_watch_def searches_of_def Let_def)
  ultimately show ?thesis using c RemoveWatch by (auto simp: split_beta capped_def intro: order_trans)
next
  case (RemoveSaved i)
  assume c: "capped db"
  have "searches_of u (fst (remove_saved_search s i db)) \<le> searches_of u db" for u
    by (auto simp: remove_saved_search_def searches_of_def Let_def intro!: length_filter_mono)
  moreover have "watches_of u (fst (remove_saved_search s i db)) = watches_of u db" for u
    by (simp add: remove_saved_search_def watches_of_def Let_def)
  ultimately show ?thesis using c RemoveSaved by (auto simp: split_beta capped_def intro: order_trans)
qed (simp_all add: split_beta capped_def watches_of_def searches_of_def)

section \<open>Retention\<close>

definition RETENTION_MARGIN_S :: int where "RETENTION_MARGIN_S = 25 * 3600"

definition storable :: "source_policy list" where
  "storable = filter store (dict_values POLICIES)"

definition expired :: "int \<Rightarrow> pyfloat \<Rightarrow> string option \<Rightarrow> pyfloat \<Rightarrow> bool" where
  \<comment> \<open>the WHERE clause of \<open>_PURGE\<close>; a NULL source equals no key\<close>
  "expired margin now src stamp \<longleftrightarrow>
     \<not> (\<exists>p \<in> set storable. src \<noteq> None \<and> sp_key p = source_key (the src))
     \<or> (\<exists>p \<in> set storable. src \<noteq> None \<and> sp_key p = source_key (the src)
          \<and> stamp < now - of_int (max_age_s p - margin))"

definition purge_expired :: "int \<Rightarrow> pyfloat \<Rightarrow> database \<Rightarrow> database \<times> nat \<times> nat" where
  "purge_expired margin now db =
     (let old = (\<lambda>r. expired margin now (Some (o_source r)) (o_fetched r));
          stale = (\<lambda>r. expired margin now (wa_source r) (wa_checked r))
      in (db\<lparr>offers := filter (\<lambda>r. \<not> old r) (offers db), watchlist := filter (\<lambda>r. \<not> stale r) (watchlist db)\<rparr>,
          length (filter old (offers db)), length (filter stale (watchlist db))))"

lemma storable_ages: "p \<in> set storable \<Longrightarrow> max_age_s p = 72 * 3600"
  by (auto simp: storable_def dict_values_def policy_table)

lemma storable_keys: "(\<exists>p \<in> set storable. sp_key p = k) \<longleftrightarrow> k \<in> set (''BestBuy'' # course_keys)"
  by (auto simp: storable_def dict_values_def policy_table)

lemma not_expiredD:
  assumes "\<not> expired margin now src stamp"
  shows "\<exists>s. src = Some s \<and> may_store s \<and> now - stamp \<le> of_int (72 * 3600 - margin)"
proof -
  from assms obtain p s where p: "p \<in> set storable" "src = Some s" "sp_key p = source_key s"
      "\<not> stamp < now - of_int (max_age_s p - margin)"
    by (auto simp: expired_def)
  with storable_ages [OF p(1)] storable_keys [of "source_key s"] show ?thesis
    by (auto simp: may_iff_key(2))
qed

section \<open>Migrations\<close>

text \<open>
  The migration log is the list of applied file names; running a file may fail, which rolls its
  transaction back and stops the run. \<open>files\<close> is the sorted directory listing.
\<close>

definition pending_migrations :: "string list \<Rightarrow> string list \<Rightarrow> string list" where
  "pending_migrations files done' = filter (\<lambda>f. f \<notin> set done') files"

fun apply_migrations :: "(string \<Rightarrow> bool) \<Rightarrow> string list \<Rightarrow> string list \<Rightarrow> string list \<times> bool" where
  \<comment> \<open>the log afterwards, and whether the run came to its end; \<open>runs f\<close>: the file's SQL succeeds\<close>
  "apply_migrations runs [] lg = (lg, True)"
| "apply_migrations runs (f # fs) lg =
     (if f \<in> set lg then apply_migrations runs fs lg
      else if runs f then apply_migrations runs fs (lg @ [f])
      else (lg, False))"

definition schema_current :: "string list \<Rightarrow> string list \<Rightarrow> bool" where
  "schema_current files lg \<longleftrightarrow> set files \<subseteq> set lg"

lemma apply_migrations_log:
  "distinct lg \<Longrightarrow> apply_migrations runs fs lg = (lg', ok) \<Longrightarrow>
     prefix lg lg' \<and> distinct lg' \<and> (ok \<longrightarrow> set fs \<subseteq> set lg') \<and> (\<forall>f \<in> set lg' - set lg. runs f \<and> f \<in> set fs)"
proof (induction fs arbitrary: lg)
  case (Cons f fs)
  consider "f \<in> set lg" | "f \<notin> set lg" "runs f" | "f \<notin> set lg" "\<not> runs f" by blast
  then show ?case
  proof cases
    case 1
    with Cons.IH [OF Cons.prems(1)] Cons.prems(2) show ?thesis
      by (auto dest!: set_mono_prefix)
  next
    case 2
    with Cons.IH [of "lg @ [f]"] Cons.prems have "prefix (lg @ [f]) lg'" "distinct lg'" "ok \<longrightarrow> set fs \<subseteq> set lg'"
      "\<forall>g \<in> set lg' - set (lg @ [f]). runs g \<and> g \<in> set fs" by auto
    with 2 set_mono_prefix [OF this(1)] append_prefixD [OF this(1)] show ?thesis by auto
  next
    case 3
    with Cons.prems show ?thesis by auto
  qed
qed auto

section \<open>Properties\<close>

text \<open>C3: Tenant and user isolation. Over any sequence of request-path transactions in one scope, the rows outside the
  scope stay exactly as they were, and every reply and the rows inside the scope depend only on the
  rows inside the scope: two databases that agree there give the same replies.\<close>

theorem scopes_are_isolated:
  assumes "view s db1 = view s db2"
  shows "hidden s (fst (run_requests (exec cdist s) qs db1)) = hidden s db1
    \<and> snd (run_requests (exec cdist s) qs db1) = snd (run_requests (exec cdist s) qs db2)
    \<and> view s (fst (run_requests (exec cdist s) qs db1)) = view s (fst (run_requests (exec cdist s) qs db2))"
  using rls.run_frame [of s cdist qs db1] rls.run_local [OF assms, of cdist qs] by blast

theorem scopes_are_isolated_witness:
  "snd (run_requests (exec (\<lambda>_ _. 0) \<lparr>sc_tenant = ''t'', sc_user = ''u''\<rparr>)
      [(1, ListWatch), (2, AddSaved ''x'' ''tv'' None), (3, ListSaved)]
      \<lparr>offers = [], watchlist = [], saved = [\<lparr>sv_id = ''s'', sv_user = ''v'', sv_query = ''q'', sv_max = None, sv_created = 0\<rparr>]\<rparr>)
   = snd (run_requests (exec (\<lambda>_ _. 0) \<lparr>sc_tenant = ''t'', sc_user = ''u''\<rparr>)
      [(1, ListWatch), (2, AddSaved ''x'' ''tv'' None), (3, ListSaved)] \<lparr>offers = [], watchlist = [], saved = []\<rparr>)"
  by (rule scopes_are_isolated [THEN conjunct2, THEN conjunct1]) (simp add: view_def own_saved_def)

fun run_scoped :: "(pyfloat list \<Rightarrow> pyfloat list \<Rightarrow> pyfloat) \<Rightarrow> (scope \<times> pyfloat \<times> request) list \<Rightarrow> database \<Rightarrow> database" where
  "run_scoped cdist [] db = db"
| "run_scoped cdist ((s, t, q) # qs) db = run_scoped cdist qs (fst (exec cdist s t q db))"

text \<open>C31: The per-user caps. From a database within the caps, no sequence of transactions of any users gives any
  user more than 200 watched offers or more than 50 saved searches.\<close>

theorem caps_hold:
  assumes "capped db"
  shows "watches_of u (run_scoped cdist qs db) \<le> 200 \<and> searches_of u (run_scoped cdist qs db) \<le> 50"
proof -
  have "capped (run_scoped cdist qs db)"
    using assms by (induction cdist qs db rule: run_scoped.induct) (auto intro: exec_capped)
  then show ?thesis by (simp add: capped_def WATCH_LIMIT_def SAVED_SEARCH_LIMIT_def)
qed

theorem caps_hold_witness:
  "searches_of ''u'' (run_scoped (\<lambda>_ _. 0) [(\<lparr>sc_tenant = ''t'', sc_user = ''u''\<rparr>, 1, AddSaved ''i'' ''tv'' None)]
     \<lparr>offers = [], watchlist = [], saved = []\<rparr>) \<le> 50"
  using caps_hold [of "\<lparr>offers = [], watchlist = [], saved = []\<rparr>" "''u''" "\<lambda>_ _. 0"
      "[(\<lparr>sc_tenant = ''t'', sc_user = ''u''\<rparr>, 1, AddSaved ''i'' ''tv'' None)]"]
  by (simp add: capped_def watches_of_def searches_of_def)

text \<open>C32: Retention. After a purge at time \<open>now\<close>, every offer and every watched item left belongs to a source
  whose licence allows storing, and for the next 24 hours (two purge intervals, so even if the next
  purge fails) none of them is older than 71 hours, below the licence's 72.\<close>

theorem purge_keeps_licence:
  assumes "purge_expired RETENTION_MARGIN_S now db = (db', n, m)" and "t \<le> now + 24 * 3600"
  shows "(\<forall>r \<in> set (offers db'). may_store (o_source r) \<and> t - o_fetched r \<le> 71 * 3600)
    \<and> (\<forall>r \<in> set (watchlist db'). \<exists>s. wa_source r = Some s \<and> may_store s \<and> t - wa_checked r \<le> 71 * 3600)
    \<and> length (offers db') + n = length (offers db) \<and> length (watchlist db') + m = length (watchlist db)"
proof -
  have db': "offers db' = filter (\<lambda>r. \<not> expired RETENTION_MARGIN_S now (Some (o_source r)) (o_fetched r)) (offers db)"
    "watchlist db' = filter (\<lambda>r. \<not> expired RETENTION_MARGIN_S now (wa_source r) (wa_checked r)) (watchlist db)"
    and nm: "n = length (filter (\<lambda>r. expired RETENTION_MARGIN_S now (Some (o_source r)) (o_fetched r)) (offers db))"
    "m = length (filter (\<lambda>r. expired RETENTION_MARGIN_S now (wa_source r) (wa_checked r)) (watchlist db))"
    using assms(1) by (auto simp: purge_expired_def Let_def)
  have "may_store (o_source r) \<and> t - o_fetched r \<le> 71 * 3600" if "r \<in> set (offers db')" for r
    using that not_expiredD [of RETENTION_MARGIN_S now "Some (o_source r)" "o_fetched r"] assms(2)
    by (auto simp: db' RETENTION_MARGIN_S_def)
  moreover have "\<exists>s. wa_source r = Some s \<and> may_store s \<and> t - wa_checked r \<le> 71 * 3600" if "r \<in> set (watchlist db')" for r
    using that not_expiredD [of RETENTION_MARGIN_S now "wa_source r" "wa_checked r"] assms(2)
    by (auto simp: db' RETENTION_MARGIN_S_def)
  ultimately show ?thesis by (simp add: db' nm length_filter_compl)
qed

theorem purge_keeps_licence_witness:
  "0 - o_fetched \<lparr>o_tenant = ''t'', o_id = ''1'', o_title = ''tv'', o_brand = None, o_source = ''BestBuy'', o_price = 9,
      o_currency = ''USD'', o_url = None, o_image = None, o_vec = None, o_sku = None, o_regular = None,
      o_fetched = - 3600\<rparr> \<le> 71 * 3600"
proof -
  let ?r = "\<lparr>o_tenant = ''t'', o_id = ''1'', o_title = ''tv'', o_brand = None, o_source = ''BestBuy'', o_price = 9,
      o_currency = ''USD'', o_url = None, o_image = None, o_vec = None, o_sku = None, o_regular = None, o_fetched = - 3600\<rparr>"
  have "\<exists>n m. purge_expired RETENTION_MARGIN_S 0 \<lparr>offers = [?r], watchlist = [], saved = []\<rparr> =
      (\<lparr>offers = [?r], watchlist = [], saved = []\<rparr>, n, m)"
    by (simp add: purge_expired_def Let_def expired_def storable_def dict_values_def policy_table
        source_key_def RETENTION_MARGIN_S_def)
  with purge_keeps_licence [of 0 "\<lparr>offers = [?r], watchlist = [], saved = []\<rparr>" _ _ _ 0] show ?thesis by fastforce
qed

text \<open>Migrations. Applying them runs each file at most once and never one that
  is logged already; a file is logged exactly when its SQL succeeded; a run that ends leaves the schema
  current, and a second run then changes nothing.\<close>

theorem migrations_apply_once:
  assumes "distinct lg"
  shows "case apply_migrations runs files lg of (lg', ok) \<Rightarrow>
     prefix lg lg' \<and> distinct lg' \<and> (\<forall>f \<in> set lg' - set lg. runs f \<and> f \<in> set files)
     \<and> (ok \<longrightarrow> schema_current files lg' \<and> pending_migrations files lg' = []
          \<and> apply_migrations runs files lg' = (lg', True))"
proof -
  obtain lg' ok where run: "apply_migrations runs files lg = (lg', ok)" by force
  have idle: "set fs \<subseteq> set l \<Longrightarrow> apply_migrations runs fs l = (l, True)" for fs l
    by (induction fs) auto
  from apply_migrations_log [OF assms run] idle [of files lg'] show ?thesis
    by (auto simp: run schema_current_def pending_migrations_def filter_empty_conv)
qed

theorem migrations_apply_once_witness:
  "case apply_migrations (\<lambda>f. f \<noteq> ''3'') [''1'', ''2'', ''3''] [''1''] of (lg', ok) \<Rightarrow> prefix [''1''] lg' \<and> distinct lg'"
  using migrations_apply_once [of "[''1'']" "\<lambda>f. f \<noteq> ''3''" "[''1'', ''2'', ''3'']"] by auto

end
