(* ===== verification/Live_Sources.thy ===== *)
theory Live_Sources
  imports Schema Licensing Settings
begin

text \<open>
  \<open>dealfinder/live_sources.py\<close>: the connectors that turn a provider's JSON into product rows, the one eBay
  client with its cached token, Best Buy's SKU lookup, and the choice of the enabled sources.

  \<open>http\<close> answers a call: \<open>None\<close> for any exception, else the status and the JSON body. A call is its
  URL with the query or form parameters (headers carry only credentials). The providers' fields
  have their documented types: a text field is a text, null or absent, a list field a list, an id a text or an integer,
  a number finite. A search returns \<open>None\<close> when it raises.
\<close>

datatype call = Call string "(string \<times> string) list"

type_synonym http = "call \<Rightarrow> (nat \<times> json) option"

section \<open>Reading fields\<close>

fun py_replace_fuel :: "nat \<Rightarrow> string \<Rightarrow> string \<Rightarrow> string \<Rightarrow> string" where
  "py_replace_fuel 0 a b s = s"
| "py_replace_fuel (Suc n) a b [] = []"
| "py_replace_fuel (Suc n) a b (c # s) =
     (if prefix a (c # s) then b @ py_replace_fuel n a b (drop (length a) (c # s))
      else c # py_replace_fuel n a b s)"

definition py_replace :: "string \<Rightarrow> string \<Rightarrow> string \<Rightarrow> string" where
  \<comment> \<open>\<open>s.replace(a, b)\<close> for a non-empty \<open>a\<close>; every step shortens the rest, so the length is enough fuel\<close>
  "py_replace a b s = py_replace_fuel (length s) a b s"

text \<open>\<open>float(s)\<close> on decimal literals: sign, digits, fraction, exponent (no underscores, no inf or nan).\<close>

definition digits_of :: "string \<Rightarrow> string \<times> string" where
  "digits_of s = (takeWhile is_digit s, dropWhile is_digit s)"

definition parse_exponent :: "string \<Rightarrow> int option" where
  "parse_exponent s =
     (let (neg, ds) = (case s of c # t \<Rightarrow> if c = CHR ''-'' then (True, t) else if c = CHR ''+'' then (False, t) else (False, s)
                       | [] \<Rightarrow> (False, s))
      in if ds \<noteq> [] \<and> list_all is_digit ds
         then Some (if neg then - int (digits_val 0 ds) else int (digits_val 0 ds)) else None)"

definition parse_unsigned :: "string \<Rightarrow> pyfloat option" where
  "parse_unsigned s =
     (let (ip, r1) = digits_of s;
          (fp, r2) = (case r1 of c # t \<Rightarrow> if c = CHR ''.'' then digits_of t else ([], r1) | [] \<Rightarrow> ([], r1));
          m = of_nat (digits_val 0 (ip @ fp)) / 10 ^ length fp
      in if ip = [] \<and> fp = [] then None
         else (case r2 of
            [] \<Rightarrow> Some m
          | c # t \<Rightarrow> if lower_char c = CHR ''e''
              then map_option (\<lambda>e. if e \<ge> 0 then m * 10 ^ nat e else m / 10 ^ nat (- e)) (parse_exponent t)
              else None))"

definition parse_float :: "string \<Rightarrow> pyfloat option" where
  "parse_float s = (case s of [] \<Rightarrow> None
     | c # t \<Rightarrow> if c = CHR ''-'' then map_option uminus (parse_unsigned t)
               else if c = CHR ''+'' then parse_unsigned t else parse_unsigned s)"

fun to_price :: "json \<Rightarrow> pyfloat option" where
  \<comment> \<open>\<open>_f\<close>\<close>
  "to_price (JInt i) = Some (of_int i)"
| "to_price (JNum x) = Some x"
| "to_price (JStr s) = (case py_words (py_replace '','' [] (py_replace ''$'' [] s)) of
     [] \<Rightarrow> None | w # _ \<Rightarrow> parse_float w)"
| "to_price _ = None"

definition truthy_price :: "json \<Rightarrow> pyfloat option" where
  \<comment> \<open>\<open>None\<close> for the rows that \<open>if not price: continue\<close> skips\<close>
  "truthy_price v = (case to_price v of None \<Rightarrow> None | Some x \<Rightarrow> if x = 0 then None else Some x)"

definition jtext :: "string \<Rightarrow> json \<Rightarrow> string" where
  "jtext k it = (case j_get k it of JStr s \<Rightarrow> s | _ \<Rightarrow> [])"

definition jtext_opt :: "string \<Rightarrow> json \<Rightarrow> string option" where
  "jtext_opt k it = (case j_get k it of JStr s \<Rightarrow> Some s | _ \<Rightarrow> None)"

fun show_json :: "json \<Rightarrow> string" where
  \<comment> \<open>\<open>str(v)\<close> for an id\<close>
  "show_json (JStr s) = s"
| "show_json (JInt i) = int_str i"
| "show_json _ = ''None''"

fun or_text :: "string list \<Rightarrow> string" where
  \<comment> \<open>\<open>a or b or ...\<close> on texts\<close>
  "or_text [] = []"
| "or_text (s # ss) = (if s \<noteq> [] then s else or_text ss)"

definition paid_ok :: "environ \<Rightarrow> bool" where
  "paid_ok env \<longleftrightarrow> getenv env ''DEALFINDER_ENABLE_PAID_SOURCES'' = Some ''1''"

definition has_var :: "environ \<Rightarrow> string \<Rightarrow> bool" where
  "has_var env k \<longleftrightarrow> truthy (getenv env k)"

definition env_or :: "environ \<Rightarrow> string \<Rightarrow> string \<Rightarrow> string" where
  "env_or env k v = (case getenv env k of None \<Rightarrow> v | Some s \<Rightarrow> s)"

definition alnum_tokens :: "nat \<Rightarrow> string \<Rightarrow> string list" where
  \<comment> \<open>\<open>[t for t in re.findall(''[a-z0-9]+'', query.lower()) if len(t) > n]\<close>\<close>
  "alnum_tokens n q = filter (\<lambda>t. length t > n)
     (rx_findall (plus (Cls (\<lambda>c. is_lower c \<or> is_digit c))) (py_lower q))"

section \<open>The connectors\<close>

definition itunes_product :: "string \<Rightarrow> json \<Rightarrow> product option" where
  "itunes_product query it =
     (case to_price (j_or (j_get ''trackPrice'' it) (j_get ''collectionPrice'' it)) of
        None \<Rightarrow> None
      | Some x \<Rightarrow> if x \<le> 0 then None
          else Some \<lparr>p_id = ''itunes-'' @ show_json (j_or (j_get ''trackId'' it) (j_get ''collectionId'' it)),
             title = take 120 (or_text [jtext ''trackName'' it, jtext ''collectionName'' it, query]),
             brand = jtext_opt ''artistName'' it,
             category = (case jtext_opt ''primaryGenreName'' it of None \<Rightarrow> ''media'' | Some g \<Rightarrow> g),
             price = x, currency = ''USD'',
             url = or_text [jtext ''trackViewUrl'' it, jtext ''collectionViewUrl'' it], source = ''iTunes'',
             image_url = jtext_opt ''artworkUrl100'' it, sku = None, regular_price = None, marketplace = None,
             condition = ''new'', specs = [], price_history = []\<rparr>)"

definition itunes_search :: "http \<Rightarrow> string \<Rightarrow> nat \<Rightarrow> product list option" where
  "itunes_search http query limit =
     (case http (Call ''https://itunes.apple.com/search'' [(''term'', query), (''country'', ''US''), (''limit'', nat_digits limit)]) of
        None \<Rightarrow> None
      | Some (_, body) \<Rightarrow> Some (List.map_filter (itunes_product query) (j_list (j_get ''results'' body))))"

definition row :: "string \<Rightarrow> string \<Rightarrow> string option \<Rightarrow> pyfloat \<Rightarrow> string \<Rightarrow> string \<Rightarrow> string option \<Rightarrow> product" where
  \<comment> \<open>the rows of the retail connectors: category \<open>product\<close>, a title of at most 120 characters\<close>
  "row i t b x u s img = (mk_product i (take 120 t) b ''product'' x u s)\<lparr>image_url := img\<rparr>"

definition rapidapi_product :: "string \<Rightarrow> json \<Rightarrow> product option" where
  "rapidapi_product query it =
     map_option (\<lambda>x.
       let store_name = or_text [jtext ''store_name'' it, ''store''];
           pid = (if j_truthy (j_get ''product_id'' it) then show_json (j_get ''product_id'' it) else jtext ''product_title'' it)
       in row (''rapidapi-'' @ take 40 pid) (or_text [jtext ''product_title'' it, query]) (Some store_name) x
            (jtext ''product_page_url'' it) (''RapidAPI:'' @ store_name)
            (case j_list (j_get ''product_photos'' it) of JStr s # _ \<Rightarrow> Some s | _ \<Rightarrow> None))
       (truthy_price (j_get ''price'' it))"

definition rapidapi_search :: "environ \<Rightarrow> http \<Rightarrow> string \<Rightarrow> nat \<Rightarrow> product list option" where
  "rapidapi_search env http query limit =
     (if \<not> has_var env ''RAPIDAPI_KEY'' then Some []
      else (case http (Call ''https://real-time-product-search.p.rapidapi.com/search''
              [(''q'', query), (''country'', ''us''), (''limit'', nat_digits limit)]) of
        None \<Rightarrow> None
      | Some (_, body) \<Rightarrow> Some (List.map_filter (rapidapi_product query)
          (j_list (j_get ''products'' (j_get ''data'' body))))))"

definition apify_product :: "string \<Rightarrow> json \<Rightarrow> product option" where
  "apify_product query it =
     (let num = j_get ''priceNumeric'' it; cur = or_text [jtext ''currency'' it, ''USD''] in
      case (if j_truthy num then to_price num else truthy_price (j_get ''price'' it)) of
        None \<Rightarrow> None
      | Some x \<Rightarrow>
          if py_upper cur \<noteq> ''USD'' then None
          else (let merchant = or_text [jtext ''merchant'' it, ''shopping''] in
                Some ((row (''apify-'' @ take 40 (jtext ''title'' it)) (or_text [jtext ''title'' it, query]) (Some merchant) x
                  (jtext ''productUrl'' it) (''Apify:'' @ merchant) (jtext_opt ''imageUrl'' it))\<lparr>currency := cur\<rparr>)))"

definition apify_search :: "environ \<Rightarrow> http \<Rightarrow> string \<Rightarrow> nat \<Rightarrow> product list option" where
  "apify_search env http query limit =
     (if \<not> has_var env ''APIFY_TOKEN'' then Some []
      else (case http (Call (''https://api.apify.com/v2/acts/'' @
              env_or env ''APIFY_ACTOR'' ''automation-lab~google-shopping-scraper'' @ ''/run-sync-get-dataset-items'')
              [(''queries'', query), (''maxResults'', nat_digits limit), (''country'', ''us''), (''language'', ''en'')]) of
        None \<Rightarrow> None
      | Some (_, body) \<Rightarrow> Some (List.map_filter (apify_product query) (j_list body))))"

definition amazon_product :: "string \<Rightarrow> json \<Rightarrow> product option" where
  "amazon_product query it =
     (let po = j_get ''price'' it; asin = jtext ''asin'' it;
          cur = or_text [if is_obj po then jtext ''currency'' po else [], ''USD''] in
      case truthy_price (if is_obj po then j_get ''value'' po else po) of
        None \<Rightarrow> None
      | Some x \<Rightarrow>
          if cur \<notin> {''USD'', ''$''} then None
          else Some (row (''amazon-'' @ or_text [asin, take 40 (jtext ''title'' it)]) (or_text [jtext ''title'' it, query])
            (Some ''Amazon'') (py_round 2 x) (if asin = [] then [] else ''https://www.amazon.com/dp/'' @ asin)
            ''Amazon'' (jtext_opt ''imageUrl'' it)))"

definition amazon_search :: "(string \<Rightarrow> string) \<Rightarrow> environ \<Rightarrow> http \<Rightarrow> string \<Rightarrow> nat \<Rightarrow> product list option" where
  \<comment> \<open>\<open>quote_plus\<close> of the standard library is the first argument\<close>
  "amazon_search quote_plus env http query limit =
     (if \<not> has_var env ''APIFY_TOKEN'' then Some []
      else (case http (Call ''https://api.apify.com/v2/acts/junglee~Amazon-crawler/run-sync-get-dataset-items''
              [(''url'', ''https://www.amazon.com/s?k='' @ quote_plus query), (''maxItemsPerStartUrl'', nat_digits limit),
               (''maxSearchPagesPerStartUrl'', ''1''), (''countryCode'', ''US'')]) of
        None \<Rightarrow> None
      | Some (_, body) \<Rightarrow> Some (List.map_filter (amazon_product query) (j_list body))))"

definition bestbuy_product :: "string \<Rightarrow> json \<Rightarrow> product option" where
  "bestbuy_product fallback_title p =
     map_option (\<lambda>x.
       let reg = j_get ''regularPrice'' p;
           on_sale = (j_truthy reg \<and> (case (to_price (j_get ''salePrice'' p), to_price reg) of
                         (Some a, Some b) \<Rightarrow> a < b | _ \<Rightarrow> False))
       in (row (''bestbuy-'' @ show_json (j_get ''sku'' p)) (or_text [jtext ''name'' p, fallback_title])
             (jtext_opt ''manufacturer'' p) x (jtext ''url'' p) (''BestBuy'' @ (if on_sale then '':sale'' else []))
             (jtext_opt ''image'' p))
            \<lparr>sku := (case j_get ''sku'' p of JNull \<Rightarrow> None | v \<Rightarrow> Some (show_json v)), regular_price := to_price reg\<rparr>)
       (truthy_price (j_get ''salePrice'' p))"

definition bestbuy_show :: string where
  "bestbuy_show = ''sku,name,salePrice,regularPrice,url,image,manufacturer''"

definition bestbuy_search :: "environ \<Rightarrow> http \<Rightarrow> string \<Rightarrow> nat \<Rightarrow> product list option" where
  "bestbuy_search env http query limit =
     (let tokens = take 6 (alnum_tokens 1 query) in
      if \<not> has_var env ''BESTBUY_API_KEY'' \<or> tokens = [] then Some []
      else (case http (Call (''https://api.bestbuy.com/v1/products('' @ py_join ''&'' (map (\<lambda>t. ''search='' @ t) tokens) @
              '')?apiKey='' @ env_or env ''BESTBUY_API_KEY'' [] @ ''&format=json&show='' @ bestbuy_show @
              ''&pageSize='' @ nat_digits limit @ ''&sort=salePrice.asc'') []) of
        None \<Rightarrow> None
      | Some (st, body) \<Rightarrow>
          if st \<noteq> 200 then Some []
          else Some (List.map_filter (bestbuy_product query) (j_list (j_get ''products'' body)))))"

text \<open>The SKU lookup, batch by batch; a failing batch discards everything.\<close>

datatype lookup_error = NotASku string | LookupError string | BadAnswer  \<comment> \<open>an answer that is not the documented object\<close>

fun batches :: "nat \<Rightarrow> 'a list \<Rightarrow> 'a list list" where
  "batches n [] = []"
| "batches n (x # xs) = (x # take (n - 1) xs) # batches n (drop (n - 1) xs)"

definition is_sku :: "string \<Rightarrow> bool" where
  "is_sku s \<longleftrightarrow> list_all is_digit s \<and> 1 \<le> length s \<and> length s \<le> 12"

definition sku_call :: "environ \<Rightarrow> string list \<Rightarrow> call" where
  "sku_call env batch = Call (''https://api.bestbuy.com/v1/products(sku in('' @ py_join '','' batch @ ''))?apiKey='' @
     env_or env ''BESTBUY_API_KEY'' [] @ ''&format=json&show='' @ bestbuy_show @ ''&pageSize=100'') []"

definition products_page :: "json \<Rightarrow> json list option" where
  \<comment> \<open>what \<open>for p in r.json().get("products", [])\<close> runs over; \<open>None\<close> where \<open>get\<close>, the loop or a row's own \<open>get\<close>
    raises. A body that is no JSON is any value but an object\<close>
  "products_page body = (case body of
     JObj kvs \<Rightarrow> (case dict_get kvs ''products'' of
         None \<Rightarrow> Some []
       | Some (JArr ps) \<Rightarrow> if list_all is_obj ps then Some ps else None
       | Some (JStr s) \<Rightarrow> if s = [] then Some [] else None
       | Some (JObj d) \<Rightarrow> if d = [] then Some [] else None
       | Some _ \<Rightarrow> None)
   | _ \<Rightarrow> None)"

definition keep_skus :: "json list \<Rightarrow> (string, product) dict \<Rightarrow> (string, product) dict" where
  "keep_skus ps found =
     foldl (\<lambda>d p. case bestbuy_product [] p of
         Some x \<Rightarrow> (case sku x of Some s \<Rightarrow> if s = [] then d else dict_set s x d | None \<Rightarrow> d)
       | None \<Rightarrow> d) found ps"

fun lookup_batches :: "environ \<Rightarrow> http \<Rightarrow> string list list \<Rightarrow> (string, product) dict \<Rightarrow>
    lookup_error + (string, product) dict" where
  "lookup_batches env http [] found = Inr found"
| "lookup_batches env http (b # bs) found =
     (case http (sku_call env b) of
        None \<Rightarrow> Inl (LookupError ''HTTPError'')
      | Some (st, body) \<Rightarrow>
          if st \<noteq> 200 then Inl (LookupError (nat_digits st))
          else (case products_page body of
             None \<Rightarrow> Inl BadAnswer
           | Some ps \<Rightarrow> lookup_batches env http bs (keep_skus ps found)))"

definition lookup_skus :: "environ \<Rightarrow> http \<Rightarrow> string list \<Rightarrow> lookup_error + (string, product) dict" where
  "lookup_skus env http skus =
     (let wanted = py_dedupe skus in
      case filter (\<lambda>s. \<not> is_sku s) wanted of
        b # _ \<Rightarrow> Inl (NotASku b)
      | [] \<Rightarrow>
          if wanted = [] then Inr []
          else if \<not> has_var env ''BESTBUY_API_KEY'' then Inl (LookupError ''no key'')
          else lookup_batches env http (batches 100 wanted) [])"

section \<open>Shopify and Firecrawl\<close>

definition DEFAULT_STORES :: "string list" where
  "DEFAULT_STORES = [''deathwishcoffee.com'', ''www.allbirds.com'', ''www.kith.com'', ''chubbiesshorts.com'',
     ''brooklinen.com'', ''drsquatch.com'', ''peakdesign.com'', ''tentree.com'', ''www.spigen.com'', ''www.hexclad.com'']"

definition shopify_stores :: "environ \<Rightarrow> string list" where
  "shopify_stores env =
     (if has_var env ''SHOPIFY_STORES''
      then filter (\<lambda>s. s \<noteq> []) (map py_strip (py_split_on CHR '','' (env_or env ''SHOPIFY_STORES'' [])))
      else DEFAULT_STORES)"

definition shopify_tags :: "json \<Rightarrow> string list" where
  "shopify_tags p = (case j_get ''tags'' p of
     JStr s \<Rightarrow> if s = [] then [] else py_split_on CHR '','' s
   | JArr ts \<Rightarrow> map show_json ts | _ \<Rightarrow> [])"

definition shopify_product :: "string \<Rightarrow> string list \<Rightarrow> string \<Rightarrow> json \<Rightarrow> product option" where
  "shopify_product query tokens st p =
     (let hay = py_lower (jtext ''title'' p @ '' '' @ jtext ''product_type'' p @ '' '' @ py_join '' '' (shopify_tags p));
          v = (case j_list (j_get ''variants'' p) of [] \<Rightarrow> JObj [] | w # _ \<Rightarrow> w)
      in if \<not> list_all (\<lambda>t. py_in t hay) tokens then None
         else map_option (\<lambda>x. row (''shopify-'' @ st @ ''-'' @ show_json (j_get ''id'' p))
                (or_text [jtext ''title'' p, query]) (jtext_opt ''vendor'' p) x
                (''https://'' @ st @ ''/products/'' @ jtext ''handle'' p) (''Shopify:'' @ st)
                (case j_list (j_get ''images'' p) of [] \<Rightarrow> None | i # _ \<Rightarrow> jtext_opt ''src'' i))
              (truthy_price (j_get ''price'' v)))"

fun take_some :: "('a \<Rightarrow> 'b option) \<Rightarrow> nat \<Rightarrow> nat \<Rightarrow> 'a list \<Rightarrow> 'b list" where
  \<comment> \<open>the per-store loop: \<open>n\<close> rows kept so far, stop once \<open>limit\<close> is reached\<close>
  "take_some f limit n [] = []"
| "take_some f limit n (x # xs) =
     (case f x of None \<Rightarrow> take_some f limit n xs
      | Some y \<Rightarrow> y # (if Suc n \<ge> limit then [] else take_some f limit (Suc n) xs))"

definition shopify_search :: "environ \<Rightarrow> http \<Rightarrow> string \<Rightarrow> nat \<Rightarrow> product list option" where
  "shopify_search env http query limit =
     Some (concat (map (\<lambda>st.
       case http (Call (''https://'' @ st @ ''/products.json'') [(''limit'', ''250'')]) of
         None \<Rightarrow> []
       | Some (code, body) \<Rightarrow>
           if code \<noteq> 200 then []
           else take_some (shopify_product query (alnum_tokens 2 query) st) limit 0 (j_list (j_get ''products'' body)))
       (shopify_stores env)))"

definition SKIP_DOMAINS :: "string list" where
  "SKIP_DOMAINS = [''rtings.com'', ''nytimes.com'', ''techradar.com'', ''cnet.com'', ''tomsguide.com'',
     ''wired.com'', ''theverge.com'', ''pcmag.com'', ''forbes.com'', ''reddit.com'',
     ''youtube.com'', ''wikipedia.org'', ''wirecutter.com'', ''businessinsider.com'']"

definition after_scheme :: "string \<Rightarrow> string" where
  "after_scheme u =
     (let s = takeWhile (\<lambda>c. c \<noteq> CHR '':'') u in
      if CHR '':'' \<in> set u \<and> s \<noteq> [] \<and> is_alpha (hd s) \<and> list_all (\<lambda>c. is_alpha c \<or> is_digit c \<or> c \<in> set ''+-.'') s
      then py_after CHR '':'' u else u)"

definition netloc :: "string \<Rightarrow> string" where
  \<comment> \<open>\<open>urlparse(u).netloc\<close>\<close>
  "netloc u = (case after_scheme u of
     a # b # rest \<Rightarrow> if a = CHR ''/'' \<and> b = CHR ''/'' then takeWhile (\<lambda>c. c \<notin> set ''/?#'') rest else []
   | _ \<Rightarrow> [])"

definition PRICE_RE :: rx where
  "PRICE_RE = seqs [lit CHR ''$'', opt (Cls is_space),
     Grp (seqs [rdigit, Star (Cls (\<lambda>c. is_digit c \<or> c = CHR '','')), opt (seqs [lit CHR ''.'', rdigit, rdigit])])]"

definition firecrawl_product :: "string \<Rightarrow> json \<Rightarrow> product option" where
  "firecrawl_product query it =
     (let found = (case rx_group PRICE_RE (jtext ''description'' it) of None \<Rightarrow> None | Some g \<Rightarrow> to_price (JStr g));
          u = jtext ''url'' it;
          dom = or_text [py_replace ''www.'' [] (netloc u), ''web'']
      in case found of
           None \<Rightarrow> None
         | Some x \<Rightarrow>
             if \<not> (1 \<le> x \<and> x \<le> 100000) then None
             else if dom \<in> set SKIP_DOMAINS then None
             else Some (row (''firecrawl-'' @ take 60 (or_text [u, jtext ''title'' it])) (or_text [jtext ''title'' it, query])
                    (Some dom) x u (''Firecrawl:'' @ dom) None))"

definition firecrawl_search :: "environ \<Rightarrow> http \<Rightarrow> string \<Rightarrow> nat \<Rightarrow> product list option" where
  "firecrawl_search env http query limit =
     (if \<not> has_var env ''FIRECRAWL_API_KEY'' then Some []
      else (case http (Call ''https://api.firecrawl.dev/v1/search'' [(''query'', query @ '' buy price''), (''limit'', nat_digits limit)]) of
        None \<Rightarrow> None
      | Some (_, body) \<Rightarrow> Some (List.map_filter (firecrawl_product query) (j_list (j_get ''data'' body)))))"

section \<open>eBay\<close>

record ebay_client =
  eb_token :: "string option"
  eb_expires :: pyfloat

definition ebay_sandbox :: "environ \<Rightarrow> bool" where
  "ebay_sandbox env \<longleftrightarrow> py_lower (env_or env ''EBAY_ENV'' []) = ''sandbox'' \<or> py_in ''SBX'' (env_or env ''EBAY_APP_ID'' [])"

definition ebay_base :: "environ \<Rightarrow> string" where
  "ebay_base env = (if ebay_sandbox env then ''https://api.sandbox.ebay.com'' else ''https://api.ebay.com'')"

definition ebay_available :: "environ \<Rightarrow> bool" where
  "ebay_available env \<longleftrightarrow> has_var env ''EBAY_APP_ID'' \<and> has_var env ''EBAY_CERT_ID''"

definition ebay_get_token :: "environ \<Rightarrow> http \<Rightarrow> pyfloat \<Rightarrow> pyfloat \<Rightarrow> ebay_client \<Rightarrow> ebay_client \<times> string option" where
  \<comment> \<open>\<open>t1\<close> and \<open>t2\<close>: the clock before and after the call; \<open>None\<close>: an exception (a failed call, a status
      that \<open>raise_for_status\<close> refuses, a body without a token)\<close>
  "ebay_get_token env http t1 t2 eb =
     (if truthy (eb_token eb) \<and> t1 < eb_expires eb then (eb, eb_token eb)
      else (case http (Call (ebay_base env @ ''/identity/v1/oauth2/token'') [(''grant_type'', ''client_credentials'')]) of
          Some (st, body) \<Rightarrow>
            if st \<ge> 400 then (eb, None)
            else (case j_get ''access_token'' body of
                JStr tok \<Rightarrow>
                  (let life = (case to_price (j_get ''expires_in'' body) of None \<Rightarrow> 7200 | Some x \<Rightarrow> x)
                   in (\<lparr>eb_token = Some tok, eb_expires = t2 + life - 60\<rparr>, Some tok))
              | _ \<Rightarrow> (eb, None))
        | None \<Rightarrow> (eb, None)))"

definition ebay_product :: "string \<Rightarrow> json \<Rightarrow> product option" where
  "ebay_product query it =
     map_option (\<lambda>x.
       let cond = or_text [jtext ''condition'' it, ''eBay''];
           iid = show_json (case j_get ''itemId'' it of JNull \<Rightarrow> JStr [] | v \<Rightarrow> v)
       in (row (''ebay-'' @ py_slice_from (- 40) iid) (or_text [jtext ''title'' it, query]) None x
             (jtext ''itemWebUrl'' it) (''eBay:'' @ cond) (jtext_opt ''imageUrl'' (j_get ''image'' it)))
          \<lparr>currency := (case jtext_opt ''currency'' (j_get ''price'' it) of None \<Rightarrow> ''USD'' | Some c \<Rightarrow> c)\<rparr>)
       (truthy_price (j_get ''value'' (j_get ''price'' it)))"

definition ebay_search ::
  "environ \<Rightarrow> http \<Rightarrow> pyfloat \<Rightarrow> pyfloat \<Rightarrow> string \<Rightarrow> nat \<Rightarrow> ebay_client \<Rightarrow> ebay_client \<times> product list option" where
  "ebay_search env http t1 t2 query limit eb =
     (if \<not> ebay_available env then (eb, Some [])
      else (let (eb', tok) = ebay_get_token env http t1 t2 eb in
            (eb', case tok of
               None \<Rightarrow> None
             | Some _ \<Rightarrow>
                 (case http (Call (ebay_base env @ ''/buy/browse/v1/item_summary/search'') [(''q'', query), (''limit'', nat_digits limit)]) of
                    None \<Rightarrow> None
                  | Some (st, body) \<Rightarrow>
                      if st \<noteq> 200 then Some []
                      else Some (List.map_filter (ebay_product query) (j_list (j_get ''itemSummaries'' body)))))))"

section \<open>The enabled sources\<close>

record live_source =
  lv_name :: string
  lv_tier :: int
  lv_fallback :: bool
  lv_metered :: bool

definition LIVE_SOURCES :: "live_source list" where
  \<comment> \<open>a class without a tier counts as tier 5\<close>
  "LIVE_SOURCES =
     [\<lparr>lv_name = ''RapidAPI'', lv_tier = 1, lv_fallback = False, lv_metered = False\<rparr>,
      \<lparr>lv_name = ''BestBuy'', lv_tier = 1, lv_fallback = False, lv_metered = False\<rparr>,
      \<lparr>lv_name = ''Amazon'', lv_tier = 2, lv_fallback = False, lv_metered = True\<rparr>,
      \<lparr>lv_name = ''Apify'', lv_tier = 2, lv_fallback = False, lv_metered = True\<rparr>,
      \<lparr>lv_name = ''Shopify'', lv_tier = 3, lv_fallback = False, lv_metered = False\<rparr>,
      \<lparr>lv_name = ''Firecrawl'', lv_tier = 3, lv_fallback = False, lv_metered = True\<rparr>,
      \<lparr>lv_name = ''iTunes'', lv_tier = 5, lv_fallback = True, lv_metered = False\<rparr>]"

definition source_available :: "environ \<Rightarrow> string \<Rightarrow> bool" where
  "source_available env n =
     (if n = ''RapidAPI'' then has_var env ''RAPIDAPI_KEY''
      else if n = ''BestBuy'' then has_var env ''BESTBUY_API_KEY''
      else if n \<in> {''Amazon'', ''Apify''} then has_var env ''APIFY_TOKEN'' \<and> paid_ok env
      else if n = ''Firecrawl'' then has_var env ''FIRECRAWL_API_KEY'' \<and> paid_ok env
      else n \<in> {''Shopify'', ''iTunes''})"

definition search_source ::
  "(string \<Rightarrow> string) \<Rightarrow> environ \<Rightarrow> http \<Rightarrow> string \<Rightarrow> nat \<Rightarrow> string \<Rightarrow> product list option" where
  \<comment> \<open>\<open>src.search(query, limit)\<close> of the source with this name\<close>
  "search_source quote_plus env http query limit n =
     (if n = ''RapidAPI'' then rapidapi_search env http query limit
      else if n = ''BestBuy'' then bestbuy_search env http query limit
      else if n = ''Amazon'' then amazon_search quote_plus env http query limit
      else if n = ''Apify'' then apify_search env http query limit
      else if n = ''Shopify'' then shopify_search env http query limit
      else if n = ''Firecrawl'' then firecrawl_search env http query limit
      else if n = ''iTunes'' then itunes_search http query limit else None)"

definition asked_names :: "environ \<Rightarrow> string option \<Rightarrow> string list" where
  "asked_names env names =
     (let raw = (case names of None \<Rightarrow> env_or env ''DEALFINDER_SOURCES'' [] | Some s \<Rightarrow> s) in
      filter (\<lambda>n. n \<noteq> []) (map py_strip (py_split_on CHR '','' raw)))"

definition name_error :: "string \<Rightarrow> string option" where
  "name_error n =
     (if py_lower n = ''ebay'' then Some ''eBay is served only by shop.ebay_box''
      else if py_lower n \<notin> set (map (py_lower \<circ> lv_name) LIVE_SOURCES) then Some (''unknown source: '' @ n)
      else None)"

definition is_launch :: "live_source \<Rightarrow> bool" where
  "is_launch s \<longleftrightarrow> (case policy_for (lv_name s) of None \<Rightarrow> False | Some p \<Rightarrow> launch p)"

definition enabled_sources :: "environ \<Rightarrow> string option \<Rightarrow> string + live_source list" where
  "enabled_sources env names =
     (let asked = asked_names env names in
      if asked = [] then
        (if is_production env then Inl ''DEALFINDER_SOURCES must be set in production'' else Inr LIVE_SOURCES)
      else (case List.map_filter name_error asked of
          e # _ \<Rightarrow> Inl e
        | [] \<Rightarrow>
            (let chosen = filter (\<lambda>s. py_lower (lv_name s) \<in> py_lower ` set asked) LIVE_SOURCES in
             case (if is_production env then filter (\<lambda>s. \<not> is_launch s) chosen else []) of
               s # _ \<Rightarrow> Inl (''not a launch source: '' @ lv_name s)
             | [] \<Rightarrow> Inr chosen)))"

section \<open>Properties\<close>

text \<open>Every row of a connector, as far as the rest of the program relies on it.\<close>

definition row_of :: "string \<Rightarrow> product \<Rightarrow> bool" where
  "row_of n p \<longleftrightarrow> source_key (source p) = n \<and> length (title p) \<le> 120 \<and> py_upper (currency p) = ''USD''"

lemma source_key_name: "CHR '':'' \<notin> set n \<Longrightarrow> source_key n = n"
  by (simp add: source_key_def)

lemma row_simps [simp]: "title (row i t b x u s img) = take 120 t" "source (row i t b x u s img) = s"
  "currency (row i t b x u s img) = ''USD''" "price (row i t b x u s img) = x"
  by (simp_all add: row_def mk_product_def)

lemma upper_usd [simp]: "py_upper ''USD'' = ''USD''"
  by (simp add: py_upper_def upper_char_def is_lower_def ord_def)

lemma source_key_known [simp]:
  "source_key (''RapidAPI:'' @ d) = ''RapidAPI''" "source_key (''Apify:'' @ d) = ''Apify''"
  "source_key ''Amazon'' = ''Amazon''" "source_key ''iTunes'' = ''iTunes''"
  "source_key (''Shopify:'' @ d) = ''Shopify''" "source_key (''Firecrawl:'' @ d) = ''Firecrawl''"
  "source_key ''BestBuy'' = ''BestBuy''" "source_key (''BestBuy'' @ '':sale'') = ''BestBuy''"
  by (simp_all add: source_key_def py_before_def)

lemma itunes_row: "itunes_product q it = Some p \<Longrightarrow> row_of ''iTunes'' p"
  using source_key_known(4) by (auto simp: itunes_product_def row_of_def split: option.splits if_splits)

lemma rapidapi_row: "rapidapi_product q it = Some p \<Longrightarrow> row_of ''RapidAPI'' p"
  using source_key_known(1) by (auto simp: rapidapi_product_def row_of_def Let_def)

lemma apify_row: "apify_product q it = Some p \<Longrightarrow> row_of ''Apify'' p"
  using source_key_known(2) by (auto simp: apify_product_def row_of_def Let_def split: option.splits if_splits)

lemma amazon_row: "amazon_product q it = Some p \<Longrightarrow> row_of ''Amazon'' p"
  using source_key_known(3) by (auto simp: amazon_product_def row_of_def Let_def split: option.splits if_splits)

lemma bestbuy_row: "bestbuy_product q it = Some p \<Longrightarrow> row_of ''BestBuy'' p"
  using source_key_known(7,8) by (auto simp: bestbuy_product_def row_of_def Let_def)

lemma shopify_row: "shopify_product q ts st it = Some p \<Longrightarrow> row_of ''Shopify'' p"
  using source_key_known(5) by (auto simp: shopify_product_def row_of_def Let_def split: if_splits)

lemma firecrawl_row: "firecrawl_product q it = Some p \<Longrightarrow> row_of ''Firecrawl'' p"
  using source_key_known(6) by (auto simp: firecrawl_product_def row_of_def Let_def split: option.splits if_splits)

lemma map_filter_rows:
  "(\<And>it p. f it = Some p \<Longrightarrow> P p) \<Longrightarrow> p \<in> set (List.map_filter f xs) \<Longrightarrow> P p"
  by (auto simp: List.map_filter_def) 

lemma take_some_rows: "(\<And>it p. f it = Some p \<Longrightarrow> P p) \<Longrightarrow> p \<in> set (take_some f limit n xs) \<Longrightarrow> P p"
  by (induction f limit n xs rule: take_some.induct) (auto split: option.splits if_splits)

lemma search_rows:
  assumes "search_source qp env http query limit n = Some ps" and "p \<in> set ps"
  shows "row_of n p"
proof -
  have rapid: "rapidapi_search env http query limit = Some ps \<Longrightarrow> row_of ''RapidAPI'' p"
    using assms(2) by (auto simp: rapidapi_search_def rapidapi_row split: if_splits option.splits
        intro: map_filter_rows [where f = "rapidapi_product query"])
  have best: "bestbuy_search env http query limit = Some ps \<Longrightarrow> row_of ''BestBuy'' p"
    using assms(2) by (auto simp: bestbuy_search_def bestbuy_row Let_def split: if_splits option.splits
        intro: map_filter_rows [where f = "bestbuy_product query"])
  have amz: "amazon_search qp env http query limit = Some ps \<Longrightarrow> row_of ''Amazon'' p"
    using assms(2) by (auto simp: amazon_search_def amazon_row split: if_splits option.splits
        intro: map_filter_rows [where f = "amazon_product query"])
  have api: "apify_search env http query limit = Some ps \<Longrightarrow> row_of ''Apify'' p"
    using assms(2) by (auto simp: apify_search_def apify_row split: if_splits option.splits
        intro: map_filter_rows [where f = "apify_product query"])
  have shop: "shopify_search env http query limit = Some ps \<Longrightarrow> row_of ''Shopify'' p"
    using assms(2) by (auto simp: shopify_search_def split: if_splits option.splits
        dest!: take_some_rows [where P = "row_of ''Shopify''", rotated] intro: shopify_row)
  have fire: "firecrawl_search env http query limit = Some ps \<Longrightarrow> row_of ''Firecrawl'' p"
    using assms(2) by (auto simp: firecrawl_search_def firecrawl_row split: if_splits option.splits
        intro: map_filter_rows [where f = "firecrawl_product query"])
  have it: "itunes_search http query limit = Some ps \<Longrightarrow> row_of ''iTunes'' p"
    using assms(2) by (auto simp: itunes_search_def itunes_row split: option.splits
        intro: map_filter_rows [where f = "itunes_product query"])
  from assms(1) show ?thesis
    unfolding search_source_def by (simp split: if_splits add: rapid best amz api shop fire it)
qed

lemma live_policies: "s \<in> set LIVE_SOURCES \<Longrightarrow> policy_for (lv_name s) \<noteq> None \<and> (is_launch s \<longleftrightarrow> lv_name s = ''BestBuy'')"
  by (auto simp: LIVE_SOURCES_def is_launch_def policy_for_def source_key_def py_before_def dict_get_def policy_table)

lemma name_error_None: "name_error n = None \<Longrightarrow> \<exists>s \<in> set LIVE_SOURCES. py_lower (lv_name s) = py_lower n"
  by (auto simp: name_error_def split: if_splits)

lemma map_filter_Nil: "List.map_filter f xs = [] \<longleftrightarrow> (\<forall>x \<in> set xs. f x = None)"
  by (induction xs) (auto simp: List.map_filter_simps split: option.splits)

text \<open>C33: The choice of sources fails closed. A successful choice is a non-empty selection of the live sources in
  their order, never eBay; and in production it consists of Best Buy alone, so an empty setting, an
  unknown name or a course-only source is an error there.\<close>

theorem enabled_sources_fail_closed:
  assumes "enabled_sources env names = Inr ss"
  shows "ss \<noteq> [] \<and> subseq ss LIVE_SOURCES \<and> ''eBay'' \<notin> lv_name ` set ss
    \<and> (is_production env \<longrightarrow> asked_names env names \<noteq> [] \<and> (\<forall>s \<in> set ss. lv_name s = ''BestBuy''))"
proof -
  have live: "''eBay'' \<notin> lv_name ` set LIVE_SOURCES" "LIVE_SOURCES \<noteq> []" by (simp_all add: LIVE_SOURCES_def)
  show ?thesis
  proof (cases "asked_names env names = []")
    case True
    with assms live show ?thesis by (auto simp: enabled_sources_def split: if_splits)
  next
    case False
    let ?asked = "asked_names env names"
    have ok: "List.map_filter name_error ?asked = []"
      and ss: "ss = filter (\<lambda>s. py_lower (lv_name s) \<in> py_lower ` set ?asked) LIVE_SOURCES"
      and prod: "is_production env \<Longrightarrow> \<forall>s \<in> set ss. is_launch s"
      using assms False by (auto simp: enabled_sources_def Let_def filter_empty_conv split: list.splits if_splits)
    obtain n where n: "n \<in> set ?asked" using False by (cases ?asked) auto
    with ok have "name_error n = None" by (simp add: map_filter_Nil)
    from name_error_None [OF this] n have "ss \<noteq> []" unfolding ss by (force simp: filter_empty_conv)
    moreover have "subseq ss LIVE_SOURCES" unfolding ss by (rule subseq_filter_left)
    moreover have "\<forall>s \<in> set ss. lv_name s = ''BestBuy''" if "is_production env"
      using prod [OF that] live_policies unfolding ss by auto
    moreover have "''eBay'' \<notin> lv_name ` set ss" using live(1) unfolding ss by auto
    ultimately show ?thesis using False by blast
  qed
qed

theorem enabled_sources_fail_closed_witness:
  "\<exists>ss. enabled_sources [(''DEALFINDER_ENV'', ''production''), (''DEALFINDER_SOURCES'', ''bestbuy'')] None = Inr ss
     \<and> lv_name ` set ss \<subseteq> {''BestBuy''}"
proof -
  let ?env = "[(''DEALFINDER_ENV'', ''production''), (''DEALFINDER_SOURCES'', ''bestbuy'')]"
  have "enabled_sources ?env None = Inr [\<lparr>lv_name = ''BestBuy'', lv_tier = 1, lv_fallback = False, lv_metered = False\<rparr>]"
    by code_simp
  from this enabled_sources_fail_closed [OF this] show ?thesis
    by (intro exI conjI) (auto simp: is_production_def getenv_def dict_get_def)
qed

text \<open>Provenance. Every row that a live source's search returns names that source, so a licence policy
  exists for it and the licence gates apply; its title has at most 120 characters and its price is in
  US dollars.\<close>

theorem live_rows_have_policy:
  assumes "s \<in> set LIVE_SOURCES" and "search_source qp env http query limit (lv_name s) = Some ps" and "p \<in> set ps"
  shows "source_key (source p) = lv_name s \<and> policy_for (source p) \<noteq> None
    \<and> length (title p) \<le> 120 \<and> py_upper (currency p) = ''USD''"
proof -
  have r: "row_of (lv_name s) p" by (rule search_rows [OF assms(2,3)])
  have "source_key (lv_name s) = lv_name s"
    using assms(1) by (auto simp: LIVE_SOURCES_def source_key_def py_before_def)
  with r live_policies [OF assms(1)] show ?thesis by (simp add: row_of_def policy_for_def)
qed

theorem live_rows_have_policy_witness:
  "policy_for (source ((mk_product ''itunes-7'' ''song'' None ''media'' 1 [] ''iTunes''))) \<noteq> None"
proof -
  have "search_source id [] (\<lambda>_. Some (200, JObj [(''results'', JArr [JObj [(''trackPrice'', JInt 1), (''trackId'', JInt 7)]])]))
      ''song'' 5 (lv_name \<lparr>lv_name = ''iTunes'', lv_tier = 5, lv_fallback = True, lv_metered = False\<rparr>)
    = Some [mk_product ''itunes-7'' ''song'' None ''media'' 1 [] ''iTunes'']"
    by code_simp
  from live_rows_have_policy [OF _ this] show ?thesis by (simp add: LIVE_SOURCES_def)
qed

text \<open>The SKU lookup.\<close>

lemma batches_concat: "0 < n \<Longrightarrow> concat (batches n xs) = xs \<and> (\<forall>b \<in> set (batches n xs). length b \<le> n)"
proof (induction n xs rule: batches.induct)
  case (2 n x xs)
  then have "min (length xs) (n - 1) \<le> n - 1" by simp
  with 2 show ?case by (auto simp: min_def)
qed simp

definition sku_map :: "(string, product) dict \<Rightarrow> bool" where
  "sku_map d \<longleftrightarrow> (\<forall>s p. dict_get d s = Some p \<longrightarrow> sku p = Some s \<and> row_of ''BestBuy'' p)"

lemma keep_skus_map: "sku_map d \<Longrightarrow> sku_map (keep_skus ps d)"
proof -
  have "sku_map d \<Longrightarrow> sku_map (foldl (\<lambda>d p. case bestbuy_product [] p of
         Some x \<Rightarrow> (case sku x of Some s \<Rightarrow> if s = [] then d else dict_set s x d | None \<Rightarrow> d)
       | None \<Rightarrow> d) d ps)" for ps
  proof (induction ps arbitrary: d)
    case (Cons p ps)
    have "sku_map (case bestbuy_product [] p of
         Some x \<Rightarrow> (case sku x of Some s \<Rightarrow> if s = [] then d else dict_set s x d | None \<Rightarrow> d)
       | None \<Rightarrow> d)"
      using Cons.prems by (auto simp: sku_map_def bestbuy_row split: option.split)
    from Cons.IH [OF this] show ?case by simp
  qed simp
  then show "sku_map d \<Longrightarrow> sku_map (keep_skus ps d)" by (simp add: keep_skus_def)
qed

lemma lookup_batches_all:
  "lookup_batches env http bs found = Inr d \<Longrightarrow> sku_map found \<Longrightarrow>
     sku_map d \<and> (\<forall>b \<in> set bs. \<exists>body. http (sku_call env b) = Some (200, body) \<and> products_page body \<noteq> None)"
proof (induction bs arbitrary: found)
  case (Cons b bs)
  then obtain body ps where body: "http (sku_call env b) = Some (200, body)" "products_page body = Some ps"
      "lookup_batches env http bs (keep_skus ps found) = Inr d"
    by (auto split: option.splits if_splits)
  from Cons.IH [OF body(3) keep_skus_map [OF Cons.prems(2)]] body(1,2) show ?case by auto
qed simp

text \<open>C34: The SKU lookup tells a product that is gone from a lookup that failed. It returns a result only when every
  requested id is a well-formed SKU and each SKU was in a batch of at most 100 that Best Buy answered with status 200
  and a list of products (or none) in an object; and the result maps SKUs to Best Buy rows of that very SKU.\<close>

theorem lookup_skus_complete:
  assumes "lookup_skus env http skus = Inr found"
  shows "(\<forall>s \<in> set skus. is_sku s
      \<and> (\<exists>batch body. s \<in> set batch \<and> length batch \<le> 100 \<and> http (sku_call env batch) = Some (200, body)
          \<and> products_page body \<noteq> None))
    \<and> (\<forall>s p. dict_get found s = Some p \<longrightarrow> sku p = Some s \<and> source_key (source p) = ''BestBuy'')"
proof -
  let ?w = "py_dedupe skus"
  have ok: "\<forall>s \<in> set skus. is_sku s"
    using assms by (auto simp: lookup_skus_def Let_def filter_empty_conv split: list.splits)
  show ?thesis
  proof (cases "?w = []")
    case True
    then have "skus = []" using set_py_dedupe [of skus] by simp
    with assms show ?thesis by (simp add: lookup_skus_def py_dedupe_def)
  next
    case False
    then have run: "lookup_batches env http (batches 100 ?w) [] = Inr found"
      using assms by (auto simp: lookup_skus_def Let_def split: list.splits if_splits)
    have "sku_map []" by (simp add: sku_map_def)
    note all = lookup_batches_all [OF run this]
    have "\<exists>batch body. s \<in> set batch \<and> length batch \<le> 100 \<and> http (sku_call env batch) = Some (200, body)
        \<and> products_page body \<noteq> None"
      if s: "s \<in> set skus" for s
    proof -
      have "s \<in> set (concat (batches 100 ?w))" using s batches_concat [of 100 ?w] by simp
      then obtain b where "b \<in> set (batches 100 ?w)" "s \<in> set b" by auto
      with all batches_concat [of 100 ?w] show ?thesis by auto
    qed
    with ok all show ?thesis by (auto simp: sku_map_def row_of_def)
  qed
qed

theorem lookup_skus_complete_witness:
  "is_sku ''123''"
proof -
  have "lookup_skus [(''BESTBUY_API_KEY'', ''k'')] (\<lambda>_. Some (200, JObj [])) [''123''] = Inr []"
    by code_simp
  with lookup_skus_complete [of "[(''BESTBUY_API_KEY'', ''k'')]" "\<lambda>_. Some (200, JObj [])" "[''123'']" "[]"]
  show ?thesis by auto
qed

end
