(* ===== verification/Shop.thy ===== *)
theory Shop
  imports Aggregate Features Live_Sources Deal_Score
begin

text \<open>
  \<open>dealfinder/shop.py\<close>: the shopper's scorer. Every signal asks the licence first; rows are rated by the
  two-signal verdict against the best fair price at hand; eBay's listings live in a box of their own
  with a short cache.

  Arguments for what is outside the repository: \<open>emb\<close> (the embedding model, \<open>None\<close> when it raises),
  \<open>mdls\<close> (the fitted price model of a category), \<open>asc\<close> (Unicode folding to ASCII). A mode is the value
  of \<open>DEALFINDER_VERDICT_MODE\<close>.
\<close>

definition NOT_RATED_REASON :: string where
  "NOT_RATED_REASON = ''Not rated: this store'' @ [quote] @ ''s terms don'' @ [quote] @ ''t allow price ratings.''"

definition CHECK_MODE_REASON :: string where
  "CHECK_MODE_REASON = ''Ratings are off for store listings. Use Check a deal to rate a price you found.''"

datatype mode = Live | Check

definition verdict_mode :: "environ \<Rightarrow> mode" where
  "verdict_mode env = (case getenv env ''DEALFINDER_VERDICT_MODE'' of
     None \<Rightarrow> Live | Some raw \<Rightarrow> if raw = ''live'' then Live else Check)"

section \<open>Peer estimates\<close>

definition peer_norm :: "pyfloat list \<Rightarrow> pyfloat list" where
  "peer_norm v = map (\<lambda>x. x / (vnorm v + 1 / 10 ^ 9)) v"

definition peer_fair_prices ::
  "(string list \<Rightarrow> pyfloat list list option) \<Rightarrow> (string \<times> pyfloat) list \<Rightarrow> (nat, pyfloat) dict" where
  \<comment> \<open>offers as title and price; \<open>argsort\<close> breaks ties by index here\<close>
  "peer_fair_prices emb offers =
     (if length offers < 3 then []
      else (case emb (map fst offers) of
        None \<Rightarrow> []
      | Some vs \<Rightarrow>
          (let ns = map peer_norm vs in
           List.map_filter (\<lambda>i.
             let near = take 5 (filter (\<lambda>j. j \<noteq> i) (sort_key (\<lambda>j. - dot (ns ! i) (ns ! j)) [0..<length offers]))
             in if length near \<ge> 2 then map_option (Pair i) (py_median (map (\<lambda>j. snd (offers ! j)) near)) else None)
             [0..<length offers])))"

section \<open>Texts\<close>

datatype basis = Model | Peers

definition money :: "pyfloat \<Rightarrow> string" where "money x = ''~$'' @ fmt_fixed 0 x"

definition deal_reason :: "label option \<Rightarrow> pyfloat \<Rightarrow> pyfloat option \<Rightarrow> basis option \<Rightarrow> string" where
  "deal_reason v m fair b =
     (let pct = int_str (round_half_even (m * 100));
          src = (if b = Some Model then ''the price model'' else ''similar offers'');
          ref = (case fair of None \<Rightarrow> ''the estimate'' | Some f \<Rightarrow> if f = 0 then ''the estimate'' else money f)
      in case v of
           None \<Rightarrow> ''Ranked by value only '' @ em_dash @ '' too few similar offers to estimate a fair price.''
         | Some Deal \<Rightarrow> pct @ ''% under the median and consistent with '' @ src @ '' ('' @ ref @ '') '' @ em_dash @ '' a genuine deal.''
         | Some Suspicious \<Rightarrow> ''Looks '' @ pct @ ''% under the median, but far below '' @ src @ '' ('' @ ref @ '') '' @ em_dash @
             '' too good to be true (likely an accessory or a mislisting).''
         | Some Overpriced \<Rightarrow> ''Above the market median and above '' @ src @ '' ('' @ ref @ '').''
         | Some Fair \<Rightarrow> ''Near the market median and '' @ src @ '' ('' @ ref @ '').'')"

definition dashed :: "string \<Rightarrow> string" where
  \<comment> \<open>\<open>re.sub(''[^a-z0-9]+'', ''-'', s).strip(''-'')\<close>\<close>
  "dashed s = py_strip_chars ''-'' (rx_sub (plus (Cls (\<lambda>c. \<not> (is_lower c \<or> is_digit c)))) ''-'' s)"

definition cut_words :: "string \<Rightarrow> string" where
  "cut_words ws =
     (if length ws > 60 then
        (let cut = take 61 ws in
         py_strip_chars ''-'' (if CHR ''-'' \<in> set cut then rev (drop 1 (dropWhile (\<lambda>c. c \<noteq> CHR ''-'') (rev cut))) else take 60 ws))
      else ws)"

definition offer_slug :: "(string \<Rightarrow> string) \<Rightarrow> string \<Rightarrow> string option \<Rightarrow> string option" where
  "offer_slug asc t sk =
     (if \<not> truthy sk then None
      else (let ws = cut_words (dashed (py_lower (asc t))); tail = ''bestbuy-'' @ dashed (py_lower (the sk)) in
            Some (if ws \<noteq> [] then ws @ ''-'' @ tail else tail)))"

section \<open>Scoring\<close>

record shop_row =
  sh_offer :: result_row
  sh_slug :: "string option"
  sh_price :: pyfloat
  sh_category :: "string option"
  sh_reason :: string
  sh_verdict :: "label option"
  sh_pct :: "pyfloat option"
  sh_fair :: "pyfloat option"
  sh_rf :: "pyfloat option"
  sh_basis :: "basis option"

definition unrated :: "(string \<Rightarrow> string) \<Rightarrow> result_row \<Rightarrow> string \<Rightarrow> string option \<Rightarrow> shop_row" where
  "unrated asc r reason cat =
     \<lparr>sh_offer = r, sh_slug = offer_slug asc (title (rr_product r)) (sku (rr_product r)),
      sh_price = py_round 2 (price (rr_product r)), sh_category = cat, sh_reason = reason,
      sh_verdict = None, sh_pct = None, sh_fair = None, sh_rf = None, sh_basis = None\<rparr>"

definition row_value :: "shop_row \<Rightarrow> pyfloat" where
  \<comment> \<open>\<open>_value\<close>\<close>
  "row_value x =
     (let s = (case sh_pct x of None \<Rightarrow> 0 | Some p \<Rightarrow> p) / 100 in
      if sh_verdict x = Some Suspicious then s - 1 else if sh_verdict x = Some Overpriced then s - 0.5 else s)"

definition fair_of ::
  "(string \<Rightarrow> (int list \<Rightarrow> pyfloat) option) \<Rightarrow> (nat, pyfloat) dict \<Rightarrow> nat \<Rightarrow> result_row \<Rightarrow> string option \<Rightarrow>
   (pyfloat \<times> basis) option" where
  "fair_of mdls peer_fair i r cat =
     (case Option.bind cat mdls of
        Some model \<Rightarrow>
          (let p = (rr_product r)\<lparr>category := the cat, condition := ''new''\<rparr> in Some (model (featurize p), Model))
      | None \<Rightarrow>
          (case dict_get peer_fair i of
             Some f \<Rightarrow> if f > 0 then Some (f, Peers) else None
           | None \<Rightarrow> None))"

definition score_row ::
  "(string \<Rightarrow> string) \<Rightarrow> (string \<Rightarrow> (int list \<Rightarrow> pyfloat) option) \<Rightarrow> (nat, pyfloat) dict \<Rightarrow> pyfloat \<Rightarrow> nat \<times> result_row \<Rightarrow> shop_row" where
  "score_row asc mdls peer_fair median ir =
     (let (i, r) = ir; p = price (rr_product r); cat = guess_category (title (rr_product r)) in
      if may_verdict (source (rr_product r)) then
        (let m = (if median \<noteq> 0 then median_signal p median else 0) in
         case fair_of mdls peer_fair i r cat of
           None \<Rightarrow> (unrated asc r (deal_reason None m None None) cat)\<lparr>sh_pct := Some (py_round 1 (m * 100))\<rparr>
         | Some (f, b) \<Rightarrow>
             (let rf = residual_fraction p f; v = verdict_of m rf in
              (unrated asc r (deal_reason (Some v) m (Some f) (Some b)) cat)
                \<lparr>sh_verdict := Some v, sh_pct := Some (py_round 1 (m * 100)), sh_fair := Some (py_round 2 f),
                 sh_rf := Some (py_round 3 rf), sh_basis := Some b\<rparr>))
      else unrated asc r NOT_RATED_REASON cat)"

definition score_offers ::
  "(string list \<Rightarrow> pyfloat list list option) \<Rightarrow> (string \<Rightarrow> string) \<Rightarrow> (string \<Rightarrow> (int list \<Rightarrow> pyfloat) option) \<Rightarrow>
   mode \<Rightarrow> result_row list \<Rightarrow> pyfloat \<Rightarrow> shop_row list" where
  "score_offers emb asc mdls md offers median =
     (let rows = filter (\<lambda>r. may_comingle (source (rr_product r))) offers in
      if md = Check then map (\<lambda>r. unrated asc r CHECK_MODE_REASON (guess_category (title (rr_product r)))) rows
      else
        (let peer_idx = filter (\<lambda>i. may_verdict (source (rr_product (rows ! i))) \<and> may_embed (source (rr_product (rows ! i))))
               [0..<length rows];
             peers = peer_fair_prices emb (map (\<lambda>i. (title (rr_product (rows ! i)), price (rr_product (rows ! i)))) peer_idx);
             peer_fair = map (\<lambda>(j, v). (peer_idx ! j, v)) peers
         in sort_key (\<lambda>x. - row_value x) (map (score_row asc mdls peer_fair median) (List.enumerate 0 rows))))"

section \<open>The eBay box\<close>

definition EBAY_CACHE_TTL_S :: pyfloat where "EBAY_CACHE_TTL_S = 900"
definition EBAY_FAILURE_TTL_S :: pyfloat where "EBAY_FAILURE_TTL_S = 60"
definition EBAY_CACHE_MAX :: nat where "EBAY_CACHE_MAX = 256"

record ebay_entry =
  ee_at :: pyfloat
  ee_items :: "product list"
  ee_ttl :: pyfloat

type_synonym ebay_cache = "(string, ebay_entry) dict"

record ebay_reply =
  er_enabled :: bool
  er_items :: "product list"

definition ebay_enabled :: "environ \<Rightarrow> bool" where
  "ebay_enabled env \<longleftrightarrow> ebay_available env
     \<and> (\<not> ebay_sandbox env \<or> getenv env ''DEALFINDER_EBAY_ALLOW_SANDBOX'' = Some ''1'')"

text \<open>A call's two locked sections, with the search between them. The search's outcome is \<open>None\<close> for an exception; the items are
  the rows' listing fields.\<close>

definition ebay_key :: "string \<Rightarrow> string" where "ebay_key q = py_lower (py_strip q)"

definition ebay_find :: "pyfloat \<Rightarrow> string \<Rightarrow> nat \<Rightarrow> ebay_cache \<Rightarrow> ebay_cache \<times> product list option" where
  "ebay_find now q limit cache =
     (case dict_get cache (ebay_key q) of
        Some e \<Rightarrow> if now - ee_at e < ee_ttl e then (to_end (ebay_key q) e cache, Some (take limit (ee_items e))) else (cache, None)
      | None \<Rightarrow> (cache, None))"

definition ebay_rows :: "nat \<Rightarrow> product list option \<Rightarrow> product list" where
  "ebay_rows limit found = (case found of None \<Rightarrow> [] | Some ps \<Rightarrow> take limit ps)"

definition ebay_ttl :: "product list option \<Rightarrow> pyfloat" where
  "ebay_ttl found = (if found = None then EBAY_FAILURE_TTL_S else EBAY_CACHE_TTL_S)"

definition ebay_keep :: "pyfloat \<Rightarrow> string \<Rightarrow> nat \<Rightarrow> product list option \<Rightarrow> ebay_cache \<Rightarrow> ebay_cache" where
  "ebay_keep now q limit found cache =
     trim_to EBAY_CACHE_MAX (to_end (ebay_key q) \<lparr>ee_at = now, ee_items = ebay_rows limit found, ee_ttl = ebay_ttl found\<rparr> cache)"

definition ebay_box ::
  "environ \<Rightarrow> (string \<Rightarrow> product list option) \<Rightarrow> pyfloat \<Rightarrow> string \<Rightarrow> nat \<Rightarrow> ebay_cache \<Rightarrow> ebay_cache \<times> ebay_reply" where
  \<comment> \<open>\<open>search\<close>: \<open>EBAY.search\<close>; no other call comes between the sections\<close>
  "ebay_box env search now q limit cache =
     (if \<not> ebay_enabled env then (cache, \<lparr>er_enabled = False, er_items = []\<rparr>)
      else (case ebay_find now q limit cache of
          (c, Some items) \<Rightarrow> (c, \<lparr>er_enabled = True, er_items = items\<rparr>)
        | (c, None) \<Rightarrow>
            (let found = search (py_strip q)
             in (ebay_keep now q limit found c, \<lparr>er_enabled = True, er_items = ebay_rows limit found\<rparr>))))"

text \<open>Calls of several threads: the locked sections in the order the lock lets them in. \<open>Ask\<close> is the look into the cache of a call
  that read the clock at \<open>now\<close>; \<open>Keep\<close> is the second section of such a call, after its search.\<close>

datatype box_step = Ask pyfloat string nat | Keep pyfloat string nat "product list option"

fun run_box :: "box_step list \<Rightarrow> ebay_cache \<Rightarrow> ebay_cache" where
  "run_box [] c = c"
| "run_box (Ask now q limit # ss) c = run_box ss (fst (ebay_find now q limit c))"
| "run_box (Keep now q limit found # ss) c = run_box ss (ebay_keep now q limit found c)"

section \<open>The shopper's search\<close>

definition attribution_for :: "string list \<Rightarrow> attribution list" where
  "attribution_for srcs =
     foldl (\<lambda>out s. case Option.bind (policy_for s) attribution of
        None \<Rightarrow> out | Some a \<Rightarrow> if a \<in> set out then out else out @ [a]) [] srcs"

record shop_reply =
  sr_query :: string
  sr_mode :: mode
  sr_count :: nat
  sr_median :: "pyfloat option"
  sr_results :: "shop_row list"
  sr_ebay :: ebay_reply
  sr_attribution :: "attribution list"
  sr_degraded :: bool

definition shop_search ::
  "environ \<Rightarrow> (string list \<Rightarrow> pyfloat list list option) \<Rightarrow> (string \<Rightarrow> string) \<Rightarrow> (string \<Rightarrow> (int list \<Rightarrow> pyfloat) option) \<Rightarrow>
   string \<Rightarrow> int \<Rightarrow> agg_result \<Rightarrow> ebay_reply option \<Rightarrow> shop_reply" where
  \<comment> \<open>\<open>agg\<close>: what \<open>aggregate\<close> returned; \<open>box\<close>: the eBay box, \<open>None\<close> when it raised or missed the deadline\<close>
  "shop_search env emb asc mdls q k agg box =
     (let md = verdict_mode env; offers = results agg;
          rated = map (price \<circ> rr_product) (filter (\<lambda>r. may_verdict (source (rr_product r))) offers);
          median = (case py_median rated of None \<Rightarrow> 0 | Some m \<Rightarrow> m);
          rows = py_slice_to k (score_offers emb asc mdls md offers median)
      in \<lparr>sr_query = q, sr_mode = md, sr_count = length rows,
          sr_median = (if md = Check then None else Some (py_round 2 median)), sr_results = rows,
          sr_ebay = (case box of Some b \<Rightarrow> b | None \<Rightarrow> \<lparr>er_enabled = ebay_enabled env, er_items = []\<rparr>),
          sr_attribution = attribution_for (map (\<lambda>x. source (rr_product (sh_offer x))) rows),
          sr_degraded = (ar_timed_out agg \<noteq> [] \<or> ar_throttled agg \<noteq> [] \<or> ar_benched agg \<noteq> [])\<rparr>)"

section \<open>Check a deal\<close>

definition word_set :: "string \<Rightarrow> string list" where
  "word_set t = py_dedupe (filter (\<lambda>x. length x \<ge> 2) (rx_findall TOKEN (py_lower t)))"

definition category_from_snapshot :: "(string \<times> string) list \<Rightarrow> string \<Rightarrow> string option" where
  \<comment> \<open>the snapshot's listings as category and title\<close>
  "category_from_snapshot snapshot t =
     (let want = word_set t in
      if length want < 2 then None
      else (let (best, score) = foldl (\<lambda>(best, score) (cat, st).
               let s = of_nat (length (filter (\<lambda>x. x \<in> set (word_set st)) want)) / of_nat (length want) in
               if s > score then (Some cat, s) else (best, score)) (None, 0 :: pyfloat) snapshot
            in if score \<ge> 0.75 then best else None))"

definition fair_for :: "(string \<Rightarrow> (int list \<Rightarrow> pyfloat) option) \<Rightarrow> (string \<times> string) list \<Rightarrow> string \<Rightarrow> string option \<times> pyfloat option" where
  "fair_for mdls snapshot t =
     (let cat = (case guess_category t of Some c \<Rightarrow> Some c | None \<Rightarrow> category_from_snapshot snapshot t) in
      (cat, map_option (\<lambda>model. model (featurize (mk_product ''check'' t None (the cat) 0 [] ''check''))) (Option.bind cat mdls)))"

record checked =
  ck_category :: "string option"
  ck_fair :: "pyfloat option"
  ck_rf :: "pyfloat option"
  ck_verdict :: "label option"
  ck_reason :: string

definition check_deal :: "(string \<Rightarrow> (int list \<Rightarrow> pyfloat) option) \<Rightarrow> (string \<times> string) list \<Rightarrow> string \<Rightarrow> pyfloat \<Rightarrow> checked" where
  "check_deal mdls snapshot t p =
     (let (cat, fair) = fair_for mdls snapshot t in
      case fair of
        None \<Rightarrow> \<lparr>ck_category = cat, ck_fair = None, ck_rf = None, ck_verdict = None,
          ck_reason = ''We can'' @ [quote] @ ''t estimate a fair price for this kind of product yet.''\<rparr>
      | Some f \<Rightarrow>
          (let rf = residual_fraction p f; n = int_str (round_half_even (\<bar>rf\<bar> * 100));
               (v, reason) =
                 (if rf \<ge> SUSPICIOUS_RESIDUAL_FRAC then
                    (Suspicious, n @ ''% below our fair price for this model ('' @ money f @ ''). That is too far below to be real. '' @
                       ''It may be used, an accessory, or a mislisting.'')
                  else if rf \<ge> DEAL_MEDIAN_FRAC then (Deal, n @ ''% below our fair price for this model ('' @ money f @ '').'')
                  else if rf \<le> - DEAL_MEDIAN_FRAC then (Overpriced, n @ ''% above our fair price for this model ('' @ money f @ '').'')
                  else (Fair, ''Within 15% of our fair price for this model ('' @ money f @ '').''))
           in \<lparr>ck_category = cat, ck_fair = Some (py_round 2 f), ck_rf = Some (py_round 3 rf), ck_verdict = Some v,
               ck_reason = reason\<rparr>))"

section \<open>What a row may carry\<close>

definition no_signal :: "shop_row \<Rightarrow> bool" where
  "no_signal x \<longleftrightarrow> sh_verdict x = None \<and> sh_pct x = None \<and> sh_fair x = None \<and> sh_rf x = None \<and> sh_basis x = None"

definition row_source :: "shop_row \<Rightarrow> string" where
  "row_source x = source (rr_product (sh_offer x))"

lemma unrated_simps [simp]: "no_signal (unrated asc r reason cat)" "sh_offer (unrated asc r reason cat) = r"
  "sh_price (unrated asc r reason cat) = py_round 2 (price (rr_product r))"
  by (simp_all add: unrated_def no_signal_def)

lemma score_row_offer [simp]: "sh_offer (score_row asc mdls pf median (i, r)) = r"
  by (simp add: score_row_def Let_def split: option.split)

lemma score_row_licence:
  "\<not> may_verdict (source (rr_product r)) \<Longrightarrow> no_signal (score_row asc mdls pf median (i, r))"
  by (simp add: score_row_def Let_def)

lemma score_row_verdict:
  "sh_verdict (score_row asc mdls pf median (i, r)) = Some v \<Longrightarrow>
     \<exists>f b. fair_of mdls pf i r (guess_category (title (rr_product r))) = Some (f, b)
       \<and> v = verdict_of (if median \<noteq> 0 then median_signal (price (rr_product r)) median else 0)
              (residual_fraction (price (rr_product r)) f)"
  by (auto simp: score_row_def Let_def unrated_def split: if_splits option.splits)

lemma score_offers_set:
  assumes "x \<in> set (score_offers emb asc mdls md offers median)"
  shows "sh_offer x \<in> set offers \<and> may_comingle (row_source x)
    \<and> (md = Check \<or> \<not> may_verdict (row_source x) \<longrightarrow> no_signal x)"
proof (cases "md = Check")
  case True
  with assms show ?thesis by (auto simp: score_offers_def row_source_def Let_def)
next
  case False
  then obtain pf i r where x: "x = score_row asc mdls pf median (i, r)"
      and ir: "(i, r) \<in> set (List.enumerate 0 (filter (\<lambda>r. may_comingle (source (rr_product r))) offers))"
    using assms by (auto simp: score_offers_def Let_def)
  from ir have "r \<in> set (filter (\<lambda>r. may_comingle (source (rr_product r))) offers)"
    by (metis enumerate_fst_lt nth_mem)
  with x False score_row_licence [of r asc mdls pf median i] show ?thesis by (simp add: row_source_def)
qed

lemma score_offers_offers:
  "sh_offer ` set (score_offers emb asc mdls md offers median) = {r \<in> set offers. may_comingle (source (rr_product r))}"
proof -
  have "map sh_offer (map (score_row asc mdls pf median) (List.enumerate 0 rows)) = rows" for pf rows
    by (rule nth_equalityI) (auto simp: nth_enumerate_eq)
  then have "sh_offer ` score_row asc mdls pf median ` set (List.enumerate 0 rows) = set rows" for pf rows
    by (metis set_map)
  then show ?thesis by (auto simp: score_offers_def Let_def image_image)
qed

lemma attribution_for_props:
  "distinct (attribution_for srcs) \<and> set (attribution_for srcs) = {a. \<exists>s \<in> set srcs. Option.bind (policy_for s) attribution = Some a}"
proof -
  let ?f = "\<lambda>out s. case Option.bind (policy_for s) attribution of
        None \<Rightarrow> out | Some a \<Rightarrow> if a \<in> set out then out else out @ [a]"
  have "distinct out \<Longrightarrow> distinct (foldl ?f out srcs)
      \<and> set (foldl ?f out srcs) = set out \<union> {a. \<exists>s \<in> set srcs. Option.bind (policy_for s) attribution = Some a}" for out
  proof (induction srcs arbitrary: out)
    case (Cons s srcs)
    show ?case
    proof (cases "Option.bind (policy_for s) attribution")
      case None
      with Cons.IH [OF Cons.prems] show ?thesis by simp
    next
      case (Some a)
      have "distinct (if a \<in> set out then out else out @ [a])" using Cons.prems by simp
      from Cons.IH [OF this] Some show ?thesis by auto
    qed
  qed simp
  from this [of "[]"] show ?thesis by (simp add: attribution_for_def)
qed

section \<open>Properties\<close>

text \<open>C1: The shopper's search keeps the licences. Every row of the answer is an offer of the live answer from a store whose rows
  may be mixed, so never an eBay row; a price signal (verdict, discount, fair price, residual, basis)
  appears only on rows of stores whose terms allow ratings, and on no row at all when ratings are switched
  off; and the attribution list holds, once each, exactly the notices of the stores shown.\<close>

theorem shop_search_keeps_licences:
  "let r = shop_search env emb asc mdls q k agg box in
     (\<forall>x \<in> set (sr_results r). sh_offer x \<in> set (results agg) \<and> may_comingle (row_source x)
        \<and> source_key (row_source x) \<noteq> ''eBay''
        \<and> (\<not> no_signal x \<longrightarrow> may_verdict (row_source x) \<and> verdict_mode env = Live))
   \<and> (verdict_mode env = Check \<longrightarrow> sr_median r = None)
   \<and> distinct (sr_attribution r)
   \<and> set (sr_attribution r) = {a. \<exists>x \<in> set (sr_results r). Option.bind (policy_for (row_source x)) attribution = Some a}"
proof -
  let ?r = "shop_search env emb asc mdls q k agg box"
  obtain median where rows: "sr_results ?r = py_slice_to k (score_offers emb asc mdls (verdict_mode env) (results agg) median)"
    by (simp add: shop_search_def Let_def)
  have att: "sr_attribution ?r = attribution_for (map row_source (sr_results ?r))"
    by (simp add: shop_search_def Let_def row_source_def [abs_def])
  have "sh_offer x \<in> set (results agg) \<and> may_comingle (row_source x) \<and> source_key (row_source x) \<noteq> ''eBay''
        \<and> (\<not> no_signal x \<longrightarrow> may_verdict (row_source x) \<and> verdict_mode env = Live)"
    if "x \<in> set (sr_results ?r)" for x
  proof -
    have "x \<in> set (score_offers emb asc mdls (verdict_mode env) (results agg) median)"
      using that unfolding rows by (rule subsetD [OF set_py_slice_to])
    from score_offers_set [OF this] have s: "sh_offer x \<in> set (results agg)" "may_comingle (row_source x)"
      "verdict_mode env = Check \<or> \<not> may_verdict (row_source x) \<longrightarrow> no_signal x" by blast+
    have "source_key (row_source x) \<noteq> ''eBay''" using s(2) ebay_denied by blast
    moreover have "may_verdict (row_source x) \<and> verdict_mode env = Live" if "\<not> no_signal x"
      using that s(3) by (cases "verdict_mode env") blast+
    ultimately show ?thesis using s(1,2) by blast
  qed
  moreover have "verdict_mode env = Check \<longrightarrow> sr_median ?r = None" by (simp add: shop_search_def Let_def)
  moreover have "distinct (sr_attribution ?r)
      \<and> set (sr_attribution ?r) = {a. \<exists>x \<in> set (sr_results ?r). Option.bind (policy_for (row_source x)) attribution = Some a}"
    using attribution_for_props [of "map row_source (sr_results ?r)"] unfolding att by (simp add: image_iff)
  ultimately show ?thesis unfolding Let_def by blast
qed

theorem shop_search_keeps_licences_witness:
  "sr_median (shop_search [(''DEALFINDER_VERDICT_MODE'', ''check'')] (\<lambda>_. None) id (\<lambda>_. None) ''tv'' 5
     \<lparr>ar_query = ''tv'', sources_live = [], ar_throttled = [], ar_timed_out = [], ar_benched = [], median_price = 0,
      ar_count = 0, results = []\<rparr> None) = None"
  using shop_search_keeps_licences [of "[(''DEALFINDER_VERDICT_MODE'', ''check'')]" "\<lambda>_. None" id "\<lambda>_. None" "''tv''" 5
     "\<lparr>ar_query = ''tv'', sources_live = [], ar_throttled = [], ar_timed_out = [], ar_benched = [], median_price = 0,
      ar_count = 0, results = []\<rparr>" None]
  by (simp add: Let_def verdict_mode_def getenv_def dict_get_def)

text \<open>Scoring loses and reorders honestly. The scored rows are exactly the offers that may be mixed,
  the better-valued ones first, and a row marked suspicious is more than 15 percent under the market median yet at most
  30 percent of a positive fair price.\<close>

theorem score_offers_order:
  "sorted_wrt (\<lambda>x y. row_value y \<le> row_value x) (score_offers emb asc mdls Live offers median)
   \<and> sh_offer ` set (score_offers emb asc mdls Live offers median) = {r \<in> set offers. may_comingle (source (rr_product r))}
   \<and> (\<forall>x \<in> set (score_offers emb asc mdls Live offers median). sh_verdict x = Some Suspicious \<longrightarrow>
        0 < median \<and> price (rr_product (sh_offer x)) \<le> 0.85 * median
        \<and> (\<exists>fair. 0 < fair \<and> price (rr_product (sh_offer x)) \<le> 0.3 * fair))"
proof (intro conjI ballI impI)
  obtain ys where ys: "score_offers emb asc mdls Live offers median = sort_key (\<lambda>x. - row_value x) ys"
    by (simp add: score_offers_def Let_def)
  show "sorted_wrt (\<lambda>x y. row_value y \<le> row_value x) (score_offers emb asc mdls Live offers median)"
    using sort_key_sorted_wrt [of "\<lambda>x. - row_value x" ys] by (simp add: ys)
  show "sh_offer ` set (score_offers emb asc mdls Live offers median) = {r \<in> set offers. may_comingle (source (rr_product r))}"
    by (rule score_offers_offers)
  fix x assume "x \<in> set (score_offers emb asc mdls Live offers median)" and v: "sh_verdict x = Some Suspicious"
  then obtain pf i r where x: "x = score_row asc mdls pf median (i, r)"
    by (auto simp: score_offers_def Let_def)
  let ?p = "price (rr_product r)"
  from score_row_verdict [of asc mdls pf median i r Suspicious] v x obtain f where
    "Suspicious = verdict_of (if median \<noteq> 0 then median_signal ?p median else 0) (residual_fraction ?p f)" by auto
  then have "0.15 \<le> (if median \<noteq> 0 then median_signal ?p median else 0)" and rf: "0.70 \<le> residual_fraction ?p f"
    using verdict_of_iff(1) by metis+
  then have "0.15 \<le> median_signal ?p median" by (auto split: if_splits)
  with rf median_signal_ge [of "0.15" ?p median] residual_fraction_ge [of "0.70" ?p f]
  have m: "0 < median \<and> ?p \<le> 0.85 * median" and f: "0 < f \<and> ?p \<le> 0.3 * f" by simp_all
  from m x show "0 < median" "price (rr_product (sh_offer x)) \<le> 0.85 * median" by simp_all
  from f x show "\<exists>fair. 0 < fair \<and> price (rr_product (sh_offer x)) \<le> 0.3 * fair" by auto
qed

theorem score_offers_order_witness:
  "sh_offer ` set (score_offers (\<lambda>_. None) id (\<lambda>_. None) Live
     [\<lparr>rr_product = mk_product ''1'' ''tv'' None ''x'' 9 ''u'' ''BestBuy'', fetched_at = ''t'', deal_pct = 0\<rparr>] 20)
   = {\<lparr>rr_product = mk_product ''1'' ''tv'' None ''x'' 9 ''u'' ''BestBuy'', fetched_at = ''t'', deal_pct = 0\<rparr>}"
  using score_offers_order [of "\<lambda>_. None" id "\<lambda>_. None"
      "[\<lparr>rr_product = mk_product ''1'' ''tv'' None ''x'' 9 ''u'' ''BestBuy'', fetched_at = ''t'', deal_pct = 0\<rparr>]" 20]
  by (simp add: mk_product_def may_iff_key(4) source_key_def py_before_def Collect_conv_if)

definition kept_by :: "box_step set \<Rightarrow> string \<Rightarrow> ebay_entry \<Rightarrow> bool" where
  \<comment> \<open>the entry is what one of these steps wrote\<close>
  "kept_by S key e \<longleftrightarrow> (\<exists>now q limit found. Keep now q limit found \<in> S \<and> ebay_key q = key
     \<and> e = \<lparr>ee_at = now, ee_items = ebay_rows limit found, ee_ttl = ebay_ttl found\<rparr>)"

definition ebay_cache_ok :: "box_step set \<Rightarrow> ebay_cache \<Rightarrow> bool" where
  "ebay_cache_ok S c \<longleftrightarrow> dict_wf c \<and> length c \<le> EBAY_CACHE_MAX \<and> (\<forall>(key, e) \<in> set c. kept_by S key e)"

lemma kept_by_mono: "kept_by S key e \<Longrightarrow> S \<subseteq> T \<Longrightarrow> kept_by T key e"
  unfolding kept_by_def by blast

lemma ebay_find_ok: "ebay_cache_ok S c \<Longrightarrow> ebay_cache_ok S (fst (ebay_find now q limit c))"
proof -
  assume c: "ebay_cache_ok S c"
  have "ebay_cache_ok S (to_end (ebay_key q) e c)" if e: "dict_get c (ebay_key q) = Some e" for e
    using c length_to_end [OF e, of e] dict_get_SomeD [OF e]
    by (auto simp: ebay_cache_ok_def dict_wf_to_end set_to_end)
  with c show ?thesis by (auto simp: ebay_find_def split: option.split)
qed

lemma ebay_keep_ok: "ebay_cache_ok S c \<Longrightarrow> ebay_cache_ok (insert (Keep now q limit found) S) (ebay_keep now q limit found c)"
proof -
  assume c: "ebay_cache_ok S c"
  let ?e = "\<lparr>ee_at = now, ee_items = ebay_rows limit found, ee_ttl = ebay_ttl found\<rparr>"
  have "kept_by (insert (Keep now q limit found) S) key e" if "(key, e) \<in> set (to_end (ebay_key q) ?e c)" for key e
  proof (cases "(key, e) \<in> set c")
    case True
    then have "kept_by S key e" using c by (auto simp: ebay_cache_ok_def)
    then show ?thesis by (rule kept_by_mono) blast
  next
    case False
    with that have "key = ebay_key q \<and> e = ?e" by (auto simp: set_to_end)
    then show ?thesis unfolding kept_by_def by blast
  qed
  then show ?thesis using c trim_to_props(1,2) [of EBAY_CACHE_MAX "to_end (ebay_key q) ?e c"]
    trim_to_props(3) [OF dict_wf_to_end, of c EBAY_CACHE_MAX "ebay_key q" ?e]
    unfolding ebay_cache_ok_def ebay_keep_def by blast
qed

lemma run_box_ok: "ebay_cache_ok S c \<Longrightarrow> ebay_cache_ok (S \<union> set ss) (run_box ss c)"
proof (induction ss c arbitrary: S rule: run_box.induct)
  case (1 c)
  then show ?case by simp
next
  case (2 now q limit ss c)
  from "2.IH" [OF ebay_find_ok [OF "2.prems"]] have "ebay_cache_ok (S \<union> set ss) (run_box ss (fst (ebay_find now q limit c)))" .
  then show ?case by (auto simp: ebay_cache_ok_def intro: kept_by_mono)
next
  case (3 now q limit found ss c)
  from "3.IH" [OF ebay_keep_ok [OF "3.prems"]] show ?case by simp
qed

lemma trim_last: "0 < n \<Longrightarrow> trim_to n (d @ [x]) = trim_to (n - 1) d @ [x]"
  by (cases "length d < n") (auto simp: trim_to_def Suc_diff_le)

lemma ebay_keep_get: "dict_wf c \<Longrightarrow> dict_get (ebay_keep now q limit found c) (ebay_key q) =
    Some \<lparr>ee_at = now, ee_items = ebay_rows limit found, ee_ttl = ebay_ttl found\<rparr>"
proof -
  assume c: "dict_wf c"
  let ?e = "\<lparr>ee_at = now, ee_items = ebay_rows limit found, ee_ttl = ebay_ttl found\<rparr>"
  have "(ebay_key q, ?e) \<in> set (ebay_keep now q limit found c)"
    by (simp add: ebay_keep_def to_end_def trim_last EBAY_CACHE_MAX_def)
  moreover have "dict_wf (ebay_keep now q limit found c)"
    unfolding ebay_keep_def by (rule trim_to_props(3) [OF dict_wf_to_end [OF c]])
  ultimately show ?thesis by (simp add: dict_get_in_set)
qed

text \<open>C35: The eBay box's short cache. Let any number of threads' calls run, their locked sections in any order, on a cache that starts
  empty. It never holds more than 256 searches. A call that finds its search there shows what an earlier call's search
  for the same text brought, cut to its own size, and only if that call read the clock less than 900 seconds before
  (60 when the search had failed): no number of hits makes an entry last longer. Every other call shows the answer of its
  own search to it, in eBay's order, and keeps it. Right after a search came back its text is found for just that time.
  With the box switched off nothing is shown, searched or kept.\<close>

theorem ebay_box_short_cache:
  shows "length (run_box steps []) \<le> 256
    \<and> (\<forall>items. snd (ebay_find now q limit (run_box steps [])) = Some items \<longrightarrow>
         (\<exists>t q' l found. Keep t q' l found \<in> set steps \<and> ebay_key q' = ebay_key q \<and> now - t < (if found = None then 60 else 900)
            \<and> items = take limit (case found of None \<Rightarrow> [] | Some ps \<Rightarrow> take l ps)))
    \<and> ebay_box env search now q limit (run_box steps []) =
        (if \<not> ebay_enabled env then (run_box steps [], \<lparr>er_enabled = False, er_items = []\<rparr>)
         else (case snd (ebay_find now q limit (run_box steps [])) of
             Some items \<Rightarrow> (run_box (steps @ [Ask now q limit]) [], \<lparr>er_enabled = True, er_items = items\<rparr>)
           | None \<Rightarrow> (run_box (steps @ [Ask now q limit, Keep now q limit (search (py_strip q))]) [],
               \<lparr>er_enabled = True, er_items = (case search (py_strip q) of None \<Rightarrow> [] | Some ps \<Rightarrow> take limit ps)\<rparr>)))
    \<and> (ebay_key q' = ebay_key q \<longrightarrow> snd (ebay_find now q limit (run_box (steps @ [Keep t q' l found]) [])) =
        (if now - t < (if found = None then 60 else 900)
         then Some (take limit (case found of None \<Rightarrow> [] | Some ps \<Rightarrow> take l ps)) else None))"
proof -
  have "ebay_cache_ok {} []" by (simp add: ebay_cache_ok_def dict_wf_def)
  from run_box_ok [OF this, of steps] have ok: "ebay_cache_ok (set steps) (run_box steps [])" by simp
  have ttl: "ebay_ttl found = (if found = None then 60 else 900)" for found
    by (simp add: ebay_ttl_def EBAY_CACHE_TTL_S_def EBAY_FAILURE_TTL_S_def)
  have app: "run_box (xs @ ys) c = run_box ys (run_box xs c)" for xs ys c
    by (induction xs c rule: run_box.induct) simp_all
  have "\<exists>t q' l found. Keep t q' l found \<in> set steps \<and> ebay_key q' = ebay_key q \<and> now - t < (if found = None then 60 else 900)
      \<and> items = take limit (case found of None \<Rightarrow> [] | Some ps \<Rightarrow> take l ps)"
    if hit: "snd (ebay_find now q limit (run_box steps [])) = Some items" for items
  proof -
    obtain e where e: "dict_get (run_box steps []) (ebay_key q) = Some e" "now - ee_at e < ee_ttl e" "items = take limit (ee_items e)"
      using hit by (auto simp: ebay_find_def split: option.splits if_splits)
    from ok dict_get_SomeD [OF e(1)] have "kept_by (set steps) (ebay_key q) e" by (auto simp: ebay_cache_ok_def)
    then obtain t q' l found where k: "Keep t q' l found \<in> set steps" "ebay_key q' = ebay_key q"
      "e = \<lparr>ee_at = t, ee_items = ebay_rows l found, ee_ttl = ebay_ttl found\<rparr>" unfolding kept_by_def by blast
    from e(2,3) have "now - t < (if found = None then 60 else 900)" "items = take limit (case found of None \<Rightarrow> [] | Some ps \<Rightarrow> take l ps)"
      unfolding k(3) by (simp_all add: ttl ebay_rows_def)
    with k(1,2) show ?thesis by blast
  qed
  moreover have "snd (ebay_find now q limit (run_box (steps @ [Keep t q' l found]) [])) =
      (if now - t < (if found = None then 60 else 900) then Some (take limit (case found of None \<Rightarrow> [] | Some ps \<Rightarrow> take l ps)) else None)"
    if "ebay_key q' = ebay_key q"
  proof -
    have "dict_get (run_box (steps @ [Keep t q' l found]) []) (ebay_key q) =
        Some \<lparr>ee_at = t, ee_items = ebay_rows l found, ee_ttl = ebay_ttl found\<rparr>"
      using ebay_keep_get [of "run_box steps []" t q' l found] ok by (simp add: app that ebay_cache_ok_def)
    then show ?thesis by (simp add: ebay_find_def ttl ebay_rows_def)
  qed
  moreover have "length (run_box steps []) \<le> 256" using ok by (simp add: ebay_cache_ok_def EBAY_CACHE_MAX_def)
  moreover have "ebay_box env search now q limit (run_box steps []) =
        (if \<not> ebay_enabled env then (run_box steps [], \<lparr>er_enabled = False, er_items = []\<rparr>)
         else (case snd (ebay_find now q limit (run_box steps [])) of
             Some items \<Rightarrow> (run_box (steps @ [Ask now q limit]) [], \<lparr>er_enabled = True, er_items = items\<rparr>)
           | None \<Rightarrow> (run_box (steps @ [Ask now q limit, Keep now q limit (search (py_strip q))]) [],
               \<lparr>er_enabled = True, er_items = (case search (py_strip q) of None \<Rightarrow> [] | Some ps \<Rightarrow> take limit ps)\<rparr>)))"
    unfolding app ebay_box_def by (simp add: ebay_rows_def Let_def split: prod.split option.split)
  ultimately show ?thesis by blast
qed

definition ebay_on :: environ where
  "ebay_on = [(''EBAY_APP_ID'', ''app''), (''EBAY_CERT_ID'', ''cert'')]"

definition ebay_tv :: product where "ebay_tv = mk_product ''ebay-1'' ''tv'' None ''product'' 9 ''u'' ''eBay:Used''"

theorem ebay_box_short_cache_witness:
  "er_items (snd (ebay_box ebay_on (\<lambda>_. None) 899 ''TV '' 6 (fst (ebay_box ebay_on (\<lambda>_. Some [ebay_tv]) 0 ''tv'' 6 [])))) = [ebay_tv]
   \<and> er_items (snd (ebay_box ebay_on (\<lambda>_. None) 901 ''tv'' 6 (run_box [Keep 0 ''tv'' 6 (Some [ebay_tv]), Ask 899 ''tv'' 6] []))) = []"
proof -
  have on: "ebay_enabled ebay_on" by code_simp
  have key: "ebay_key ''TV '' = ''tv''" "ebay_key ''tv'' = ''tv''" by code_simp+
  have first: "fst (ebay_box ebay_on (\<lambda>_. Some [ebay_tv]) 0 ''tv'' 6 []) = run_box ([] @ [Keep 0 ''tv'' 6 (Some [ebay_tv])]) []"
    by (simp add: ebay_box_def on ebay_find_def dict_get_def Let_def)
  have "er_items (snd (ebay_box ebay_on (\<lambda>_. None) 899 ''TV '' 6 (fst (ebay_box ebay_on (\<lambda>_. Some [ebay_tv]) 0 ''tv'' 6 [])))) = [ebay_tv]"
    using ebay_box_short_cache [of "[] @ [Keep 0 ''tv'' 6 (Some [ebay_tv])]" 899 "''TV ''" 6 ebay_on "\<lambda>_. None"]
      ebay_box_short_cache [of "[]" 899 "''TV ''" 6 ebay_on "\<lambda>_. None" "''tv''" 0 6 "Some [ebay_tv]"]
    unfolding first by (simp add: on key)
  moreover have "snd (ebay_find 901 ''tv'' 6 (run_box [Keep 0 ''tv'' 6 (Some [ebay_tv]), Ask 899 ''tv'' 6] [])) = None"
  proof (rule ccontr)
    assume "snd (ebay_find 901 ''tv'' 6 (run_box [Keep 0 ''tv'' 6 (Some [ebay_tv]), Ask 899 ''tv'' 6] [])) \<noteq> None"
    then obtain items where "snd (ebay_find 901 ''tv'' 6 (run_box [Keep 0 ''tv'' 6 (Some [ebay_tv]), Ask 899 ''tv'' 6] [])) = Some items"
      by blast
    with ebay_box_short_cache [of "[Keep 0 ''tv'' 6 (Some [ebay_tv]), Ask 899 ''tv'' 6]" 901 "''tv''" 6] show False by auto
  qed
  ultimately show ?thesis
    using ebay_box_short_cache [of "[Keep 0 ''tv'' 6 (Some [ebay_tv]), Ask 899 ''tv'' 6]" 901 "''tv''" 6 ebay_on "\<lambda>_. None"]
    by (simp add: on del: run_box.simps)
qed

section \<open>Rating one price\<close>

lemma category_score_fold:
  fixes g :: "string \<times> string \<Rightarrow> pyfloat"
  shows "foldl (\<lambda>(best, score) (cat, st). if g (cat, st) > score then (Some cat, g (cat, st)) else (best, score)) (b, s) ls = (b', s')
   \<Longrightarrow> s \<le> s' \<and> (\<forall>x \<in> set ls. g x \<le> s') \<and> ((b', s') = (b, s) \<or> (\<exists>x \<in> set ls. b' = Some (fst x) \<and> s' = g x))"
proof (induction ls arbitrary: b s)
  case (Cons x ls)
  obtain cat st where x: "x = (cat, st)" by (cases x)
  show ?case
  proof (cases "g x > s")
    case True
    with Cons.prems x have "foldl (\<lambda>(best, score) (cat, st). if g (cat, st) > score then (Some cat, g (cat, st)) else (best, score)) (Some cat, g x) ls = (b', s')"
      by simp
    from Cons.IH [OF this] True x show ?thesis by fastforce
  next
    case False
    with Cons.prems x have "foldl (\<lambda>(best, score) (cat, st). if g (cat, st) > score then (Some cat, g (cat, st)) else (best, score)) (b, s) ls = (b', s')"
      by simp
    from Cons.IH [OF this] False show ?thesis by fastforce
  qed
qed simp

lemma category_from_snapshot_SomeD:
  assumes "category_from_snapshot snap t = Some c"
  shows "\<exists>st. (c, st) \<in> set snap \<and> 2 \<le> length (word_set t)
    \<and> 3 * length (word_set t) \<le> 4 * length (filter (\<lambda>x. x \<in> set (word_set st)) (word_set t))"
proof -
  define g :: "string \<times> string \<Rightarrow> pyfloat" where
    "g = (\<lambda>(cat, st). of_nat (length (filter (\<lambda>x. x \<in> set (word_set st)) (word_set t))) / of_nat (length (word_set t)))"
  have len: "2 \<le> length (word_set t)" using assms by (auto simp: category_from_snapshot_def Let_def split: if_splits)
  obtain b s where f: "foldl (\<lambda>(best, score) (cat, st). if g (cat, st) > score then (Some cat, g (cat, st)) else (best, score)) (None, 0) snap = (b, s)"
    by fastforce
  have "category_from_snapshot snap t = (if 0.75 \<le> s then b else None)"
    using len f by (simp add: category_from_snapshot_def Let_def g_def cong: if_cong)
  with assms have "0.75 \<le> s" "b = Some c" by (auto split: if_splits)
  with category_score_fold [OF f] obtain x where "x \<in> set snap" "c = fst x" "0.75 \<le> g x" by auto
  moreover have "0 < real (length (word_set t))" using len by linarith
  ultimately have "3 * real (length (word_set t)) \<le> 4 * real (length (filter (\<lambda>w. w \<in> set (word_set (snd x))) (word_set t)))"
    by (simp add: g_def field_simps split: prod.splits)
  then have "3 * length (word_set t) \<le> 4 * length (filter (\<lambda>w. w \<in> set (word_set (snd x))) (word_set t))" by linarith
  with \<open>x \<in> set snap\<close> \<open>c = fst x\<close> len show ?thesis by (intro exI [of _ "snd x"]) simp
qed

text \<open>Check a deal rates the shopper's price against the model's fair price alone. It gives a verdict exactly
  when the title's category (named in the title, or that of a snapshot listing that shares three
  quarters of at least two words) has a fitted model; then, for a positive fair price, the verdict is
  suspicious up to 30 percent of it, a deal up to 85 percent, overpriced from 115 percent on, and
  fair in between, the thresholds of the two-signal verdict.\<close>

theorem check_deal_by_price:
  "let r = check_deal mdls snap t p in
     (ck_verdict r = None \<longleftrightarrow> (\<forall>c. ck_category r = Some c \<longrightarrow> mdls c = None))
   \<and> (\<forall>c. ck_category r = Some c \<longrightarrow> guess_category t = Some c
        \<or> (\<exists>st. (c, st) \<in> set snap \<and> 2 \<le> length (word_set t)
            \<and> 3 * length (word_set t) \<le> 4 * length (filter (\<lambda>x. x \<in> set (word_set st)) (word_set t))))
   \<and> (\<forall>f > 0. snd (fair_for mdls snap t) = Some f \<longrightarrow>
        ck_verdict r = Some (if p \<le> 0.3 * f then Suspicious else if p \<le> 0.85 * f then Deal
                             else if 1.15 * f \<le> p then Overpriced else Fair))"
proof -
  obtain cat fair where ff: "fair_for mdls snap t = (cat, fair)" by fastforce
  have cat: "cat = (case guess_category t of Some c \<Rightarrow> Some c | None \<Rightarrow> category_from_snapshot snap t)"
    and fair': "fair = map_option (\<lambda>model. model (featurize (mk_product ''check'' t None (the cat) 0 [] ''check''))) (Option.bind cat mdls)"
    using ff by (auto simp: fair_for_def Let_def)
  have fair: "fair = None \<longleftrightarrow> (\<forall>c. cat = Some c \<longrightarrow> mdls c = None)"
    unfolding fair' by (cases cat) auto
  have "ck_category (check_deal mdls snap t p) = cat" "ck_verdict (check_deal mdls snap t p) = None \<longleftrightarrow> fair = None"
    by (auto simp: check_deal_def ff Let_def split: option.split)
  moreover have "guess_category t = Some c \<or> (\<exists>st. (c, st) \<in> set snap \<and> 2 \<le> length (word_set t)
            \<and> 3 * length (word_set t) \<le> 4 * length (filter (\<lambda>x. x \<in> set (word_set st)) (word_set t)))" if "cat = Some c" for c
    using that cat category_from_snapshot_SomeD [of snap t c] by (auto split: option.splits)
  moreover have "ck_verdict (check_deal mdls snap t p) = Some (if p \<le> 0.3 * f then Suspicious else if p \<le> 0.85 * f then Deal
                             else if 1.15 * f \<le> p then Overpriced else Fair)" if "fair = Some f" "0 < f" for f
  proof -
    have r: "ck_verdict (check_deal mdls snap t p) = Some (if residual_fraction p f \<ge> SUSPICIOUS_RESIDUAL_FRAC then Suspicious
        else if residual_fraction p f \<ge> DEAL_MEDIAN_FRAC then Deal
        else if residual_fraction p f \<le> - DEAL_MEDIAN_FRAC then Overpriced else Fair)"
      using that by (simp add: check_deal_def ff Let_def)
    have "residual_fraction p f \<ge> SUSPICIOUS_RESIDUAL_FRAC \<longleftrightarrow> p \<le> 0.3 * f"
      "residual_fraction p f \<ge> DEAL_MEDIAN_FRAC \<longleftrightarrow> p \<le> 0.85 * f"
      "residual_fraction p f \<le> - DEAL_MEDIAN_FRAC \<longleftrightarrow> 1.15 * f \<le> p"
      using that(2) by (auto simp: residual_fraction_def SUSPICIOUS_RESIDUAL_FRAC_def DEAL_MEDIAN_FRAC_def field_simps)
    then show ?thesis by (simp only: r)
  qed
  ultimately show ?thesis unfolding Let_def ff fair using fair by simp
qed

theorem check_deal_by_price_witness:
  "ck_verdict (check_deal (\<lambda>_. Some (\<lambda>_. 100)) [] ''headphone'' 20) = Some Suspicious"
proof -
  have "guess_category ''headphone'' = Some ''audio''" by code_simp
  then have "snd (fair_for (\<lambda>_. Some (\<lambda>_. 100)) [] ''headphone'') = Some 100" by (simp add: fair_for_def)
  then show ?thesis
    using check_deal_by_price [of "\<lambda>_. Some (\<lambda>_. 100)" "[]" "''headphone''" 20] unfolding Let_def
    by (elim conjE allE [of _ "100::pyfloat"]) simp
qed

end
