(* ===== verification/Rx_Facts.thy ===== *)
theory Rx_Facts
  imports PyStr
begin

text \<open>
  Splitting a text for the regular expressions of the source: a pattern without \<open>\b\<close> and \<open>$\<close> does not
  look at what precedes a position, and a character that no class of the pattern accepts separates
  the matches of what is before it from those of what is behind it. With these the matches in a
  formatted text are the matches in its pieces. The second part is about maximal runs of a class.
\<close>

section \<open>Barriers\<close>

fun plain :: "rx \<Rightarrow> bool" where
  "plain Bound = False"
| "plain AtEnd = False"
| "plain (Cat r1 r2) = (plain r1 \<and> plain r2)"
| "plain (Alt r1 r2) = (plain r1 \<and> plain r2)"
| "plain (Star r) = plain r"
| "plain (Lazy r) = plain r"
| "plain (Grp r) = plain r"
| "plain _ = True"

fun rejects :: "char \<Rightarrow> rx \<Rightarrow> bool" where
  "rejects c (Cls P) = (\<not> P c)"
| "rejects c (Cat r1 r2) = (rejects c r1 \<and> rejects c r2)"
| "rejects c (Alt r1 r2) = (rejects c r1 \<and> rejects c r2)"
| "rejects c (Star r) = rejects c r"
| "rejects c (Lazy r) = rejects c r"
| "rejects c (Grp r) = rejects c r"
| "rejects c _ = True"

definition behind :: "string \<Rightarrow> rx_pos \<Rightarrow> rx_pos" where
  "behind u p = (case p of (pv, s, g) \<Rightarrow> (pv, s @ u, g))"

lemma rx_rest_behind [simp]: "rx_rest (behind u p) = rx_rest p @ u"
  by (cases p) (simp add: behind_def)

lemma rx_run_barrier:
  "plain r \<Longrightarrow> rejects c r \<Longrightarrow> rx_run r (behind (c # t) p) = map (behind (c # t)) (rx_run r p)"
proof (induction r p rule: rx_run.induct)
  case (6 r1 r2 p)
  have "concat (map (rx_run r2 \<circ> behind (c # t)) (rx_run r1 p)) = concat (map (map (behind (c # t)) \<circ> rx_run r2) (rx_run r1 p))"
    by (intro arg_cong [where f = concat] map_cong refl) (use 6 in simp)
  with 6 show ?case by (simp add: map_concat comp_def)
next
  case (8 r p)
  have "concat (map (\<lambda>q. if length (rx_rest q) < length (rx_rest p) then rx_run (Star r) (behind (c # t) q) else []) (rx_run r p))
      = concat (map (\<lambda>q. if length (rx_rest q) < length (rx_rest p) then map (behind (c # t)) (rx_run (Star r) q) else []) (rx_run r p))"
    by (intro arg_cong [where f = concat] map_cong refl) (use 8 in simp)
  moreover have "rx_run r (behind (c # t) p) = map (behind (c # t)) (rx_run r p)" using 8 by simp
  ultimately show ?case
    by (subst (1 2) rx_run.simps(8)) (simp add: map_concat comp_def if_distrib cong: if_cong)
next
  case (9 r p)
  have "concat (map (\<lambda>q. if length (rx_rest q) < length (rx_rest p) then rx_run (Lazy r) (behind (c # t) q) else []) (rx_run r p))
      = concat (map (\<lambda>q. if length (rx_rest q) < length (rx_rest p) then map (behind (c # t)) (rx_run (Lazy r) q) else []) (rx_run r p))"
    by (intro arg_cong [where f = concat] map_cong refl) (use 9 in simp)
  moreover have "rx_run r (behind (c # t) p) = map (behind (c # t)) (rx_run r p)" using 9 by simp
  ultimately show ?case
    by (subst (1 2) rx_run.simps(9)) (simp add: map_concat comp_def if_distrib cong: if_cong)
next
  case (10 r pv s g)
  have "map (\<lambda>(pv', s', g'). (pv', s', Some (take (length (s @ c # t) - length s') (s @ c # t)))) (map (behind (c # t)) (rx_run r (pv, s, g)))
      = map (behind (c # t)) (map (\<lambda>(pv', s', g'). (pv', s', Some (take (length s - length s') s))) (rx_run r (pv, s, g)))"
  proof (unfold map_map, rule map_cong [OF refl])
    fix q assume "q \<in> set (rx_run r (pv, s, g))"
    then have "length (rx_rest q) \<le> length s" using rx_run_suffix by (metis rx_rest.simps suffix_length_le)
    then show "((\<lambda>(pv', s', g'). (pv', s', Some (take (length (s @ c # t) - length s') (s @ c # t)))) \<circ> behind (c # t)) q
        = (behind (c # t) \<circ> (\<lambda>(pv', s', g'). (pv', s', Some (take (length s - length s') s)))) q"
      by (cases q) (simp add: behind_def)
  qed
  moreover have "rx_run r (pv, s @ c # t, g) = map (behind (c # t)) (rx_run r (pv, s, g))"
    using 10 by (simp add: behind_def)
  ultimately show ?case by (simp add: behind_def)
qed (auto simp: behind_def)
lemma rx_run_previous:
  "plain r \<Longrightarrow> map snd (rx_run r (pv, s, g)) = map snd (rx_run r (pv', s, g))"
proof -
  have "plain r \<Longrightarrow> snd p = snd p' \<Longrightarrow> map snd (rx_run r p) = map snd (rx_run r p')" for p p'
  proof (induction r p arbitrary: p' rule: rx_run.induct)
    case (6 r1 r2 p)
    have eq: "map snd (rx_run r1 p) = map snd (rx_run r1 p')" using 6 by simp
    then have len: "length (rx_run r1 p) = length (rx_run r1 p')" by (metis length_map)
    have "map (map snd \<circ> rx_run r2) (rx_run r1 p) = map (map snd \<circ> rx_run r2) (rx_run r1 p')"
    proof (rule nth_equalityI)
      fix i assume "i < length (map (map snd \<circ> rx_run r2) (rx_run r1 p))"
      then have i: "i < length (rx_run r1 p)" by simp
      then have "snd (rx_run r1 p ! i) = snd (rx_run r1 p' ! i)" using eq len by (metis nth_map)
      then show "map (map snd \<circ> rx_run r2) (rx_run r1 p) ! i = map (map snd \<circ> rx_run r2) (rx_run r1 p') ! i"
        using i len 6 by simp
    qed (simp add: len)
    then show ?case by (simp add: map_concat comp_def)
  next
    case (8 r p)
    let ?f = "\<lambda>p q. if length (rx_rest q) < length (rx_rest p) then rx_run (Star r) q else []"
    have rest: "rx_rest a = rx_rest b" if "snd a = snd b" for a b using that by (cases a; cases b) simp
    have eq: "map snd (rx_run r p) = map snd (rx_run r p')" using 8 by simp
    then have len: "length (rx_run r p) = length (rx_run r p')" by (metis length_map)
    have "map (map snd \<circ> ?f p) (rx_run r p) = map (map snd \<circ> ?f p') (rx_run r p')"
    proof (rule nth_equalityI)
      fix i assume "i < length (map (map snd \<circ> ?f p) (rx_run r p))"
      then have i: "i < length (rx_run r p)" by simp
      then have "snd (rx_run r p ! i) = snd (rx_run r p' ! i)" using eq len by (metis nth_map)
      then show "map (map snd \<circ> ?f p) (rx_run r p) ! i = map (map snd \<circ> ?f p') (rx_run r p') ! i"
        using i len 8(2) [of "rx_run r p ! i" "rx_run r p' ! i"] 8(3) rest [OF 8(4)] rest [of "rx_run r p ! i" "rx_run r p' ! i"]
        by simp
    qed (simp add: len)
    with 8(4) show ?case by (subst (1 2) rx_run.simps(8)) (simp add: map_concat comp_def)
  next
    case (9 r p)
    let ?f = "\<lambda>p q. if length (rx_rest q) < length (rx_rest p) then rx_run (Lazy r) q else []"
    have rest: "rx_rest a = rx_rest b" if "snd a = snd b" for a b using that by (cases a; cases b) simp
    have eq: "map snd (rx_run r p) = map snd (rx_run r p')" using 9 by simp
    then have len: "length (rx_run r p) = length (rx_run r p')" by (metis length_map)
    have "map (map snd \<circ> ?f p) (rx_run r p) = map (map snd \<circ> ?f p') (rx_run r p')"
    proof (rule nth_equalityI)
      fix i assume "i < length (map (map snd \<circ> ?f p) (rx_run r p))"
      then have i: "i < length (rx_run r p)" by simp
      then have "snd (rx_run r p ! i) = snd (rx_run r p' ! i)" using eq len by (metis nth_map)
      then show "map (map snd \<circ> ?f p) (rx_run r p) ! i = map (map snd \<circ> ?f p') (rx_run r p') ! i"
        using i len 9(2) [of "rx_run r p ! i" "rx_run r p' ! i"] 9(3) rest [OF 9(4)] rest [of "rx_run r p ! i" "rx_run r p' ! i"]
        by simp
    qed (simp add: len)
    with 9(4) show ?case by (subst (1 2) rx_run.simps(9)) (simp add: map_concat comp_def)
  next
    case (10 r pv s g)
    have form: "map snd (map (\<lambda>(pv', s', g'). (pv', s', Some (take (length s - length s') s))) ps)
        = map (\<lambda>(s', g'). (s', Some (take (length s - length s') s))) (map snd ps)" for ps :: "rx_pos list"
      by (simp add: case_prod_unfold)
    have "map snd (rx_run r (pv, s, g)) = map snd (rx_run r p')" using 10 by simp
    moreover obtain pv' where "p' = (pv', s, g)" using 10(3) by (cases p') simp
    ultimately show ?case by (simp only: rx_run.simps(10) form)
  qed (auto simp: split_paired_all)
  then show "plain r \<Longrightarrow> ?thesis" by simp
qed

text \<open>\<open>rx_once r s\<close>: what the first match of a plain pattern at the start of \<open>s\<close> leaves, and its group.\<close>

definition rx_once :: "rx \<Rightarrow> string \<Rightarrow> (string \<times> string option) option" where
  "rx_once r s = map_option snd (rx_at r None s)"

lemma rx_at_once: "plain r \<Longrightarrow> map_option snd (rx_at r pv s) = rx_once r s"
  using rx_run_previous [of r pv s None None]
  by (auto simp: rx_once_def rx_at_def split: list.splits)

definition found_in :: "rx \<Rightarrow> string \<Rightarrow> (string \<times> string option) list" where
  "found_in r s = rx_matches r None s"

lemma rx_matches_found: "plain r \<Longrightarrow> rx_matches r pv s = found_in r s"
proof (induction "length s" arbitrary: s pv rule: less_induct)
  case less
  show ?case
  proof (cases s)
    case (Cons c t)
    have IH: "rx_matches r pv' u = found_in r u" if "length u < length s" for u pv'
      using less.hyps [OF that less.prems] .
    from rx_at_once [OF less.prems, of pv s] rx_at_once [OF less.prems, of None s]
    have "map_option snd (rx_at r pv s) = map_option snd (rx_at r None s)" by simp
    then consider "rx_at r pv s = None" "rx_at r None s = None"
      | x y rest g where "rx_at r pv s = Some (x, rest, g)" "rx_at r None s = Some (y, rest, g)"
      by (cases "rx_at r pv s"; cases "rx_at r None s") auto
    then show ?thesis
    proof cases
      case 1
      then show ?thesis by (simp add: Cons found_in_def [of _ "c # t"] IH)
    next
      case 2
      then show ?thesis by (simp add: Cons found_in_def [of _ "c # t"] IH)
    qed
  qed (simp add: found_in_def)
qed

lemma found_in_Nil [simp]: "found_in r [] = []"
  by (simp add: found_in_def)

lemma found_in_step:
  "plain r \<Longrightarrow> s \<noteq> [] \<Longrightarrow> found_in r s =
     (case rx_once r s of
        Some (rest, g) \<Rightarrow>
          if length rest < length s then (take (length s - length rest) s, g) # found_in r rest
          else found_in r (tl s)
      | None \<Rightarrow> found_in r (tl s))"
  by (cases s) (auto simp: found_in_def [of r "_ # _"] rx_matches_found rx_once_def split: option.splits)

lemma rx_once_barrier:
  assumes "plain r" and "rejects c r"
  shows "rx_once r (s @ c # t) = map_option (\<lambda>(rest, g). (rest @ c # t, g)) (rx_once r s)"
proof -
  have "rx_run r (None, s @ c # t, None) = map (behind (c # t)) (rx_run r (None, s, None))"
    using rx_run_barrier [OF assms, of t "(None, s, None)"] by (simp add: behind_def)
  then show ?thesis by (auto simp: rx_once_def rx_at_def behind_def split: list.splits)
qed

lemma rx_once_rest: "rx_once r s = Some (rest, g) \<Longrightarrow> suffix rest s"
  using rx_run_suffix [of _ r "(None, s, None)"] by (fastforce simp: rx_once_def rx_at_def split: list.splits)

text \<open>The matches in a text with a barrier are those on its left and those on its right.\<close>

lemma found_in_barrier:
  assumes "plain r" and "rejects c r"
  shows "found_in r (s @ c # t) = found_in r s @ found_in r (c # t)"
proof (induction "length s" arbitrary: s rule: less_induct)
  case less
  show ?case
  proof (cases "s = []")
    case ne: False
    note step = found_in_step [OF assms(1), of s] found_in_step [OF assms(1), of "s @ c # t"]
    note once = rx_once_barrier [OF assms, of s t]
    have tl: "found_in r (tl (s @ c # t)) = found_in r (tl s) @ found_in r (c # t)"
      using less [of "tl s"] ne by simp
    show ?thesis
    proof (cases "rx_once r s")
      case None
      then show ?thesis using once step ne tl by simp
    next
      case (Some q)
      obtain rest g where q: "q = (rest, g)" by (cases q)
      show ?thesis
      proof (cases "length rest < length s")
        case True
        then show ?thesis using once Some q step ne less [of rest] by simp
      next
        case False
        then show ?thesis using once Some q step ne tl by simp
      qed
    qed
  qed simp
qed

lemma found_in_split:
  assumes "plain r" and "rejects c r"
  shows "found_in r (s @ c # t) = found_in r s @ found_in r t"
proof -
  have "rx_once r (c # t) = map_option (\<lambda>(rest, g). (rest @ c # t, g)) (rx_once r [])"
    using rx_once_barrier [OF assms, of "[]" t] by simp
  then have "found_in r (c # t) = found_in r t"
    by (auto simp: found_in_step [OF assms(1), of "c # t"] split: option.split)
  with found_in_barrier [OF assms] show ?thesis by simp
qed

lemma found_in_skip: "plain r \<Longrightarrow> rx_once r (c # s) = None \<Longrightarrow> found_in r (c # s) = found_in r s"
  by (simp add: found_in_step)

lemma rx_findall_found: "rx_findall r s = map fst (found_in r s)"
  by (simp add: rx_findall_def found_in_def)

section \<open>Runs of a class\<close>

function runs :: "(char \<Rightarrow> bool) \<Rightarrow> string \<Rightarrow> string list" where
  "runs P [] = []"
| "runs P (c # s) = (if P c then (c # takeWhile P s) # runs P (dropWhile P s) else runs P s)"
  by pat_completeness auto
termination
  by (relation "measure (\<lambda>(P, s). length s)") (auto simp: le_imp_less_Suc length_dropWhile_le)

lemma runs_split: "\<not> P c \<Longrightarrow> runs P (s @ c # t) = runs P s @ runs P t"
proof (induction P s rule: runs.induct)
  case (2 P d s)
  have "takeWhile P (s @ c # t) = takeWhile P s \<and> dropWhile P (s @ c # t) = dropWhile P s @ c # t"
    using 2(3) by (induction s) auto
  with 2 show ?case by simp
qed simp

lemma runs_dropWhile: "runs P (dropWhile (\<lambda>c. \<not> P c) s) = runs P s"
  by (induction s) auto

lemma runs_in: "w \<in> set (runs P s) \<Longrightarrow> w \<noteq> [] \<and> set w \<subseteq> set s \<and> (\<forall>c \<in> set w. P c)"
proof (induction P s rule: runs.induct)
  case (2 P c s)
  show ?case
  proof (cases "P c \<and> w = c # takeWhile P s")
    case True
    then show ?thesis by (auto dest: set_takeWhileD)
  next
    case False
    with 2 show ?thesis by (fastforce split: if_splits dest: set_dropWhileD)
  qed
qed simp

lemma runs_Nil_iff: "runs P s = [] \<longleftrightarrow> (\<forall>c \<in> set s. \<not> P c)"
  by (induction s) auto

lemma rx_once_plus_Cls: "rx_once (plus (Cls P)) s =
   (case s of [] \<Rightarrow> None | c # t \<Rightarrow> if P c then Some (dropWhile P t, None) else None)"
proof (cases s)
  case (Cons c t)
  have "rx_run (Star (Cls P)) (Some c, t, None) \<noteq> []" by simp
  then show ?thesis
    using hd_rx_run_Star_Cls [of P "Some c" t None]
    by (cases "rx_run (Star (Cls P)) (Some c, t, None)") (auto simp: Cons rx_once_def rx_at_def plus_def)
qed (simp add: rx_once_def rx_at_def plus_def)

function blank :: "(char \<Rightarrow> bool) \<Rightarrow> string \<Rightarrow> string" where
  \<comment> \<open>every run of the class becomes one blank\<close>
  "blank P [] = []"
| "blank P (c # s) = (if P c then CHR '' '' # blank P (dropWhile P s) else c # blank P s)"
  by pat_completeness auto
termination
  by (relation "measure (\<lambda>(P, s). length s)") (auto simp: le_imp_less_Suc length_dropWhile_le)

lemma rx_sub_blank: "rx_sub (plus (Cls P)) '' '' s = blank P s"
proof -
  have once: "map_option snd (rx_at (plus (Cls P)) pv (c # t)) = (if P c then Some (dropWhile P t, None) else None)" for P pv c t
  proof -
    have "plain (plus (Cls P))" by (simp add: plus_def)
    from rx_at_once [OF this, of pv "c # t"] show ?thesis by (simp add: rx_once_plus_Cls)
  qed
  have "rx_sub_from (plus (Cls P)) '' '' pv s = blank P s" for pv
  proof (induction P s arbitrary: pv rule: blank.induct)
    case (2 P c s)
    show ?case
    proof (cases "P c")
      case True
      then obtain x where "rx_at (plus (Cls P)) pv (c # s) = Some (x, dropWhile P s, None)"
        using once [of P pv c s] by (auto simp: map_option_case split: option.splits)
      with True 2 length_dropWhile_le [of P s] show ?thesis by (simp add: le_imp_less_Suc)
    next
      case False
      then have "rx_at (plus (Cls P)) pv (c # s) = None"
        using once [of P pv c s] by (auto simp: map_option_case split: option.splits)
      with False 2 show ?thesis by simp
    qed
  qed simp
  then show ?thesis by (simp add: rx_sub_def)
qed

lemma py_join_Cons: "py_join sep (w # ws) = (if ws = [] then w else w @ sep @ py_join sep ws)"
  by (cases ws) auto

lemma blank_runs:
  "blank (\<lambda>c. \<not> P c) s = (if s \<noteq> [] \<and> \<not> P (hd s) then '' '' else '''') @ py_join '' '' (runs P s)
     @ (if runs P s \<noteq> [] \<and> \<not> P (last s) then '' '' else '''')"
proof (induction "length s" arbitrary: s rule: less_induct)
  case less
  show ?case
  proof (cases s)
    case (Cons c t)
    show ?thesis
    proof (cases "P c")
      case False
      let ?u = "dropWhile (\<lambda>c. \<not> P c) t"
      have u: "?u \<noteq> [] \<Longrightarrow> P (hd ?u)" by (metis (no_types, lifting) hd_dropWhile)
      have r: "runs P ?u = runs P t" by (rule runs_dropWhile)
      have l: "?u \<noteq> [] \<Longrightarrow> last ?u = last t" by (metis last_appendR takeWhile_dropWhile_id)
      have "blank (\<lambda>c. \<not> P c) ?u = py_join '' '' (runs P t) @ (if runs P t \<noteq> [] \<and> \<not> P (last t) then '' '' else '''')"
      proof (cases "?u = []")
        case True
        then have "runs P t = []" by (simp add: runs_Nil_iff)
        then show ?thesis unfolding True by simp
      next
        case False
        have "length ?u < length s" using length_dropWhile_le [of _ t] by (simp add: Cons le_imp_less_Suc)
        from less [OF this] u l r False show ?thesis by simp
      qed
      moreover have "t = [] \<Longrightarrow> runs P t = []" by simp
      ultimately show ?thesis using False by (auto simp: Cons)
    next
      case True
      have IH: "blank (\<lambda>c. \<not> P c) t = (if t \<noteq> [] \<and> \<not> P (hd t) then '' '' else '''') @ py_join '' '' (runs P t)
          @ (if runs P t \<noteq> [] \<and> \<not> P (last t) then '' '' else '''')"
        using less [of t] by (simp add: Cons)
      show ?thesis
      proof (cases t)
        case Nil
        with True show ?thesis by (simp add: Cons)
      next
        case (Cons d u)
        show ?thesis
        proof (cases "P d")
          case False
          moreover have "runs P (d # u) = [] \<Longrightarrow> \<not> P (last (d # u))" by (metis last_in_set list.distinct(1) runs_Nil_iff)
          ultimately show ?thesis using True IH \<open>s = c # t\<close> Cons by (auto simp: py_join_Cons)
        next
          case d: True
          then show ?thesis using True IH \<open>s = c # t\<close> Cons by (auto simp: py_join_Cons)
        qed
      qed
    qed
  qed simp
qed

end
