(* ===== verification/Search.thy ===== *)
theory Search
  imports Dedup Features Deal_Score "HOL-Library.Sublist"
begin

text \<open>
  \<open>dealfinder/search.py\<close>, \<open>ranking.py\<close>, \<open>dealmodel.py\<close> and the caches of \<open>embed.py\<close>: retrieval over the
  catalog (cosine, BM25, reciprocal rank fusion, value rerank), the offline ranking metrics, the
  per-category price models and the process-wide embedding cache.

  Arguments for what is outside the repository: \<open>emb\<close> (the embedding model on a batch of texts), \<open>fit\<close>
  (the least-squares solution of numpy's pseudo-inverse, as the fitted predictor), \<open>sha\<close> (SHA-256).
  numpy's \<open>argsort\<close> breaks ties by index here.
\<close>

section \<open>Ranking by vectors and by words\<close>

definition tok :: "string \<Rightarrow> string list" where
  "tok s = rx_findall TOKEN (py_lower s)"

definition unit_query :: "pyfloat list \<Rightarrow> pyfloat list" where
  "unit_query v = map (\<lambda>x. x / (if vnorm v = 0 then 1 else vnorm v)) v"

definition unit_doc :: "pyfloat list \<Rightarrow> pyfloat list" where
  "unit_doc v = map (\<lambda>x. x / (vnorm v + 1 / 10 ^ 9)) v"

definition cosine_rank :: "pyfloat list \<Rightarrow> pyfloat list list \<Rightarrow> int \<Rightarrow> (nat \<times> pyfloat) list" where
  "cosine_rank qv docs k =
     (let sims = map (\<lambda>v. dot (unit_doc v) (unit_query qv)) docs
      in map (\<lambda>i. (i, sims ! i)) (py_slice_to k (sort_key (\<lambda>i. - (sims ! i)) [0..<length docs])))"

record bm25 =
  bm_docs :: "string list list"
  bm_k1 :: pyfloat
  bm_b :: pyfloat
  bm_avgdl :: pyfloat
  bm_idf :: "(string, pyfloat) dict"

definition count_word :: "string list list \<Rightarrow> string \<Rightarrow> nat" where
  "count_word docs w = length (filter (\<lambda>d. w \<in> set d) docs)"

definition new_bm25 :: "string list \<Rightarrow> bm25" where
  "new_bm25 texts =
     (let docs = map tok texts; n = length docs in
      \<lparr>bm_docs = docs, bm_k1 = 1.5, bm_b = 0.75,
       bm_avgdl = of_nat (sum_list (map length docs)) / of_nat (max 1 n),
       bm_idf = map (\<lambda>w. (w, ln (1 + (of_nat n - of_nat (count_word docs w) + 0.5) / (of_nat (count_word docs w) + 0.5))))
         (py_dedupe (concat docs))\<rparr>)"

definition bm25_term :: "bm25 \<Rightarrow> string list \<Rightarrow> string \<Rightarrow> pyfloat" where
  "bm25_term bm d w =
     (if w \<notin> set d then 0
      else (let f = of_nat (count_list d w) in
        dict_get_or (bm_idf bm) w 0 * (f * (bm_k1 bm + 1))
          / (f + bm_k1 bm * (1 - bm_b bm + bm_b bm * of_nat (length d) / bm_avgdl bm))))"

definition bm25_score :: "bm25 \<Rightarrow> string list \<Rightarrow> string list \<Rightarrow> pyfloat" where
  "bm25_score bm q d = sum_list (map (bm25_term bm d) q)"

definition bm25_search :: "bm25 \<Rightarrow> string \<Rightarrow> int \<Rightarrow> (nat \<times> pyfloat) list" where
  "bm25_search bm q k =
     filter (\<lambda>(i, s). s > 0)
       (py_slice_to k (sort_key (\<lambda>x. - snd x) (map (\<lambda>(i, d). (i, bm25_score bm (tok q) d)) (List.enumerate 0 (bm_docs bm)))))"

section \<open>Fusion and the value rerank\<close>

definition rrf_add :: "nat \<Rightarrow> ('a, pyfloat) dict \<Rightarrow> nat \<times> 'a \<Rightarrow> ('a, pyfloat) dict" where
  "rrf_add k scores rd = dict_set (snd rd) (dict_get_or scores (snd rd) 0 + 1 / of_nat (k + fst rd + 1)) scores"

definition rrf_scores :: "nat \<Rightarrow> 'a list list \<Rightarrow> ('a, pyfloat) dict" where
  "rrf_scores k rankings = foldl (\<lambda>scores r. foldl (rrf_add k) scores (List.enumerate 0 r)) [] rankings"

definition rrf_fuse :: "'a list list \<Rightarrow> nat \<Rightarrow> int option \<Rightarrow> 'a list" where
  "rrf_fuse rankings k n_top =
     (let fused = map fst (sort_key (\<lambda>x. - snd x) (rrf_scores k rankings))
      in case n_top of None \<Rightarrow> fused | Some t \<Rightarrow> if t = 0 then fused else py_slice_to t fused)"

definition rank_rel :: "'a list \<Rightarrow> ('a, pyfloat) dict" where
  "rank_rel ids = foldl (\<lambda>d (i, x). dict_set x (1 - of_nat i / of_nat (max 1 (length ids - 1))) d) [] (List.enumerate 0 ids)"

definition combined :: "'a list \<Rightarrow> ('a, pyfloat) dict \<Rightarrow> pyfloat \<Rightarrow> 'a \<Rightarrow> pyfloat" where
  "combined ids deal alpha x = (1 - alpha) * dict_get_or (rank_rel ids) x 0 + alpha * max 0 (dict_get_or deal x 0)"

definition value_rerank :: "'a list \<Rightarrow> ('a, pyfloat) dict \<Rightarrow> pyfloat \<Rightarrow> 'a list" where
  "value_rerank ids deal alpha = sort_key (\<lambda>x. - combined ids deal alpha x) ids"

section \<open>Price models per category\<close>

type_synonym fitter = "int list list \<Rightarrow> pyfloat list \<Rightarrow> int list \<Rightarrow> pyfloat"

definition category_models :: "fitter \<Rightarrow> product list \<Rightarrow> string \<Rightarrow> (int list \<Rightarrow> pyfloat) option" where
  \<comment> \<open>the models by category; \<open>fit\<close> is \<open>LinearModel().fit\<close> on the feature matrix\<close>
  "category_models fit ps c =
     (let own = filter (\<lambda>p. category p = c) ps in
      if length own \<ge> 3 then Some (fit (feature_matrix own) (map price own)) else None)"

definition deal_score_of :: "fitter \<Rightarrow> product list \<Rightarrow> (string, pyfloat) dict \<Rightarrow> product \<Rightarrow> pyfloat" where
  "deal_score_of fit ps medians p =
     (let m = median_signal (price p) (dict_get_or medians (p_id p) 0) in
      case category_models fit ps (category p) of
        None \<Rightarrow> m
      | Some model \<Rightarrow>
          (let rf = residual_fraction (price p) (model (featurize p))
           in if m \<ge> 0.15 \<and> rf > 0.70 then m - 1 else m))"

definition two_signal_deal_scores :: "fitter \<Rightarrow> product list \<Rightarrow> (string, pyfloat) dict \<Rightarrow> (nat, pyfloat) dict" where
  "two_signal_deal_scores fit ps medians = map (\<lambda>(i, p). (i, deal_score_of fit ps medians p)) (List.enumerate 0 ps)"

definition product_text :: "product \<Rightarrow> string" where
  "product_text p = py_strip (title p @ ''. '' @ (case brand p of None \<Rightarrow> '''' | Some b \<Rightarrow> b) @ '' '' @ category p @ ''. '' @
     py_join '' '' (map (\<lambda>(k, v). k @ '' '' @ v) (specs p)))"

definition search_catalog ::
  "(string list \<Rightarrow> pyfloat list list) \<Rightarrow> fitter \<Rightarrow> string \<Rightarrow> product list \<Rightarrow> pyfloat list list \<Rightarrow> (string, pyfloat) dict \<Rightarrow>
   int \<Rightarrow> pyfloat \<Rightarrow> (nat \<times> product \<times> pyfloat) list" where
  "search_catalog emb fit q ps embeddings medians k alpha =
     (let n = int (length ps);
          semantic = map fst (cosine_rank (hd (emb [q])) embeddings n);
          keyword = map fst (bm25_search (new_bm25 (map product_text ps)) q n);
          hybrid = rrf_fuse [semantic, keyword] 60 (Some (max (k * 3) k));
          deal = two_signal_deal_scores fit ps medians
      in map (\<lambda>i. (i, ps ! i, the (dict_get deal i))) (py_slice_to k (value_rerank hybrid deal alpha)))"

section \<open>Offline metrics\<close>

definition precision_at_k :: "'a list \<Rightarrow> 'a set \<Rightarrow> nat \<Rightarrow> pyfloat option" where
  \<comment> \<open>\<open>None\<close> is the division by zero\<close>
  "precision_at_k recommended relevant k =
     (if k = 0 then None else Some (of_nat (length (filter (\<lambda>r. r \<in> relevant) (take k recommended))) / of_nat k))"

definition recall_at_k :: "'a list \<Rightarrow> 'a set \<Rightarrow> nat \<Rightarrow> pyfloat" where
  "recall_at_k recommended relevant k =
     (if relevant = {} then 0
      else of_nat (length (filter (\<lambda>r. r \<in> relevant) (take k recommended))) / of_nat (card relevant))"

definition discount :: "nat \<Rightarrow> pyfloat" where "discount i = 1 / (ln (of_nat (i + 2)) / ln 2)"

definition dcg :: "pyfloat list \<Rightarrow> pyfloat" where
  "dcg rels = sum_list (map (\<lambda>(i, r). r * discount i) (List.enumerate 0 rels))"

definition ndcg_at_k :: "'a list \<Rightarrow> 'a set \<Rightarrow> nat \<Rightarrow> pyfloat" where
  "ndcg_at_k recommended relevant k =
     (let gains = map (\<lambda>r. if r \<in> relevant then 1 else 0) (take k recommended);
          ideal = replicate (min (card relevant) k) 1 @ replicate (k - card relevant) 0;
          idcg = dcg ideal
      in if idcg > 0 then dcg gains / idcg else 0)"

section \<open>The linear model and its measures\<close>

definition with_bias :: "pyfloat list list \<Rightarrow> pyfloat list list" where
  "with_bias rows = map (\<lambda>r. 1 # r) rows"

definition predict :: "pyfloat list option \<Rightarrow> pyfloat list list \<Rightarrow> pyfloat list option" where
  \<comment> \<open>\<open>None\<close>: not fitted\<close>
  "predict coef rows = map_option (\<lambda>c. map (\<lambda>r. dot r c) (with_bias rows)) coef"

definition mean_of :: "pyfloat list \<Rightarrow> pyfloat" where "mean_of xs = sum_list xs / of_nat (length xs)"

definition mae :: "pyfloat list \<Rightarrow> pyfloat list \<Rightarrow> pyfloat" where
  "mae truth pred = mean_of (map2 (\<lambda>a b. \<bar>a - b\<bar>) truth pred)"

definition r2 :: "pyfloat list \<Rightarrow> pyfloat list \<Rightarrow> pyfloat" where
  "r2 truth pred =
     1 - sum_list (map2 (\<lambda>a b. (a - b)\<^sup>2) truth pred) / sum_list (map (\<lambda>a. (a - mean_of truth)\<^sup>2) truth)"

definition train_test_split :: "nat list \<Rightarrow> pyfloat \<Rightarrow> nat list \<times> nat list" where
  \<comment> \<open>\<open>idx\<close>: numpy's seeded permutation of the indices\<close>
  "train_test_split idx test_frac =
     (let n_test = max 1 (round_half_even (of_nat (length idx) * test_frac))
      in (py_slice_from n_test idx, py_slice_to n_test idx))"

section \<open>The embedding cache\<close>

definition EMBED_CACHE_TTL_S :: pyfloat where "EMBED_CACHE_TTL_S = 6 * 3600"
definition EMBED_CACHE_MAX :: nat where "EMBED_CACHE_MAX = 4096"

type_synonym embed_cache = "(string, pyfloat \<times> pyfloat list) dict"

definition embed_lookup ::
  "pyfloat \<Rightarrow> embed_cache \<times> (string, pyfloat list) dict \<Rightarrow> string \<Rightarrow> embed_cache \<times> (string, pyfloat list) dict" where
  \<comment> \<open>one key of the first locked section\<close>
  "embed_lookup now cf k =
     (let (cache, found) = cf in
      case dict_get cache k of
        Some (t, v) \<Rightarrow> if now - t < EMBED_CACHE_TTL_S then (to_end k (t, v) cache, dict_set k v found) else cf
      | None \<Rightarrow> cf)"

definition embed_missing :: "(string \<Rightarrow> string) \<Rightarrow> (string, pyfloat list) dict \<Rightarrow> string list \<Rightarrow> (string, string) dict" where
  "embed_missing sha found texts =
     foldl (\<lambda>d t. if dict_has found (sha t) then d else dict_set (sha t) t d) [] texts"

definition embed_store ::
  "pyfloat \<Rightarrow> embed_cache \<times> (string, pyfloat list) dict \<Rightarrow> string \<times> pyfloat list \<Rightarrow> embed_cache \<times> (string, pyfloat list) dict" where
  \<comment> \<open>one new vector of the second locked section\<close>
  "embed_store now cf kv = (to_end (fst kv) (now, snd kv) (fst cf), dict_set (fst kv) (snd kv) (snd cf))"

definition embed_texts_cached ::
  "(string \<Rightarrow> string) \<Rightarrow> (string list \<Rightarrow> pyfloat list list) \<Rightarrow> pyfloat \<Rightarrow> string list \<Rightarrow> embed_cache \<Rightarrow>
   (embed_cache \<Rightarrow> embed_cache) \<Rightarrow> embed_cache \<times> string list \<times> pyfloat list option list" where
  \<comment> \<open>\<open>others\<close>: what other threads do to the cache while this one runs the model. Returns the cache, the
     texts given to the model and the rows; a row \<open>None\<close> is the \<open>KeyError\<close> of a missing vector.\<close>
  "embed_texts_cached sha emb now texts cache others =
     (let (c1, found) = foldl (embed_lookup now) (cache, []) (map sha texts);
          missing = embed_missing sha found texts
      in if missing = [] then (others c1, [], map (\<lambda>t. dict_get found (sha t)) texts)
         else
           (let (c2, found2) = foldl (embed_store now) (others c1, found) (zip (map fst missing) (emb (map snd missing)))
            in (trim_to EMBED_CACHE_MAX c2, map snd missing, map (\<lambda>t. dict_get found2 (sha t)) texts)))"

section \<open>The cache is transparent\<close>

definition embed_cache_ok :: "(string \<Rightarrow> string) \<Rightarrow> (string \<Rightarrow> pyfloat list) \<Rightarrow> embed_cache \<Rightarrow> bool" where
  "embed_cache_ok sha e c \<longleftrightarrow> dict_wf c \<and> length c \<le> EMBED_CACHE_MAX \<and> (\<forall>(k, t, v) \<in> set c. \<exists>x. k = sha x \<and> v = e x)"

definition vectors_ok :: "(string \<Rightarrow> string) \<Rightarrow> (string \<Rightarrow> pyfloat list) \<Rightarrow> (string, pyfloat list) dict \<Rightarrow> bool" where
  "vectors_ok sha e f \<longleftrightarrow> (\<forall>k v. dict_get f k = Some v \<longrightarrow> (\<exists>x. k = sha x \<and> v = e x))"

definition fresh_at :: "pyfloat \<Rightarrow> embed_cache \<Rightarrow> string \<Rightarrow> bool" where
  "fresh_at now c k \<longleftrightarrow> (case dict_get c k of Some (t, v) \<Rightarrow> now - t < EMBED_CACHE_TTL_S | None \<Rightarrow> False)"

lemma embed_lookup_step:
  assumes "embed_cache_ok sha e c" and "vectors_ok sha e f" and "embed_lookup now (c, f) k = (c', f')"
  shows "embed_cache_ok sha e c' \<and> vectors_ok sha e f' \<and> dict_get c' = dict_get c
    \<and> (\<forall>k'. dict_has f' k' \<longleftrightarrow> dict_has f k' \<or> k' = k \<and> fresh_at now c k)"
proof (cases "fresh_at now c k")
  case False
  with assms show ?thesis by (auto simp: embed_lookup_def fresh_at_def split: option.splits if_splits)
next
  case True
  then obtain t v where tv: "dict_get c k = Some (t, v)" "now - t < EMBED_CACHE_TTL_S"
    by (auto simp: fresh_at_def split: option.splits)
  then have c': "c' = to_end k (t, v) c" "f' = dict_set k v f"
    using assms(3) by (auto simp: embed_lookup_def)
  have kin: "(k, t, v) \<in> set c" using tv(1) by (rule dict_get_SomeD)
  then have "\<exists>x. k = sha x \<and> v = e x" using assms(1) by (auto simp: embed_cache_ok_def)
  then have "vectors_ok sha e f'" using assms(2) by (auto simp: vectors_ok_def c')
  moreover have "embed_cache_ok sha e c'"
    using assms(1) dict_wf_to_end length_to_end [OF tv(1), of "(t, v)"] kin
    unfolding embed_cache_ok_def c' set_to_end by fastforce
  moreover have "dict_get c' = dict_get c" by (rule ext) (simp add: c' tv(1))
  ultimately show ?thesis using True by (simp add: c')
qed

lemma embed_lookup_fold:
  assumes "embed_cache_ok sha e c" and "vectors_ok sha e f" and "foldl (embed_lookup now) (c, f) ks = (c', f')"
  shows "embed_cache_ok sha e c' \<and> vectors_ok sha e f'
    \<and> (\<forall>k'. dict_has f' k' \<longleftrightarrow> dict_has f k' \<or> k' \<in> set ks \<and> fresh_at now c k')"
  using assms
proof (induction ks arbitrary: c f)
  case (Cons k ks)
  obtain c1 f1 where s: "embed_lookup now (c, f) k = (c1, f1)" by fastforce
  from embed_lookup_step [OF Cons.prems(1,2) s]
  have 1: "embed_cache_ok sha e c1" "vectors_ok sha e f1" "dict_get c1 = dict_get c"
    "\<forall>k'. dict_has f1 k' \<longleftrightarrow> dict_has f k' \<or> k' = k \<and> fresh_at now c k" by blast+
  then have "fresh_at now c1 = fresh_at now c" by (simp add: fresh_at_def fun_eq_iff)
  with Cons.IH [OF 1(1,2)] 1(4) Cons.prems(3) s show ?case by auto
qed simp

lemma embed_missing_props:
  "dict_wf (embed_missing sha found texts)
   \<and> (\<forall>(k, t) \<in> set (embed_missing sha found texts). k = sha t \<and> t \<in> set texts \<and> \<not> dict_has found k)
   \<and> (\<forall>t \<in> set texts. dict_has found (sha t) \<or> dict_has (embed_missing sha found texts) (sha t))"
proof (induction texts rule: rev_induct)
  case Nil
  show ?case by (simp add: embed_missing_def)
next
  case (snoc t ts)
  let ?d = "embed_missing sha found ts"
  have d: "embed_missing sha found (ts @ [t]) = (if dict_has found (sha t) then ?d else dict_set (sha t) t ?d)"
    by (simp add: embed_missing_def)
  have wf: "dict_wf ?d" using snoc.IH by blast
  show ?case
  proof (cases "dict_has found (sha t)")
    case True
    with snoc.IH d show ?thesis by auto
  next
    case False
    have "\<forall>(k, x) \<in> set (dict_set (sha t) t ?d). k = sha x \<and> x \<in> set (ts @ [t]) \<and> \<not> dict_has found k"
      using snoc.IH False unfolding set_dict_set [OF wf] by fastforce
    moreover have "\<forall>x \<in> set (ts @ [t]). dict_has found (sha x) \<or> dict_has (dict_set (sha t) t ?d) (sha x)"
      using snoc.IH by simp
    moreover have "dict_wf (dict_set (sha t) t ?d)" using wf by simp
    ultimately show ?thesis using False d by simp
  qed
qed

lemma embed_store_fold:
  assumes "embed_cache_ok sha e c" and "vectors_ok sha e f" and "distinct (map fst kts)"
    and "\<forall>(k, t) \<in> set kts. k = sha t"
    and "foldl (embed_store now) (c, f) (zip (map fst kts) (map e (map snd kts))) = (c', f')"
  shows "dict_wf c' \<and> (\<forall>(k, t, v) \<in> set c'. \<exists>x. k = sha x \<and> v = e x) \<and> vectors_ok sha e f'
    \<and> (\<forall>k. dict_has f' k \<longleftrightarrow> dict_has f k \<or> k \<in> fst ` set kts)"
proof -
  have "dict_wf c \<Longrightarrow> \<forall>(k, t, v) \<in> set c. \<exists>x. k = sha x \<and> v = e x \<Longrightarrow> vectors_ok sha e f \<Longrightarrow> ?thesis"
    using assms(4,5)
  proof (induction kts arbitrary: c f)
    case (Cons kt kts)
    obtain k t where kt: "kt = (k, t)" by (cases kt)
    have k: "k = sha t" using Cons.prems(4) kt by simp
    have "foldl (embed_store now) (to_end k (now, e t) c, dict_set k (e t) f) (zip (map fst kts) (map e (map snd kts))) = (c', f')"
      using Cons.prems(5) by (simp add: kt embed_store_def [of now "(c, f)"])
    moreover have "vectors_ok sha e (dict_set k (e t) f)" using Cons.prems(3) k by (auto simp: vectors_ok_def)
    moreover have "\<forall>(k', t', v) \<in> set (to_end k (now, e t) c). \<exists>x. k' = sha x \<and> v = e x"
      using Cons.prems(2) k by (auto simp: set_to_end)
    moreover have "\<forall>(k, t) \<in> set kts. k = sha t" using Cons.prems(4) by simp
    ultimately have IH: "dict_wf c' \<and> (\<forall>(k, t, v) \<in> set c'. \<exists>x. k = sha x \<and> v = e x) \<and> vectors_ok sha e f'
        \<and> (\<forall>k'. dict_has f' k' \<longleftrightarrow> dict_has (dict_set k (e t) f) k' \<or> k' \<in> fst ` set kts)"
      by (intro Cons.IH [OF dict_wf_to_end [OF Cons.prems(1)]])
    have keys: "dict_has (dict_set k (e t) f) k' \<or> k' \<in> fst ` set kts \<longleftrightarrow> dict_has f k' \<or> k' \<in> fst ` set (kt # kts)" for k'
      by (auto simp: kt)
    from IH show ?case unfolding keys .
  qed simp
  with assms(1,2) show ?thesis by (simp add: embed_cache_ok_def)
qed

text \<open>The embedding cache never changes a vector. If the model embeds each text on its own and SHA-256 has no collision on
  the texts, then from a good cache, whatever other threads that keep it good do meanwhile, the call
  returns exactly the model's vectors in order, asks the model only for distinct requested texts
  that have no entry younger than six hours, and leaves a good cache of at most 4,096 vectors.\<close>

theorem embed_cache_transparent:
  assumes "embed_cache_ok sha e cache" and "inj sha" and "\<And>ts. emb ts = map e ts"
    and "\<And>c. embed_cache_ok sha e c \<Longrightarrow> embed_cache_ok sha e (others c)"
    and "embed_texts_cached sha emb now texts cache others = (cache', asked, rows)"
  shows "rows = map (\<lambda>t. Some (e t)) texts \<and> embed_cache_ok sha e cache'
    \<and> distinct asked \<and> set asked \<subseteq> {t \<in> set texts. \<not> fresh_at now cache (sha t)}"
proof -
  obtain c1 f1 where L: "foldl (embed_lookup now) (cache, []) (map sha texts) = (c1, f1)" by fastforce
  have "vectors_ok sha e []" by (simp add: vectors_ok_def dict_get_def)
  from embed_lookup_fold [OF assms(1) this L] have 1: "embed_cache_ok sha e c1" "vectors_ok sha e f1"
    "\<forall>k'. dict_has f1 k' \<longleftrightarrow> k' \<in> set (map sha texts) \<and> fresh_at now cache k'" by (simp_all add: dict_get_def)
  let ?m = "embed_missing sha f1 texts"
  have m: "dict_wf ?m" "\<forall>(k, t) \<in> set ?m. k = sha t \<and> t \<in> set texts \<and> \<not> dict_has f1 k"
    "\<forall>t \<in> set texts. dict_has f1 (sha t) \<or> dict_has ?m (sha t)" using embed_missing_props by blast+
  have val: "vectors_ok sha e f \<Longrightarrow> dict_has f (sha t) \<Longrightarrow> dict_get f (sha t) = Some (e t)" for f t
    using assms(2) by (fastforce simp: vectors_ok_def inj_eq)
  have "map fst ?m = map sha (map snd ?m)" using m(2) by (auto intro: map_cong)
  then have asked: "distinct (map snd ?m)" using m(1) by (metis dict_wf_def distinct_map)
  show ?thesis
  proof (cases "?m = []")
    case True
    with assms(5) L have "rows = map (\<lambda>t. dict_get f1 (sha t)) texts" "asked = []" "cache' = others c1"
      by (auto simp: embed_texts_cached_def)
    moreover have "dict_has f1 (sha t)" if "t \<in> set texts" for t using m(3) True that by (auto simp: dict_get_def)
    ultimately show ?thesis using val [OF 1(2)] assms(4) [OF 1(1)] by simp
  next
    case False
    obtain c2 f2 where S: "foldl (embed_store now) (others c1, f1) (zip (map fst ?m) (map e (map snd ?m))) = (c2, f2)"
      by fastforce
    have "\<forall>(k, t) \<in> set ?m. k = sha t" using m(2) by blast
    from embed_store_fold [OF assms(4) [OF 1(1)] 1(2) m(1) [unfolded dict_wf_def] this S]
    have 2: "dict_wf c2" "\<forall>(k, t, v) \<in> set c2. \<exists>x. k = sha x \<and> v = e x" "vectors_ok sha e f2"
      "\<forall>k. dict_has f2 k \<longleftrightarrow> dict_has f1 k \<or> k \<in> fst ` set ?m" by blast+
    from assms(5) L S False have r: "rows = map (\<lambda>t. dict_get f2 (sha t)) texts" "asked = map snd ?m"
        "cache' = trim_to EMBED_CACHE_MAX c2"
      by (auto simp: embed_texts_cached_def assms(3))
    have "dict_has f2 (sha t)" if "t \<in> set texts" for t
      using m(3) that 2(4) by (auto simp: dict_get_None_iff)
    then have "rows = map (\<lambda>t. Some (e t)) texts" using val [OF 2(3)] by (simp add: r)
    moreover have "embed_cache_ok sha e cache'"
      using 2(2) trim_to_props(1) [of EMBED_CACHE_MAX c2] trim_to_props(2) [of EMBED_CACHE_MAX c2] trim_to_props(3) [OF 2(1)]
      unfolding embed_cache_ok_def r by blast
    moreover have "set asked \<subseteq> {t \<in> set texts. \<not> fresh_at now cache (sha t)}"
    proof
      fix t assume "t \<in> set asked"
      then obtain k where "(k, t) \<in> set ?m" by (auto simp: r)
      with m(2) have "k = sha t" "t \<in> set texts" "\<not> dict_has f1 k" by blast+
      with 1(3) show "t \<in> {t \<in> set texts. \<not> fresh_at now cache (sha t)}" by auto
    qed
    ultimately show ?thesis using asked by (simp add: r)
  qed
qed

theorem embed_cache_transparent_witness:
  "embed_texts_cached id (map (\<lambda>t. [of_nat (length t)])) 100 [''a'', ''bb'', ''a''] [(''a'', 50, [1])] id
     = ([(''a'', 50, [1]), (''bb'', 100, [2])], [''bb''], [Some [1], Some [2], Some [1]])
   \<and> embed_cache_ok id (\<lambda>t. [of_nat (length t)]) [(''a'', 50, [1]), (''bb'', 100, [2])]"
proof -
  have run: "embed_texts_cached id (map (\<lambda>t. [of_nat (length t)])) 100 [''a'', ''bb'', ''a''] [(''a'', 50, [1])] id
     = ([(''a'', 50, [1]), (''bb'', 100, [2])], [''bb''], [Some [1], Some [2], Some [1]])"
    by (simp add: embed_texts_cached_def embed_lookup_def embed_missing_def embed_store_def dict_get_def to_end_def dict_del_def
        trim_to_def EMBED_CACHE_MAX_def EMBED_CACHE_TTL_S_def)
  have "embed_cache_ok id (\<lambda>t. [of_nat (length t)]) [(''a'', 50, [1])]"
    by (simp add: embed_cache_ok_def dict_wf_def EMBED_CACHE_MAX_def)
  then have "embed_cache_ok id (\<lambda>t. [of_nat (length t)]) [(''a'', 50, [1]), (''bb'', 100, [2])]"
    using embed_cache_transparent [OF _ _ _ _ run, of "\<lambda>t. [of_nat (length t)]"] by simp
  with run show ?thesis by simp
qed

section \<open>What a search returns\<close>

lemma sort_key_set [simp]: "set (sort_key f xs) = set xs" "distinct (sort_key f xs) \<longleftrightarrow> distinct xs"
  by simp_all

lemma cosine_rank_all:
  "set (map fst (cosine_rank qv docs (int (length docs)))) = {..<length docs}"
  by (auto simp: cosine_rank_def Let_def image_image)

lemma bm25_in_range: "set (map fst (bm25_search bm q k)) \<subseteq> {..<length (bm_docs bm)}"
proof -
  have "set (py_slice_to k (sort_key (\<lambda>x. - snd x) (map (\<lambda>(i, d). (i, bm25_score bm (tok q) d)) (List.enumerate 0 (bm_docs bm)))))
      \<subseteq> set (map (\<lambda>(i, d). (i, bm25_score bm (tok q) d)) (List.enumerate 0 (bm_docs bm)))"
    by (rule subset_trans [OF set_py_slice_to]) simp
  then show ?thesis by (fastforce simp: bm25_search_def in_set_enumerate_eq)
qed

lemma rrf_fold_keys:
  "dict_wf d \<Longrightarrow> dict_wf (foldl (rrf_add k) d rs) \<and> fst ` set (foldl (rrf_add k) d rs) = fst ` set d \<union> snd ` set rs"
  by (induction rs arbitrary: d) (simp_all add: rrf_add_def)

lemma rrf_scores_keys: "dict_wf (rrf_scores k rankings) \<and> fst ` set (rrf_scores k rankings) = \<Union> (set ` set rankings)"
proof -
  have en: "snd ` set (List.enumerate 0 r) = set r" for r :: "'a list" by (metis map_snd_enumerate set_map)
  have "dict_wf d \<Longrightarrow> dict_wf (foldl (\<lambda>scores r. foldl (rrf_add k) scores (List.enumerate 0 r)) d rankings)
      \<and> fst ` set (foldl (\<lambda>scores r. foldl (rrf_add k) scores (List.enumerate 0 r)) d rankings)
          = fst ` set d \<union> \<Union> (set ` set rankings)" for d
  proof (induction rankings arbitrary: d)
    case (Cons r rs)
    from rrf_fold_keys [OF Cons.prems, of k "List.enumerate 0 r"]
    have "dict_wf (foldl (rrf_add k) d (List.enumerate 0 r))"
      "fst ` set (foldl (rrf_add k) d (List.enumerate 0 r)) = fst ` set d \<union> set r" by (simp_all only: en)
    with Cons.IH show ?case by (simp add: Un_assoc)
  qed simp
  from this [of "[]"] show ?thesis by (simp add: rrf_scores_def dict_wf_def)
qed

lemma rrf_fuse_all:
  "distinct (rrf_fuse rankings k None) \<and> set (rrf_fuse rankings k None) = \<Union> (set ` set rankings)"
  using rrf_scores_keys [of k rankings]
  by (simp add: rrf_fuse_def dict_wf_def distinct_map image_image [symmetric])

lemma rrf_fuse_cut: "rrf_fuse rankings k (Some n) = (if n = 0 then rrf_fuse rankings k None else py_slice_to n (rrf_fuse rankings k None))"
  by (simp add: rrf_fuse_def Let_def)

lemma deal_scores_get:
  "i < length ps \<Longrightarrow> dict_get (two_signal_deal_scores fit ps medians) i = Some (deal_score_of fit ps medians (ps ! i))"
proof -
  assume i: "i < length ps"
  have keys: "map fst (two_signal_deal_scores fit ps medians) = [0..<length ps]"
    by (simp add: two_signal_deal_scores_def comp_def case_prod_unfold)
  have "(i, ps ! i) \<in> set (List.enumerate 0 ps)" using i by (auto simp: in_set_enumerate_eq)
  then have "(i, deal_score_of fit ps medians (ps ! i)) \<in> set (two_signal_deal_scores fit ps medians)"
    unfolding two_signal_deal_scores_def by force
  moreover have "dict_wf (two_signal_deal_scores fit ps medians)" by (simp add: dict_wf_def keys)
  ultimately show ?thesis by (simp add: dict_get_in_set)
qed

lemma sort_key_keeps_order:
  fixes f :: "'a \<Rightarrow> 'b :: linorder"
  assumes sub: "subseq [x, y] xs" and le: "f x \<le> f y"
  shows "subseq [x, y] (sort_key f xs)"
proof (cases "f x = f y")
  case True
  have "subseq (filter (\<lambda>z. f z = f x) [x, y]) (filter (\<lambda>z. f z = f x) xs)" using sub by (rule subseq_filter)
  then have "subseq [x, y] (filter (\<lambda>z. f z = f x) (sort_key f xs))" using True by (simp add: sort_key_stable)
  then show ?thesis by (meson subseq_filter_left subseq_order.trans)
next
  case False
  then have lt: "f x < f y" using le by simp
  have "set [x, y] \<subseteq> set xs" using sub by (induction "[x, y]" xs rule: list_emb.induct) (auto simp: subseq_singleton_left)
  then have "x \<in> set (sort_key f xs)" "y \<in> set (sort_key f xs)" by simp_all
  then obtain i j where ij: "i < length (sort_key f xs)" "j < length (sort_key f xs)" "sort_key f xs ! i = x" "sort_key f xs ! j = y"
    by (metis in_set_conv_nth)
  have "i < j"
  proof (rule ccontr)
    assume "\<not> i < j"
    then have "j < i \<or> i = j" by auto
    then have "f y \<le> f x" using ij sort_key_sorted_wrt [of f xs] by (auto simp: sorted_wrt_iff_nth_less)
    with lt show False by simp
  qed
  have "drop i (sort_key f xs) = x # drop (Suc i) (sort_key f xs)" using ij by (metis Cons_nth_drop_Suc)
  moreover have "y \<in> set (drop (Suc i) (sort_key f xs))"
    using \<open>i < j\<close> ij(2,4) nth_mem [of "j - Suc i" "drop (Suc i) (sort_key f xs)"] by simp
  ultimately have "subseq [x, y] (drop i (sort_key f xs))" by (simp add: subseq_singleton_left)
  then show ?thesis by (metis append_take_drop_id subseq_order.trans suffixI suffix_imp_subseq)
qed

lemma subseq2_nth: "subseq [x, y] xs \<Longrightarrow> \<exists>i j. i < j \<and> j < length xs \<and> xs ! i = x \<and> xs ! j = y"
proof (induction xs)
  case (Cons a xs)
  show ?case
  proof (cases "a = x \<and> y \<in> set xs")
    case True
    then obtain j where "j < length xs" "xs ! j = y" by (auto simp: in_set_conv_nth)
    with True show ?thesis by (intro exI [of _ 0] exI [of _ "Suc j"]) simp
  next
    case False
    with Cons.prems have "subseq [x, y] xs"
      by (auto simp: subseq_singleton_left split: if_splits elim: list_emb.cases)
    from Cons.IH [OF this] obtain i j where "i < j" "j < length xs" "xs ! i = x" "xs ! j = y" by blast
    then show ?thesis by (intro exI [of _ "Suc i"] exI [of _ "Suc j"]) simp
  qed
qed simp

lemma rank_rel_nth:
  assumes "distinct ids" and "i < length ids"
  shows "dict_get_or (rank_rel ids) (ids ! i) 0 = 1 - of_nat i / of_nat (max 1 (length ids - 1))"
proof -
  let ?g = "\<lambda>i. 1 - of_nat i / of_nat (max 1 (length ids - 1)) :: pyfloat"
  have "dict_get (foldl (\<lambda>d (i, x). dict_set x (?g i) d) d (List.enumerate n ys)) (ys ! j) = Some (?g (n + j))"
    if "distinct ys" "j < length ys" for d n j and ys :: "'a list"
    using that
  proof (induction ys arbitrary: d n j)
    case (Cons y ys)
    have other: "dict_get (foldl (\<lambda>d (i, x). dict_set x (?g i) d) d (List.enumerate n zs)) z = dict_get d z"
      if "z \<notin> set zs" for z d n and zs :: "'a list" using that by (induction zs arbitrary: d n) auto
    show ?case
    proof (cases j)
      case 0
      with Cons.prems other [of y ys] show ?thesis by simp
    next
      case (Suc j')
      with Cons.IH [of j' _ "Suc n"] Cons.prems show ?thesis by simp
    qed
  qed simp
  from this [OF assms, of "[]" 0] show ?thesis
    by (simp add: rank_rel_def dict_get_or_def dict_get_def)
qed

text \<open>The value rerank only reorders, and it respects dominance: no result is lost or added, and of two results the
  one that was retrieved first and whose (clamped) deal score is at least as good stays in front.\<close>

theorem value_rerank_dominance:
  assumes "distinct ids" and "0 \<le> alpha" and "alpha \<le> 1"
  shows "mset (value_rerank ids deal alpha) = mset ids
    \<and> (subseq [x, y] ids \<and> max 0 (dict_get_or deal y 0) \<le> max 0 (dict_get_or deal x 0)
        \<longrightarrow> subseq [x, y] (value_rerank ids deal alpha))"
proof (intro conjI impI)
  show "mset (value_rerank ids deal alpha) = mset ids" by (simp add: value_rerank_def)
  assume A: "subseq [x, y] ids \<and> max 0 (dict_get_or deal y 0) \<le> max 0 (dict_get_or deal x 0)"
  from subseq2_nth [OF conjunct1 [OF A]] obtain i j where ij: "i < j" "j < length ids" "ids ! i = x" "ids ! j = y"
    by (elim exE conjE)
  have i: "i < length ids" using ij(1,2) by (rule order.strict_trans)
  have "real i / real (max 1 (length ids - 1)) \<le> real j / real (max 1 (length ids - 1))"
    using ij(1) by (intro divide_right_mono) simp_all
  then have "dict_get_or (rank_rel ids) (ids ! j) 0 \<le> dict_get_or (rank_rel ids) (ids ! i) 0"
    unfolding rank_rel_nth [OF assms(1) ij(2)] rank_rel_nth [OF assms(1) i] by linarith
  then have "dict_get_or (rank_rel ids) y 0 \<le> dict_get_or (rank_rel ids) x 0" by (simp only: ij(3,4))
  then have "(1 - alpha) * dict_get_or (rank_rel ids) y 0 \<le> (1 - alpha) * dict_get_or (rank_rel ids) x 0"
    using assms(3) by (intro mult_left_mono) simp_all
  moreover have "alpha * max 0 (dict_get_or deal y 0) \<le> alpha * max 0 (dict_get_or deal x 0)"
    using A assms(2) by (intro mult_left_mono) simp_all
  ultimately have "- combined ids deal alpha x \<le> - combined ids deal alpha y" by (simp add: combined_def)
  with A show "subseq [x, y] (value_rerank ids deal alpha)"
    unfolding value_rerank_def by (intro sort_key_keeps_order) simp_all
qed

theorem value_rerank_dominance_witness:
  "subseq [1, 2] (value_rerank [1, 2 :: nat] [(1, 0.5), (2, 0.2)] 0.5)"
  using value_rerank_dominance [of "[1, 2 :: nat]" "0.5" "[(1, 0.5), (2, 0.2)]" 1 2]
  by (simp add: dict_get_or_def dict_get_def)

text \<open>C12: A catalog search returns the asked number of results, or the whole catalog if it is smaller: distinct
  positions, each with its own product and its two-signal deal score; and a listing that looks 15
  percent or more under its median but is more than 70 percent under its model's fair price
  gets no positive score.\<close>

theorem search_catalog_results:
  assumes "length embeddings = length ps" and "0 \<le> k"
  shows "let hits = search_catalog emb fit q ps embeddings medians k alpha in
     length hits = min (nat k) (length ps) \<and> distinct (map fst hits)
   \<and> (\<forall>(i, p, s) \<in> set hits. i < length ps \<and> p = ps ! i \<and> s = deal_score_of fit ps medians p
        \<and> (\<forall>model. category_models fit ps (category p) = Some model \<and> 0 \<le> price p
             \<and> 0.15 \<le> median_signal (price p) (dict_get_or medians (p_id p) 0)
             \<and> 0.70 < residual_fraction (price p) (model (featurize p)) \<longrightarrow> s \<le> 0))"
proof -
  let ?n = "length ps"
  let ?sem = "map fst (cosine_rank (hd (emb [q])) embeddings (int ?n))"
  let ?kw = "map fst (bm25_search (new_bm25 (map product_text ps)) q (int ?n))"
  let ?fused = "rrf_fuse [?sem, ?kw] 60 (Some (max (k * 3) k))"
  let ?ids = "value_rerank ?fused (two_signal_deal_scores fit ps medians) alpha"
  have "set ?sem = {..<?n}" using cosine_rank_all [of _ embeddings] assms(1) by simp
  moreover have "set ?kw \<subseteq> {..<?n}"
    using bm25_in_range [of "new_bm25 (map product_text ps)"] by (simp add: new_bm25_def Let_def)
  ultimately have all: "set (rrf_fuse [?sem, ?kw] 60 None) = {..<?n}" "distinct (rrf_fuse [?sem, ?kw] 60 None)"
    using rrf_fuse_all [of "[?sem, ?kw]" 60] by auto
  then have lenall: "length (rrf_fuse [?sem, ?kw] 60 None) = ?n" by (metis card_lessThan distinct_card)
  have fused: "?fused = (if k = 0 then rrf_fuse [?sem, ?kw] 60 None else take (nat (3 * k)) (rrf_fuse [?sem, ?kw] 60 None))"
    using assms(2) by (simp add: rrf_fuse_cut py_slice_to_def max_def mult.commute)
  then have f: "distinct ?fused" "set ?fused \<subseteq> {..<?n}" "length ?fused = (if k = 0 then ?n else min ?n (nat (3 * k)))"
    using all lenall set_take_subset [of "nat (3 * k)" "rrf_fuse [?sem, ?kw] 60 None"] by auto
  have ids: "distinct ?ids" "set ?ids \<subseteq> {..<?n}" "length ?ids = length ?fused"
    using f by (simp_all add: value_rerank_def)
  have hits: "search_catalog emb fit q ps embeddings medians k alpha =
      map (\<lambda>i. (i, ps ! i, the (dict_get (two_signal_deal_scores fit ps medians) i))) (take (nat k) ?ids)"
    using assms(2) by (simp add: search_catalog_def Let_def py_slice_to_def)
  have trap: "deal_score_of fit ps medians p \<le> 0"
    if "category_models fit ps (category p) = Some model" "0 \<le> price p"
      "0.15 \<le> median_signal (price p) (dict_get_or medians (p_id p) 0)"
      "0.70 < residual_fraction (price p) (model (featurize p))" for p model
  proof -
    have "median_signal (price p) m \<le> 1" for m
      using that(2) by (auto simp: median_signal_def field_simps split: if_splits)
    with that show ?thesis by (simp add: deal_score_of_def Let_def)
  qed
  have "i < ?n \<and> p = ps ! i \<and> s = deal_score_of fit ps medians p"
    if "(i, p, s) \<in> set (search_catalog emb fit q ps embeddings medians k alpha)" for i p s
  proof -
    from that ids(2) have "i < ?n" "p = ps ! i" "s = the (dict_get (two_signal_deal_scores fit ps medians) i)"
      unfolding hits by (auto dest: in_set_takeD)
    then show ?thesis by (simp add: deal_scores_get)
  qed
  moreover have "length (search_catalog emb fit q ps embeddings medians k alpha) = min (nat k) ?n"
  proof -
    have "length ?ids = (if k = 0 then ?n else min ?n (nat (3 * k)))" by (simp only: ids(3) f(3))
    then show ?thesis using assms(2) unfolding hits length_map length_take by auto
  qed
  moreover have "distinct (map fst (search_catalog emb fit q ps embeddings medians k alpha))"
    using ids(1) by (simp add: hits comp_def)
  ultimately show ?thesis using trap by (fastforce simp: Let_def)
qed

theorem search_catalog_results_witness:
  "length (search_catalog (map (\<lambda>_. [1])) (\<lambda>_ _ _. 0) ''tv'' [mk_product ''1'' ''tv'' None ''x'' 9 ''u'' ''BestBuy''] [[1]] [] 5 0.5) = 1"
  using search_catalog_results [of "[[1]]" "[mk_product ''1'' ''tv'' None ''x'' 9 ''u'' ''BestBuy'']" 5
     "map (\<lambda>_. [1])" "\<lambda>_ _ _. 0" "''tv''" "[]" "0.5"]
  by (simp add: Let_def)

end
