(* ===== verification/Rag.thy ===== *)
theory Rag
  imports Search Live_Sources Rx_Facts
begin

text \<open>
  \<open>dealfinder/rag.py\<close>: retrieval of listings with their verdict, the numbered context block, the
  faithfulness check, the deterministic and the LLM answer, and the grounding evaluation.

  Arguments for what is outside the repository: the embedding model \<open>emb\<close> and the model fit \<open>fit\<close> (as in
  \<open>Search\<close>), the rows of the pgvector store \<open>pg\<close>, and \<open>chat\<close>, the LLM client's answer to the two
  messages (\<open>None\<close> when it raises, \<open>Some None\<close> for an empty completion).
\<close>

section \<open>Retrieval\<close>

record retrieved =
  rt_id :: string
  rt_title :: string
  rt_price :: pyfloat
  rt_source :: string
  rt_category :: string
  rt_similarity :: pyfloat
  rt_verdict :: label
  rt_median_signal :: pyfloat
  rt_fair_price :: pyfloat
  rt_residual_frac :: pyfloat
  rt_reason :: string

definition load_medians :: "(string \<times> pyfloat) list \<Rightarrow> (string, pyfloat) dict" where
  \<comment> \<open>the snapshot's rows as id and \<open>median_price_at_capture\<close>\<close>
  "load_medians rows = foldl (\<lambda>d (i, m). dict_set i m d) [] rows"

definition verdict_for :: "product \<Rightarrow> pyfloat \<Rightarrow> (string \<Rightarrow> (int list \<Rightarrow> pyfloat) option) \<Rightarrow> verdict_rec" where
  "verdict_for p median mdls =
     (let fp = (case mdls (category p) of Some model \<Rightarrow> model (featurize p) | None \<Rightarrow> price p)
      in verdict (price p) median fp)"

definition retrieve_pgvector :: "(string \<times> pyfloat) list \<Rightarrow> product list \<Rightarrow> (product \<times> pyfloat) list" where
  "retrieve_pgvector pg ps =
     (let by_id = foldl (\<lambda>d p. dict_set (p_id p) p d) [] ps
      in List.map_filter (\<lambda>(i, sim). map_option (\<lambda>p. (p, sim)) (dict_get by_id i)) pg)"

definition retrieved_item :: "verdict_rec \<Rightarrow> product \<Rightarrow> pyfloat \<Rightarrow> retrieved" where
  "retrieved_item v p score =
     \<lparr>rt_id = p_id p, rt_title = title p, rt_price = price p, rt_source = source p, rt_category = category p,
      rt_similarity = py_round 4 score, rt_verdict = v_label v, rt_median_signal = py_round 4 (v_median_signal v),
      rt_fair_price = py_round 2 (v_fair_price v), rt_residual_frac = py_round 4 (v_residual_frac v),
      rt_reason = v_reason v\<rparr>"

definition retrieve ::
  "(string list \<Rightarrow> pyfloat list list) \<Rightarrow> fitter \<Rightarrow> (string \<times> pyfloat) list \<Rightarrow> (string \<times> pyfloat) list option \<Rightarrow>
   product list \<Rightarrow> pyfloat list list \<Rightarrow> string \<Rightarrow> int \<Rightarrow> retrieved list" where
  \<comment> \<open>\<open>pg\<close>: the rows of the vector store when the caller opts into it\<close>
  "retrieve emb fit snapshot pg ps embeddings q k =
     (let medians = load_medians snapshot; mdls = category_models fit ps;
          ranked = (case pg of
             Some rows \<Rightarrow> retrieve_pgvector rows ps
           | None \<Rightarrow> map (\<lambda>(i, p, s). (p, s)) (search_catalog emb fit q ps embeddings medians k 0.5))
      in map (\<lambda>(p, score). retrieved_item (verdict_for p (dict_get_or medians (p_id p) 0) mdls) p score) ranked)"

section \<open>The context block\<close>

definition context_line :: "nat \<times> retrieved \<Rightarrow> string" where
  "context_line ni =
     (let (i, it) = ni in
      ''['' @ nat_digits i @ ''] '' @ rt_title it @ '' '' @ em_dash @ '' $'' @ fmt_fixed 2 (rt_price it) @ '' ('' @ rt_source it @
      '') ['' @ py_upper (label_str (rt_verdict it)) @ ''] '' @ em_dash @ '' '' @ rt_reason it)"

definition build_context :: "retrieved list \<Rightarrow> string" where
  "build_context items = py_join [CHR 10] (map context_line (List.enumerate 1 items))"

section \<open>The faithfulness check\<close>

definition PRICE_TAG :: rx where
  \<comment> \<open>\<open>\$\s?(\d[\d,]*(?:\.\d{1,2})?)\<close>\<close>
  "PRICE_TAG = Cat (lit (CHR ''$'')) (Cat (opt (Cls is_space))
     (Grp (Cat rdigit (Cat (Star (Cls (\<lambda>c. is_digit c \<or> c = CHR '',''))) (opt (seqs [lit (CHR ''.''), rdigit, opt rdigit]))))))"

definition norm_text :: "string \<Rightarrow> string" where
  "norm_text s = py_strip (rx_sub (plus (Cls (\<lambda>c. \<not> is_token_char c))) '' '' (py_lower s))"

definition price_groups :: "string \<Rightarrow> string list" where
  \<comment> \<open>group 1 of the matches of \<open>finditer\<close>\<close>
  "price_groups s = List.map_filter snd (found_in PRICE_TAG s)"

definition prices_in :: "string \<Rightarrow> string list" where
  "prices_in s = py_dedupe (List.map_filter (\<lambda>g. map_option (fmt_fixed 2) (parse_float (filter (\<lambda>c. c \<noteq> CHR '','') g))) (price_groups s))"

definition MODEL_CODE :: rx where
  \<comment> \<open>\<open>[a-z]+\d[a-z0-9]*|\d+[a-z]+[a-z0-9]*\<close>\<close>
  "MODEL_CODE = Alt (Cat (Cat (plus (Cls is_lower)) rdigit) (Star (Cls is_token_char)))
                    (Cat (Cat (plus rdigit) (plus (Cls is_lower))) (Star (Cls is_token_char)))"

definition is_grounded :: "string \<Rightarrow> retrieved list \<Rightarrow> bool" where
  "is_grounded ans items \<longleftrightarrow>
     items \<noteq> []
   \<and> set (prices_in ans) \<subseteq> set (prices_in (build_context items))
   \<and> (let haystack = '' '' @ norm_text (py_join '' '' (map rt_title items)) @ '' ''
      in list_all (\<lambda>t. length t < 3 \<or> py_in ('' '' @ t @ '' '') haystack) (rx_findall MODEL_CODE (norm_text ans)))"

section \<open>The deterministic answer\<close>

record rag_answer =
  ra_text :: string
  ra_sources :: "string list"
  ra_grounded :: bool
  ra_used_llm :: bool

definition hero_part :: "retrieved \<Rightarrow> string" where
  "hero_part it = ''Best value: '' @ rt_title it @ '' at $'' @ fmt_fixed 2 (rt_price it) @ '' ('' @
     fmt_fixed 0 (rt_median_signal it * 100) @ ''% under the same-query median).''"

definition runner_part :: "retrieved \<Rightarrow> string" where
  "runner_part it = ''Also consider: '' @ rt_title it @ '' at $'' @ fmt_fixed 2 (rt_price it) @ ''.''"

definition trap_part :: "retrieved \<Rightarrow> string" where
  "trap_part it = ''Avoid: '' @ rt_title it @ '' at $'' @ fmt_fixed 2 (rt_price it) @ '' '' @ em_dash @
     '' flagged SUSPICIOUS: it reads '' @ fmt_fixed 0 (rt_median_signal it * 100) @
     ''% under median but sits far below its modeled fair price, the signature of a refurb/mislisting rather than a real bargain.''"

definition find_hero :: "retrieved list \<Rightarrow> retrieved" where
  "find_hero items = (let deals = filter (\<lambda>it. rt_verdict it = Deal) items in if deals \<noteq> [] then hd deals else hd items)"

definition runners_of :: "retrieved list \<Rightarrow> retrieved list" where
  "runners_of items = filter (\<lambda>it. rt_id it \<noteq> rt_id (find_hero items) \<and> rt_verdict it \<noteq> Suspicious) items"

definition traps_of :: "retrieved list \<Rightarrow> retrieved list" where
  "traps_of items = filter (\<lambda>it. rt_verdict it = Suspicious) items"

definition NOTHING_FOUND :: string where
  "NOTHING_FOUND = ''No matching listings were retrieved, so there'' @ [quote] @ ''s nothing to recommend.''"

definition answer_parts :: "retrieved list \<Rightarrow> (string \<times> string) list" where
  \<comment> \<open>the ids used and the sentences\<close>
  "answer_parts items =
     (rt_id (find_hero items), hero_part (find_hero items))
     # map (\<lambda>r. (rt_id r, runner_part r)) (take 1 (runners_of items))
     @ map (\<lambda>s. (rt_id s, trap_part s)) (take 1 (traps_of items))"

definition extractive_answer :: "retrieved list \<Rightarrow> rag_answer" where
  \<comment> \<open>\<open>_deterministic_answer\<close>\<close>
  "extractive_answer items =
     (if items = [] then \<lparr>ra_text = NOTHING_FOUND, ra_sources = [], ra_grounded = True, ra_used_llm = False\<rparr>
      else
        (let text = py_join '' '' (map snd (answer_parts items))
         in \<lparr>ra_text = text, ra_sources = map fst (answer_parts items), ra_grounded = is_grounded text items,
             ra_used_llm = False\<rparr>))"

section \<open>The LLM answer\<close>

definition SYSTEM_PROMPT :: string where
  "SYSTEM_PROMPT = ''You are DealFinder'' @ [quote] @ ''s shopping assistant. Answer ONLY using the numbered '' @
     ''listings provided. Cite every item you mention by its exact title and price. '' @
     ''If none of the listings qualify, say so plainly. Do NOT invent products, '' @
     ''prices, brands, or specs that are not in the listings.''"

fun before_text :: "string \<Rightarrow> string \<Rightarrow> string" where
  \<comment> \<open>\<open>s.split(sep)[0]\<close>\<close>
  "before_text sep [] = []"
| "before_text sep (c # s) = (if prefix sep (c # s) then [] else c # before_text sep s)"

definition title_cited :: "retrieved \<Rightarrow> string \<Rightarrow> bool" where
  "title_cited it text =
     (let head = py_join '' '' (take 3 (py_words (norm_text (rt_title it))))
      in (head \<noteq> [] \<and> py_in head (norm_text text)) \<or> fmt_fixed 2 (rt_price it) \<in> set (prices_in text))"

definition llm_messages :: "string \<Rightarrow> retrieved list \<Rightarrow> (string \<times> string) list" where
  "llm_messages q items =
     [(''system'', SYSTEM_PROMPT),
      (''user'', ''Question: '' @ q @ [CHR 10, CHR 10] @ ''Listings (the ONLY evidence you may use):'' @ [CHR 10] @
         build_context items @ [CHR 10, CHR 10] @
         ''Recommend the best pick, a runner-up, and warn about any SUSPICIOUS trap. Cite each by title and price.'')]"

type_synonym chat = "(string \<times> string) list \<Rightarrow> string option option"

definition llm_answer :: "chat \<Rightarrow> string \<Rightarrow> retrieved list \<Rightarrow> rag_answer option" where
  \<comment> \<open>\<open>None\<close>: the client raised\<close>
  "llm_answer chat q items =
     map_option (\<lambda>reply.
       let text = py_strip (case reply of None \<Rightarrow> '''' | Some t \<Rightarrow> t);
           used = map rt_id (filter (\<lambda>it. norm_text (before_text ('' '' @ em_dash @ '' '') (rt_title it)) \<noteq> [] \<and> title_cited it text) items)
       in \<lparr>ra_text = text, ra_sources = (if used = [] then map rt_id items else used),
           ra_grounded = is_grounded text items, ra_used_llm = True\<rparr>) (chat (llm_messages q items))"

definition rag_answer_for :: "chat option \<Rightarrow> string \<Rightarrow> retrieved list \<Rightarrow> rag_answer" where
  \<comment> \<open>\<open>answer\<close> behind the retrieval; \<open>None\<close>: no client is available\<close>
  "rag_answer_for client q items =
     (case client of
        None \<Rightarrow> extractive_answer items
      | Some chat \<Rightarrow> (case llm_answer chat q items of Some a \<Rightarrow> a | None \<Rightarrow> extractive_answer items))"

section \<open>The grounding evaluation\<close>

record golden = g_query :: string  g_hero :: string
record rag_row = rr_q :: string  rr_grounded :: bool  rr_hero_ok :: bool  rr_top :: "label option"  rr_used :: "string list"

definition eval_row :: "(string \<Rightarrow> retrieved list) \<Rightarrow> golden \<Rightarrow> rag_row" where
  "eval_row ret g =
     (let items = ret (g_query g); a = extractive_answer items
      in \<lparr>rr_q = g_query g, rr_grounded = ra_grounded a, rr_hero_ok = py_in (py_lower (g_hero g)) (py_lower (ra_text a)),
          rr_top = map_option rt_verdict (case items of [] \<Rightarrow> None | it # _ \<Rightarrow> Some it), rr_used = ra_sources a\<rparr>)"

definition GOLDEN_QUERIES :: "golden list" where
  "GOLDEN_QUERIES =
     [\<lparr>g_query = ''best noise-cancelling headphones under $150'', g_hero = ''Anker Soundcore Q20i''\<rparr>,
      \<lparr>g_query = ''cheapest 4k monitor'', g_hero = ''MSI Pro MP273U''\<rparr>]"

definition evaluate_rag :: "(string \<Rightarrow> retrieved list) \<Rightarrow> golden list \<Rightarrow> nat \<times> pyfloat \<times> rag_row list" where
  "evaluate_rag ret queries =
     (let gs = (if queries = [] then GOLDEN_QUERIES else queries); rows = map (eval_row ret) gs; n = length gs
      in (n, if n = 0 then 0 else of_nat (length (filter rr_grounded rows)) / of_nat n, rows))"

section \<open>Prices in a text\<close>

lemma PRICE_TAG_plain [simp]: "plain PRICE_TAG"
  by (simp add: PRICE_TAG_def lit_def opt_def rdigit_def seqs_def)

lemma PRICE_TAG_rejects:
  "rejects c PRICE_TAG \<longleftrightarrow> c \<notin> {CHR ''$'', CHR '','', CHR ''.''} \<and> \<not> is_space c \<and> \<not> is_digit c"
  by (auto simp: PRICE_TAG_def lit_def opt_def rdigit_def seqs_def)

lemma PRICE_TAG_start: "c \<noteq> CHR ''$'' \<Longrightarrow> rx_once PRICE_TAG (c # s) = None"
  by (simp add: rx_once_def rx_at_def PRICE_TAG_def lit_def)

lemma found_no_dollar: "CHR ''$'' \<notin> set u \<Longrightarrow> found_in PRICE_TAG (u @ t) = found_in PRICE_TAG t"
  by (induction u) (auto simp: found_in_skip PRICE_TAG_start)

lemma char_facts [simp]:
  "is_digit c \<Longrightarrow> \<not> is_space c" "is_digit c \<Longrightarrow> \<not> is_lower c" "is_digit c \<Longrightarrow> \<not> is_upper c" "is_lower c \<Longrightarrow> \<not> is_space c"
  by (auto simp: char_defs)

lemma digit_not_mark [simp]: "is_digit c \<Longrightarrow> c \<noteq> CHR ''$''" "is_digit c \<Longrightarrow> c \<noteq> CHR ''.''" "is_digit c \<Longrightarrow> c \<noteq> CHR '',''"
  by (auto simp: char_defs)

lemma fmt_fixed_chars: "c \<in> set (fmt_fixed n x) \<Longrightarrow> is_digit c \<or> c = CHR ''.'' \<or> c = CHR ''-''"
  by (auto simp: fmt_fixed_def Let_def pad_left_def is_digit_def ord_def dest: nat_digits_digits split: if_splits)

lemma fmt_fixed_no_dollar: "CHR ''$'' \<notin> set (fmt_fixed n x)"
  using fmt_fixed_chars [of "CHR ''$''" n x] by (auto simp: char_defs)

lemma fmt_two:
  "\<exists>m d ds d1 d2. fmt_fixed 2 x = m @ d # ds @ [CHR ''.'', d1, d2] \<and> is_digit d \<and> (\<forall>c \<in> set ds. is_digit c)
     \<and> is_digit d1 \<and> is_digit d2 \<and> (m = '''' \<or> m = ''-'')"
proof -
  define k where "k = nat \<bar>round_half_even (x * 10 ^ 2)\<bar>"
  obtain d ds where i: "nat_digits (k div 100) = d # ds" "is_digit d" "\<forall>c \<in> set ds. is_digit c"
    by (metis list.exhaust list.set_intros nat_digits_digits nat_digits_nonempty)
  have "length (nat_digits (k mod 100)) \<le> 2" using length_nat_digits [of "k mod 100" 2] by simp
  then have "length (pad_left 2 (nat_digits (k mod 100))) = 2" by (simp add: pad_left_def)
  then obtain d1 d2 where p: "pad_left 2 (nat_digits (k mod 100)) = [d1, d2]"
    by (cases "pad_left 2 (nat_digits (k mod 100))"; cases "tl (pad_left 2 (nat_digits (k mod 100)))") simp_all
  have "c \<in> set (pad_left 2 (nat_digits (k mod 100))) \<Longrightarrow> is_digit c" for c
    by (auto simp: pad_left_def char_defs dest: nat_digits_digits)
  then have "is_digit d1" "is_digit d2" unfolding p by simp_all
  moreover have "fmt_fixed 2 x = (if round_half_even (x * 10 ^ 2) < 0 \<or> round_half_even (x * 10 ^ 2) = 0 \<and> x < 0 then ''-'' else '''')
      @ d # ds @ [CHR ''.'', d1, d2]"
    unfolding fmt_fixed_def Let_def k_def [symmetric] using i(1) p by simp
  ultimately show ?thesis using i(2,3)
    by (intro exI [of _ "if round_half_even (x * 10 ^ 2) < 0 \<or> round_half_even (x * 10 ^ 2) = 0 \<and> x < 0 then ''-'' else ''''"]
        exI [of _ d] exI [of _ ds] exI [of _ d1] exI [of _ d2]) simp
qed

lemma rx_once_hd: "rx_run r (None, s, None) \<noteq> [] \<Longrightarrow> rx_once r s = Some (snd (hd (rx_run r (None, s, None))))"
  by (cases "rx_run r (None, s, None)") (simp_all add: rx_once_def rx_at_def)

lemma rx_once_price:
  assumes "is_digit d" and "\<forall>c \<in> set ds. is_digit c" and "is_digit d1" and "is_digit d2" and "u = [] \<or> \<not> is_digit (hd u)"
  shows "rx_once PRICE_TAG (CHR ''$'' # d # ds @ [CHR ''.'', d1, d2] @ u) = Some (u, Some (d # ds @ [CHR ''.'', d1, d2]))"
proof -
  let ?dc = "\<lambda>c. is_digit c \<or> c = CHR '',''"
  let ?tail = "CHR ''.'' # d1 # d2 # u"
  let ?frac = "opt (seqs [lit (CHR ''.''), rdigit, opt rdigit])"
  have drop: "dropWhile ?dc (ds @ ?tail) = ?tail"
    using assms(2) by (induction ds) (auto simp: char_defs)
  let ?stars = "rx_run (Star (Cls ?dc)) (Some d, ds @ ?tail, None)"
  have "hd ?stars = (pos_after (Some d) (takeWhile ?dc (ds @ ?tail)), ?tail, None)"
    unfolding hd_rx_run_Star_Cls drop ..
  then obtain pv where hd: "hd ?stars = (pv, ?tail, None)" by simp
  have frac: "rx_run ?frac (pv, ?tail, None) \<noteq> []" "hd (rx_run ?frac (pv, ?tail, None)) = (Some d2, u, None)"
    using assms(3,4) by (simp_all add: opt_def seqs_def lit_def rdigit_def)
  have X: "rx_run (Cat rdigit (Cat (Star (Cls ?dc)) ?frac)) (Some (CHR ''$''), d # ds @ ?tail, None)
      = concat (map (rx_run ?frac) ?stars)" using assms(1) by (simp add: rdigit_def)
  have ne: "?stars \<noteq> []" by simp
  from hd_concat_map [of ?stars "rx_run ?frac", OF ne] hd frac
  have hdX: "hd (concat (map (rx_run ?frac) ?stars)) = (Some d2, u, None)" by simp
  have neX: "concat (map (rx_run ?frac) ?stars) \<noteq> []" using ne hd frac by (cases ?stars) auto
  have "rx_run PRICE_TAG (None, CHR ''$'' # d # ds @ ?tail, None)
      = rx_run (Grp (Cat rdigit (Cat (Star (Cls ?dc)) ?frac))) (Some (CHR ''$''), d # ds @ ?tail, None)"
    using assms(1) unfolding PRICE_TAG_def by (simp add: lit_def opt_def del: rx_run.simps(10))
  also have "\<dots> = map (\<lambda>(pv', s', g'). (pv', s', Some (take (length (d # ds @ ?tail) - length s') (d # ds @ ?tail))))
      (concat (map (rx_run ?frac) ?stars))" unfolding rx_run.simps(10) X ..
  finally have run: "rx_run PRICE_TAG (None, CHR ''$'' # d # ds @ ?tail, None) = \<dots>" .
  have "take (length (d # ds @ ?tail) - length u) (d # ds @ ?tail) = d # ds @ [CHR ''.'', d1, d2]"
    by (simp add: take_Cons')
  then show ?thesis
    using rx_once_hd [of PRICE_TAG "CHR ''$'' # d # ds @ ?tail"] neX hdX unfolding run by (simp add: hd_map)
qed

lemma price_seg:
  assumes "u = [] \<or> \<not> is_digit (hd u)"
  shows "found_in PRICE_TAG (CHR ''$'' # fmt_fixed 2 x @ u) = found_in PRICE_TAG (CHR ''$'' # fmt_fixed 2 x) @ found_in PRICE_TAG u"
proof -
  obtain m d ds d1 d2 where f: "fmt_fixed 2 x = m @ d # ds @ [CHR ''.'', d1, d2]" and d: "is_digit d" "\<forall>c \<in> set ds. is_digit c"
    "is_digit d1" "is_digit d2" and m: "m = '''' \<or> m = ''-''" using fmt_two [of x] by blast
  show ?thesis
  proof (cases "m = ''''")
    case True
    have once: "rx_once PRICE_TAG (CHR ''$'' # fmt_fixed 2 x @ v) = Some (v, Some (fmt_fixed 2 x))"
      if "v = [] \<or> \<not> is_digit (hd v)" for v
      using rx_once_price [OF d that] by (simp add: f True)
    have step: "found_in PRICE_TAG (CHR ''$'' # fmt_fixed 2 x @ v) = (CHR ''$'' # fmt_fixed 2 x, Some (fmt_fixed 2 x)) # found_in PRICE_TAG v"
      if "v = [] \<or> \<not> is_digit (hd v)" for v
      using found_in_step [OF PRICE_TAG_plain, of "CHR ''$'' # fmt_fixed 2 x @ v"] once [OF that] by simp
    from step [of "[]"] step [OF assms] show ?thesis by simp
  next
    case False
    with m f have f: "fmt_fixed 2 x = CHR ''-'' # d # ds @ [CHR ''.'', d1, d2]" by simp
    have "rx_once PRICE_TAG (CHR ''$'' # CHR ''-'' # v) = None" for v
      by (simp add: rx_once_def rx_at_def PRICE_TAG_def lit_def opt_def rdigit_def char_defs)
    then have skip: "found_in PRICE_TAG (CHR ''$'' # fmt_fixed 2 x @ v) = found_in PRICE_TAG (fmt_fixed 2 x @ v)" for v
      by (simp add: f found_in_skip)
    from skip [of u] skip [of "[]"] show ?thesis
      using found_no_dollar [OF fmt_fixed_no_dollar, of 2 x u] found_no_dollar [OF fmt_fixed_no_dollar, of 2 x "[]"] by simp
  qed
qed

definition tags :: "string \<Rightarrow> string set" where "tags s = set (price_groups s)"

definition own_tags :: "retrieved \<Rightarrow> string set" where
  "own_tags it = tags (rt_title it @ '' '') \<union> tags (CHR ''$'' # fmt_fixed 2 (rt_price it))"

lemma tags_found: "tags s = {g. \<exists>m. (m, Some g) \<in> set (found_in PRICE_TAG s)}"
  by (auto simp: tags_def price_groups_def List.map_filter_def) force+

lemma tags_no_dollar: "CHR ''$'' \<notin> set u \<Longrightarrow> tags (u @ t) = tags t"
  by (simp add: tags_found found_no_dollar)

lemma tags_none: "CHR ''$'' \<notin> set u \<Longrightarrow> tags u = {}"
  using tags_no_dollar [of u "[]"] by (simp add: tags_found)

lemma tags_split: "rejects c PRICE_TAG \<Longrightarrow> tags (s @ c # t) = tags s \<union> tags t"
  by (auto simp: tags_found found_in_split)

lemma tags_seg: "u = [] \<or> \<not> is_digit (hd u) \<Longrightarrow>
    tags (CHR ''$'' # fmt_fixed 2 x @ u) = tags (CHR ''$'' # fmt_fixed 2 x) \<union> tags u"
  by (auto simp: tags_found price_seg)

lemma em_dash_chars: "em_dash = [CHR 0xE2, CHR 0x80, CHR 0x94]"
  by code_simp

lemma cite_tags:
  assumes "CHR ''$'' \<notin> set u" and "rejects c PRICE_TAG" and "CHR ''$'' \<notin> set w" and "v = [] \<or> \<not> is_digit (hd v)"
  shows "tags (u @ rt_title it @ CHR '' '' # c # w @ CHR ''$'' # fmt_fixed 2 (rt_price it) @ v) = own_tags it \<union> tags v"
proof -
  let ?x = "CHR ''$'' # fmt_fixed 2 (rt_price it) @ v"
  have "tags (u @ rt_title it @ CHR '' '' # c # w @ ?x) = tags ((rt_title it @ '' '') @ c # w @ ?x)"
    using tags_no_dollar [OF assms(1)] by simp
  then have "tags (u @ rt_title it @ CHR '' '' # c # w @ ?x) = tags (rt_title it @ '' '') \<union> tags (w @ ?x)"
    unfolding tags_split [OF assms(2)] .
  then show ?thesis
    unfolding tags_no_dollar [OF assms(3)] tags_seg [OF assms(4)] by (simp add: own_tags_def Un_assoc)
qed

lemma hero_tags: "tags (hero_part it @ t) = own_tags it \<union> tags t"
proof -
  let ?rest = "'' ('' @ fmt_fixed 0 (rt_median_signal it * 100) @ ''% under the same-query median).''"
  have "tags (hero_part it @ t) = own_tags it \<union> tags (?rest @ t)"
    using cite_tags [of "''Best value: ''" "CHR ''a''" "''t ''" "?rest @ t" it]
    by (simp add: hero_part_def PRICE_TAG_rejects char_defs)
  moreover have "tags (?rest @ t) = tags t"
    by (rule tags_no_dollar) (simp add: fmt_fixed_no_dollar)
  ultimately show ?thesis by simp
qed

lemma runner_tags: "tags (runner_part it @ t) = own_tags it \<union> tags t"
  using cite_tags [of "''Also consider: ''" "CHR ''a''" "''t ''" "''.'' @ t" it] tags_no_dollar [of "''.''" t]
  by (simp add: runner_part_def PRICE_TAG_rejects char_defs)

lemma trap_tags: "tags (trap_part it @ t) = own_tags it \<union> tags t"
proof -
  let ?rest = "'' '' @ em_dash @ '' flagged SUSPICIOUS: it reads '' @ fmt_fixed 0 (rt_median_signal it * 100) @
    ''% under median but sits far below its modeled fair price, the signature of a refurb/mislisting rather than a real bargain.''"
  have "tags (trap_part it @ t) = own_tags it \<union> tags (?rest @ t)"
    using cite_tags [of "''Avoid: ''" "CHR ''a''" "''t ''" "?rest @ t" it]
    by (simp add: trap_part_def PRICE_TAG_rejects char_defs)
  moreover have "tags (?rest @ t) = tags t"
    by (rule tags_no_dollar) (simp add: fmt_fixed_no_dollar em_dash_chars)
  ultimately show ?thesis by simp
qed

lemma line_tags:
  "\<exists>X. tags (context_line (i, it)) = own_tags it \<union> X
     \<and> (\<forall>t. tags (context_line (i, it) @ CHR 10 # CHR ''['' # t) \<supseteq> own_tags it \<union> tags t)"
proof -
  let ?rest = "'' ('' @ rt_source it @ '') ['' @ py_upper (label_str (rt_verdict it)) @ ''] '' @ em_dash @ '' '' @ rt_reason it"
  have i: "CHR ''$'' \<notin> set (''['' @ nat_digits i @ ''] '')" by (auto dest: nat_digits_digits simp: char_defs)
  have line: "tags (context_line (i, it) @ v) = own_tags it \<union> tags (?rest @ v)" for v
    using cite_tags [OF i, of "CHR 0xE2" "[CHR 0x80, CHR 0x94, CHR '' '']" "?rest @ v" it]
    by (simp add: context_line_def em_dash_chars PRICE_TAG_rejects char_defs)
  have "tags (context_line (i, it) @ CHR 10 # CHR ''['' # t) \<supseteq> own_tags it \<union> tags t" for t
  proof -
    have "tags ((?rest @ [CHR 10]) @ CHR ''['' # t) = tags (?rest @ [CHR 10]) \<union> tags t"
      by (rule tags_split) (simp add: PRICE_TAG_rejects char_defs)
    with line [of "CHR 10 # CHR ''['' # t"] show ?thesis by auto
  qed
  with line [of "[]"] show ?thesis by auto
qed

lemma context_tags:
  "it \<in> set items \<Longrightarrow> own_tags it \<subseteq> tags (py_join [CHR 10] (map context_line (List.enumerate i items)))"
proof (induction items arbitrary: i)
  case (Cons x xs)
  show ?case
  proof (cases xs)
    case Nil
    with Cons.prems line_tags [of i x] show ?thesis by auto
  next
    case (Cons y ys)
    let ?rest = "py_join [CHR 10] (map context_line (List.enumerate (Suc i) xs))"
    have "\<exists>t. ?rest = CHR ''['' # t" unfolding Cons by (cases ys) (simp_all add: context_line_def)
    then obtain t where t: "?rest = CHR ''['' # t" ..
    have "tags (CHR ''['' # t) = tags t" using tags_no_dollar [of "''[''" t] by simp
    then have "own_tags x \<union> tags ?rest \<subseteq> tags (context_line (i, x) @ [CHR 10] @ ?rest)"
      using line_tags [of i x] unfolding t by auto
    moreover have "py_join [CHR 10] (map context_line (List.enumerate i (x # xs))) = context_line (i, x) @ [CHR 10] @ ?rest"
      by (simp add: Cons)
    ultimately show ?thesis using Cons.prems Cons.IH [of "Suc i"] by auto
  qed
qed simp

section \<open>Model codes in a text\<close>

abbreviation words_of :: "string \<Rightarrow> string list" where "words_of s \<equiv> runs is_token_char (py_lower s)"

lemma py_strip_core:
  assumes "s \<noteq> []" and "\<not> is_space (hd s)" and "\<not> is_space (last s)"
  shows "py_strip (replicate m (CHR '' '') @ s @ replicate n (CHR '' '')) = s"
proof -
  have sp: "is_space (CHR '' '')" by (simp add: char_defs)
  have drop: "dropWhile is_space (replicate k (CHR '' '') @ t) = dropWhile is_space t" for k t
    by (induction k) (simp_all add: sp)
  from assms(1,2) have "dropWhile is_space (s @ replicate n (CHR '' '')) = s @ replicate n (CHR '' '')"
    by (cases s) simp_all
  moreover have "dropWhile is_space (rev s) = rev s"
    using assms(1,3) by (cases s rule: rev_cases) simp_all
  ultimately show ?thesis by (simp add: py_strip_def drop)
qed

lemma join_ends:
  assumes "ws \<noteq> []" and "\<And>w. w \<in> set ws \<Longrightarrow> w \<noteq> [] \<and> (\<forall>c \<in> set w. P c)"
  shows "py_join '' '' ws \<noteq> [] \<and> P (hd (py_join '' '' ws)) \<and> P (last (py_join '' '' ws))"
  using assms
proof (induction ws)
  case (Cons w ws)
  have "w \<noteq> []" "P (hd w)" "P (last w)" using Cons.prems(2) [of w] by simp_all
  with Cons show ?case by (cases "ws = []") (auto simp: py_join_Cons last_append)
qed simp

lemma token_char_not_space: "is_token_char c \<Longrightarrow> \<not> is_space c"
  by (auto simp: is_token_char_def)

lemma norm_text_words: "norm_text s = py_join '' '' (words_of s)"
proof (cases "words_of s = []")
  case True
  then have "blank (\<lambda>c. \<not> is_token_char c) (py_lower s) = '''' \<or> blank (\<lambda>c. \<not> is_token_char c) (py_lower s) = '' ''"
    unfolding blank_runs [of is_token_char "py_lower s"] by simp
  then show ?thesis using True by (auto simp: norm_text_def rx_sub_blank py_strip_def char_defs)
next
  case False
  let ?j = "py_join '' '' (words_of s)"
  obtain m n where "blank (\<lambda>c. \<not> is_token_char c) (py_lower s) = replicate m (CHR '' '') @ ?j @ replicate n (CHR '' '')"
  proof
    show "blank (\<lambda>c. \<not> is_token_char c) (py_lower s) =
        replicate (if py_lower s \<noteq> [] \<and> \<not> is_token_char (hd (py_lower s)) then 1 else 0) (CHR '' '') @ ?j
        @ replicate (if words_of s \<noteq> [] \<and> \<not> is_token_char (last (py_lower s)) then 1 else 0) (CHR '' '')"
      unfolding blank_runs [of is_token_char "py_lower s"] by simp
  qed
  moreover have "?j \<noteq> [] \<and> is_token_char (hd ?j) \<and> is_token_char (last ?j)"
    using False by (intro join_ends) (auto dest: runs_in)
  ultimately show ?thesis
    by (simp add: norm_text_def rx_sub_blank py_strip_core token_char_not_space)
qed

definition mixed :: "string \<Rightarrow> bool" where
  "mixed w \<longleftrightarrow> (\<exists>c \<in> set w. is_lower c) \<and> (\<exists>c \<in> set w. is_digit c)"

lemma MODEL_CODE_plain [simp]: "plain MODEL_CODE"
  by (simp add: MODEL_CODE_def plus_def rdigit_def)

lemma MODEL_CODE_rejects: "\<not> is_token_char c \<Longrightarrow> rejects c MODEL_CODE"
  by (auto simp: MODEL_CODE_def plus_def rdigit_def is_token_char_def)

lemma MODEL_CODE_mixed:
  assumes "rx_once MODEL_CODE s \<noteq> None"
  shows "mixed s"
proof -
  obtain q where q: "q \<in> set (rx_run MODEL_CODE (None, s, None))"
    using assms by (cases "rx_run MODEL_CODE (None, s, None)") (auto simp: rx_once_def rx_at_def)
  then consider t where "t \<in> set (rx_run (Cat (plus (Cls is_lower)) rdigit) (None, s, None))"
    | t where "t \<in> set (rx_run (Cat (plus rdigit) (plus (Cls is_lower))) (None, s, None))"
    unfolding MODEL_CODE_def rx_run.simps(7) rx_run.simps(6) [of _ "Star _"] by (auto simp del: rx_run.simps split_paired_Ex)
  then show ?thesis
  proof cases
    case 1
    then obtain p where p: "p \<in> set (rx_run (plus (Cls is_lower)) (None, s, None))" and t: "t \<in> set (rx_run rdigit p)"
      by (auto simp del: split_paired_Ex)
    obtain pv r g where pp: "p = (pv, r, g)" by (cases p)
    from rx_run_plus_Cls [OF p [unfolded pp]] obtain u where u: "s = u @ r" "u \<noteq> []" "\<forall>c \<in> set u. is_lower c" by blast
    moreover from t pp obtain d v where "r = d # v" "is_digit d" by (cases r) (auto simp: rdigit_def split: if_splits)
    ultimately show ?thesis by (cases u) (auto simp: mixed_def)
  next
    case 2
    then obtain p where p: "p \<in> set (rx_run (plus rdigit) (None, s, None))" and t: "t \<in> set (rx_run (plus (Cls is_lower)) p)"
      by (auto simp del: split_paired_Ex)
    obtain pv r g where pp: "p = (pv, r, g)" by (cases p)
    from rx_run_plus_Cls [OF p [unfolded pp rdigit_def]] obtain u where u: "s = u @ r" "u \<noteq> []" "\<forall>c \<in> set u. is_digit c" by blast
    obtain pv' r' g' where tt: "t = (pv', r', g')" by (cases t)
    from rx_run_plus_Cls [OF t [unfolded pp tt]] obtain v where "r = v @ r'" "v \<noteq> []" "\<forall>c \<in> set v. is_lower c" by blast
    with u show ?thesis by (cases u; cases v) (auto simp: mixed_def)
  qed
qed

lemma hd_run_tail:
  assumes "rx_run r (pv, s, g) \<noteq> []" and "\<forall>c \<in> set s. P c"
  shows "rx_run (Cat r (Star (Cls P))) (pv, s, g) \<noteq> []
    \<and> rx_rest (hd (rx_run (Cat r (Star (Cls P))) (pv, s, g))) = []"
proof -
  obtain pv' s' g' where h: "hd (rx_run r (pv, s, g)) = (pv', s', g')" by (metis prod_cases3)
  then have "suffix s' s" using rx_run_suffix [OF hd_in_set [OF assms(1)]] by simp
  then have "\<forall>c \<in> set s'. P c" using assms(2) by (auto dest: set_mono_suffix)
  then have "dropWhile P s' = []" by simp
  then have "rx_rest (hd (rx_run (Star (Cls P)) (hd (rx_run r (pv, s, g))))) = []" by (simp add: h hd_rx_run_Star_Cls)
  moreover have "rx_run (Star (Cls P)) (hd (rx_run r (pv, s, g))) \<noteq> []" by simp
  ultimately show ?thesis using assms(1) hd_concat_map [OF assms(1), of "rx_run (Star (Cls P))"]
    by (cases "rx_run r (pv, s, g)") auto
qed

lemma rx_run_plus_Cls_hd:
  "P c \<Longrightarrow> rx_run (plus (Cls P)) (pv, c # s, g) \<noteq> []
     \<and> snd (hd (rx_run (plus (Cls P)) (pv, c # s, g))) = (dropWhile P s, g)"
  by (simp add: plus_def hd_rx_run_Star_Cls)

lemma MODEL_CODE_word:
  assumes "\<forall>c \<in> set w. is_token_char c" and "mixed w"
  shows "\<exists>g. rx_once MODEL_CODE w = Some ([], g)"
proof -
  obtain c s where w: "w = c # s" using assms(2) by (cases w) (auto simp: mixed_def)
  let ?A = "Cat (plus (Cls is_lower)) rdigit" and ?B = "Cat (plus rdigit) (plus (Cls is_lower))"
  let ?S = "Star (Cls is_token_char)" and ?p = "(None, w, None) :: rx_pos"
  have ab: "if is_lower c then rx_run ?A ?p \<noteq> [] else rx_run ?A ?p = [] \<and> rx_run ?B ?p \<noteq> []"
  proof (cases "is_lower c")
    case True
    moreover obtain x where "x \<in> set w" "is_digit x" using assms(2) by (auto simp: mixed_def)
    ultimately have "x \<in> set s" "\<not> is_lower x" using w by auto
    then have "dropWhile is_lower s \<noteq> []" by auto
    then obtain d v where d: "dropWhile is_lower s = d # v" by (cases "dropWhile is_lower s") auto
    then have "d \<in> set s" "\<not> is_lower d" by (metis list.set_intros(1) set_dropWhileD, metis hd_dropWhile list.sel(1) list.simps(3))
    then have "d \<in> set w" "\<not> is_lower d" using w by simp_all
    then have "is_digit d" using assms(1) by (auto simp: is_token_char_def)
    moreover obtain pv where "hd (rx_run (plus (Cls is_lower)) ?p) = (pv, d # v, None)"
      using rx_run_plus_Cls_hd [of is_lower c None s None, OF True] unfolding w d by (metis prod.collapse)
    ultimately have "rx_run rdigit (hd (rx_run (plus (Cls is_lower)) ?p)) \<noteq> []" by (simp add: rdigit_def)
    then show ?thesis using True rx_run_plus_Cls_hd [of is_lower c None s None, OF True] unfolding w
      by (cases "rx_run (plus (Cls is_lower)) (None, c # s, None)") auto
  next
    case False
    then have dc: "is_digit c" using assms(1) w by (simp add: is_token_char_def)
    moreover obtain x where "x \<in> set w" "is_lower x" using assms(2) by (auto simp: mixed_def)
    ultimately have "x \<in> set s" "\<not> is_digit x" using w by auto
    then have "dropWhile is_digit s \<noteq> []" by auto
    then obtain d v where d: "dropWhile is_digit s = d # v" by (cases "dropWhile is_digit s") auto
    then have "d \<in> set s" "\<not> is_digit d" by (metis list.set_intros(1) set_dropWhileD, metis hd_dropWhile list.sel(1) list.simps(3))
    then have "d \<in> set w" "\<not> is_digit d" using w by simp_all
    then have "is_lower d" using assms(1) by (auto simp: is_token_char_def)
    moreover obtain pv where "hd (rx_run (plus rdigit) ?p) = (pv, d # v, None)"
      using rx_run_plus_Cls_hd [of is_digit c None s None, OF dc] unfolding w d rdigit_def by (metis prod.collapse)
    ultimately have "rx_run (plus (Cls is_lower)) (hd (rx_run (plus rdigit) ?p)) \<noteq> []"
      using rx_run_plus_Cls_hd [of is_lower d pv v None] by simp
    moreover have "rx_run ?A ?p = []" using False by (simp add: w plus_def)
    ultimately show ?thesis using False rx_run_plus_Cls_hd [of is_digit c None s None, OF dc] unfolding w rdigit_def
      by (cases "rx_run (plus (Cls is_digit)) (None, c # s, None)") auto
  qed
  have run: "rx_run MODEL_CODE ?p = rx_run (Cat ?A ?S) ?p @ rx_run (Cat ?B ?S) ?p" by (simp only: MODEL_CODE_def rx_run.simps(7))
  have ends: "rx_run MODEL_CODE ?p \<noteq> [] \<and> rx_rest (hd (rx_run MODEL_CODE ?p)) = []"
  proof (cases "is_lower c")
    case True
    with ab hd_run_tail [of ?A None w None is_token_char] assms(1) show ?thesis unfolding run by auto
  next
    case False
    with ab have A: "rx_run ?A ?p = []" and B: "rx_run ?B ?p \<noteq> []" by simp_all
    have "rx_run (Cat ?A ?S) ?p = []" unfolding rx_run.simps(6) [of ?A] A by simp
    then have "rx_run MODEL_CODE ?p = rx_run (Cat ?B ?S) ?p" unfolding run by (rule ssubst) (rule append_Nil)
    with hd_run_tail [OF B assms(1)] show ?thesis by metis
  qed
  obtain pv r g where "hd (rx_run MODEL_CODE ?p) = (pv, r, g)" by (metis prod_cases3)
  then show ?thesis using ends rx_once_hd [of MODEL_CODE w] by simp
qed

lemma found_in_word:
  "\<forall>c \<in> set w. is_token_char c \<Longrightarrow> set (map fst (found_in MODEL_CODE w)) \<subseteq> {v. v = w \<and> mixed w}"
proof (induction w)
  case (Cons c w)
  show ?case
  proof (cases "mixed (c # w)")
    case True
    with MODEL_CODE_word [of "c # w"] Cons.prems obtain g where "rx_once MODEL_CODE (c # w) = Some ([], g)" by auto
    with True show ?thesis by (simp add: found_in_step)
  next
    case False
    then have "rx_once MODEL_CODE (c # w) = None" using MODEL_CODE_mixed by blast
    moreover have "\<not> mixed w" using False by (auto simp: mixed_def)
    ultimately show ?thesis using Cons by (auto simp: found_in_skip)
  qed
qed simp

lemma found_in_words:
  assumes "\<And>w. w \<in> set ws \<Longrightarrow> \<forall>c \<in> set w. is_token_char c"
  shows "set (rx_findall MODEL_CODE (py_join '' '' ws)) \<subseteq> {w \<in> set ws. mixed w}"
  using assms
proof (induction ws)
  case (Cons w ws)
  have "rejects (CHR '' '') MODEL_CODE" by (rule MODEL_CODE_rejects) (simp add: is_token_char_def char_defs)
  from found_in_split [OF MODEL_CODE_plain this, of w "py_join '' '' ws"] found_in_word [of w] Cons
  show ?case by (auto simp: py_join_Cons rx_findall_found)
qed (simp add: rx_findall_found)

text \<open>The model codes of a text, and how the sentences split them.\<close>

definition codes :: "string \<Rightarrow> string set" where
  "codes s = {w \<in> set (words_of s). mixed w}"

lemma cited_codes: "set (rx_findall MODEL_CODE (norm_text s)) \<subseteq> codes s"
  unfolding norm_text_words codes_def by (rule found_in_words) (auto dest: runs_in)

lemma codes_split: "\<not> is_token_char (lower_char c) \<Longrightarrow> codes (s @ c # t) = codes s \<union> codes t"
  by (auto simp: codes_def py_lower_def runs_split)

lemma codes_no_digit: "(\<And>c. c \<in> set s \<Longrightarrow> \<not> is_digit c) \<Longrightarrow> codes s = {}"
  by (fastforce simp: codes_def mixed_def py_lower_def dest: runs_in)

lemma codes_no_letter: "(\<And>c. c \<in> set s \<Longrightarrow> \<not> is_alpha c) \<Longrightarrow> codes s = {}"
proof -
  assume a: "\<And>c. c \<in> set s \<Longrightarrow> \<not> is_alpha c"
  then have "py_lower s = s" by (auto simp: py_lower_def lower_char_def is_alpha_def intro: map_idI)
  with a show ?thesis by (fastforce simp: codes_def mixed_def is_alpha_def dest: runs_in)
qed

lemma fmt_fixed_codes [simp]: "codes (CHR ''$'' # fmt_fixed n x) = {}" "codes (fmt_fixed n x) = {}"
  by (rule codes_no_letter; auto dest!: fmt_fixed_chars simp: char_defs)+

lemma no_digit_codes [simp]: "list_all (\<lambda>c. \<not> is_digit c) s \<Longrightarrow> codes s = {}"
  by (rule codes_no_digit) (simp add: list_all_iff)

lemma cite_codes:
  assumes "codes u = {}" and "\<not> is_token_char (lower_char c)" and "\<not> is_token_char (lower_char d)" and "codes w = {}"
    and "\<not> is_token_char (lower_char b)"
  shows "codes (u @ c # rt_title it @ d # w @ CHR '' '' # CHR ''$'' # fmt_fixed 2 x @ b # t) = codes (rt_title it) \<union> codes t"
proof -
  have sp: "\<not> is_token_char (lower_char (CHR '' ''))" by (simp add: is_token_char_def lower_char_def char_defs)
  show ?thesis
    using assms(1,4) codes_split [OF assms(5), of "CHR ''$'' # fmt_fixed 2 x" t]
    by (simp add: codes_split [OF assms(2)] codes_split [OF assms(3)] codes_split [OF sp])
qed

lemma sentence_codes:
  "codes (hero_part it) = codes (rt_title it)"
  "codes (runner_part it) = codes (rt_title it)"
  "codes (trap_part it) = codes (rt_title it)"
proof -
  have ch: "\<not> is_token_char (lower_char (CHR '' ''))" "\<not> is_token_char (lower_char (CHR ''.''))"
    "\<not> is_token_char (lower_char (CHR ''%''))"
    by (simp_all add: is_token_char_def lower_char_def char_defs)
  have lits: "codes ''Best value:'' = {}" "codes ''Also consider:'' = {}" "codes ''Avoid:'' = {}" "codes ''at'' = {}" "codes '''' = {}"
    "codes '' under the same-query median).'' = {}"
    "codes (em_dash @ '' flagged SUSPICIOUS: it reads'') = {}"
    "codes '' under median but sits far below its modeled fair price, the signature of a refurb/mislisting rather than a real bargain.'' = {}"
    by (rule codes_no_digit; auto simp: char_defs em_dash_chars)+
  let ?pct = "fmt_fixed 0 (rt_median_signal it * 100)"
  have "codes (''('' @ ?pct) = {}"
  proof (rule codes_no_letter)
    fix c assume "c \<in> set (''('' @ ?pct)"
    then have "c = CHR ''('' \<or> is_digit c \<or> c = CHR ''.'' \<or> c = CHR ''-''" using fmt_fixed_chars by auto
    then show "\<not> is_alpha c" by (auto simp: char_defs)
  qed
  then have "codes (''('' @ ?pct @ ''% under the same-query median).'') = {}"
    using codes_split [OF ch(3), of "''('' @ ?pct" "'' under the same-query median).''"] lits(6) by simp
  then show "codes (hero_part it) = codes (rt_title it)"
    using cite_codes [OF lits(1) ch(1) ch(1) lits(4) ch(1), of it "rt_price it" "''('' @ ?pct @ ''% under the same-query median).''"]
    by (simp add: hero_part_def)
  show "codes (runner_part it) = codes (rt_title it)"
    using cite_codes [OF lits(2) ch(1) ch(1) lits(4) ch(2), of it "rt_price it" "''''"] lits(5)
    by (simp add: runner_part_def)
  have "codes (em_dash @ '' flagged SUSPICIOUS: it reads '' @ ?pct @ ''% under median but sits far below its modeled fair price, the signature of a refurb/mislisting rather than a real bargain.'') = {}"
    using codes_split [OF ch(1), of "em_dash @ '' flagged SUSPICIOUS: it reads''" "?pct @ ''% under median but sits far below its modeled fair price, the signature of a refurb/mislisting rather than a real bargain.''"]
      codes_split [OF ch(3), of ?pct "'' under median but sits far below its modeled fair price, the signature of a refurb/mislisting rather than a real bargain.''"]
      lits(7,8) by simp
  then show "codes (trap_part it) = codes (rt_title it)"
    using cite_codes [OF lits(3) ch(1) ch(1) lits(4) ch(1), of it "rt_price it"
      "em_dash @ '' flagged SUSPICIOUS: it reads '' @ ?pct @ ''% under median but sits far below its modeled fair price, the signature of a refurb/mislisting rather than a real bargain.''"]
    by (simp add: trap_part_def)
qed

lemma join_codes: "codes (py_join '' '' ts) = (\<Union>t \<in> set ts. codes t)"
proof (induction ts)
  case (Cons t ts)
  have "codes (t @ CHR '' '' # py_join '' '' ts) = codes t \<union> codes (py_join '' '' ts)"
    by (rule codes_split) (simp add: is_token_char_def lower_char_def char_defs)
  with Cons show ?case by (simp add: py_join_Cons)
qed (simp add: codes_def py_lower_def)

lemma word_in_join: "w \<in> set ws \<Longrightarrow> sublist ('' '' @ w @ '' '') ('' '' @ py_join '' '' ws @ '' '')"
proof (induction ws)
  case (Cons v vs)
  show ?case
  proof (cases "w = v")
    case True
    have "vs \<noteq> [] \<Longrightarrow> '' '' @ py_join '' '' (v # vs) @ '' '' = [] @ ('' '' @ v @ '' '') @ py_join '' '' vs @ '' ''"
      by (simp add: py_join_Cons)
    moreover have "vs = [] \<Longrightarrow> '' '' @ py_join '' '' (v # vs) @ '' '' = [] @ ('' '' @ v @ '' '') @ []" by simp
    ultimately show ?thesis using True unfolding sublist_def by blast
  next
    case False
    with Cons obtain xs ys where "'' '' @ py_join '' '' vs @ '' '' = xs @ ('' '' @ w @ '' '') @ ys"
      by (auto simp: sublist_def)
    moreover have "vs \<noteq> []" using Cons.prems False by auto
    ultimately have "'' '' @ py_join '' '' (v # vs) @ '' '' = (CHR '' '' # v @ xs) @ ('' '' @ w @ '' '') @ ys"
      by (simp add: py_join_Cons)
    then show ?thesis unfolding sublist_def by blast
  qed
qed simp

section \<open>The deterministic answer is grounded\<close>

lemma find_hero_in: "items \<noteq> [] \<Longrightarrow> find_hero items \<in> set items"
proof -
  assume ne: "items \<noteq> []"
  show ?thesis
  proof (cases "filter (\<lambda>it. rt_verdict it = Deal) items = []")
    case True
    with ne show ?thesis by (simp add: find_hero_def)
  next
    case False
    from hd_in_set [OF this] False show ?thesis by (simp add: find_hero_def)
  qed
qed

lemma extractive_parts:
  assumes "items \<noteq> []"
  obtains rs ss where "set rs \<subseteq> set items" "set ss \<subseteq> set items"
    "map snd (answer_parts items) = hero_part (find_hero items) # map runner_part rs @ map trap_part ss"
    "map fst (answer_parts items) = rt_id (find_hero items) # map rt_id rs @ map rt_id ss"
    "length rs \<le> 1" "length ss \<le> 1"
proof (rule that)
  show "set (take 1 (runners_of items)) \<subseteq> set items" "set (take 1 (traps_of items)) \<subseteq> set items"
    by (auto simp: runners_of_def traps_of_def dest!: in_set_takeD)
qed (simp_all add: answer_parts_def comp_def)

lemma join_tags:
  assumes "\<And>w t. w \<in> set ws \<Longrightarrow> tags (w @ t) = f w \<union> tags t"
  shows "tags (py_join '' '' ws) = (\<Union>w \<in> set ws. f w)"
  using assms
proof (induction ws)
  case (Cons w ws)
  have "tags w = f w" using Cons.prems [of w "[]"] by (simp add: tags_none)
  moreover have "tags (w @ '' '' @ py_join '' '' ws) = f w \<union> tags (py_join '' '' ws)"
    using Cons.prems [of w "'' '' @ py_join '' '' ws"] tags_no_dollar [of "'' ''" "py_join '' '' ws"] by simp
  ultimately show ?case using Cons by (auto simp: py_join_Cons)
qed (simp add: tags_none)

lemma prices_in_tags: "tags s \<subseteq> tags u \<Longrightarrow> set (prices_in s) \<subseteq> set (prices_in u)"
  by (auto simp: prices_in_def tags_def List.map_filter_def)

lemma extractive_tags:
  assumes "items \<noteq> []"
  shows "tags (py_join '' '' (map snd (answer_parts items))) \<subseteq> tags (build_context items)"
    and "codes (py_join '' '' (map snd (answer_parts items))) \<subseteq> codes (py_join '' '' (map rt_title items))"
proof -
  obtain rs ss where parts: "set rs \<subseteq> set items" "set ss \<subseteq> set items"
    "map snd (answer_parts items) = hero_part (find_hero items) # map runner_part rs @ map trap_part ss"
    using extractive_parts [OF assms] by metis
  have hero: "find_hero items \<in> set items" by (rule find_hero_in [OF assms])
  have ctx: "it \<in> set items \<Longrightarrow> own_tags it \<subseteq> tags (build_context items)" for it
    unfolding build_context_def by (rule context_tags)
  define ws where "ws = map snd (answer_parts items)"
  have ws: "w \<in> set ws \<Longrightarrow> \<exists>it \<in> set items. (\<forall>t. tags (w @ t) = own_tags it \<union> tags t) \<and> codes w = codes (rt_title it)" for w
    unfolding ws_def parts(3) using parts(1,2) hero hero_tags runner_tags trap_tags sentence_codes by (fastforce simp: image_iff)
  have own: "w \<in> set ws \<Longrightarrow> tags (w @ t) = tags w \<union> tags t" for w t
    using ws [of w] by (metis append_Nil2 sup_bot.right_neutral tags_none empty_iff empty_set)
  have "tags w \<subseteq> tags (build_context items)" if "w \<in> set ws" for w
    using ws [OF that] ctx by (metis append_Nil2 sup_bot.right_neutral tags_none empty_iff empty_set)
  then have "tags (py_join '' '' ws) \<subseteq> tags (build_context items)"
    using join_tags [of ws tags, OF own] by auto
  then show "tags (py_join '' '' (map snd (answer_parts items))) \<subseteq> tags (build_context items)" by (simp only: ws_def)
  have "codes (py_join '' '' ws) \<subseteq> codes (py_join '' '' (map rt_title items))"
    unfolding join_codes using ws by fastforce
  then show "codes (py_join '' '' (map snd (answer_parts items))) \<subseteq> codes (py_join '' '' (map rt_title items))"
    by (simp add: ws_def)
qed

lemma extractive_grounded:
  assumes "items \<noteq> []"
  shows "is_grounded (ra_text (extractive_answer items)) items"
proof -
  let ?text = "py_join '' '' (map snd (answer_parts items))"
  have prices: "set (prices_in ?text) \<subseteq> set (prices_in (build_context items))"
    by (rule prices_in_tags) (rule extractive_tags(1) [OF assms])
  have "py_in ('' '' @ t @ '' '') ('' '' @ norm_text (py_join '' '' (map rt_title items)) @ '' '')"
    if "t \<in> set (rx_findall MODEL_CODE (norm_text ?text))" for t
  proof -
    have "t \<in> codes (py_join '' '' (map rt_title items))"
      using that cited_codes extractive_tags(2) [OF assms] by blast
    then have "t \<in> set (words_of (py_join '' '' (map rt_title items)))" by (simp add: codes_def)
    then show ?thesis unfolding py_in_iff_sublist norm_text_words by (rule word_in_join)
  qed
  then show ?thesis
    using assms prices by (simp add: is_grounded_def Let_def list_all_iff extractive_answer_def)
qed

text \<open>C13: The answer of the RAG service keeps its grounding contract. Whatever the LLM client does, the sources are
  ids of retrieved listings; a text the LLM wrote carries exactly the verdict of the
  faithfulness check; and when no client is available or the client fails, the extractive answer
  over a non-empty retrieval always passes that check: every price it names is in the context
  block and every model code in some retrieved title, whatever the titles, sources and reasons
  contain.\<close>

theorem rag_answer_grounded:
  "let a = rag_answer_for client q items in
     set (ra_sources a) \<subseteq> rt_id ` set items
   \<and> (ra_used_llm a \<longrightarrow> ra_grounded a = is_grounded (ra_text a) items)
   \<and> (items \<noteq> [] \<and> \<not> ra_used_llm a \<longrightarrow> ra_grounded a \<and> is_grounded (ra_text a) items \<and> ra_sources a \<noteq> [])
   \<and> (ra_used_llm a \<longleftrightarrow> (\<exists>chat. client = Some chat \<and> chat (llm_messages q items) \<noteq> None))"
proof -
  have det: "set (ra_sources (extractive_answer items)) \<subseteq> rt_id ` set items \<and> \<not> ra_used_llm (extractive_answer items)
    \<and> (items \<noteq> [] \<longrightarrow> ra_grounded (extractive_answer items) \<and> ra_sources (extractive_answer items) \<noteq> [])"
  proof (cases "items = []")
    case True
    then show ?thesis by (simp add: extractive_answer_def)
  next
    case False
    obtain rs ss where parts: "set rs \<subseteq> set items" "set ss \<subseteq> set items"
      "map fst (answer_parts items) = rt_id (find_hero items) # map rt_id rs @ map rt_id ss"
      using extractive_parts [OF False] by metis
    have "ra_sources (extractive_answer items) = map fst (answer_parts items)"
      "\<not> ra_used_llm (extractive_answer items)"
      "ra_grounded (extractive_answer items) = is_grounded (ra_text (extractive_answer items)) items"
      using False by (simp_all add: extractive_answer_def Let_def)
    then show ?thesis using parts find_hero_in [OF False] extractive_grounded [OF False] by auto
  qed
  have llm: "set (ra_sources a) \<subseteq> rt_id ` set items \<and> ra_grounded a = is_grounded (ra_text a) items \<and> ra_used_llm a"
    if "llm_answer chat q items = Some a" for a chat
    using that by (auto simp: llm_answer_def Let_def split: if_splits)
  show ?thesis
  proof (cases "\<exists>chat a. client = Some chat \<and> llm_answer chat q items = Some a")
    case True
    then obtain chat a where a: "client = Some chat" "llm_answer chat q items = Some a" by blast
    then have "rag_answer_for client q items = a" by (simp add: rag_answer_for_def)
    moreover have "chat (llm_messages q items) \<noteq> None" using a(2) by (auto simp: llm_answer_def)
    ultimately show ?thesis using llm [OF a(2)] a(1) by (simp add: Let_def)
  next
    case False
    then have "rag_answer_for client q items = extractive_answer items"
      "\<not> (\<exists>chat. client = Some chat \<and> chat (llm_messages q items) \<noteq> None)"
      by (auto simp: rag_answer_for_def llm_answer_def split: option.splits)
    with det extractive_grounded show ?thesis by (simp add: Let_def)
  qed
qed

theorem rag_answer_grounded_witness:
  "ra_grounded (rag_answer_for (Some (\<lambda>_. None)) ''q''
     [\<lparr>rt_id = ''1'', rt_title = ''Anker Q20i $5 off'', rt_price = 44.99, rt_source = ''s'', rt_category = ''audio'', rt_similarity = 1,
       rt_verdict = Deal, rt_median_signal = 0.5, rt_fair_price = 80, rt_residual_frac = 0.4, rt_reason = ''r''\<rparr>])"
  using rag_answer_grounded [of "Some (\<lambda>_. None)" "''q''"
     "[\<lparr>rt_id = ''1'', rt_title = ''Anker Q20i $5 off'', rt_price = 44.99, rt_source = ''s'', rt_category = ''audio'', rt_similarity = 1,
       rt_verdict = Deal, rt_median_signal = 0.5, rt_fair_price = 80, rt_residual_frac = 0.4, rt_reason = ''r''\<rparr>]"]
  by (simp add: Let_def)

end
