(* ===== verification/Agentic_Rag.thy ===== *)
theory Agentic_Rag
  imports Rag
begin

text \<open>
  \<open>dealfinder/agentic_rag.py\<close> and \<open>orchestrate.py\<close>: retrieval as a judged loop (sufficiency gate,
  reformulation with capability phrases mined from the catalog), and the writer/reviewer pair.
  The retrieval of a query is the argument \<open>ret\<close>; \<open>client\<close> is the LLM client of \<open>Rag\<close>.
\<close>

section \<open>The gate\<close>

definition VAGUE :: "string list" where
  "VAGUE = [''cheap'', ''good'', ''best'', ''top'', ''nice'', ''affordable'', ''budget'']"

definition CAPABILITY_KEYS :: "string list" where
  "CAPABILITY_KEYS = [''noise'', ''cancelling'', ''canceling'', ''wireless'', ''waterproof'', ''mechanical'',
     ''gaming'', ''portable'', ''hybrid'', ''active'', ''over'', ''true'']"

definition STRONG :: "string list" where
  "STRONG = [''noise'', ''cancelling'', ''canceling'', ''waterproof'', ''mechanical'', ''gaming'', ''hybrid'', ''active'']"

record hop =
  hp_query :: string
  hp_sufficient :: bool
  hp_reason :: string
  hp_verdicts :: "label list"

record agentic =
  ag_answer :: string
  ag_grounded :: bool
  ag_hops :: "hop list"
  ag_sources :: "string list"
  ag_used_llm :: bool

definition n_verdict :: "label \<Rightarrow> retrieved list \<Rightarrow> nat" where
  "n_verdict v items = length (filter (\<lambda>it. rt_verdict it = v) items)"

definition sufficiency :: "retrieved list \<Rightarrow> bool \<times> string" where
  "sufficiency items =
     (case items of
        [] \<Rightarrow> (False, ''no items retrieved'')
      | it # _ \<Rightarrow>
          (let deals = n_verdict Deal items; suspicious = n_verdict Suspicious items in
           if rt_verdict it \<noteq> Deal then (False, ''top result is '' @ py_upper (label_str (rt_verdict it)) @ '', not a DEAL'')
           else if deals < 2 then
             (False, ''only '' @ nat_digits deals @ '' DEAL in top-'' @ nat_digits (length items) @ '' '' @ em_dash @ '' too thin to recommend'')
           else if suspicious \<ge> deals then
             (False, nat_digits suspicious @ '' SUSPICIOUS traps vs '' @ nat_digits deals @ '' DEALs '' @ em_dash @ '' query too vague'')
           else (True, nat_digits deals @ '' DEALs, top is a DEAL, '' @ nat_digits suspicious @ '' traps '' @ em_dash @ '' good evidence'')))"

section \<open>Reformulation\<close>

definition bigrams :: "string \<Rightarrow> (string \<times> string) list" where
  "bigrams t = (let toks = rx_findall (plus (Cls is_lower)) (py_lower t) in zip toks (tl toks))"

definition count_phrase :: "(string, (string, nat) dict) dict \<Rightarrow> string \<Rightarrow> string \<Rightarrow> (string, (string, nat) dict) dict" where
  "count_phrase d cat ph = (let c = dict_get_or d cat [] in dict_set cat (dict_set ph (dict_get_or c ph 0 + 1) c) d)"

definition count_title :: "(string, (string, nat) dict) dict \<Rightarrow> product \<Rightarrow> (string, (string, nat) dict) dict" where
  "count_title d p =
     (let cat = (if category p = '''' then ''other'' else category p) in
      foldl (\<lambda>d (a, b). if a \<in> set CAPABILITY_KEYS \<or> b \<in> set CAPABILITY_KEYS then count_phrase d cat (a @ '' '' @ b) else d)
        d (bigrams (title p)))"

definition rank_phrases :: "(string, nat) dict \<Rightarrow> string list" where
  \<comment> \<open>\<open>sorted(key=(strong, freq), reverse=True)[:8]\<close>, as two stable sorts\<close>
  "rank_phrases c =
     take 8 (map fst (sort_key (\<lambda>(ph, f). if set (py_words ph) \<inter> set STRONG \<noteq> {} then 0 else 1 :: nat)
                      (sort_key (\<lambda>(ph, f). - int f) c)))"

definition capability_lexicon :: "product list \<Rightarrow> (string, string list) dict" where
  "capability_lexicon ps = map (\<lambda>(cat, c). (cat, rank_phrases c)) (foldl count_title [] ps)"

definition strip_vague :: "string \<Rightarrow> string" where
  "strip_vague q = (let kept = filter (\<lambda>w. py_lower w \<notin> set VAGUE) (py_words q) in if kept \<noteq> [] then py_join '' '' kept else q)"

definition expand :: "string \<Rightarrow> string \<Rightarrow> string" where
  "expand base ph = py_strip (base @ '' '' @ py_join '' '' (filter (\<lambda>w. w \<notin> set (py_words base)) (py_words ph)) @ '' deal'')"

definition reformulate :: "string \<Rightarrow> retrieved list \<Rightarrow> (string, string list) dict \<Rightarrow> string list \<Rightarrow> string \<times> string option" where
  "reformulate base items lexicon tried =
     (let cat = (case items of [] \<Rightarrow> ''other'' | it # _ \<Rightarrow> rt_category it)
      in case find (\<lambda>ph. \<not> (ph \<in> set tried \<or> set (py_words ph) \<subseteq> set (py_words base))) (dict_get_or lexicon cat []) of
           Some ph \<Rightarrow> (expand base ph, Some ph)
         | None \<Rightarrow> (py_strip (base @ '' deal''), None))"

section \<open>The loop\<close>

record agent_state =
  as_hops :: "hop list"
  as_current :: string
  as_tried :: "string list"

primrec hop_loop ::
  "nat \<Rightarrow> (string \<Rightarrow> retrieved list) \<Rightarrow> (string, string list) dict \<Rightarrow> string \<Rightarrow> agent_state \<Rightarrow> agent_state" where
  \<comment> \<open>\<open>for _ in range(max_hops)\<close> with its \<open>break\<close>\<close>
  "hop_loop 0 ret lexicon base st = st"
| "hop_loop (Suc n) ret lexicon base st =
     (let items = ret (as_current st); (ok, reason) = sufficiency items;
          st1 = st\<lparr>as_hops := as_hops st @ [\<lparr>hp_query = as_current st, hp_sufficient = ok, hp_reason = reason,
                                              hp_verdicts = map rt_verdict items\<rparr>]\<rparr>
      in if ok then st1
         else
           (let (q, ph) = reformulate base items lexicon (as_tried st) in
            hop_loop n ret lexicon base
              (st1\<lparr>as_current := q, as_tried := (case ph of None \<Rightarrow> as_tried st | Some x \<Rightarrow> as_tried st @ [x])\<rparr>)))"

definition agentic_answer ::
  "(string \<Rightarrow> retrieved list) \<Rightarrow> (string \<Rightarrow> retrieved list) \<Rightarrow> chat option \<Rightarrow> product list \<Rightarrow> nat \<Rightarrow> string \<Rightarrow> agentic" where
  \<comment> \<open>\<open>ret\<close> retrieves over the given products, \<open>ret0\<close> over the default catalog, for the final answer\<close>
  "agentic_answer ret ret0 client ps max_hops q =
     (let st = hop_loop max_hops ret (capability_lexicon ps) (py_lower (strip_vague q))
                 \<lparr>as_hops = [], as_current = q, as_tried = []\<rparr>;
          final = rag_answer_for client (as_current st) (ret0 (as_current st))
      in \<lparr>ag_answer = ra_text final, ag_grounded = ra_grounded final, ag_hops = as_hops st, ag_sources = ra_sources final,
          ag_used_llm = ra_used_llm final\<rparr>)"

section \<open>Facts about the loop\<close>

lemma sufficiency_iff:
  "fst (sufficiency items) \<longleftrightarrow> items \<noteq> [] \<and> rt_verdict (hd items) = Deal \<and> 2 \<le> n_verdict Deal items
     \<and> n_verdict Suspicious items < n_verdict Deal items"
  by (auto simp: sufficiency_def Let_def split: list.splits)

lemma reformulate_cases:
  "reformulate base items lexicon tried = (q, ph) \<Longrightarrow>
     (case ph of None \<Rightarrow> q = py_strip (base @ '' deal'')
      | Some x \<Rightarrow> q = expand base x \<and> x \<notin> set tried \<and> x \<in> \<Union> (set ` snd ` set lexicon))"
proof -
  assume r: "reformulate base items lexicon tried = (q, ph)"
  let ?cat = "case items of [] \<Rightarrow> ''other'' | it # _ \<Rightarrow> rt_category it"
  let ?P = "\<lambda>ph. \<not> (ph \<in> set tried \<or> set (py_words ph) \<subseteq> set (py_words base))"
  show ?thesis
  proof (cases "find ?P (dict_get_or lexicon ?cat [])")
    case None
    with r show ?thesis by (auto simp: reformulate_def Let_def)
  next
    case (Some x)
    from find_in [OF this] have x: "x \<in> set (dict_get_or lexicon ?cat [])" "?P x" by auto
    then have "dict_get lexicon ?cat \<noteq> None" by (auto simp: dict_get_or_def dict_get_def)
    then obtain xs where "dict_get lexicon ?cat = Some xs" by blast
    with x(1) have "x \<in> set xs" "(?cat, xs) \<in> set lexicon"
      by (auto simp: dict_get_or_def dict_get_def dest: map_of_SomeD)
    then have "x \<in> \<Union> (set ` snd ` set lexicon)" by force
    moreover have "ph = Some x" "q = expand base x" using Some r by (auto simp: reformulate_def Let_def)
    ultimately show ?thesis using x(2) by simp
  qed
qed
text \<open>What a run of the loop leaves: its hops are appended, all but the last are insufficient, and it stops at
  its bound or at a sufficient hop, whose query is then the current one.\<close>

definition hop_of :: "(string \<Rightarrow> retrieved list) \<Rightarrow> string \<Rightarrow> hop" where
  "hop_of ret q = \<lparr>hp_query = q, hp_sufficient = fst (sufficiency (ret q)), hp_reason = snd (sufficiency (ret q)),
     hp_verdicts = map rt_verdict (ret q)\<rparr>"

definition reformulated :: "string \<Rightarrow> (string, string list) dict \<Rightarrow> string \<Rightarrow> bool" where
  "reformulated base lexicon q \<longleftrightarrow> q = py_strip (base @ '' deal'') \<or> (\<exists>x \<in> \<Union> (set ` snd ` set lexicon). q = expand base x)"

lemma hop_loop_props:
  assumes "distinct (as_tried st)"
  shows "\<exists>hs. as_hops (hop_loop n ret lexicon base st) = as_hops st @ hs \<and> length hs \<le> n
    \<and> (0 < n \<longrightarrow> hs \<noteq> [] \<and> hp_query (hd hs) = as_current st)
    \<and> (\<forall>h \<in> set hs. h = hop_of ret (hp_query h))
    \<and> (\<forall>h \<in> set (butlast hs). \<not> hp_sufficient h)
    \<and> (\<forall>h \<in> set (tl hs). reformulated base lexicon (hp_query h))
    \<and> distinct (as_tried (hop_loop n ret lexicon base st))
    \<and> (if hs \<noteq> [] \<and> hp_sufficient (last hs) then as_current (hop_loop n ret lexicon base st) = hp_query (last hs)
       else length hs = n \<and> (0 < n \<longrightarrow> reformulated base lexicon (as_current (hop_loop n ret lexicon base st))))"
  using assms
proof (induction n arbitrary: st)
  case 0
  then show ?case by simp
next
  case (Suc n)
  let ?q = "as_current st"
  let ?h = "hop_of ret ?q"
  show ?case
  proof (cases "fst (sufficiency (ret ?q))")
    case True
    then have "hop_loop (Suc n) ret lexicon base st = st\<lparr>as_hops := as_hops st @ [?h]\<rparr>"
      by (simp add: Let_def hop_of_def case_prod_unfold)
    with True Suc.prems show ?thesis by (intro exI [of _ "[?h]"]) (simp add: hop_of_def)
  next
    case False
    obtain q ph where r: "reformulate base (ret ?q) lexicon (as_tried st) = (q, ph)" by fastforce
    define st2 where "st2 = st\<lparr>as_hops := as_hops st @ [?h], as_current := q,
      as_tried := (case ph of None \<Rightarrow> as_tried st | Some x \<Rightarrow> as_tried st @ [x])\<rparr>"
    have run: "hop_loop (Suc n) ret lexicon base st = hop_loop n ret lexicon base st2"
      using False r by (simp add: Let_def hop_of_def case_prod_unfold st2_def)
    from reformulate_cases [OF r] have q: "reformulated base lexicon q" and "distinct (as_tried st2)"
      using Suc.prems by (auto simp: reformulated_def st2_def split: option.splits)
    from Suc.IH [OF this(2)] obtain hs where hs:
      "as_hops (hop_loop n ret lexicon base st2) = as_hops st2 @ hs" "length hs \<le> n"
      "0 < n \<longrightarrow> hs \<noteq> [] \<and> hp_query (hd hs) = as_current st2" "\<forall>h \<in> set hs. h = hop_of ret (hp_query h)"
      "\<forall>h \<in> set (butlast hs). \<not> hp_sufficient h" "\<forall>h \<in> set (tl hs). reformulated base lexicon (hp_query h)"
      "distinct (as_tried (hop_loop n ret lexicon base st2))"
      "if hs \<noteq> [] \<and> hp_sufficient (last hs) then as_current (hop_loop n ret lexicon base st2) = hp_query (last hs)
       else length hs = n \<and> (0 < n \<longrightarrow> reformulated base lexicon (as_current (hop_loop n ret lexicon base st2)))" by blast
    have insuff: "\<not> hp_sufficient ?h" "hp_query ?h = ?q" using False by (simp_all add: hop_of_def)
    have cur: "n = 0 \<Longrightarrow> as_current (hop_loop n ret lexicon base st2) = q" by (simp add: st2_def)
    have tl: "\<forall>h \<in> set (tl (?h # hs)). reformulated base lexicon (hp_query h)"
    proof (cases hs)
      case (Cons a list)
      then have "0 < n" using hs(2) by simp
      with hs(3) have "hp_query (hd hs) = q" by (simp add: st2_def)
      with hs(6) q Cons show ?thesis by simp
    qed simp
    show ?thesis unfolding run
      by (intro exI [of _ "?h # hs"]) (use hs insuff tl q cur in \<open>auto simp: st2_def hop_of_def split: if_splits\<close>)
  qed
qed

text \<open>A whole call: its hops are those of one run of the loop, and the answer is for the query the run leaves.\<close>

lemma agentic_answer_hops:
  assumes "0 < max_hops" and lexicon: "lexicon = capability_lexicon ps" and base: "base = py_lower (strip_vague q)"
  obtains hs q' where "ag_hops (agentic_answer ret ret0 client ps max_hops q) = hs"
    "ag_answer (agentic_answer ret ret0 client ps max_hops q) = ra_text (rag_answer_for client q' (ret0 q'))"
    "hs \<noteq> []" "length hs \<le> max_hops" "hp_query (hd hs) = q" "\<forall>h \<in> set hs. h = hop_of ret (hp_query h)"
    "\<forall>h \<in> set (butlast hs). \<not> hp_sufficient h" "\<forall>h \<in> set (tl hs). reformulated base lexicon (hp_query h)"
    "if hp_sufficient (last hs) then q' = hp_query (last hs) else length hs = max_hops \<and> reformulated base lexicon q'"
proof -
  let ?st = "hop_loop max_hops ret lexicon base \<lparr>as_hops = [], as_current = q, as_tried = []\<rparr>"
  from hop_loop_props [of "\<lparr>as_hops = [], as_current = q, as_tried = []\<rparr>" max_hops ret lexicon base] obtain hs where hs:
    "as_hops ?st = hs" "length hs \<le> max_hops" "hs \<noteq> []" "hp_query (hd hs) = q"
    "\<forall>h \<in> set hs. h = hop_of ret (hp_query h)" "\<forall>h \<in> set (butlast hs). \<not> hp_sufficient h"
    "\<forall>h \<in> set (tl hs). reformulated base lexicon (hp_query h)"
    "if hp_sufficient (last hs) then as_current ?st = hp_query (last hs)
       else length hs = max_hops \<and> reformulated base lexicon (as_current ?st)"
    using assms(1) by (auto split: if_splits)
  show ?thesis
    by (rule that [of hs "as_current ?st"])
      (use hs in \<open>simp_all add: agentic_answer_def Let_def lexicon base\<close>)
qed

text \<open>When the bound is exhausted the answer is for one more reformulation, which no hop needs to have retrieved and judged.\<close>

lemma exhausted_loop_asks_anew:
  assumes "0 < max_hops" and "\<not> hp_sufficient (last (ag_hops (agentic_answer ret ret0 client ps max_hops q)))"
  shows "\<exists>q'. reformulated (py_lower (strip_vague q)) (capability_lexicon ps) q'
    \<and> ag_answer (agentic_answer ret ret0 client ps max_hops q) = ra_text (rag_answer_for client q' (ret0 q'))"
  using assms(2) by (rule_tac agentic_answer_hops [OF assms(1) refl refl, of ret ret0 client ps q]) auto

text \<open>C36: The agentic loop always stops, within its bound, and gives up on a query only after judging it: for a positive bound it
  retrieves at least once, starting with the shopper's own query; every hop records the gate's judgement of what its own
  query retrieved; every hop but the last was judged insufficient; every later query is the de-vagued query with a phrase
  of the catalog and the word deal; the loop stops before its bound only at a sufficient hop; and if the last hop was
  sufficient, the answer is generated for exactly that hop's query, whose retrieval leads with a deal, has at least two deals
  and more deals than traps.\<close>

theorem agentic_loop:
  assumes "0 < max_hops"
  shows "let a = agentic_answer ret ret0 client ps max_hops q; lst = last (ag_hops a); items = ret (hp_query lst);
        lexicon = capability_lexicon ps; base = py_lower (strip_vague q) in
     ag_hops a \<noteq> [] \<and> length (ag_hops a) \<le> max_hops \<and> hp_query (hd (ag_hops a)) = q
   \<and> (\<forall>h \<in> set (ag_hops a). let found = ret (hp_query h) in
        (hp_sufficient h, hp_reason h) = sufficiency found \<and> hp_verdicts h = map rt_verdict found)
   \<and> (\<forall>h \<in> set (butlast (ag_hops a)). \<not> hp_sufficient h)
   \<and> (\<forall>h \<in> set (tl (ag_hops a)). reformulated base lexicon (hp_query h))
   \<and> (length (ag_hops a) < max_hops \<longrightarrow> hp_sufficient lst)
   \<and> (hp_sufficient lst \<longrightarrow>
            ag_answer a = ra_text (rag_answer_for client (hp_query lst) (ret0 (hp_query lst)))
          \<and> items \<noteq> [] \<and> rt_verdict (hd items) = Deal \<and> 2 \<le> n_verdict Deal items
          \<and> n_verdict Suspicious items < n_verdict Deal items)"
proof -
  let ?a = "agentic_answer ret ret0 client ps max_hops q"
  from agentic_answer_hops [OF assms refl refl, of ret ret0 client ps q] obtain hs q' where a: "ag_hops ?a = hs"
    "ag_answer ?a = ra_text (rag_answer_for client q' (ret0 q'))"
    and hs: "hs \<noteq> []" "length hs \<le> max_hops" "hp_query (hd hs) = q" "\<forall>h \<in> set hs. h = hop_of ret (hp_query h)"
    "\<forall>h \<in> set (butlast hs). \<not> hp_sufficient h"
    "\<forall>h \<in> set (tl hs). reformulated (py_lower (strip_vague q)) (capability_lexicon ps) (hp_query h)"
    "if hp_sufficient (last hs) then q' = hp_query (last hs)
     else length hs = max_hops \<and> reformulated (py_lower (strip_vague q)) (capability_lexicon ps) q'" by metis
  have rec: "(hp_sufficient h, hp_reason h) = sufficiency (ret (hp_query h)) \<and> hp_verdicts h = map rt_verdict (ret (hp_query h))"
    if "h \<in> set hs" for h
  proof -
    from hs(4) that have "h = hop_of ret (hp_query h)" by blast
    then obtain q where "h = hop_of ret q" by blast
    then show ?thesis by (simp add: hop_of_def)
  qed
  have "hp_sufficient (last hs) \<Longrightarrow> fst (sufficiency (ret (hp_query (last hs))))"
    using rec [OF last_in_set [OF hs(1)]] by (metis fst_conv)
  then show ?thesis using hs rec unfolding Let_def a by (auto simp: sufficiency_iff split: if_splits)
qed

theorem agentic_loop_witness:
  "length (ag_hops (agentic_answer (\<lambda>_. []) (\<lambda>_. []) None [] 3 ''cheap tv'')) = 3"
  using agentic_loop [of 3 "\<lambda>_. []" "\<lambda>_. []" None "[]" "''cheap tv''"]
  by (auto simp: Let_def le_less)

end
