(* ===== verification/Orchestrate.thy ===== *)
theory Orchestrate
  imports Rag
begin

text \<open>
  \<open>dealfinder/orchestrate.py\<close>: the writer and the reviewer with its own retrieval (\<open>ret\<close>), and the
  revision by the extractive answer. Code points outside ASCII are their UTF-8 bytes.
\<close>

record review_result =
  rv_approved :: bool
  rv_issues :: "string list"
  rv_grounded :: bool
  rv_lead_is_a_deal :: bool
  rv_trap_warned :: bool

record orchestrated =
  or_answer :: string
  or_approved :: bool
  or_review :: review_result
  or_revised :: bool
  or_used_llm :: bool

section \<open>The lead pick\<close>

definition en_dash :: string where "en_dash = map char_of [226, 128, 147 :: nat]"
definition bullet :: string where "bullet = map char_of [226, 128, 162 :: nat]"

definition LEAD :: rx where
  "LEAD = seqs [ci ''Best'', plus (Cls is_space), alts (ci ''value'') [ci ''pick''], Star (Cls is_space),
     opt (Cls (\<lambda>c. c \<in> set '':.-'')), Star (Cls is_space), opt (lit (CHR 10)), Star (Cls is_space),
     opt (alts (Cls (\<lambda>c. c \<in> set ''-*'')) [str bullet]), Star (Cls is_space),
     Grp (Cat anych (Lazy anych)), Star (Cls is_space),
     alts (seqs [Bound, ci ''at'', plus (Cls is_space), lit (CHR ''$'')])
       [seqs [alts (lit (CHR ''-'')) [str en_dash, str em_dash], Star (Cls is_space), lit (CHR ''$'')], str ''($'', lit (CHR ''$'')]]"

function strip_units :: "string list \<Rightarrow> string \<Rightarrow> string" where
  \<comment> \<open>\<open>lstrip\<close> of a set of code points, each given by its bytes\<close>
  "strip_units us s =
     (case find (\<lambda>u. u \<noteq> [] \<and> prefix u s) us of Some u \<Rightarrow> strip_units us (drop (length u) s) | None \<Rightarrow> s)"
  by pat_completeness auto
termination
proof (relation "measure (\<lambda>(us, s). length s)")
  fix us s u assume "find (\<lambda>u. u \<noteq> [] \<and> prefix u s) us = Some u"
  from find_in [OF this] have "u \<noteq> []" "length u \<le> length s" by (auto dest: prefix_length_le)
  then show "((us, drop (length u) s), us, s) \<in> measure (\<lambda>(us, s). length s)" by (cases u) auto
qed simp

declare strip_units.simps [simp del]

definition LEAD_MARKS :: "string list" where
  "LEAD_MARKS = ['' '', ''-'', en_dash, em_dash, '':'', ''*'']"

definition lead_title :: "string \<Rightarrow> string" where
  "lead_title s =
     (case rx_group LEAD (rx_sub (plus (Cls (\<lambda>c. c \<in> set ''*_`#''))) '''' s) of
        None \<Rightarrow> ''''
      | Some g \<Rightarrow> rev (strip_units (map rev LEAD_MARKS) (rev (strip_units LEAD_MARKS g))))"

definition norm_spaces :: "string \<Rightarrow> string" where
  "norm_spaces s = py_strip (rx_sub (plus (Cls is_space)) '' '' (py_lower s))"

section \<open>The reviewer\<close>

definition by_title :: "retrieved list \<Rightarrow> (string, retrieved) dict" where
  "by_title items = foldl (\<lambda>d it. dict_set (norm_spaces (rt_title it)) it d) [] items"

definition lead_item :: "string \<Rightarrow> retrieved list \<Rightarrow> retrieved option" where
  "lead_item answer items =
     (let lead = norm_spaces (lead_title answer)
      in map_option snd (find (\<lambda>(t, it). lead \<noteq> [] \<and> py_in lead t) (by_title items)))"

definition warned :: "string \<Rightarrow> bool" where
  "warned answer \<longleftrightarrow> py_in ''suspicious'' (py_lower answer) \<or> py_in ''avoid'' (py_lower answer)"

definition review :: "retrieved list \<Rightarrow> string \<Rightarrow> review_result" where
  \<comment> \<open>over the items the reviewer retrieved\<close>
  "review items answer =
     (let grounded = is_grounded answer items; found = lead_item answer items;
          deal = (case found of Some it \<Rightarrow> rt_verdict it = Deal | None \<Rightarrow> False);
          traps = filter (\<lambda>it. rt_verdict it = Suspicious) items;
          warn = (traps = [] \<or> warned answer)
      in \<lparr>rv_approved = (grounded \<and> deal \<and> warn),
          rv_issues = (if grounded then [] else [''cites a product or price not in the retrieved evidence''])
            @ (case found of None \<Rightarrow> [''could not identify the lead pick in the evidence'']
               | Some it \<Rightarrow> if rt_verdict it \<noteq> Deal
                  then [''lead pick is '' @ py_upper (label_str (rt_verdict it)) @ '', not a DEAL: '' @ rt_title it] else [])
            @ (if warn then [] else [''retrieved a SUSPICIOUS trap ('' @ rt_title (hd traps) @ '') but did not warn about it'']),
          rv_grounded = grounded, rv_lead_is_a_deal = deal, rv_trap_warned = warn\<rparr>)"

definition orchestrate :: "chat option \<Rightarrow> (string \<Rightarrow> retrieved list) \<Rightarrow> string \<Rightarrow> orchestrated" where
  "orchestrate client ret q =
     (let draft = rag_answer_for client q (ret q); r = review (ret q) (ra_text draft)
      in if rv_approved r
         then \<lparr>or_answer = ra_text draft, or_approved = True, or_review = r, or_revised = False, or_used_llm = ra_used_llm draft\<rparr>
         else
           (let fixed = extractive_answer (ret q); r2 = review (ret q) (ra_text fixed)
            in \<lparr>or_answer = ra_text fixed, or_approved = rv_approved r2, or_review = r2, or_revised = True, or_used_llm = False\<rparr>))"

section \<open>What is approved\<close>

lemma review_checks:
  "rv_approved (review items a) \<longleftrightarrow> rv_grounded (review items a) \<and> rv_lead_is_a_deal (review items a) \<and> rv_trap_warned (review items a)"
  "rv_grounded (review items a) \<longleftrightarrow> is_grounded a items"
  "rv_lead_is_a_deal (review items a) \<longleftrightarrow> (\<exists>it. lead_item a items = Some it \<and> rt_verdict it = Deal)"
  "rv_trap_warned (review items a) \<longleftrightarrow> n_traps items = 0 \<or> warned a" if "n_traps = (\<lambda>items. length (filter (\<lambda>it. rt_verdict it = Suspicious) items))"
  using that by (auto simp: review_def Let_def split: option.splits)

lemma rv_issues_iff: "rv_issues (review items a) = [] \<longleftrightarrow> rv_approved (review items a)"
  by (auto simp: review_def Let_def split: option.splits)

lemma by_title_items: "(t, it) \<in> set (by_title items) \<Longrightarrow> it \<in> set items \<and> t = norm_spaces (rt_title it)"
proof -
  have "dict_wf d \<Longrightarrow> (\<forall>(t, it) \<in> set d. P it \<and> t = norm_spaces (rt_title it)) \<Longrightarrow> (\<forall>it \<in> set items. P it) \<Longrightarrow>
     (\<forall>(t, it) \<in> set (foldl (\<lambda>d it. dict_set (norm_spaces (rt_title it)) it d) d items). P it \<and> t = norm_spaces (rt_title it))" for d P
  proof (induction items arbitrary: d)
    case (Cons x xs)
    have "\<forall>(t, it) \<in> set (dict_set (norm_spaces (rt_title x)) x d). P it \<and> t = norm_spaces (rt_title it)"
      using Cons.prems by (auto simp: set_dict_set)
    with Cons.IH [of "dict_set (norm_spaces (rt_title x)) x d"] Cons.prems show ?case by simp
  qed simp
  from this [of "[]" "\<lambda>it. it \<in> set items"] show "(t, it) \<in> set (by_title items) \<Longrightarrow> ?thesis"
    by (fastforce simp: by_title_def dict_wf_def)
qed

lemma lead_item_SomeD:
  assumes "lead_item a items = Some it"
  shows "it \<in> set items \<and> norm_spaces (lead_title a) \<noteq> [] \<and> py_in (norm_spaces (lead_title a)) (norm_spaces (rt_title it))"
proof -
  obtain t where "find (\<lambda>(t, it). norm_spaces (lead_title a) \<noteq> [] \<and> py_in (norm_spaces (lead_title a)) t) (by_title items) = Some (t, it)"
    using assms by (auto simp: lead_item_def Let_def)
  from find_in [OF this] have "(t, it) \<in> set (by_title items)" "norm_spaces (lead_title a) \<noteq> []" "py_in (norm_spaces (lead_title a)) t"
    by auto
  with by_title_items [OF this(1)] show ?thesis by simp
qed

lemma sublist_join: "w \<in> set ws \<Longrightarrow> sublist w (py_join sep ws)"
proof (induction ws)
  case (Cons v vs)
  show ?case
  proof (cases "w = v")
    case True
    then show ?thesis by (simp add: py_join_Cons)
  next
    case False
    with Cons have "sublist w (py_join sep vs)" "vs \<noteq> []" by auto
    then show ?thesis
      using sublist_order.order.trans [OF _ sublist_append_leftI, of w "py_join sep vs" "v @ sep"] by (simp add: py_join_Cons)
  qed
qed simp

lemma extractive_warns:
  assumes "filter (\<lambda>it. rt_verdict it = Suspicious) items \<noteq> []"
  shows "warned (ra_text (extractive_answer items))"
proof -
  have ne: "items \<noteq> []" using assms by auto
  let ?s = "hd (traps_of items)"
  have "traps_of items \<noteq> []" using assms by (simp add: traps_of_def)
  then have "trap_part ?s \<in> set (map snd (answer_parts items))" by (cases "traps_of items") (simp_all add: answer_parts_def)
  then have "sublist (trap_part ?s) (py_join '' '' (map snd (answer_parts items)))" by (rule sublist_join)
  moreover have "sublist ''Avoid'' (trap_part ?s)" by (simp add: trap_part_def sublist_Cons_right)
  ultimately have "sublist ''Avoid'' (ra_text (extractive_answer items))"
    using ne by (simp add: extractive_answer_def Let_def)
  then have "sublist (py_lower ''Avoid'') (py_lower (ra_text (extractive_answer items)))"
    unfolding py_lower_def by (rule map_mono_sublist)
  moreover have "py_lower ''Avoid'' = ''avoid''" by code_simp
  ultimately show ?thesis by (simp add: warned_def py_in_iff_sublist)
qed

text \<open>C9: What the orchestrator hands out as approved passed every check of the reviewer's own retrieval: the text is grounded,
  its lead pick is found in a retrieved title and is a genuine deal, and a retrieved trap is warned
  about. A draft that fails is never handed out: the extractive answer replaces it, which over a
  non-empty retrieval is always grounded and always warns, so only its lead pick can keep it from
  approval. An answer is approved exactly when the review lists no issue.\<close>

theorem orchestrate_approval:
  "let o1 = orchestrate client ret q; items = ret q in
     (or_approved o1 \<longrightarrow> is_grounded (or_answer o1) items
        \<and> (\<exists>it \<in> set items. rt_verdict it = Deal \<and> norm_spaces (lead_title (or_answer o1)) \<noteq> []
             \<and> py_in (norm_spaces (lead_title (or_answer o1))) (norm_spaces (rt_title it)))
        \<and> (Suspicious \<in> rt_verdict ` set items \<longrightarrow> warned (or_answer o1)))
   \<and> (or_approved o1 \<longleftrightarrow> rv_issues (or_review o1) = [])
   \<and> (or_revised o1 \<longrightarrow> or_answer o1 = ra_text (extractive_answer items) \<and> \<not> or_used_llm o1
        \<and> (items \<noteq> [] \<longrightarrow> rv_grounded (or_review o1) \<and> rv_trap_warned (or_review o1)))"
proof -
  let ?o = "orchestrate client ret q" and ?items = "ret q"
  have rev: "or_review ?o = review ?items (or_answer ?o)" "or_approved ?o = rv_approved (or_review ?o)"
    by (simp_all add: orchestrate_def Let_def)
  have revised: "or_revised ?o \<Longrightarrow> or_answer ?o = ra_text (extractive_answer ?items) \<and> \<not> or_used_llm ?o"
    by (simp add: orchestrate_def Let_def split: if_splits)
  note checks = review_checks [OF refl, of ?items "or_answer ?o"]
  have "is_grounded (or_answer ?o) ?items
        \<and> (\<exists>it \<in> set ?items. rt_verdict it = Deal \<and> norm_spaces (lead_title (or_answer ?o)) \<noteq> []
             \<and> py_in (norm_spaces (lead_title (or_answer ?o))) (norm_spaces (rt_title it)))
        \<and> (Suspicious \<in> rt_verdict ` set ?items \<longrightarrow> warned (or_answer ?o))" if "or_approved ?o"
  proof -
    from that checks rev obtain it where "lead_item (or_answer ?o) ?items = Some it" "rt_verdict it = Deal"
      "is_grounded (or_answer ?o) ?items" and w: "filter (\<lambda>it. rt_verdict it = Suspicious) ?items = [] \<or> warned (or_answer ?o)" by auto
    moreover have "Suspicious \<in> rt_verdict ` set ?items \<longrightarrow> warned (or_answer ?o)"
      using w by (auto simp: filter_empty_conv)
    ultimately show ?thesis using lead_item_SomeD by blast
  qed
  moreover have "?items \<noteq> [] \<longrightarrow> rv_grounded (or_review ?o) \<and> rv_trap_warned (or_review ?o)" if "or_revised ?o"
    using revised [OF that] checks rev extractive_grounded [of ?items] extractive_warns [of ?items] by auto
  moreover have "or_approved ?o \<longleftrightarrow> rv_issues (or_review ?o) = []" using rv_issues_iff rev by simp
  ultimately show ?thesis using revised by (simp add: Let_def)
qed

theorem orchestrate_approval_witness:
  "let items = [\<lparr>rt_id = ''1'', rt_title = ''tv'', rt_price = 9, rt_source = ''s'', rt_category = ''audio'', rt_similarity = 1,
       rt_verdict = Deal, rt_median_signal = 0.5, rt_fair_price = 80, rt_residual_frac = 0.4, rt_reason = ''r''\<rparr>] in
   is_grounded (or_answer (orchestrate (Some (\<lambda>_. Some (Some ''Best value: tv at $9.00''))) (\<lambda>_. items) ''tv'')) items"
proof -
  let ?items = "[\<lparr>rt_id = ''1'', rt_title = ''tv'', rt_price = 9, rt_source = ''s'', rt_category = ''audio'', rt_similarity = 1,
       rt_verdict = Deal, rt_median_signal = 0.5, rt_fair_price = 80, rt_residual_frac = 0.4, rt_reason = ''r''\<rparr>]"
  have "py_strip ''Best value: tv at $9.00'' = ''Best value: tv at $9.00''" by code_simp
  then have "ra_text (rag_answer_for (Some (\<lambda>_. Some (Some ''Best value: tv at $9.00''))) ''tv'' ?items) = ''Best value: tv at $9.00''"
    by (simp add: rag_answer_for_def llm_answer_def Let_def)
  moreover have "rv_approved (review ?items ''Best value: tv at $9.00'')" by code_simp
  ultimately have "or_approved (orchestrate (Some (\<lambda>_. Some (Some ''Best value: tv at $9.00''))) (\<lambda>_. ?items) ''tv'')"
    by (simp add: orchestrate_def Let_def)
  then show ?thesis
    using orchestrate_approval [of "Some (\<lambda>_. Some (Some ''Best value: tv at $9.00''))" "\<lambda>_. ?items" "''tv''"] by (simp add: Let_def)
qed

end
