(* ===== verification/Tool_Trust.thy ===== *)
theory Tool_Trust
  imports Compliance
begin

text \<open>
  \<open>dealfinder/tool_trust.py\<close>: gating of tool descriptors (allowlist and poisoning scan) and the
  typosquat check of dependency names, whose edit distance is the row-by-row dynamic program of
  the code. A Python set of names is the list of its elements in iteration order.
\<close>

section \<open>Tool descriptors\<close>

definition TOOL_REDFLAGS :: "string list" where
  "TOOL_REDFLAGS =
     [''exfiltrate'', ''send to'', ''curl '', ''base64'', ''read the file'', ''environment variable'',
      ''api key'', ''secret'', ''ignore the schema'', ''before calling any other tool'']"

record tool =
  tl_name :: "string option"
  tl_description :: "string option"
  tl_server :: "string option"

record tool_verdict =
  tv_name :: string
  tv_safe :: bool
  tv_issues :: "string list"

definition scan_tool :: "tool \<Rightarrow> tool_verdict" where
  "scan_tool t =
     (let name = (case tl_name t of None \<Rightarrow> ''<unnamed>'' | Some n \<Rightarrow> n);
          text = py_lower (name @ '' '' @ (case tl_description t of None \<Rightarrow> '''' | Some d \<Rightarrow> d));
          hits = filter (\<lambda>f. py_in f text) TOOL_REDFLAGS;
          issues = (if detect_prompt_injection text then [''description contains prompt-injection phrasing''] else [])
                 @ (if hits \<noteq> [] then [''suspicious phrases: '' @ py_join '', '' hits] else [])
      in \<lparr>tv_name = name, tv_safe = (issues = []), tv_issues = issues\<rparr>)"

definition server_of :: "tool \<Rightarrow> string" where
  "server_of t = (case tl_server t of None \<Rightarrow> '''' | Some s \<Rightarrow> s)"

definition vet_step :: "string list \<Rightarrow> tool list \<times> tool_verdict list \<Rightarrow> tool \<Rightarrow> tool list \<times> tool_verdict list" where
  "vet_step allowlist v t =
     (let verdict0 = scan_tool t;
          verdict1 = (if server_of t \<notin> set allowlist
            then verdict0\<lparr>tv_safe := False, tv_issues := (''server '' @ [CHR 39] @ server_of t @ [CHR 39] @ '' not on allowlist'') # tv_issues verdict0\<rparr>
            else verdict0)
      in if tv_safe verdict1 then (fst v @ [t], snd v) else (fst v, snd v @ [verdict1]))"

definition vet_tools :: "tool list \<Rightarrow> string list \<Rightarrow> tool list \<times> tool_verdict list" where
  \<comment> \<open>the registered tools and the quarantined verdicts\<close>
  "vet_tools tools allowlist = foldl (vet_step allowlist) ([], []) tools"

section \<open>Edit distance\<close>

fun row_step :: "'a \<Rightarrow> nat list \<Rightarrow> nat list \<Rightarrow> 'a list \<Rightarrow> nat list" where
  \<comment> \<open>the inner loop from column \<open>j\<close> on: \<open>prev[j-1] # prev[j] # ...\<close> and the cells computed so far\<close>
  "row_step ca (p # q # prev) cur (cb # b) =
     row_step ca (q # prev) (cur @ [min (min (q + 1) (last cur + 1)) (p + (if ca \<noteq> cb then 1 else 0))]) b"
| "row_step ca prev cur b = cur"

definition edit_rows :: "'a list \<Rightarrow> 'a list \<Rightarrow> nat list" where
  "edit_rows a b = foldl (\<lambda>prev (i, ca). row_step ca prev [i] b) [0..<length b + 1] (List.enumerate 1 a)"

definition edit_distance :: "'a list \<Rightarrow> 'a list \<Rightarrow> nat" where
  "edit_distance a b = (if a = b then 0 else last (edit_rows a b))"

definition check_dependency :: "'a list \<Rightarrow> 'a list list \<Rightarrow> 'a list option" where
  \<comment> \<open>over names as lists of characters of any kind: Python's are code points, so a byte list stands for an ASCII name only\<close>
  "check_dependency name known_good =
     (if name \<in> set known_good then None
      else find (\<lambda>good. \<bar>int (length name) - int (length good)\<bar> \<le> 1 \<and> edit_distance name good = 1) known_good)"

section \<open>The gate\<close>

lemma scan_tool_safe: "tv_safe (scan_tool t) \<longleftrightarrow> tv_issues (scan_tool t) = []"
  by (simp add: scan_tool_def Let_def)

lemma vet_tools_registered:
  "fst (vet_tools tools allowlist) = filter (\<lambda>t. server_of t \<in> set allowlist \<and> tv_safe (scan_tool t)) tools
   \<and> length (fst (vet_tools tools allowlist)) + length (snd (vet_tools tools allowlist)) = length tools
   \<and> (\<forall>v \<in> set (snd (vet_tools tools allowlist)). \<not> tv_safe v \<and> tv_issues v \<noteq> [])"
proof (induction tools rule: rev_induct)
  case (snoc t ts)
  have v: "vet_tools (ts @ [t]) allowlist = vet_step allowlist (vet_tools ts allowlist) t" by (simp add: vet_tools_def)
  from snoc show ?case unfolding v by (auto simp: vet_step_def Let_def scan_tool_safe)
qed (simp add: vet_tools_def)

section \<open>The dynamic program computes the distance\<close>

fun lev :: "'a list \<Rightarrow> 'a list \<Rightarrow> nat" where
  "lev [] ys = length ys"
| "lev (x # xs) [] = Suc (length xs)"
| "lev (x # xs) (y # ys) = min (min (lev xs (y # ys) + 1) (lev (x # xs) ys + 1)) (lev xs ys + (if x \<noteq> y then 1 else 0))"

text \<open>The row of a reversed prefix \<open>ra\<close> of the first string: the distances to the prefixes of the second.\<close>

definition lev_row :: "'a list \<Rightarrow> 'a list \<Rightarrow> 'a list \<Rightarrow> nat list" where
  "lev_row ra rb b = map (\<lambda>j. lev ra (rev (take j b) @ rb)) [0..<length b + 1]"

lemma lev_row_Cons: "lev_row ra rb (c # b) = lev ra rb # lev_row ra (c # rb) b"
  by (simp add: lev_row_def map_upt_Suc del: upt_Suc)

lemma lev_row_Nil [simp]: "lev_row ra rb [] = [lev ra rb]"
  by (simp add: lev_row_def)

lemma row_step_lev:
  "cur \<noteq> [] \<Longrightarrow> last cur = lev (ca # ra) rb \<Longrightarrow>
   row_step ca (lev_row ra rb b) cur b = butlast cur @ lev_row (ca # ra) rb b"
proof (induction b arbitrary: rb cur)
  case (Cons c b)
  let ?new = "min (min (lev ra (c # rb) + 1) (last cur + 1)) (lev ra rb + (if ca \<noteq> c then 1 else 0))"
  have new: "?new = lev (ca # ra) (c # rb)" using Cons.prems by simp
  obtain rest where rest: "lev_row ra (c # rb) b = lev ra (c # rb) # rest"
    by (cases b) (simp_all add: lev_row_Cons)
  have "row_step ca (lev_row ra rb (c # b)) cur (c # b) = row_step ca (lev_row ra (c # rb) b) (cur @ [?new]) b"
    by (simp add: lev_row_Cons rest)
  also have "\<dots> = butlast (cur @ [?new]) @ lev_row (ca # ra) (c # rb) b"
    by (rule Cons.IH) (simp_all only: new last_snoc snoc_eq_iff_butlast, simp)
  also have "\<dots> = butlast cur @ lev_row (ca # ra) rb (c # b)"
    using Cons.prems by (simp add: lev_row_Cons) (metis append_butlast_last_id append_Cons append_assoc append_Nil)
  finally show ?case .
qed (metis append_butlast_last_id lev_row_Nil row_step.simps(3))

lemma edit_rows_lev: "edit_rows a b = lev_row (rev a) [] b"
proof (induction a rule: rev_induct)
  case Nil
  show ?case by (auto simp: edit_rows_def lev_row_def intro!: nth_equalityI)
next
  case (snoc c a)
  have "edit_rows (a @ [c]) b = row_step c (edit_rows a b) [Suc (length a)] b"
    by (simp add: edit_rows_def enumerate_append_eq)
  then show ?case using snoc row_step_lev [of "[Suc (length a)]" c "rev a" "[]" b] by simp
qed

lemma edit_distance_lev: "edit_distance a b = lev (rev a) (rev b)"
proof -
  have refl: "lev xs xs = 0" for xs :: "'a list" by (induction xs) simp_all
  have "last (lev_row (rev a) [] b) = lev (rev a) (rev b)"
    by (simp add: lev_row_def)
  then show ?thesis using refl by (simp add: edit_distance_def edit_rows_lev)
qed

text \<open>One edit: a character inserted, deleted or replaced by another one.\<close>

definition one_edit :: "'a list \<Rightarrow> 'a list \<Rightarrow> bool" where
  "one_edit a b \<longleftrightarrow> (\<exists>u v x y. (a = u @ x # v \<and> b = u @ v) \<or> (a = u @ v \<and> b = u @ y # v)
     \<or> (x \<noteq> y \<and> a = u @ x # v \<and> b = u @ y # v))"

lemma lev_0: "lev xs ys = 0 \<longleftrightarrow> xs = ys"
  by (induction xs ys rule: lev.induct) (auto split: if_splits)

lemma lev_prefix: "lev (u @ xs) (u @ ys) \<le> lev xs ys"
  by (induction u) auto

lemma one_edit_Cons: "one_edit xs ys \<Longrightarrow> one_edit (x # xs) (x # ys)"
  unfolding one_edit_def by (metis append_Cons)

lemma lev_1: "lev xs ys = 1 \<longleftrightarrow> one_edit xs ys"
proof
  show "one_edit xs ys" if "lev xs ys = 1"
    using that
  proof (induction xs ys rule: lev.induct)
    case (1 ys)
    then show ?case by (cases ys) (auto simp: one_edit_def)
  next
    case (2 x xs)
    then show ?case by (auto simp: one_edit_def)
  next
    case (3 x xs y ys)
    from 3(4) consider "xs = y # ys" | "x # xs = ys" | "x = y" "lev xs ys = 1" | "x \<noteq> y" "xs = ys"
      by (auto simp: lev_0 [symmetric] min_def split: if_splits)
    then show ?case
    proof cases
      case 1
      then show ?thesis unfolding one_edit_def by (metis append_Nil)
    next
      case 2
      then show ?thesis unfolding one_edit_def by (metis append_Nil)
    next
      case 3
      then show ?thesis using "3.IH"(3) one_edit_Cons by metis
    next
      case 4
      then show ?thesis unfolding one_edit_def by (metis append_Nil)
    qed
  qed
  assume e: "one_edit xs ys"
  have "lev (x # v) v \<le> 1" for x and v :: "'a list" by (cases v) (auto simp: lev_0 [THEN iffD2])
  moreover have "lev v (x # v) \<le> 1" for x and v :: "'a list" by (cases v) (auto simp: lev_0 [THEN iffD2])
  moreover have "lev (x # v) (y # v) \<le> 1" for x y and v :: "'a list" by (simp add: lev_0 [THEN iffD2])
  ultimately have "lev xs ys \<le> 1" using e lev_prefix unfolding one_edit_def by (metis (no_types, opaque_lifting) order.trans)
  moreover have "xs \<noteq> ys" using e by (auto simp: one_edit_def)
  ultimately show "lev xs ys = 1" using lev_0 [of xs ys] by linarith
qed
lemma one_edit_rev: "one_edit (rev a) (rev b) \<longleftrightarrow> one_edit a b"
proof -
  have "one_edit a b \<Longrightarrow> one_edit (rev a) (rev b)" for a b :: "'a list"
  proof -
    assume "one_edit a b"
    then obtain u v x y where "(a = u @ x # v \<and> b = u @ v) \<or> (a = u @ v \<and> b = u @ y # v) \<or> (x \<noteq> y \<and> a = u @ x # v \<and> b = u @ y # v)"
      unfolding one_edit_def by blast
    then show ?thesis unfolding one_edit_def
      by (intro exI [of _ "rev v"] exI [of _ "rev u"] exI [of _ x] exI [of _ y]) auto
  qed
  from this [of a b] this [of "rev a" "rev b"] show ?thesis by auto
qed

lemma edit_distance_1: "edit_distance a b = 1 \<longleftrightarrow> one_edit a b"
  unfolding edit_distance_lev lev_1 one_edit_rev ..

lemma one_edit_length: "one_edit a b \<Longrightarrow> \<bar>int (length a) - int (length b)\<bar> \<le> 1"
  by (auto simp: one_edit_def)

text \<open>C39: The typosquat check computes what it promises: the row-by-row program is the Levenshtein distance, and a name
  is reported exactly when it is no known package and one inserted, deleted or replaced character
  turns it into one; the reported package is such a neighbour, the first in iteration order.\<close>

theorem check_dependency_typosquat:
  "edit_distance (rev a) (rev b) = lev a b
   \<and> (check_dependency name known = None \<longleftrightarrow> name \<in> set known \<or> (\<forall>good \<in> set known. \<not> one_edit name good))
   \<and> (check_dependency name known = Some good \<longleftrightarrow> name \<notin> set known
        \<and> (\<exists>before after. known = before @ good # after \<and> one_edit name good \<and> (\<forall>g \<in> set before. \<not> one_edit name g)))"
proof (intro conjI)
  let ?P = "\<lambda>good. \<bar>int (length name) - int (length good)\<bar> \<le> 1 \<and> edit_distance name good = 1"
  have P: "?P = one_edit name" by (rule ext) (auto simp: edit_distance_1 one_edit_length simp del: One_nat_def)
  show "edit_distance (rev a) (rev b) = lev a b" by (simp add: edit_distance_lev)
  show "check_dependency name known = None \<longleftrightarrow> name \<in> set known \<or> (\<forall>good \<in> set known. \<not> one_edit name good)"
    unfolding check_dependency_def P by (auto simp: find_None_iff)
  show "check_dependency name known = Some good \<longleftrightarrow> name \<notin> set known
        \<and> (\<exists>before after. known = before @ good # after \<and> one_edit name good \<and> (\<forall>g \<in> set before. \<not> one_edit name g))"
    unfolding check_dependency_def P by (simp add: find_Some_split)
qed

theorem check_dependency_typosquat_witness:
  "check_dependency ''reqests'' [''numpy'', ''requests''] = Some ''requests''"
proof -
  have "one_edit ''reqests'' ''requests''"
    unfolding one_edit_def by (intro exI [of _ "''req''"] exI [of _ "''ests''"] exI [of _ "CHR ''u''"]) simp
  moreover have "\<not> one_edit ''reqests'' ''numpy''" using one_edit_length [of "''reqests''" "''numpy''"] by auto
  ultimately have "\<exists>before after. [''numpy'', ''requests''] = before @ ''requests'' # after \<and> one_edit ''reqests'' ''requests''
      \<and> (\<forall>g \<in> set before. \<not> one_edit ''reqests'' g)"
    by (intro exI [of _ "[''numpy'']"] exI [of _ "[]"]) simp
  then show ?thesis
    by (intro check_dependency_typosquat [of "[]" "[]" "''reqests''" "[''numpy'', ''requests'']" "''requests''",
          THEN conjunct2, THEN conjunct2, THEN iffD2] conjI) simp_all
qed

end
