(* ===== verification/Context_Window.thy ===== *)
theory Context_Window
  imports Rag
begin

text \<open>
  \<open>dealfinder/context.py\<close>: packing retrieved listings into a token budget, the order of the packed
  listings, and the compaction of a conversation. The tokenizer is the argument \<open>count_tokens\<close>;
  the search for its file on disk comes last.
\<close>

section \<open>Packing\<close>

record packed =
  pk_included :: "retrieved list"
  pk_dropped :: "retrieved list"
  pk_tokens :: nat
  pk_budget :: int

definition item_cost :: "(string \<Rightarrow> nat) \<Rightarrow> retrieved \<Rightarrow> nat" where
  "item_cost count_tokens it = count_tokens (build_context [it])"

definition pack_step :: "(string \<Rightarrow> nat) \<Rightarrow> packed \<Rightarrow> retrieved \<Rightarrow> packed" where
  "pack_step count_tokens p it =
     (let cost = item_cost count_tokens it in
      if int (pk_tokens p + cost) \<le> pk_budget p
      then p\<lparr>pk_included := pk_included p @ [it], pk_tokens := pk_tokens p + cost\<rparr>
      else p\<lparr>pk_dropped := pk_dropped p @ [it]\<rparr>)"

definition pack_deals :: "(string \<Rightarrow> nat) \<Rightarrow> retrieved list \<Rightarrow> int \<Rightarrow> packed" where
  "pack_deals count_tokens items budget =
     foldl (pack_step count_tokens) \<lparr>pk_included = [], pk_dropped = [], pk_tokens = 0, pk_budget = budget\<rparr> items"

definition put_side :: "'a list \<times> 'a list \<Rightarrow> nat \<times> 'a \<Rightarrow> 'a list \<times> 'a list" where
  "put_side ht ix = (if fst ix mod 2 = 0 then (fst ht @ [snd ix], snd ht) else (fst ht, snd ht @ [snd ix]))"

definition lost_in_the_middle :: "'a list \<Rightarrow> 'a list" where
  "lost_in_the_middle items = (let (head, tail) = foldl put_side ([], []) (List.enumerate 0 items) in head @ rev tail)"

section \<open>Compaction\<close>

record compacted =
  cp_text :: string
  cp_turns_before :: nat
  cp_turns_kept :: int
  cp_tokens_before :: nat
  cp_tokens_after :: nat

definition user_intent :: "string \<Rightarrow> string" where
  "user_intent turn =
     (let line = py_before (CHR 10) (py_strip turn); low = py_lower line in
      if \<not> (py_startswith low ''user:'' \<or> py_startswith low ''user '') then ''''
      else if CHR '':'' \<in> set line then py_strip (py_after (CHR '':'') line) else line)"

definition arrow :: string where "arrow = map char_of [226, 134, 146 :: nat]"

definition compact_history :: "(string \<Rightarrow> nat) \<Rightarrow> string list \<Rightarrow> int \<Rightarrow> compacted" where
  "compact_history count_tokens turns keep_recent =
     (let before = py_join [CHR 10] turns in
      if int (length turns) \<le> keep_recent
      then (let n = count_tokens before
            in \<lparr>cp_text = before, cp_turns_before = length turns, cp_turns_kept = int (length turns),
                cp_tokens_before = n, cp_tokens_after = n\<rparr>)
      else
        (let old = (if keep_recent = 0 then [] else py_slice_to (- keep_recent) turns);
             recent = (if keep_recent = 0 then turns else py_slice_from (- keep_recent) turns);
             intents = filter (\<lambda>s. s \<noteq> []) (map user_intent old);
             summary = ''[earlier queries: '' @ py_join ('' '' @ arrow @ '' '') intents @ '']'';
             after = py_join [CHR 10] (summary # recent)
         in \<lparr>cp_text = after, cp_turns_before = length turns, cp_turns_kept = keep_recent,
             cp_tokens_before = count_tokens before, cp_tokens_after = count_tokens after\<rparr>))"

section \<open>What is packed\<close>

lemma pack_deals_props:
  assumes "0 \<le> budget"
  shows "let p = pack_deals count_tokens items budget in
     pk_tokens p = sum_list (map (item_cost count_tokens) (pk_included p)) \<and> int (pk_tokens p) \<le> budget \<and> pk_budget p = budget
   \<and> subseq (pk_included p) items \<and> subseq (pk_dropped p) items \<and> mset (pk_included p) + mset (pk_dropped p) = mset items
   \<and> (\<forall>it \<in> set (pk_dropped p). budget < int (pk_tokens p + item_cost count_tokens it))"
proof (induction items rule: rev_induct)
  case Nil
  show ?case using assms by (simp add: pack_deals_def)
next
  case (snoc it items)
  have step: "pack_deals count_tokens (items @ [it]) budget = pack_step count_tokens (pack_deals count_tokens items budget) it"
    by (simp add: pack_deals_def)
  have app: "subseq xs ys \<Longrightarrow> subseq (xs @ [z]) (ys @ [z])" "subseq xs ys \<Longrightarrow> subseq xs (ys @ [z])" for xs ys and z :: retrieved
    by (auto intro: list_emb_append_mono)
  from snoc show ?case unfolding step by (force simp: pack_step_def Let_def app)
qed

text \<open>As long as the ranking fits it is included as it stands, and an included listing stays. (The loop does not stop at the first
  listing that does not fit: a dropped listing is one for which there was no room left, as \<open>pack_deals_props\<close> says.)\<close>

lemma pack_deals_fits:
  "int (sum_list (map (item_cost count_tokens) xs)) \<le> budget \<Longrightarrow>
   pack_deals count_tokens xs budget =
     \<lparr>pk_included = xs, pk_dropped = [], pk_tokens = sum_list (map (item_cost count_tokens) xs), pk_budget = budget\<rparr>"
proof (induction xs rule: rev_induct)
  case (snoc x xs)
  then have "pack_deals count_tokens xs budget =
     \<lparr>pk_included = xs, pk_dropped = [], pk_tokens = sum_list (map (item_cost count_tokens) xs), pk_budget = budget\<rparr>" by simp
  with snoc.prems show ?case by (simp add: pack_deals_def pack_step_def Let_def)
qed (simp add: pack_deals_def)

lemma pack_deals_append:
  "prefix (pk_included (pack_deals count_tokens xs budget)) (pk_included (pack_deals count_tokens (xs @ ys) budget))"
proof (induction ys rule: rev_induct)
  case (snoc y ys)
  have "pack_deals count_tokens (xs @ ys @ [y]) budget = pack_step count_tokens (pack_deals count_tokens (xs @ ys) budget) y"
    by (simp add: pack_deals_def)
  moreover have "prefix (pk_included p) (pk_included (pack_step count_tokens p y))" for p
    by (simp add: pack_step_def Let_def)
  ultimately show ?case using snoc by (metis prefix_order.trans)
qed simp

lemma best_ranked_included:
  "int (sum_list (map (item_cost count_tokens) (take k items))) \<le> budget \<Longrightarrow>
   prefix (take k items) (pk_included (pack_deals count_tokens items budget))"
  using pack_deals_append [of count_tokens "take k items" budget "drop k items"] pack_deals_fits [of count_tokens "take k items" budget]
  by simp

lemma put_side_fold:
  "foldl put_side ([], []) (List.enumerate 0 items)
   = (map (\<lambda>i. items ! (2 * i)) [0..<(length items + 1) div 2], map (\<lambda>i. items ! (2 * i + 1)) [0..<length items div 2])"
proof (induction items rule: rev_induct)
  case (snoc x xs)
  have en: "List.enumerate 0 (xs @ [x]) = List.enumerate 0 xs @ [(length xs, x)]" by (simp add: enumerate_append_eq)
  show ?case
  proof (cases "even (length xs)")
    case True
    then obtain k where "length xs = 2 * k" by blast
    then show ?thesis using snoc by (auto simp: en put_side_def nth_append)
  next
    case False
    then obtain k where "length xs = 2 * k + 1" by (auto elim: oddE)
    then show ?thesis using snoc by (auto simp: en put_side_def nth_append)
  qed
qed simp

lemma lost_in_the_middle_eq:
  "lost_in_the_middle items = map (\<lambda>i. items ! (2 * i)) [0..<(length items + 1) div 2]
     @ rev (map (\<lambda>i. items ! (2 * i + 1)) [0..<length items div 2])"
  by (simp add: lost_in_the_middle_def put_side_fold)

lemma length_lost_in_the_middle [simp]: "length (lost_in_the_middle items) = length items"
  by (simp add: lost_in_the_middle_eq)

lemma lost_in_the_middle_nth:
  assumes "r < length items"
  shows "lost_in_the_middle items ! (if even r then r div 2 else length items - 1 - r div 2) = items ! r"
proof (cases "even r")
  case True
  then obtain k where "r = 2 * k" by blast
  moreover from this have "k < (length items + 1) div 2" using assms by simp
  ultimately show ?thesis by (simp add: lost_in_the_middle_eq nth_append)
next
  case False
  then obtain k where k: "r = 2 * k + 1" by (auto elim: oddE)
  let ?n = "length items"
  have split: "?n = (?n + 1) div 2 + ?n div 2" and m: "k < ?n div 2" using assms k by linarith+
  define a m where "a = (?n + 1) div 2" and "m = ?n div 2"
  have i: "?n - 1 - k = a + (m - Suc k)" "m - Suc (m - Suc k) = k" "m - Suc k < m" "k < m"
    using split m unfolding a_def [symmetric] m_def [symmetric] by linarith+
  let ?xs = "map (\<lambda>i. items ! (2 * i)) [0..<a]" and ?ys = "map (\<lambda>i. items ! (2 * i + 1)) [0..<m]"
  have "(?xs @ rev ?ys) ! (a + (m - Suc k)) = rev ?ys ! (m - Suc k)"
    using nth_append_length_plus [of ?xs "rev ?ys" "m - Suc k"] by simp
  also have "\<dots> = ?ys ! k" using i by (simp add: rev_nth)
  also have "\<dots> = items ! r" using i(4) k by simp
  finally have "lost_in_the_middle items ! (?n - 1 - k) = items ! r"
    unfolding lost_in_the_middle_eq a_def [symmetric] m_def [symmetric] i(1) .
  moreover have "(if even r then r div 2 else ?n - 1 - r div 2) = ?n - 1 - k" using k by simp
  ultimately show ?thesis by simp
qed

lemma lost_in_the_middle_mset: "mset (lost_in_the_middle items) = mset items"
proof -
  have "mset (fst (foldl put_side (h, t) ixs)) + mset (snd (foldl put_side (h, t) ixs)) = mset h + mset t + mset (map snd ixs)"
    for h t :: "'a list" and ixs by (induction ixs arbitrary: h t) (auto simp: put_side_def)
  from this [of "[]" "[]" "List.enumerate 0 items"] show ?thesis
    by (simp add: lost_in_the_middle_def case_prod_unfold Let_def)
qed
lemma compact_zero_keeps_all:
  assumes "turns \<noteq> []"
  shows "cp_text (compact_history count_tokens turns 0) = ''[earlier queries: ]'' @ [CHR 10] @ py_join [CHR 10] turns
    \<and> cp_turns_kept (compact_history count_tokens turns 0) = 0"
  using assms by (simp add: compact_history_def Let_def py_join_Cons)

lemma compact_keeps_recent:
  assumes "0 < k" and "int k < int (length turns)"
  shows "suffix (py_join [CHR 10] (drop (length turns - k) turns)) (cp_text (compact_history count_tokens turns (int k)))
    \<and> cp_turns_kept (compact_history count_tokens turns (int k)) = int k"
proof -
  have "nat (int (length turns) - int k) = length turns - k" using assms by simp
  then show ?thesis
    using assms by (auto simp: compact_history_def Let_def py_slice_from_def py_join_Cons suffix_def)
qed

text \<open>C38: What goes into the window. Packing splits the retrieved listings into included and dropped ones, both in rank order: the
  included ones cost exactly the recorded tokens and never more than the budget, and as many of the best-ranked listings as fit
  together come first among them. Reordering then loses and adds nothing and puts the listing of rank r at
  distance r div 2 from the start (even ranks) or from the end (odd ranks), so the weakest are in the middle.\<close>

theorem context_assembly:
  assumes "0 \<le> budget"
  shows "let p = pack_deals count_tokens items budget; shown = lost_in_the_middle (pk_included p) in
     subseq (pk_included p) items \<and> subseq (pk_dropped p) items \<and> mset (pk_included p) + mset (pk_dropped p) = mset items
   \<and> pk_tokens p = sum_list (map (item_cost count_tokens) (pk_included p)) \<and> int (pk_tokens p) \<le> budget
   \<and> (\<forall>k. int (sum_list (map (item_cost count_tokens) (take k items))) \<le> budget \<longrightarrow> prefix (take k items) (pk_included p))
   \<and> mset shown = mset (pk_included p)
   \<and> (\<forall>r < length (pk_included p). shown ! (if even r then r div 2 else length shown - 1 - r div 2) = pk_included p ! r)"
proof -
  let ?p = "pack_deals count_tokens items budget"
  have "lost_in_the_middle (pk_included ?p) ! (if even r then r div 2 else length (lost_in_the_middle (pk_included ?p)) - 1 - r div 2)
      = pk_included ?p ! r" if "r < length (pk_included ?p)" for r
    unfolding length_lost_in_the_middle by (rule lost_in_the_middle_nth [OF that])
  with pack_deals_props [OF assms, of count_tokens items] best_ranked_included [of count_tokens _ items budget] show ?thesis
    unfolding Let_def lost_in_the_middle_mset by blast
qed

theorem context_assembly_witness:
  "int (pk_tokens (pack_deals (\<lambda>line. 7) [\<lparr>rt_id = ''1'', rt_title = ''tv'', rt_price = 9, rt_source = ''s'', rt_category = ''audio'',
       rt_similarity = 1, rt_verdict = Deal, rt_median_signal = 0.5, rt_fair_price = 80, rt_residual_frac = 0.4, rt_reason = ''r''\<rparr>] 10)) \<le> 10"
  using context_assembly [of 10 "\<lambda>line. 7" "[\<lparr>rt_id = ''1'', rt_title = ''tv'', rt_price = 9, rt_source = ''s'', rt_category = ''audio'',
       rt_similarity = 1, rt_verdict = Deal, rt_median_signal = 0.5, rt_fair_price = 80, rt_residual_frac = 0.4, rt_reason = ''r''\<rparr>]"]
  unfolding Let_def by simp

section \<open>Finding the tokenizer\<close>

definition tokenizer_roots :: "environ \<Rightarrow> string \<Rightarrow> string \<Rightarrow> string list" where
  \<comment> \<open>over the home and the temporary directory\<close>
  "tokenizer_roots env home tmp =
     [home @ ''/.cache/huggingface/hub'', (case getenv env ''FASTEMBED_CACHE_PATH'' of None \<Rightarrow> '''' | Some p \<Rightarrow> p),
      tmp @ ''/fastembed_cache'', home @ ''/.cache/fastembed'']"

fun first_text_of :: "string \<Rightarrow> string list \<Rightarrow> string" where
  \<comment> \<open>the least of a non-empty list, in Python's order\<close>
  "first_text_of x [] = x"
| "first_text_of x (y # ys) = first_text_of (if (y, x) \<in> lexord {(a, b). ord a < ord b} then y else x) ys"

fun find_tokenizer_path :: "(string \<Rightarrow> string list) \<Rightarrow> string list \<Rightarrow> string option" where
  \<comment> \<open>\<open>glob_in dir\<close>: the \<open>tokenizer.json\<close> files below a root; \<open>None\<close> is the \<open>FileNotFoundError\<close>\<close>
  "find_tokenizer_path glob_in [] = None"
| "find_tokenizer_path glob_in (dir # roots) =
     (if dir = [] then find_tokenizer_path glob_in roots
      else (case filter (\<lambda>h. py_in ''bge-small'' (py_lower h)) (glob_in dir) of
          [] \<Rightarrow> find_tokenizer_path glob_in roots
        | h # hs \<Rightarrow> Some (first_text_of h hs)))"

lemma first_text_in: "first_text_of x ys \<in> insert x (set ys)"
  by (induction ys arbitrary: x) force+

lemma find_tokenizer_found:
  "find_tokenizer_path glob_in roots = Some h \<Longrightarrow>
   \<exists>dir \<in> set roots. dir \<noteq> [] \<and> h \<in> set (glob_in dir) \<and> py_in ''bge-small'' (py_lower h)"
proof (induction roots)
  case (Cons dir roots)
  let ?hits = "filter (\<lambda>h. py_in ''bge-small'' (py_lower h)) (glob_in dir)"
  show ?case
  proof (cases "dir = [] \<or> ?hits = []")
    case True
    then have "find_tokenizer_path glob_in roots = Some h" using Cons.prems by (cases "dir = []") simp_all
    from Cons.IH [OF this] show ?thesis by auto
  next
    case False
    then obtain x xs where hits: "?hits = x # xs" by (cases ?hits) auto
    with False Cons.prems have "h = first_text_of x xs" by simp
    then have "h \<in> set ?hits" using first_text_in [of x xs] hits by simp
    then have "h \<in> set (glob_in dir) \<and> py_in ''bge-small'' (py_lower h)" by simp
    with False show ?thesis by (intro bexI [of _ dir]) auto
  qed
qed simp

lemma find_tokenizer_none:
  "find_tokenizer_path glob_in roots = None \<longleftrightarrow> (\<forall>dir \<in> set roots. dir = [] \<or> (\<forall>h \<in> set (glob_in dir). \<not> py_in ''bge-small'' (py_lower h)))"
  by (induction roots) (auto split: list.splits simp: filter_empty_conv dest: filter_eq_ConsD)

end
