(* ===== verification/Inference.thy ===== *)
theory Inference
  imports Search Settings
begin

text \<open>
  \<open>dealfinder/llm.py\<close> (the model tier of the LLM client), \<open>inference.py\<close> (cascade router, cache
  measurement, batching model; the report is in \<open>Inference_Report\<close>), \<open>cache.py\<close> (the semantic cache) and \<open>recommend.py\<close>.
  The HTTP endpoint, the injected model call and its confidence are arguments; \<open>None\<close> stands for a raise.
\<close>

section \<open>The LLM client\<close>

definition SKIP_STATUS :: "nat list" where "SKIP_STATUS = [402, 403, 404, 429, 502, 503]"

definition llm_models :: "environ \<Rightarrow> string list" where
  "llm_models env =
     (case getenv env ''OPENROUTER_MODELS'' of
        Some s \<Rightarrow> if s = '''' then [''google/gemma-4-31b-it:free'', ''openai/gpt-oss-20b:free'', ''openrouter/free'']
                  else filter (\<lambda>m. m \<noteq> '''') (map py_strip (py_split_on (CHR '','') s))
      | None \<Rightarrow> [''google/gemma-4-31b-it:free'', ''openai/gpt-oss-20b:free'', ''openrouter/free''])"

definition llm_available :: "environ \<Rightarrow> bool" where
  "llm_available env \<longleftrightarrow> truthy (getenv env ''OPENROUTER_API_KEY'')"

datatype posted = NetError string | Response nat "string option option"
  \<comment> \<open>status and message content, \<open>None\<close> for a malformed body, \<open>Some None\<close> for a null content\<close>

datatype llm_error = NoKey | AllFailed string | BadStatus nat | BadBody

fun try_models :: "(string \<Rightarrow> posted) \<Rightarrow> string list \<Rightarrow> string \<Rightarrow> llm_error + string option" where
  "try_models post [] lst = Inl (AllFailed (''all models failed ('' @ lst @ '')''))"
| "try_models post (m # ms) lst =
     (case post m of
        NetError e \<Rightarrow> try_models post ms (m @ '': '' @ e)
      | Response st body \<Rightarrow>
          if st = 200 then (case body of Some c \<Rightarrow> Inr c | None \<Rightarrow> Inl BadBody)
          else if st \<in> set SKIP_STATUS \<or> (200 \<le> st \<and> st < 300) then try_models post ms (m @ '': HTTP '' @ nat_digits st)
          else Inl (BadStatus st))"

definition llm_chat :: "environ \<Rightarrow> (string \<Rightarrow> posted) \<Rightarrow> string list \<Rightarrow> llm_error + string option" where
  "llm_chat env post tier =
     (if \<not> llm_available env then Inl NoKey
      else try_models post (if tier = [] then llm_models env else tier) ''no models'')"

section \<open>The semantic cache\<close>

record 'a sem_cache =
  sc_threshold :: pyfloat
  sc_vecs :: "pyfloat list list"
  sc_vals :: "'a list"

definition new_cache :: "pyfloat \<Rightarrow> 'a sem_cache" where
  "new_cache threshold = \<lparr>sc_threshold = threshold, sc_vecs = [], sc_vals = []\<rparr>"

definition cache_put :: "pyfloat list \<Rightarrow> 'a \<Rightarrow> 'a sem_cache \<Rightarrow> 'a sem_cache" where
  "cache_put v x c = c\<lparr>sc_vecs := sc_vecs c @ [v], sc_vals := sc_vals c @ [x]\<rparr>"

definition cache_sim :: "pyfloat list \<Rightarrow> pyfloat list \<Rightarrow> pyfloat" where
  "cache_sim v q = dot v q / (vnorm v * vnorm q + 1 / 10 ^ 9)"

fun argmax_from :: "nat \<Rightarrow> nat \<Rightarrow> pyfloat \<Rightarrow> pyfloat list \<Rightarrow> nat" where
  "argmax_from j i m [] = i"
| "argmax_from j i m (x # xs) = (if x > m then argmax_from (Suc j) j x xs else argmax_from (Suc j) i m xs)"

definition argmax :: "pyfloat list \<Rightarrow> nat" where
  "argmax xs = (case xs of [] \<Rightarrow> 0 | x # ys \<Rightarrow> argmax_from 1 0 x ys)"

definition cache_get :: "pyfloat list \<Rightarrow> 'a sem_cache \<Rightarrow> 'a option" where
  "cache_get q c =
     (if sc_vecs c = [] then None
      else (let sims = map (\<lambda>v. cache_sim v q) (sc_vecs c); i = argmax sims
            in if sims ! i \<ge> sc_threshold c then Some (sc_vals c ! i) else None))"

definition cache_run_step :: "'a sem_cache \<times> nat \<Rightarrow> pyfloat list \<times> 'a \<Rightarrow> 'a sem_cache \<times> nat" where
  "cache_run_step cn vl =
     (case cache_get (fst vl) (fst cn) of Some _ \<Rightarrow> (fst cn, snd cn + 1) | None \<Rightarrow> (cache_put (fst vl) (snd vl) (fst cn), snd cn))"

record cache_report =
  cr_threshold :: pyfloat
  cr_n :: nat
  cr_hits :: nat
  cr_rate :: pyfloat

definition measure_cache_hit_rate :: "(pyfloat list \<times> string) list \<Rightarrow> pyfloat \<Rightarrow> cache_report" where
  "measure_cache_hit_rate batch threshold =
     (let hits = snd (foldl cache_run_step (new_cache threshold, 0) batch); n = length batch
      in \<lparr>cr_threshold = threshold, cr_n = n, cr_hits = hits, cr_rate = py_round 3 (of_nat hits / of_nat n)\<rparr>)"

record snap_item =
  si_id :: string
  si_category :: string
  si_title :: string

fun demo_bases :: "string list \<Rightarrow> string list \<Rightarrow> snap_item list \<Rightarrow> string list" where
  "demo_bases seen bases [] = bases"
| "demo_bases seen bases (r # rs) =
     (let (seen1, bases1) = (if si_category r \<in> set seen then (seen, bases) else (seen @ [si_category r], bases @ [si_id r]))
      in if length bases1 \<ge> 6 then bases1 else demo_bases seen1 bases1 rs)"

definition demo_batch_ids :: "snap_item list \<Rightarrow> string list" where
  "demo_batch_ids items =
     concat (map (\<lambda>b. [b, b]) (demo_bases [] [] items)) @ map si_id (take 2 (filter (\<lambda>r. py_in ''WH-1000XM5'' (si_title r)) items))"

section \<open>The cascade router\<close>

record route_result =
  ro_answer :: string
  ro_model :: string
  ro_attempts :: "string list"
  ro_escalated :: bool

fun route_from ::
  "(string \<Rightarrow> string + string) \<Rightarrow> (string \<Rightarrow> pyfloat) \<Rightarrow> pyfloat \<Rightarrow> string list \<Rightarrow> string \<Rightarrow> string list \<Rightarrow> string + route_result" where
  \<comment> \<open>\<open>call\<close> on the prompt: \<open>Inl\<close> the exception's text\<close>
  "route_from call confidence min_confidence attempts last_err [] = Inl (''all tiers exhausted ('' @ last_err @ '')'')"
| "route_from call confidence min_confidence attempts last_err (m # ms) =
     (case call m of
        Inl e \<Rightarrow> route_from call confidence min_confidence (attempts @ [m]) (m @ '': '' @ e) ms
      | Inr a \<Rightarrow>
          if confidence a \<ge> min_confidence
          then Inr \<lparr>ro_answer = a, ro_model = m, ro_attempts = attempts @ [m], ro_escalated = (length (attempts @ [m]) > 1)\<rparr>
          else route_from call confidence min_confidence (attempts @ [m]) (m @ '': low confidence'') ms)"

definition route ::
  "(string \<Rightarrow> string + string) \<Rightarrow> (string \<Rightarrow> pyfloat) \<Rightarrow> pyfloat \<Rightarrow> string list \<Rightarrow> string + route_result" where
  "route call confidence min_confidence tiers = route_from call confidence min_confidence [] ''None'' tiers"

section \<open>The batching model\<close>

record batching =
  bt_n :: int
  bt_per_item :: pyfloat
  bt_batched :: pyfloat
  bt_speedup :: pyfloat

definition model_batching_throughput :: "int \<Rightarrow> pyfloat \<Rightarrow> pyfloat \<Rightarrow> batching" where
  "model_batching_throughput n overhead compute =
     (let per_item = of_int n * (overhead + compute); batched = overhead + of_int n * compute
      in \<lparr>bt_n = n, bt_per_item = py_round 4 per_item, bt_batched = py_round 4 batched, bt_speedup = py_round 2 (per_item / batched)\<rparr>)"

section \<open>Recommenders\<close>

definition unit_row :: "pyfloat list \<Rightarrow> pyfloat list" where
  "unit_row v = map (\<lambda>x. x / (if vnorm v = 0 then 1 else vnorm v)) v"

definition cosine_sim :: "pyfloat list list \<Rightarrow> pyfloat list list" where
  "cosine_sim rows = map (\<lambda>v. map (\<lambda>w. dot (unit_row v) (unit_row w)) rows) rows"

definition column :: "pyfloat list list \<Rightarrow> nat \<Rightarrow> pyfloat list" where
  "column rows j = map (\<lambda>r. r ! j) rows"

definition width :: "pyfloat list list \<Rightarrow> nat" where
  "width rows = (case rows of [] \<Rightarrow> 0 | r # _ \<Rightarrow> length r)"

definition std_of :: "pyfloat list \<Rightarrow> pyfloat" where
  "std_of xs = sqrt (mean_of (map (\<lambda>x. (x - mean_of xs)\<^sup>2) xs))"

definition standardize :: "pyfloat list list \<Rightarrow> pyfloat list list" where
  "standardize rows =
     map (\<lambda>r. map (\<lambda>j. (r ! j - mean_of (column rows j)) / (if std_of (column rows j) = 0 then 1 else std_of (column rows j)))
                  [0..<width rows]) rows"

definition content_recommend :: "nat \<Rightarrow> pyfloat list list \<Rightarrow> int \<Rightarrow> bool \<Rightarrow> nat list" where
  "content_recommend idx rows k std =
     (let sims = cosine_sim (if std then standardize rows else rows) ! idx
      in py_slice_to k (filter (\<lambda>j. j \<noteq> idx) (sort_key (\<lambda>j. - (sims ! j)) [0..<length rows])))"

definition transpose_rows :: "pyfloat list list \<Rightarrow> pyfloat list list" where
  "transpose_rows rows = map (column rows) [0..<width rows]"

definition liked_items :: "pyfloat list \<Rightarrow> nat list" where
  "liked_items row = filter (\<lambda>j. row ! j > 0) [0..<length row]"

definition cf_score :: "pyfloat list \<Rightarrow> pyfloat list list \<Rightarrow> nat \<Rightarrow> pyfloat" where
  "cf_score row rows j = sum_list (map (\<lambda>i. cosine_sim (transpose_rows rows) ! i ! j) (liked_items row))"

definition collaborative_recommend :: "pyfloat list \<Rightarrow> pyfloat list list \<Rightarrow> int \<Rightarrow> nat list" where
  \<comment> \<open>liked items score \<open>-inf\<close> and are left out\<close>
  "collaborative_recommend row rows k =
     py_slice_to k (sort_key (\<lambda>j. - cf_score row rows j) (filter (\<lambda>j. j \<notin> set (liked_items row)) [0..<width rows]))"

definition load_catalog_embeddings :: "product list \<Rightarrow> string list \<Rightarrow> pyfloat list list \<Rightarrow> pyfloat list list option" where
  \<comment> \<open>the committed cache as ids and vectors; \<open>None\<close> is the \<open>KeyError\<close> of an unknown id\<close>
  "load_catalog_embeddings ps ids vectors =
     (let pos = foldl (\<lambda>d (i, pid). dict_set pid i d) [] (List.enumerate 0 ids)
      in those (map (\<lambda>p. map_option (\<lambda>i. vectors ! i) (dict_get pos (p_id p))) ps))"

definition similar_products :: "product list \<Rightarrow> pyfloat list list \<Rightarrow> string \<Rightarrow> int \<Rightarrow> product list option" where
  \<comment> \<open>\<open>None\<close>: no title holds the text (\<open>StopIteration\<close>)\<close>
  "similar_products ps emb t k =
     map_option (\<lambda>(i, p). map (\<lambda>j. ps ! j) (content_recommend i emb k False))
       (find (\<lambda>(i, p). py_in (py_lower t) (py_lower (title p))) (List.enumerate 0 ps))"

section \<open>What the router answers\<close>

definition tier_fails :: "(string \<Rightarrow> string + string) \<Rightarrow> (string \<Rightarrow> pyfloat) \<Rightarrow> pyfloat \<Rightarrow> string \<Rightarrow> bool" where
  "tier_fails call confidence mc m \<longleftrightarrow> (case call m of Inl e \<Rightarrow> True | Inr a \<Rightarrow> confidence a < mc)"

lemma route_from_spec:
  "(\<forall>e. route_from call confidence mc att lst tiers \<noteq> Inr e) \<longleftrightarrow> (\<forall>m \<in> set tiers. tier_fails call confidence mc m)"
  "route_from call confidence mc att lst tiers = Inr r \<Longrightarrow>
     \<exists>bs m as a. tiers = bs @ m # as \<and> (\<forall>x \<in> set bs. tier_fails call confidence mc x) \<and> call m = Inr a \<and> mc \<le> confidence a
       \<and> r = \<lparr>ro_answer = a, ro_model = m, ro_attempts = att @ bs @ [m], ro_escalated = (length (att @ bs @ [m]) > 1)\<rparr>"
proof (induction tiers arbitrary: att lst)
  case (Cons m ms)
  {
    case 1
    show ?case using Cons(1) [of "att @ [m]"] by (auto simp: tier_fails_def not_le split: sum.split)
  next
    case 2
    show ?case
    proof (cases "tier_fails call confidence mc m")
      case True
      with 2 obtain lst' where "route_from call confidence mc (att @ [m]) lst' ms = Inr r"
        by (auto simp: tier_fails_def split: sum.splits)
      from Cons(2) [OF this] obtain bs m' as a where *: "ms = bs @ m' # as" "\<forall>x \<in> set bs. tier_fails call confidence mc x"
        "call m' = Inr a" "mc \<le> confidence a"
        "r = \<lparr>ro_answer = a, ro_model = m', ro_attempts = (att @ [m]) @ bs @ [m'], ro_escalated = (length ((att @ [m]) @ bs @ [m']) > 1)\<rparr>"
        by blast
      with True show ?thesis by (intro exI [of _ "m # bs"] exI [of _ m'] exI [of _ as] exI [of _ a]) simp
    next
      case False
      with 2 obtain a where "call m = Inr a" "mc \<le> confidence a"
        "r = \<lparr>ro_answer = a, ro_model = m, ro_attempts = att @ [m], ro_escalated = (length (att @ [m]) > 1)\<rparr>"
        by (auto simp: tier_fails_def split: sum.splits)
      then show ?thesis by (intro exI [of _ "[]"] exI [of _ m] exI [of _ ms] exI [of _ a]) simp
    qed
  }
qed simp_all

lemma try_models_first:
  "try_models post ms lst = Inr c \<Longrightarrow>
     \<exists>bs m as. ms = bs @ m # as \<and> post m = Response 200 (Some c)
       \<and> (\<forall>x \<in> set bs. case post x of NetError e \<Rightarrow> True | Response st body \<Rightarrow> st \<in> set SKIP_STATUS \<or> (200 < st \<and> st < 300))"
proof (induction ms arbitrary: lst)
  case (Cons m ms)
  show ?case
  proof (cases "\<exists>lst'. try_models post ms lst' = Inr c
      \<and> (case post m of NetError e \<Rightarrow> True | Response st body \<Rightarrow> st \<in> set SKIP_STATUS \<or> (200 < st \<and> st < 300))")
    case True
    then obtain lst' where t: "try_models post ms lst' = Inr c"
      "case post m of NetError e \<Rightarrow> True | Response st body \<Rightarrow> st \<in> set SKIP_STATUS \<or> (200 < st \<and> st < 300)" by blast
    from Cons.IH [OF t(1)] obtain bs m' as where "ms = bs @ m' # as" "post m' = Response 200 (Some c)"
      "\<forall>x \<in> set bs. case post x of NetError e \<Rightarrow> True | Response st body \<Rightarrow> st \<in> set SKIP_STATUS \<or> (200 < st \<and> st < 300)" by blast
    with t(2) show ?thesis by (intro exI [of _ "m # bs"] exI [of _ m'] exI [of _ as]) simp
  next
    case False
    with Cons.prems have "post m = Response 200 (Some c)"
      by (auto split: posted.splits if_splits option.splits)
    then show ?thesis by (intro exI [of _ "[]"] exI [of _ m] exI [of _ ms]) simp
  qed
qed simp

lemma argmax_from_props:
  "i < j \<Longrightarrow> argmax_from j i m xs < j + length xs \<and> (argmax_from j i m xs = i \<or> j \<le> argmax_from j i m xs)
    \<and> (\<forall>x \<in> insert m (set xs). x \<le> (if argmax_from j i m xs = i then m else xs ! (argmax_from j i m xs - j)))"
proof (induction xs arbitrary: i j m)
  case (Cons x xs)
  show ?case
  proof (cases "x > m")
    case True
    let ?r = "argmax_from (Suc j) j x xs"
    from Cons.IH [of j "Suc j" x] have r: "?r < Suc j + length xs" "?r = j \<or> Suc j \<le> ?r"
      "\<forall>y \<in> insert x (set xs). y \<le> (if ?r = j then x else xs ! (?r - Suc j))" by auto
    have "(if ?r = j then x else xs ! (?r - Suc j)) = (x # xs) ! (?r - j)" using r(2) by (auto simp: nth_Cons')
    moreover have "?r \<noteq> i" using r(2) Cons.prems by auto
    ultimately show ?thesis using True r by auto
  next
    case False
    let ?r = "argmax_from (Suc j) i m xs"
    from Cons.IH [of i "Suc j" m] Cons.prems have r: "?r < Suc j + length xs" "?r = i \<or> Suc j \<le> ?r"
      "\<forall>y \<in> insert m (set xs). y \<le> (if ?r = i then m else xs ! (?r - Suc j))" by auto
    have "(if ?r = i then m else xs ! (?r - Suc j)) = (if ?r = i then m else (x # xs) ! (?r - j))"
      using r(2) by (auto simp: nth_Cons')
    then show ?thesis using False r by auto
  qed
qed simp

lemma argmax_in: "xs \<noteq> [] \<Longrightarrow> argmax xs < length xs \<and> (\<forall>x \<in> set xs. x \<le> xs ! argmax xs)"
proof -
  assume "xs \<noteq> []"
  then obtain x ys where xs: "xs = x # ys" by (cases xs) auto
  show ?thesis using argmax_from_props [of 0 1 x ys] by (auto simp: xs argmax_def nth_Cons')
qed

text \<open>A hit of the semantic cache is the value stored with the most similar vector, at or above the threshold.\<close>

lemma cache_get_SomeD:
  assumes "length (sc_vecs c) = length (sc_vals c)" and "cache_get q c = Some x"
  shows "\<exists>v. (v, x) \<in> set (zip (sc_vecs c) (sc_vals c)) \<and> sc_threshold c \<le> cache_sim v q
    \<and> (\<forall>w \<in> set (sc_vecs c). cache_sim w q \<le> cache_sim v q)"
proof -
  let ?sims = "map (\<lambda>v. cache_sim v q) (sc_vecs c)"
  have ne: "?sims \<noteq> []" and t: "sc_threshold c \<le> ?sims ! argmax ?sims" and x: "x = sc_vals c ! argmax ?sims"
    using assms(2) by (auto simp: cache_get_def Let_def split: if_splits)
  from argmax_in [OF ne] have i: "argmax ?sims < length (sc_vecs c)" "\<forall>s \<in> set ?sims. s \<le> ?sims ! argmax ?sims" unfolding length_map by blast+
  then have "(sc_vecs c ! argmax ?sims, x) \<in> set (zip (sc_vecs c) (sc_vals c))"
    using assms(1) by (auto simp: x set_zip)
  with i t show ?thesis by (intro exI [of _ "sc_vecs c ! argmax ?sims"]) auto
qed

lemma cache_get_None: "cache_get q c = None \<Longrightarrow> v \<in> set (sc_vecs c) \<Longrightarrow> cache_sim v q < sc_threshold c"
  using argmax_in [of "map (\<lambda>v. cache_sim v q) (sc_vecs c)"]
  by (auto simp: cache_get_def Let_def split: if_splits)

text \<open>The cascade serves the cheapest tier that is good enough. It answers with the first tier, in order, that neither raises nor
  falls short of the confidence bound; the recorded attempts are exactly the tiers up to it, each
  tried once, and it is marked escalated exactly when an earlier tier was skipped. It fails exactly
  when every tier fails. The LLM client underneath likewise returns the first model that answers 200,
  passing over only throttled or unreachable ones.\<close>

theorem cascade_first_good_tier:
  "(route call confidence mc tiers = Inr r \<longrightarrow>
      (\<exists>bs m as a. tiers = bs @ m # as \<and> (\<forall>x \<in> set bs. tier_fails call confidence mc x) \<and> call m = Inr a \<and> mc \<le> confidence a
        \<and> r = \<lparr>ro_answer = a, ro_model = m, ro_attempts = bs @ [m], ro_escalated = (bs \<noteq> [])\<rparr>))
   \<and> ((\<exists>e. route call confidence mc tiers = Inl e) \<longleftrightarrow> (\<forall>m \<in> set tiers. tier_fails call confidence mc m))
   \<and> (llm_chat env post tier = Inr c \<longrightarrow> llm_available env
       \<and> (\<exists>bs m as. (if tier = [] then llm_models env else tier) = bs @ m # as \<and> post m = Response 200 (Some c)
           \<and> (\<forall>x \<in> set bs. \<forall>st body. post x = Response st body \<longrightarrow> st \<in> set SKIP_STATUS \<or> (200 < st \<and> st < 300))))"
proof (intro conjI impI)
  assume "route call confidence mc tiers = Inr r"
  from route_from_spec(2) [OF this [unfolded route_def]]
  show "\<exists>bs m as a. tiers = bs @ m # as \<and> (\<forall>x \<in> set bs. tier_fails call confidence mc x) \<and> call m = Inr a \<and> mc \<le> confidence a
        \<and> r = \<lparr>ro_answer = a, ro_model = m, ro_attempts = bs @ [m], ro_escalated = (bs \<noteq> [])\<rparr>" by auto
next
  have "(\<exists>e. route call confidence mc tiers = Inl e) \<longleftrightarrow> (\<forall>r. route call confidence mc tiers \<noteq> Inr r)"
    by (cases "route call confidence mc tiers") auto
  then show "(\<exists>e. route call confidence mc tiers = Inl e) \<longleftrightarrow> (\<forall>m \<in> set tiers. tier_fails call confidence mc m)"
    unfolding route_def route_from_spec(1) .
next
  assume c: "llm_chat env post tier = Inr c"
  then show "llm_available env" by (simp add: llm_chat_def split: if_splits)
  from c have "try_models post (if tier = [] then llm_models env else tier) ''no models'' = Inr c"
    by (simp add: llm_chat_def split: if_splits)
  from try_models_first [OF this]
  show "\<exists>bs m as. (if tier = [] then llm_models env else tier) = bs @ m # as \<and> post m = Response 200 (Some c)
           \<and> (\<forall>x \<in> set bs. \<forall>st body. post x = Response st body \<longrightarrow> st \<in> set SKIP_STATUS \<or> (200 < st \<and> st < 300))"
    by (fastforce split: posted.splits)
qed

theorem cascade_first_good_tier_witness:
  "\<nexists>e. route (\<lambda>m. if m = ''strong'' then Inr ''yes'' else Inl ''429'') (\<lambda>_. 1) 0.5 [''cheap'', ''strong''] = Inl e"
proof -
  have "\<not> tier_fails (\<lambda>m. if m = ''strong'' then Inr ''yes'' else Inl ''429'') (\<lambda>_. 1) 0.5 ''strong''"
    by (simp add: tier_fails_def)
  then show ?thesis
    using cascade_first_good_tier [of "\<lambda>m. if m = ''strong'' then Inr ''yes'' else Inl ''429''" "\<lambda>_. 1" "0.5" "[''cheap'', ''strong'']",
      THEN conjunct2, THEN conjunct1] by (metis list.set_intros)
qed

end
