(* ===== verification/Http_Edge.thy ===== *)
theory Http_Edge
  imports Ratelimit Userdata
begin

text \<open>
  The edge of \<open>dealfinder/serve.py\<close>: the two middlewares in front of every route, the rendering of
  validation errors, the database's readiness and its probes. A handler is a function from the request and
  the application's state; \<open>Inl\<close> in a response is the text of a \<open>detail\<close>. Clock readings and the answers
  of the database are arguments.
\<close>

section \<open>The middlewares\<close>

record http_request =
  rq_path :: string
  rq_edge :: "string option"
  rq_cf :: "string option"
  rq_peer :: "string option"

record 'b response =
  rs_status :: nat
  rs_headers :: "(string, string) dict"
  rs_body :: "string + 'b"

type_synonym ('s, 'b) handler = "http_request \<Rightarrow> 's \<Rightarrow> 's \<times> 'b response"

definition EDGE_EXEMPT :: "string list" where "EDGE_EXEMPT = [''/healthz'', ''/health'', ''/readyz'']"

definition retry_after :: "pyfloat \<Rightarrow> nat" where "retry_after wait = nat (max 1 \<lceil>wait\<rceil>)"

definition rate_limit ::
  "(string \<Rightarrow> ip_addr option) \<Rightarrow> environ \<Rightarrow> pyfloat \<Rightarrow> ('s, 'b) handler \<Rightarrow> (limiter \<times> 's, 'b) handler" where
  "rate_limit parse env now call_next rq st =
     (let (l, s) = st in
      if ratelimit_enabled env
      then (case check (rq_path rq) (client_key parse env (rq_cf rq) (rq_peer rq)) now l of
              (l1, Inl e) \<Rightarrow> ((l1, s), \<lparr>rs_status = 500, rs_headers = [], rs_body = Inl ''Internal Server Error''\<rparr>)
            | (l1, Inr (Some wait)) \<Rightarrow>
                ((l1, s), \<lparr>rs_status = 429, rs_headers = [(''Retry-After'', nat_digits (retry_after wait))],
                           rs_body = Inl ''slow down''\<rparr>)
            | (l1, Inr None) \<Rightarrow> (let (s1, r) = call_next rq s in ((l1, s1), r)))
      else (let (s1, r) = call_next rq s in ((l, s1), r)))"

definition edge_refuses :: "environ \<Rightarrow> http_request \<Rightarrow> bool" where
  "edge_refuses env rq \<longleftrightarrow> truthy (getenv env ''EDGE_SHARED_SECRET'') \<and> rq_path rq \<notin> set EDGE_EXEMPT
     \<and> (case rq_edge rq of None \<Rightarrow> [] | Some got \<Rightarrow> got) \<noteq> the (getenv env ''EDGE_SHARED_SECRET'')"

definition edge_guard :: "environ \<Rightarrow> ('s, 'b) handler \<Rightarrow> ('s, 'b) handler" where
  "edge_guard env call_next rq st =
     (if edge_refuses env rq
      then (st, \<lparr>rs_status = 403, rs_headers = [], rs_body = Inl ''direct access not allowed''\<rparr>)
      else call_next rq st)"

definition serve_request ::
  "(string \<Rightarrow> ip_addr option) \<Rightarrow> environ \<Rightarrow> ('s, 'b) handler \<Rightarrow> pyfloat \<Rightarrow> (limiter \<times> 's, 'b) handler" where
  \<comment> \<open>the guard was registered last, so it runs first\<close>
  "serve_request parse env app now = edge_guard env (rate_limit parse env now app)"

section \<open>Validation errors as JSON\<close>

datatype nonfinite = NaN | PosInf | NegInf

datatype pyval =
    VNone | VBool bool | VInt int | VFloat pyfloat | VNonFinite nonfinite | VStr string
  | VList "pyval list" | VTuple "pyval list" | VDict "(string \<times> pyval) list"

fun nonfinite_str :: "nonfinite \<Rightarrow> string" where
  "nonfinite_str NaN = ''nan''" | "nonfinite_str PosInf = ''inf''" | "nonfinite_str NegInf = ''-inf''"

primrec json_safe :: "pyval \<Rightarrow> pyval" where
  "json_safe VNone = VNone"
| "json_safe (VBool b) = VBool b"
| "json_safe (VInt i) = VInt i"
| "json_safe (VFloat x) = VFloat x"
| "json_safe (VNonFinite x) = VStr (nonfinite_str x)"
| "json_safe (VStr s) = VStr s"
| "json_safe (VList vs) = VList (map json_safe vs)"
| "json_safe (VTuple vs) = VList (map json_safe vs)"
| "json_safe (VDict d) = VDict (map (map_prod id json_safe) d)"

fun utf8_text :: "string \<Rightarrow> bool" where
  \<comment> \<open>a text that \<open>encode("utf-8")\<close> accepts: no lone surrogate, whose three bytes would start with ED A0 to ED BF\<close>
  "utf8_text (c # d # s) \<longleftrightarrow> \<not> (ord c = 237 \<and> ord d \<ge> 160) \<and> utf8_text (d # s)"
| "utf8_text _ = True"

primrec serializable :: "pyval \<Rightarrow> bool" where
  \<comment> \<open>what the response can be rendered from: \<open>json.dumps\<close> with \<open>allow_nan=False\<close>, then the encoding of the text\<close>
  "serializable VNone = True"
| "serializable (VBool b) = True"
| "serializable (VInt i) = True"
| "serializable (VFloat x) = True"
| "serializable (VNonFinite x) = False"
| "serializable (VStr s) = utf8_text s"
| "serializable (VList vs) = list_all id (map serializable vs)"
| "serializable (VTuple vs) = list_all id (map serializable vs)"
| "serializable (VDict d) = (list_all (utf8_text \<circ> fst) d \<and> list_all snd (map (map_prod id serializable) d))"

primrec plain_json :: "pyval \<Rightarrow> bool" where
  \<comment> \<open>a value that JSON can give back: no tuple and no special float\<close>
  "plain_json VNone = True"
| "plain_json (VBool b) = True"
| "plain_json (VInt i) = True"
| "plain_json (VFloat x) = True"
| "plain_json (VNonFinite x) = False"
| "plain_json (VStr s) = True"
| "plain_json (VList vs) = list_all id (map plain_json vs)"
| "plain_json (VTuple vs) = False"
| "plain_json (VDict d) = list_all snd (map (map_prod id plain_json) d)"

definition internal_error :: "'b response" where
  \<comment> \<open>what a client gets when a handler raises\<close>
  "internal_error = \<lparr>rs_status = 500, rs_headers = [], rs_body = Inl ''Internal Server Error''\<rparr>"

definition validation_error :: "('e \<Rightarrow> pyval option) \<Rightarrow> 'e \<Rightarrow> pyval response" where
  \<comment> \<open>\<open>encoder\<close>: FastAPI's \<open>jsonable_encoder\<close> on the list of errors, \<open>None\<close> when it raises\<close>
  "validation_error encoder errors =
     (case encoder errors of
        None \<Rightarrow> internal_error
      | Some v \<Rightarrow>
          (let content = VDict [(''detail'', json_safe v)] in
           if serializable content then \<lparr>rs_status = 422, rs_headers = [], rs_body = Inr content\<rparr> else internal_error))"

section \<open>Is the database there\<close>

datatype ready_body = DbDisabled | DbDown | SchemaPending | SchemaCurrent

record db_state =
  ds_up :: bool
  ds_checked_at :: pyfloat
  ds_ready :: "(pyfloat \<times> nat \<times> ready_body) option"

definition DB_RECHECK_S :: pyfloat where "DB_RECHECK_S = 30"
definition READY_TTL_S :: pyfloat where "READY_TTL_S = 30"

definition db_ready :: "environ \<Rightarrow> bool \<Rightarrow> bool" where
  \<comment> \<open>\<open>schema_ready\<close>: what the migration check finds over a connection of its own\<close>
  "db_ready env schema_ready \<longleftrightarrow> truthy (getenv env ''DATABASE_URL'') \<and> schema_ready"

definition boot :: "environ \<Rightarrow> bool \<Rightarrow> pyfloat \<Rightarrow> db_state" where
  "boot env schema_ready now = \<lparr>ds_up = db_ready env schema_ready, ds_checked_at = now, ds_ready = None\<rparr>"

definition recheck_due :: "environ \<Rightarrow> pyfloat \<Rightarrow> db_state \<Rightarrow> bool" where
  "recheck_due env now d \<longleftrightarrow>
     \<not> (ds_up d \<or> \<not> truthy (getenv env ''DATABASE_URL'')) \<and> \<not> now - ds_checked_at d < DB_RECHECK_S"

definition maybe_recheck_db :: "environ \<Rightarrow> pyfloat \<Rightarrow> pyfloat \<Rightarrow> bool \<Rightarrow> db_state \<Rightarrow> db_state" where
  \<comment> \<open>the two readings of the clock\<close>
  "maybe_recheck_db env t1 t2 schema_ready d =
     (if recheck_due env t1 d then d\<lparr>ds_checked_at := t2, ds_up := db_ready env schema_ready\<rparr> else d)"

definition probe_due :: "pyfloat \<Rightarrow> db_state \<Rightarrow> bool" where
  "probe_due now d \<longleftrightarrow> (case ds_ready d of None \<Rightarrow> True | Some (t, _, _) \<Rightarrow> now - t \<ge> READY_TTL_S)"

definition readyz :: "environ \<Rightarrow> pyfloat \<Rightarrow> pyfloat \<Rightarrow> bool \<Rightarrow> bool \<Rightarrow> db_state \<Rightarrow> db_state \<times> ready_body response" where
  "readyz env t1 t2 ping current d =
     (if \<not> truthy (getenv env ''DATABASE_URL'')
      then (d, \<lparr>rs_status = 200, rs_headers = [], rs_body = Inr DbDisabled\<rparr>)
      else
        (let d1 = (if probe_due t1 d
                   then (if \<not> ping then d\<lparr>ds_ready := Some (t2, 503, DbDown)\<rparr>
                         else if \<not> current then d\<lparr>ds_ready := Some (t2, 503, SchemaPending)\<rparr>
                         else d\<lparr>ds_up := True, ds_ready := Some (t2, 200, SchemaCurrent)\<rparr>)
                   else d);
             (_, status, body) = the (ds_ready d1)
         in (d1, \<lparr>rs_status = status, rs_headers = [], rs_body = Inr body\<rparr>)))"

definition require_db :: "environ \<Rightarrow> pyfloat \<Rightarrow> pyfloat \<Rightarrow> bool \<Rightarrow> db_state \<Rightarrow> db_state \<times> (nat \<times> string) option" where
  \<comment> \<open>\<open>Some\<close>: the error it raises\<close>
  "require_db env t1 t2 schema_ready d =
     (let d1 = maybe_recheck_db env t1 t2 schema_ready d in
      (d1, if \<not> ds_up d1 then Some (503, ''accounts need a database (set DATABASE_URL)'') else None))"

section \<open>Requests one after the other\<close>

lemma serve_refused: "edge_refuses env rq \<Longrightarrow> serve_request parse env app now rq st =
    (st, \<lparr>rs_status = 403, rs_headers = [], rs_body = Inl ''direct access not allowed''\<rparr>)"
  by (simp add: serve_request_def edge_guard_def)

definition slow_down :: "nat \<Rightarrow> 'b response" where
  "slow_down d = \<lparr>rs_status = 429, rs_headers = [(''Retry-After'', nat_digits d)], rs_body = Inl ''slow down''\<rparr>"

lemma retry_after_bounds: "0 < d \<Longrightarrow> d \<le> 60 \<Longrightarrow> 1 \<le> retry_after d \<and> retry_after d \<le> 60 \<and> d \<le> real (retry_after d)"
  unfolding retry_after_def by (simp add: le_nat_iff nat_le_iff ceiling_le_iff)

lemma serve_allowed:
  assumes l: "limiter_ok now l" and go: "\<not> edge_refuses env rq"
    and serve: "serve_request parse env app now rq (l, s) = ((l', s'), r)"
  shows "limiter_ok now l' \<and> ((s', r) = app rq s \<or> s' = s \<and> (\<exists>d. 1 \<le> d \<and> d \<le> 60 \<and> r = slow_down d))"
proof (cases "ratelimit_enabled env")
  case False
  with go serve l show ?thesis
    by (auto simp: serve_request_def edge_guard_def rate_limit_def Let_def split: prod.splits)
next
  case True
  obtain l1 out where c: "check (rq_path rq) (client_key parse env (rq_cf rq) (rq_peer rq)) now l = (l1, out)"
    by (cases "check (rq_path rq) (client_key parse env (rq_cf rq) (rq_peer rq)) now l") auto
  note ok = check_ok [OF l c]
  then obtain res where res: "out = Inr res" by blast
  show ?thesis
  proof (cases res)
    case None
    with True go serve c res ok show ?thesis
      by (auto simp: serve_request_def edge_guard_def rate_limit_def Let_def split: prod.splits)
  next
    case (Some wait)
    with ok res obtain w where w: "0 < wait" "dict_get (l_windows l) (rq_path rq) = Some w" "wait \<le> w_window w" by auto
    have "w_window w \<le> 60" using l w(2) by (auto simp: limiter_ok_def window_ok_def)
    with w(3) have "wait \<le> 60" by simp
    note b = retry_after_bounds [OF w(1) this]
    have "r = slow_down (retry_after wait)" "s' = s" "l' = l1"
      using True go serve c res Some
      by (auto simp: serve_request_def edge_guard_def rate_limit_def slow_down_def Let_def)
    with ok b show ?thesis by blast
  qed
qed

fun run_served ::
  "(string \<Rightarrow> ip_addr option) \<Rightarrow> environ \<Rightarrow> ('s, 'b) handler \<Rightarrow> (pyfloat \<times> http_request) list \<Rightarrow>
   limiter \<times> 's \<Rightarrow> (limiter \<times> 's) \<times> 'b response list" where
  "run_served parse env app [] st = (st, [])"
| "run_served parse env app ((now, rq) # qs) st =
     (let (st1, r) = serve_request parse env app now rq st; (st2, rs) = run_served parse env app qs st1 in (st2, r # rs))"

fun run_app :: "('s, 'b) handler \<Rightarrow> http_request list \<Rightarrow> 's \<Rightarrow> 's" where
  "run_app app [] s = s"
| "run_app app (rq # qs) s = run_app app qs (fst (app rq s))"

lemma run_served_length: "length (snd (run_served parse env app qs st)) = length qs"
  by (induction parse env app qs st rule: run_served.induct) (auto simp: Let_def split: prod.splits)

lemma run_served_trusted:
  "fst (run_served parse env app qs st) = fst (run_served parse env app (filter (\<lambda>q. \<not> edge_refuses env (snd q)) qs) st)
   \<and> map snd (filter (\<lambda>x. \<not> edge_refuses env (snd (fst x))) (zip qs (snd (run_served parse env app qs st))))
     = snd (run_served parse env app (filter (\<lambda>q. \<not> edge_refuses env (snd q)) qs) st)"
proof (induction qs arbitrary: st)
  case (Cons q qs)
  show ?case
  proof (cases "edge_refuses env (snd q)")
    case True
    with Cons.IH [of st] show ?thesis by (cases q) (simp add: serve_refused Let_def case_prod_unfold)
  next
    case False
    with Cons.IH [of "fst (serve_request parse env app (fst q) (snd q) st)"] show ?thesis
      by (cases q) (simp add: Let_def case_prod_unfold)
  qed
qed simp

definition no_direct_access :: "'b response" where
  "no_direct_access = \<lparr>rs_status = 403, rs_headers = [], rs_body = Inl ''direct access not allowed''\<rparr>"

definition answered :: "('s, 'b) handler \<Rightarrow> http_request set \<Rightarrow> 'b response \<Rightarrow> bool" where
  \<comment> \<open>by the guard, the limiter or the application\<close>
  "answered app rqs r \<longleftrightarrow> r = no_direct_access \<or> (\<exists>d. 1 \<le> d \<and> d \<le> 60 \<and> r = slow_down d)
     \<or> (\<exists>rq \<in> rqs. \<exists>s. r = snd (app rq s))"

lemma answered_mono: "answered app A r \<Longrightarrow> A \<subseteq> B \<Longrightarrow> answered app B r"
  unfolding answered_def by blast

lemma run_served_answers:
  assumes "limiter_ok t l" and "sorted (t # map fst qs)" and "run_served parse env app qs (l, s) = ((l', s'), rs)"
  shows "(\<forall>r \<in> set rs. answered app (snd ` set qs) r)
    \<and> (\<exists>passed. subseq passed (map snd (filter (\<lambda>q. \<not> edge_refuses env (snd q)) qs)) \<and> s' = run_app app passed s)"
  using assms
proof (induction qs arbitrary: t l s rs)
  case Nil
  then show ?case by (auto intro: exI [of _ "[]"])
next
  case (Cons q qs)
  obtain now rq where q: "q = (now, rq)" by (cases q) auto
  obtain l1 s1 r where one: "serve_request parse env app now rq (l, s) = ((l1, s1), r)" by (metis prod.exhaust)
  obtain rs' where rest: "run_served parse env app qs (l1, s1) = ((l', s'), rs')" "rs = r # rs'"
    using Cons.prems(3) by (auto simp: q one Let_def split: prod.splits)
  have l: "limiter_ok now l" using Cons.prems(1,2) limiter_ok_later by (auto simp: q)
  have srt: "sorted (now # map fst qs)" using Cons.prems(2) by (simp add: q)
  have l1: "limiter_ok now l1"
    using l one serve_allowed [OF l _ one] by (cases "edge_refuses env rq") (auto simp: serve_refused)
  obtain passed where IH: "\<forall>r \<in> set rs'. answered app (snd ` set qs) r"
      "subseq passed (map snd (filter (\<lambda>q. \<not> edge_refuses env (snd q)) qs))" "s' = run_app app passed s1"
    using Cons.IH [OF l1 srt rest(1)] by blast
  have later: "\<forall>r \<in> set rs'. answered app (snd ` set (q # qs)) r"
    using IH(1) answered_mono [of app "snd ` set qs" _ "snd ` set (q # qs)"] by auto
  have keep: "subseq passed (map snd (filter (\<lambda>q. \<not> edge_refuses env (snd q)) (q # qs)))"
    using IH(2) by (cases "edge_refuses env (snd q)") (simp_all add: list_emb_Cons)
  show ?case
  proof (cases "\<not> edge_refuses env rq \<and> (s1, r) = app rq s")
    case True
    then have "s' = run_app app (rq # passed) s" "r = snd (app rq s)"
      using IH(3) by (metis fst_conv run_app.simps(2), metis snd_conv)
    moreover have "subseq (rq # passed) (map snd (filter (\<lambda>q. \<not> edge_refuses env (snd q)) (q # qs)))"
      using IH(2) True by (simp add: q)
    moreover have "answered app (snd ` set (q # qs)) r"
      unfolding answered_def q using \<open>r = snd (app rq s)\<close> by auto
    ultimately show ?thesis unfolding rest(2) using later by (intro conjI) (simp, blast)
  next
    case False
    then have "s1 = s" "r = no_direct_access \<or> (\<exists>d. 1 \<le> d \<and> d \<le> 60 \<and> r = slow_down d)"
      using one serve_allowed [OF l _ one]
      by (cases "edge_refuses env rq"; auto simp: serve_refused no_direct_access_def)+
    then have "answered app (snd ` set (q # qs)) r" "s' = run_app app passed s"
      using IH(3) by (auto simp: answered_def)
    then show ?thesis unfolding rest(2) using later keep by (intro conjI) (simp, blast)
  qed
qed

lemma run_served_refused:
  "run_served parse env app qs st = (st', rs) \<Longrightarrow>
   \<forall>(q, r) \<in> set (zip qs rs). edge_refuses env (snd q) \<longrightarrow> r = no_direct_access"
proof (induction qs arbitrary: st rs)
  case (Cons q qs)
  obtain st1 r where one: "serve_request parse env app (fst q) (snd q) st = (st1, r)" by (metis prod.exhaust)
  obtain rs' where rest: "run_served parse env app qs st1 = (st', rs')" "rs = r # rs'"
    using Cons.prems one by (cases q) (auto simp: Let_def split: prod.splits)
  from Cons.IH [OF rest(1)] one rest(2) show ?case
    by (auto simp: serve_refused no_direct_access_def)
qed simp

text \<open>C6: The deals Worker is the only door. With a secret set, the requests that come without it (health checks apart)
  are answered 403 and change nothing: over any sequence of requests, the limiter, the application and every
  other answer are exactly what they are without those requests.\<close>

theorem direct_requests_have_no_effect:
  assumes "run_served parse env app qs st = (st', rs)"
  shows "run_served parse env app (filter (\<lambda>q. \<not> edge_refuses env (snd q)) qs) st
      = (st', map snd (filter (\<lambda>x. \<not> edge_refuses env (snd (fst x))) (zip qs rs)))
    \<and> (\<forall>(q, r) \<in> set (zip qs rs). edge_refuses env (snd q) \<longrightarrow> r = no_direct_access)"
proof
  show "run_served parse env app (filter (\<lambda>q. \<not> edge_refuses env (snd q)) qs) st
      = (st', map snd (filter (\<lambda>x. \<not> edge_refuses env (snd (fst x))) (zip qs rs)))"
    using run_served_trusted [of parse env app qs st] assms by (metis fst_conv snd_conv prod.collapse)
  show "\<forall>(q, r) \<in> set (zip qs rs). edge_refuses env (snd q) \<longrightarrow> r = no_direct_access"
    using assms by (rule run_served_refused)
qed

definition demo_env :: environ where
  "demo_env = [(''EDGE_SHARED_SECRET'', ''k''), (''DEALFINDER_RATELIMIT'', ''on'')]"

definition demo_app :: "(nat, nat) handler" where
  \<comment> \<open>counts the requests it is given\<close>
  "demo_app rq s = (s + 1, \<lparr>rs_status = 200, rs_headers = [], rs_body = Inr s\<rparr>)"

definition demo_request :: "string \<Rightarrow> string \<Rightarrow> http_request" where
  "demo_request path edge = \<lparr>rq_path = path, rq_edge = Some edge, rq_cf = Some ''a'', rq_peer = None\<rparr>"

definition demo_run :: "(pyfloat \<times> http_request) list" where
  "demo_run = [(1, demo_request ''/ask'' ''no''), (2, demo_request ''/ask'' ''k'')]"

lemmas demo_defs = demo_env_def demo_app_def demo_request_def demo_run_def new_limiter_def LIMITS_def
  serve_request_def edge_guard_def edge_refuses_def rate_limit_def EDGE_EXEMPT_def ratelimit_enabled_def is_production_def
  check_def admit_def allow_def evict_def client_key_def client_path_key_def put_window_def dict_get_or_def
  getenv_def truthy_def dict_get_def dict_has_def Let_def no_direct_access_def slow_down_def

lemma demo_run_result:
  "run_served (\<lambda>_. None) demo_env demo_app demo_run (new_limiter LIMITS 5, 0) =
     (fst (run_served (\<lambda>_. None) demo_env demo_app demo_run (new_limiter LIMITS 5, 0)),
      [no_direct_access, \<lparr>rs_status = 200, rs_headers = [], rs_body = Inr 0\<rparr>])"
  by (simp add: demo_defs)

theorem direct_requests_have_no_effect_witness:
  "snd (run_served (\<lambda>_. None) demo_env demo_app (filter (\<lambda>q. \<not> edge_refuses demo_env (snd q)) demo_run)
     (new_limiter LIMITS 5, 0)) = [\<lparr>rs_status = 200, rs_headers = [], rs_body = Inr 0\<rparr>]"
  using direct_requests_have_no_effect [OF demo_run_result] by (simp add: demo_defs)

text \<open>What a request can get. From a fresh limiter, for requests in time order, every answer is the guard's 403, the
  limiter's 429 with a whole number of seconds from 1 to 60 to wait, or an answer of the application; the
  limiter itself never fails; and the application's state is the result of the requests it was given, a
  subsequence of those that came through the Worker.\<close>

theorem pipeline_answers:
  assumes "sorted (map fst qs)" and "run_served parse env app qs (new_limiter LIMITS n, s) = ((l', s'), rs)"
  shows "(\<forall>r \<in> set rs. answered app (snd ` set qs) r)
    \<and> (\<exists>passed. subseq passed (map snd (filter (\<lambda>q. \<not> edge_refuses env (snd q)) qs)) \<and> s' = run_app app passed s)"
proof -
  have "sorted ((case qs of [] \<Rightarrow> 0 | q # _ \<Rightarrow> fst q) # map fst qs)" using assms(1) by (cases qs) simp_all
  from run_served_answers [OF new_limiter_ok this assms(2)] show ?thesis .
qed

theorem pipeline_answers_witness:
  "\<exists>passed. subseq passed [demo_request ''/ask'' ''k'']
     \<and> snd (fst (run_served (\<lambda>_. None) demo_env demo_app demo_run (new_limiter LIMITS 5, 0))) = run_app demo_app passed 0"
proof -
  have srt: "sorted (map fst demo_run)" by (simp add: demo_run_def)
  have trusted: "map snd (filter (\<lambda>q. \<not> edge_refuses demo_env (snd q)) demo_run) = [demo_request ''/ask'' ''k'']"
    by (simp add: demo_defs)
  obtain l' s' rs where run:
    "run_served (\<lambda>_. None) demo_env demo_app demo_run (new_limiter LIMITS 5, 0) = ((l', s'), rs)"
    by (metis prod.collapse)
  from pipeline_answers [OF srt run] show ?thesis by (simp add: run trusted)
qed

section \<open>Waiting as told\<close>

definition as_check :: "(string \<Rightarrow> ip_addr option) \<Rightarrow> environ \<Rightarrow> pyfloat \<times> http_request \<Rightarrow> string \<times> string \<times> pyfloat" where
  \<comment> \<open>the limiter's view of a request\<close>
  "as_check parse env q = (rq_path (snd q), client_key parse env (rq_cf (snd q)) (rq_peer (snd q)), fst q)"

lemma run_served_limiter:
  assumes "ratelimit_enabled env"
  shows "fst (fst (run_served parse env app qs (l, s))) =
    fst (run_checks (map (as_check parse env) (filter (\<lambda>q. \<not> edge_refuses env (snd q)) qs)) l)"
proof (induction qs arbitrary: l s)
  case (Cons q qs)
  obtain u rq where q: "q = (u, rq)" by (cases q)
  show ?case
  proof (cases "edge_refuses env rq")
    case True
    with Cons.IH show ?thesis by (simp add: q serve_refused split_beta Let_def)
  next
    case False
    have "fst (fst (serve_request parse env app u rq (l, s))) =
        fst (check (rq_path rq) (client_key parse env (rq_cf rq) (rq_peer rq)) u l)"
      using assms False by (auto simp: serve_request_def edge_guard_def rate_limit_def Let_def split: prod.splits sum.splits option.splits)
    with False Cons.IH show ?thesis
      by (cases "serve_request parse env app u rq (l, s)") (auto simp: q as_check_def Let_def split_beta)
  qed
qed simp

lemma serve_checked:
  assumes "ratelimit_enabled env" and "\<not> edge_refuses env rq"
    and "check (rq_path rq) (client_key parse env (rq_cf rq) (rq_peer rq)) t l = (l1, Inr res)"
  shows "serve_request parse env app t rq (l, s) =
    (case res of None \<Rightarrow> ((l1, fst (app rq s)), snd (app rq s)) | Some wait \<Rightarrow> ((l1, s), slow_down (retry_after wait)))"
  using assms by (auto simp: serve_request_def edge_guard_def rate_limit_def slow_down_def Let_def split: option.split prod.split)

lemma served_refusal:
  assumes l: "limiter_ok now l" and go: "\<not> edge_refuses env rq"
    and serve: "serve_request parse env app now rq (l, s) = ((l', s'), slow_down d)"
    and app: "rs_status (snd (app rq s)) \<noteq> 429"
  obtains wait where "ratelimit_enabled env" and "s' = s" and "wait \<le> real d"
    and "check (rq_path rq) (client_key parse env (rq_cf rq) (rq_peer rq)) now l = (l', Inr (Some wait))"
proof -
  let ?who = "client_key parse env (rq_cf rq) (rq_peer rq)"
  have other: "snd (app rq s) \<noteq> slow_down d" using app by (auto simp: slow_down_def)
  have on: "ratelimit_enabled env"
    using go serve other by (auto simp: serve_request_def edge_guard_def rate_limit_def Let_def split: if_splits prod.splits)
  obtain l1 out where c: "check (rq_path rq) ?who now l = (l1, out)" by (cases "check (rq_path rq) ?who now l") auto
  obtain res where res: "out = Inr res" using check_ok [OF l c] by blast
  note sv = serve_checked [OF on go c [unfolded res], of app s, unfolded serve]
  obtain wait where wait: "res = Some wait" using sv other by (cases res) auto
  have st: "l' = l1" "s' = s" and d: "nat_digits (retry_after wait) = nat_digits d"
    using sv wait by (auto simp: slow_down_def)
  have "0 < wait" using check_ok [OF l c] res wait by auto
  moreover have "retry_after wait = d" using d by (metis digits_val_nat_digits)
  ultimately have "wait \<le> real d" by (auto simp: retry_after_def)
  with that on st c res wait show ?thesis by blast
qed

text \<open>C22: A client that is refused and waits as long as the \<open>Retry-After\<close> header says. Its request did not reach the
  application. Whatever the other clients and the other paths are asked meanwhile, the repeated request is let through,
  with one exception: other clients came in between, and at that moment the path does not track the client and tracks
  twice \<open>max_keys\<close> others; then it may be told to wait once more, for at most the path's window. When nobody came in
  between it is always let through.\<close>

theorem waiting_as_told_is_enough:
  assumes "limiter_ok now l" and "shrunk_by now l" and "l_max_keys l \<ge> 1"
    and "dict_get (l_windows l) (rq_path rq) = Some w" and "w_window w \<ge> SHRINK_EVERY_S"
    and "\<not> edge_refuses env rq"
    and "serve_request parse env app now rq (l, s) = ((l', s'), slow_down d)"
    and "rs_status (snd (app rq s)) \<noteq> 429" and "now + real d \<le> t"
    and "\<forall>q \<in> set qs. rq_path (snd q) = rq_path rq \<longrightarrow>
      client_key parse env (rq_cf (snd q)) (rq_peer (snd q)) \<noteq> client_key parse env (rq_cf rq) (rq_peer rq)"
    and "run_served parse env app qs (l', s') = ((l2, s2), rs)"
  shows "s' = s
    \<and> ((\<exists>l3. serve_request parse env app t rq (l2, s2) = ((l3, fst (app rq s2)), snd (app rq s2)))
       \<or> qs \<noteq> [] \<and> crowded_out (rq_path rq) (client_key parse env (rq_cf rq) (rq_peer rq)) l2
         \<and> (\<exists>l3 w2. dict_get (l_windows l2) (rq_path rq) = Some w2
              \<and> serve_request parse env app t rq (l2, s2) = ((l3, s2), slow_down (retry_after (w_window w2)))))"
proof -
  let ?who = "client_key parse env (rq_cf rq) (rq_peer rq)"
  obtain wait where on: "ratelimit_enabled env" and s': "s' = s" and wait: "wait \<le> real d"
    and c: "check (rq_path rq) ?who now l = (l', Inr (Some wait))"
    using served_refusal [OF assms(1,6,7,8)] .
  have later: "now + wait \<le> t" using wait assms(9) by linarith
  obtain l3 out where last: "check (rq_path rq) ?who t l2 = (l3, out)" by (metis prod.exhaust)
  show ?thesis
  proof (cases "qs = []")
    case True
    then have "l2 = l'" using assms(11) by simp
    with wait_is_enough [OF assms(1-5) c later] last have "out = Inr None" by simp
    from serve_checked [OF on assms(6) last [unfolded this], of app s2] s' show ?thesis by simp
  next
    case False
    let ?reqs = "map (as_check parse env) (filter (\<lambda>q. \<not> edge_refuses env (snd q)) qs)"
    have "\<forall>(p, c, u) \<in> set ?reqs. (p, c) \<noteq> (rq_path rq, ?who)" using assms(10) by (auto simp: as_check_def)
    moreover have "fst (run_checks ?reqs l') = l2" using run_served_limiter [OF on, of parse app qs l' s'] assms(11) by simp
    ultimately obtain w2 where w2: "dict_get (l_windows l2) (rq_path rq) = Some w2"
      "out = Inr None \<or> crowded_out (rq_path rq) ?who l2 \<and> out = Inr (Some (w_window w2))"
      using wait_in_traffic [OF assms(1,4) c later, of ?reqs] last by auto
    from w2(2) show ?thesis
    proof (elim disjE conjE)
      assume "out = Inr None"
      from serve_checked [OF on assms(6) last [unfolded this], of app s2] s' show ?thesis by simp
    next
      assume full: "crowded_out (rq_path rq) ?who l2" and out: "out = Inr (Some (w_window w2))"
      from serve_checked [OF on assms(6) last [unfolded out], of app s2] s' False full w2(1) show ?thesis by simp
    qed
  qed
qed

definition full_limiter :: limiter where
  "full_limiter = \<lparr>l_windows = [(''/x'', \<lparr>w_limit = 1, w_window = 10, w_events = [(''/x|a'', [1])]\<rparr>)],
     l_max_keys = 1, l_last_shrink = []\<rparr>"

definition neighbour :: http_request where
  "neighbour = \<lparr>rq_path = ''/x'', rq_edge = Some ''k'', rq_cf = Some ''b'', rq_peer = None\<rparr>"

definition crowded_limiter :: limiter where
  "crowded_limiter = \<lparr>l_windows = [(''/x'', \<lparr>w_limit = 1, w_window = 10, w_events = [(''/x|a'', [1]), (''/x|b'', [7])]\<rparr>)],
     l_max_keys = 1, l_last_shrink = [(''/x'', 7)]\<rparr>"

theorem waiting_as_told_is_enough_witness:
  "\<exists>l3. serve_request (\<lambda>_. None) demo_env demo_app 11 (demo_request ''/x'' ''k'')
     (fst (run_served (\<lambda>_. None) demo_env demo_app [(7, neighbour)]
       (fst (serve_request (\<lambda>_. None) demo_env demo_app 5 (demo_request ''/x'' ''k'') (full_limiter, 0))))) =
     ((l3, 2), \<lparr>rs_status = 200, rs_headers = [], rs_body = Inr 1\<rparr>)"
proof -
  let ?rq = "demo_request ''/x'' ''k''" let ?w = "\<lparr>w_limit = 1, w_window = 10, w_events = [(''/x|a'', [1])]\<rparr>"
  have refused: "serve_request (\<lambda>_. None) demo_env demo_app 5 ?rq (full_limiter, 0) = ((full_limiter, 0), slow_down 6)"
    by (simp add: demo_defs full_limiter_def retry_after_def)
  obtain rs where between: "run_served (\<lambda>_. None) demo_env demo_app [(7, neighbour)] (full_limiter, 0) = ((crowded_limiter, 1), rs)"
    by (simp add: demo_defs full_limiter_def crowded_limiter_def neighbour_def may_shrink_def shrink_def drop_idle_def is_idle_def
        open_keys_def py_slice_to_def)
  have ok: "limiter_ok 5 full_limiter"
    by (auto simp: limiter_ok_def window_ok_def full_limiter_def dict_get_def dict_wf_def split: if_splits)
  have tracked: "\<not> crowded_out ''/x'' (client_key (\<lambda>_. None) demo_env (Some ''a'') None) crowded_limiter"
    by (simp add: crowded_out_def crowded_limiter_def demo_defs)
  have "(\<exists>l3. serve_request (\<lambda>_. None) demo_env demo_app 11 ?rq (crowded_limiter, 1) =
      ((l3, fst (demo_app ?rq 1)), snd (demo_app ?rq 1)))"
    using waiting_as_told_is_enough [where now = 5 and d = 6 and w = ?w and t = 11, OF ok _ _ _ _ _ refused _ _ _ between] tracked
    by (simp add: shrunk_by_def full_limiter_def demo_defs neighbour_def SHRINK_EVERY_S_def)
  then show ?thesis unfolding refused fst_conv between by (simp add: demo_app_def numeral_2_eq_2)
qed

section \<open>Error echoes\<close>

lemma json_safe_plain: "plain_json (json_safe v)"
  by (induction v) (auto simp: list_all_iff)

lemma json_safe_id: "plain_json v \<Longrightarrow> json_safe v = v"
proof (induction v)
  case (VDict d)
  then show ?case by (force simp: list_all_iff intro!: map_idI)
qed (auto simp: list_all_iff intro!: map_idI)

primrec echo_texts :: "pyval \<Rightarrow> string list" where
  \<comment> \<open>every text of a value, the keys included\<close>
  "echo_texts VNone = []"
| "echo_texts (VBool b) = []"
| "echo_texts (VInt i) = []"
| "echo_texts (VFloat x) = []"
| "echo_texts (VNonFinite x) = []"
| "echo_texts (VStr s) = [s]"
| "echo_texts (VList vs) = concat (map echo_texts vs)"
| "echo_texts (VTuple vs) = concat (map echo_texts vs)"
| "echo_texts (VDict d) = concat (map (\<lambda>(k, ts). k # ts) (map (map_prod id echo_texts) d))"

lemma serializable_plain: "plain_json v \<Longrightarrow> serializable v \<longleftrightarrow> list_all utf8_text (echo_texts v)"
proof (induction v)
  case (VDict d)
  then show ?case by (fastforce simp: list_all_iff)
qed (auto simp: list_all_iff)

lemma nonfinite_utf8: "utf8_text (nonfinite_str x)"
  by (cases x) (simp_all add: ord_def)

lemma json_safe_texts: "list_all utf8_text (echo_texts (json_safe v)) \<longleftrightarrow> list_all utf8_text (echo_texts v)"
proof (induction v)
  case (VDict d)
  then show ?case by (fastforce simp: list_all_iff)
qed (auto simp: list_all_iff nonfinite_utf8)

text \<open>C23: The echo of a validation error. Whatever the encoder makes of the errors, at any depth, a NaN or an infinity never
  turns the 422 into a 500: what is sent holds no NaN, no infinity and no tuple, a value that was JSON already is echoed
  unchanged, and echoing twice is echoing once. The client gets the 422 with that echo exactly when every text of the
  errors, keys included, can be written in UTF-8; a lone surrogate in what it sent makes it a 500.\<close>

theorem error_echo_is_json:
  assumes "encoder errors = Some v"
  shows "plain_json (json_safe v) \<and> json_safe (json_safe v) = json_safe v \<and> (plain_json v \<longrightarrow> json_safe v = v)
    \<and> validation_error encoder errors =
        (if list_all utf8_text (echo_texts v)
         then \<lparr>rs_status = 422, rs_headers = [], rs_body = Inr (VDict [(''detail'', json_safe v)])\<rparr>
         else internal_error)"
proof -
  have "serializable (VDict [(''detail'', json_safe v)]) \<longleftrightarrow> list_all utf8_text (echo_texts v)"
    using serializable_plain [OF json_safe_plain, of v] by (simp add: json_safe_texts ord_def)
  then show ?thesis using json_safe_plain [of v] by (simp add: json_safe_id validation_error_def assms)
qed

definition surrogate_body :: pyval where
  \<comment> \<open>the echo of \<open>{"offer_id": 7, "note": "\ud800"}\<close>\<close>
  "surrogate_body = VDict [(''input'', VDict [(''offer_id'', VInt 7), (''note'', VStr [CHR 0xED, CHR 0xA0, CHR 0x80])])]"

theorem error_echo_is_json_witness:
  "validation_error Some (VList [VDict [(''loc'', VTuple [VStr ''body'', VStr ''price'']), (''input'', VNonFinite PosInf)]]) =
     \<lparr>rs_status = 422, rs_headers = [], rs_body = Inr (VDict [(''detail'',
        VList [VDict [(''loc'', VList [VStr ''body'', VStr ''price'']), (''input'', VStr ''inf'')]])])\<rparr>
   \<and> validation_error Some surrogate_body = internal_error"
proof -
  have "list_all utf8_text (echo_texts (VList [VDict [(''loc'', VTuple [VStr ''body'', VStr ''price'']), (''input'', VNonFinite PosInf)]]))"
    "\<not> list_all utf8_text (echo_texts surrogate_body)"
    by (simp_all add: surrogate_body_def ord_def)
  with error_echo_is_json [of Some "VList [VDict [(''loc'', VTuple [VStr ''body'', VStr ''price'']), (''input'', VNonFinite PosInf)]]"]
    error_echo_is_json [of Some surrogate_body]
  show ?thesis by simp
qed

section \<open>Readiness\<close>

text \<open>What a probe of the state says: the cached answer and the flag. \<open>checks\<close> collects the clock readings of the probes.\<close>

lemma recheck_spaced:
  "maybe_recheck_db env t1 t2 ok d \<noteq> d \<Longrightarrow> ds_checked_at d + DB_RECHECK_S \<le> t1 \<and> \<not> ds_up d
     \<and> ds_checked_at (maybe_recheck_db env t1 t2 ok d) = t2"
  by (auto simp: maybe_recheck_db_def recheck_due_def split: if_splits)

lemma recheck_keeps_up: "ds_up d \<Longrightarrow> maybe_recheck_db env t1 t2 ok d = d"
  by (simp add: maybe_recheck_db_def recheck_due_def)

lemma require_db_none: "require_db env t1 t2 ok d = (d1, None) \<longleftrightarrow> d1 = maybe_recheck_db env t1 t2 ok d \<and> ds_up d1"
  by (auto simp: require_db_def Let_def)

lemma require_db_up: "snd (require_db env t1 t2 ok d) = None \<Longrightarrow> ds_up d \<or> db_ready env ok"
  by (auto simp: require_db_def maybe_recheck_db_def Let_def split: if_splits)

definition ready_ok :: "db_state \<Rightarrow> bool" where
  \<comment> \<open>the cached status and body belong together\<close>
  "ready_ok d \<longleftrightarrow> (case ds_ready d of None \<Rightarrow> True
     | Some (t, st, b) \<Rightarrow> (st, b) \<in> {(503, DbDown), (503, SchemaPending), (200, SchemaCurrent)})"

lemma ready_ok_readyz: "ready_ok d \<Longrightarrow> ready_ok (fst (readyz env t1 t2 ping current d))"
  by (auto simp: ready_ok_def readyz_def Let_def split: prod.split)

lemma readyz_probed: "truthy (getenv env ''DATABASE_URL'') \<Longrightarrow> probe_due t1 d \<Longrightarrow>
    rs_status (snd (readyz env t1 t2 ping current d)) = (if ping \<and> current then 200 else 503)"
  by (simp add: readyz_def Let_def)

lemma readyz_cached:
  assumes "truthy (getenv env ''DATABASE_URL'')" "\<not> probe_due t1 d" "readyz env t1 t2 ping current d = (d', r)"
  shows "d' = d \<and> (\<exists>t b. ds_ready d = Some (t, rs_status r, b) \<and> rs_body r = Inr b \<and> t1 - t < READY_TTL_S)"
  using assms by (auto simp: readyz_def probe_due_def Let_def split: option.splits)

lemma readyz_up: "rs_status (snd (readyz env t1 t2 ping current d)) = 200 \<Longrightarrow> truthy (getenv env ''DATABASE_URL'') \<Longrightarrow>
    probe_due t1 d \<Longrightarrow> ds_up (fst (readyz env t1 t2 ping current d))"
  by (simp add: readyz_def Let_def split: if_splits)

end
