(* ===== verification/Accounts_Api.thy ===== *)
theory Accounts_Api
  imports Http_Edge Auth Live_Sources Deal_Score
begin

text \<open>
  The account routes of \<open>dealfinder/serve.py\<close>: what a client may send, and the handlers of the watchlist and of
  the saved searches over \<open>Userdata\<close>'s store. An answer is \<open>Inl\<close> an HTTP error or \<open>Inr\<close> the status and the
  reply. Pydantic's reading of a number (numbers, numeric texts; \<open>None\<close> for anything else, NaN and the
  infinities) is the argument \<open>to_float\<close>; Postgres' reading of a text as a \<open>uuid\<close> is \<open>pg_uuid\<close>, \<open>None\<close>
  where the cast raises, and ids are kept in Postgres' own spelling.
\<close>

section \<open>What a client may send\<close>

definition no_nul :: "string \<Rightarrow> bool" where "no_nul s \<longleftrightarrow> CHR 0x00 \<notin> set s"

text \<open>\<open>strip_whitespace\<close> cuts Unicode's white space, here in UTF-8.\<close>

definition WHITE_SPACE :: "string list" where
  "WHITE_SPACE = map (\<lambda>c. [c]) [CHR 0x09, CHR 0x0A, CHR 0x0B, CHR 0x0C, CHR 0x0D, CHR 0x20]
     @ [[CHR 0xC2, CHR 0x85], [CHR 0xC2, CHR 0xA0], [CHR 0xE1, CHR 0x9A, CHR 0x80], [CHR 0xE2, CHR 0x80, CHR 0xA8],
        [CHR 0xE2, CHR 0x80, CHR 0xA9], [CHR 0xE2, CHR 0x80, CHR 0xAF], [CHR 0xE2, CHR 0x81, CHR 0x9F], [CHR 0xE3, CHR 0x80, CHR 0x80]]
     @ map (\<lambda>c. [CHR 0xE2, CHR 0x80, c]) [CHR 0x80, CHR 0x81, CHR 0x82, CHR 0x83, CHR 0x84, CHR 0x85, CHR 0x86, CHR 0x87,
        CHR 0x88, CHR 0x89, CHR 0x8A]"

fun drop_prefixes :: "nat \<Rightarrow> string list \<Rightarrow> string \<Rightarrow> string" where
  \<comment> \<open>every round drops at least one byte, so the length is enough fuel\<close>
  "drop_prefixes 0 ws s = s"
| "drop_prefixes (Suc n) ws s = (case find (\<lambda>w. prefix w s) ws of None \<Rightarrow> s | Some w \<Rightarrow> drop_prefixes n ws (drop (length w) s))"

definition text_trim :: "string \<Rightarrow> string" where
  "text_trim s =
     (let t = drop_prefixes (length s) WHITE_SPACE s
      in rev (drop_prefixes (length t) (map rev WHITE_SPACE) (rev t)))"

definition plain_text :: "nat \<Rightarrow> nat \<Rightarrow> string \<Rightarrow> string option" where
  \<comment> \<open>\<open>StringConstraints\<close> with \<open>strip_whitespace\<close>, the two lengths and the pattern; a lone surrogate is no text\<close>
  "plain_text lo hi raw =
     (let s = text_trim raw in if utf8_text raw \<and> lo \<le> py_len s \<and> py_len s \<le> hi \<and> no_nul s then Some s else None)"

definition search_text :: "string \<Rightarrow> string option" where "search_text = plain_text 1 200"
definition check_title :: "string \<Rightarrow> string option" where "check_title = plain_text 3 200"

definition offer_id_ok :: "string \<Rightarrow> bool" where
  "offer_id_ok s \<longleftrightarrow> utf8_text s \<and> 1 \<le> py_len s \<and> py_len s \<le> 200 \<and> no_nul s"

definition money_ok :: "pyfloat \<Rightarrow> bool" where "money_ok x \<longleftrightarrow> 0 < x \<and> x < 1000000"

fun optional_money :: "(json \<Rightarrow> pyfloat option) \<Rightarrow> json \<Rightarrow> pyfloat option option" where
  \<comment> \<open>\<open>Money | None = None\<close>: \<open>None\<close> when the value is refused\<close>
  "optional_money to_float JNull = Some None"
| "optional_money to_float v =
     (case to_float v of Some x \<Rightarrow> if money_ok x then Some (Some x) else None | None \<Rightarrow> None)"

definition fields_only :: "string list \<Rightarrow> (string \<times> json) list \<Rightarrow> bool" where
  \<comment> \<open>\<open>extra="forbid"\<close>\<close>
  "fields_only ks d \<longleftrightarrow> set (map fst d) \<subseteq> set ks"

definition watch_in :: "(json \<Rightarrow> pyfloat option) \<Rightarrow> json \<Rightarrow> (string \<times> pyfloat option) option" where
  \<comment> \<open>\<open>WatchIn\<close>\<close>
  "watch_in to_float body =
     (case body of
        JObj d \<Rightarrow>
          (case (j_get ''offer_id'' body, optional_money to_float (j_get ''target_price'' body)) of
             (JStr i, Some target) \<Rightarrow>
               if fields_only [''offer_id'', ''target_price''] d \<and> offer_id_ok i then Some (i, target) else None
           | _ \<Rightarrow> None)
      | _ \<Rightarrow> None)"

definition saved_search_in :: "(json \<Rightarrow> pyfloat option) \<Rightarrow> json \<Rightarrow> (string \<times> pyfloat option) option" where
  \<comment> \<open>\<open>SavedSearchIn\<close>\<close>
  "saved_search_in to_float body =
     (case body of
        JObj d \<Rightarrow>
          (case (j_get ''query'' body, optional_money to_float (j_get ''max_price'' body)) of
             (JStr q, Some m) \<Rightarrow>
               if fields_only [''query'', ''max_price''] d then map_option (\<lambda>s. (s, m)) (search_text q) else None
           | _ \<Rightarrow> None)
      | _ \<Rightarrow> None)"

section \<open>The handlers\<close>

datatype account_reply =
    Watched watch
  | Watchlist nat "(watch \<times> bool) list"
  | Saved saved_search
  | Searches nat "saved_search list"
  | Removed string

type_synonym answer = "http_error + nat \<times> account_reply"

record site =
  st_db :: db_state
  st_rows :: database

datatype db_outcome =
    Db_Works
  | Db_Fails  \<comment> \<open>no connection from the pool in time, or a statement or the COMMIT raises: nothing of the transaction stays\<close>
  | Commit_Lost  \<comment> \<open>the COMMIT takes effect, and the connection is lost before it says so\<close>

record moment =
  \<comment> \<open>what one request sees of the outside: the clock, the schema check, the id a new row would get, how the database behaves\<close>
  mo_now :: pyfloat
  mo_schema :: bool
  mo_id :: string
  mo_db :: db_outcome

datatype tx_end =
    Raised http_error  \<comment> \<open>an exception leaves the scope, which rolls back; the error it becomes\<close>
  | Committed answer

definition unprocessable :: http_error where "unprocessable = (422, ''validation error'')"
definition server_error :: http_error where "server_error = (500, ''Internal Server Error'')"

definition scope_of :: "principal \<Rightarrow> scope" where
  "scope_of p = \<lparr>sc_tenant = pr_tenant p, sc_user = the (pr_user p)\<rparr>"

definition with_db ::
  "environ \<Rightarrow> moment \<Rightarrow> (database \<Rightarrow> database \<times> tx_end) \<Rightarrow> site \<Rightarrow> site \<times> answer" where
  \<comment> \<open>\<open>_require_db()\<close> and then the body of the handler; nothing in the application catches an error of the database\<close>
  "with_db env mo body st =
     (case require_db env (mo_now mo) (mo_now mo) (mo_schema mo) (st_db st) of
        (d, Some e) \<Rightarrow> (st\<lparr>st_db := d\<rparr>, Inl e)
      | (d, None) \<Rightarrow>
          if mo_db mo = Db_Fails then (st\<lparr>st_db := d\<rparr>, Inl server_error)
          else (case body (st_rows st) of
              (rows, Raised e) \<Rightarrow> (st\<lparr>st_db := d\<rparr>, Inl e)
            | (rows, Committed a) \<Rightarrow> (\<lparr>st_db = d, st_rows = rows\<rparr>, if mo_db mo = Commit_Lost then Inl server_error else a)))"

definition with_account ::
  "(principal \<Rightarrow> site \<Rightarrow> site \<times> answer) \<Rightarrow> http_error + principal \<Rightarrow> site \<Rightarrow> site \<times> answer" where
  \<comment> \<open>\<open>who: Principal = Depends(require_account)\<close>: a dependency that raises ends the request\<close>
  "with_account handler who st = (case require_account who of Inl e \<Rightarrow> (st, Inl e) | Inr p \<Rightarrow> handler p st)"

definition watchlist_add ::
  "environ \<Rightarrow> moment \<Rightarrow> (json \<Rightarrow> pyfloat option) \<Rightarrow> json \<Rightarrow> http_error + principal \<Rightarrow> site \<Rightarrow> site \<times> answer" where
  "watchlist_add env mo to_float body = with_account (\<lambda>p st.
     case watch_in to_float body of
       None \<Rightarrow> (st, Inl unprocessable)
     | Some (i, target) \<Rightarrow>
         with_db env mo (\<lambda>db.
           case add_watch (scope_of p) (mo_now mo) i target db of
             (db1, Inr w) \<Rightarrow> (db1, Committed (Inr (201, Watched w)))
           | (db1, Inl LookupFailed) \<Rightarrow> (db1, Raised (404, ''offer not found '' @ em_dash @ '' search for it first''))
           | (db1, Inl LimitExceeded) \<Rightarrow> (db1, Raised (409, ''watchlist limit reached ('' @ nat_digits WATCH_LIMIT @ '')''))
           | (db1, Inl CheckViolation) \<Rightarrow> (db1, Raised server_error)) st)"

definition watchlist_list :: "environ \<Rightarrow> moment \<Rightarrow> http_error + principal \<Rightarrow> site \<Rightarrow> site \<times> answer" where
  "watchlist_list env mo = with_account (\<lambda>p.
     with_db env mo (\<lambda>db. let items = list_watch (scope_of p) db in (db, Committed (Inr (200, Watchlist (length items) items)))))"

definition watchlist_remove :: "environ \<Rightarrow> moment \<Rightarrow> string \<Rightarrow> http_error + principal \<Rightarrow> site \<Rightarrow> site \<times> answer" where
  "watchlist_remove env mo offer_id = with_account (\<lambda>p st.
     if \<not> no_nul offer_id then (st, Inl (404, ''not on your watchlist''))
     else with_db env mo (\<lambda>db.
       let (db1, n) = remove_watch (scope_of p) offer_id db
       in (db1, Committed (if n = 0 then Inl (404, ''not on your watchlist'') else Inr (200, Removed offer_id)))) st)"

definition saved_search_add ::
  "environ \<Rightarrow> moment \<Rightarrow> (json \<Rightarrow> pyfloat option) \<Rightarrow> json \<Rightarrow> http_error + principal \<Rightarrow> site \<Rightarrow> site \<times> answer" where
  "saved_search_add env mo to_float body = with_account (\<lambda>p st.
     case saved_search_in to_float body of
       None \<Rightarrow> (st, Inl unprocessable)
     | Some (q, m) \<Rightarrow>
         with_db env mo (\<lambda>db.
           case add_saved_search (scope_of p) (mo_now mo) (mo_id mo) q m db of
             (db1, Inr s) \<Rightarrow> (db1, Committed (Inr (201, Saved s)))
           | (db1, Inl LimitExceeded) \<Rightarrow>
               (db1, Raised (409, ''saved-search limit reached ('' @ nat_digits SAVED_SEARCH_LIMIT @ '')''))
           | (db1, Inl _) \<Rightarrow> (db1, Raised server_error)) st)"

definition saved_search_list :: "environ \<Rightarrow> moment \<Rightarrow> http_error + principal \<Rightarrow> site \<Rightarrow> site \<times> answer" where
  "saved_search_list env mo = with_account (\<lambda>p.
     with_db env mo (\<lambda>db. let items = list_saved_searches (scope_of p) db in (db, Committed (Inr (200, Searches (length items) items)))))"

text \<open>\<open>uuid.UUID(s)\<close> of the standard library, which the delete handler only asks whether it raises.\<close>

definition is_hex :: "char \<Rightarrow> bool" where
  "is_hex c \<longleftrightarrow> is_digit (lower_char c) \<or> lower_char c \<in> set ''abcdef''"

fun hex_digits :: "string \<Rightarrow> bool" where
  \<comment> \<open>digits of \<open>int(s, 16)\<close>: single underscores may stand between them\<close>
  "hex_digits [] = False"
| "hex_digits [c] = is_hex c"
| "hex_digits (c # d # s) = (is_hex c \<and> (if d = CHR ''_'' then hex_digits s else hex_digits (d # s)))"

definition hex_number :: "string \<Rightarrow> bool" where
  \<comment> \<open>\<open>int(s, 16)\<close> is a number of at least 0 (a minus sign is refused by the range check, but for zero)\<close>
  "hex_number s =
     (let t = py_strip s;
          neg = (prefix ''-'' t);
          u = (if prefix ''-'' t \<or> prefix ''+'' t then tl t else t);
          v = (if prefix ''0x'' (py_lower u) then (if prefix ''_'' (drop 2 u) then drop 3 u else drop 2 u) else u)
      in hex_digits v \<and> (neg \<longrightarrow> list_all (\<lambda>c. c \<in> set ''0_'') v))"

definition uuid_accepts :: "string \<Rightarrow> bool" where
  "uuid_accepts s =
     (let h = filter (\<lambda>c. c \<noteq> CHR ''-'') (py_strip_chars ''{}'' (py_replace ''uuid:'' [] (py_replace ''urn:'' [] s)))
      in py_len h = 32 \<and> hex_number h)"

definition saved_search_remove ::
  "(string \<Rightarrow> string option) \<Rightarrow> environ \<Rightarrow> moment \<Rightarrow> string \<Rightarrow> http_error + principal \<Rightarrow> site \<Rightarrow> site \<times> answer" where
  "saved_search_remove pg_uuid env mo search_id = with_account (\<lambda>p st.
     if \<not> uuid_accepts search_id then (st, Inl (404, ''saved search not found''))
     else with_db env mo (\<lambda>db.
       case pg_uuid search_id of
         None \<Rightarrow> (db, Raised server_error)
       | Some i \<Rightarrow>
           (let (db1, n) = remove_saved_search (scope_of p) i db
            in (db1, Committed (if n = 0 then Inl (404, ''saved search not found'') else Inr (200, Removed search_id))))) st)"

section \<open>The account routes as one operation\<close>

datatype account_call =
    AddW json | ListW | RemoveW string | AddS json | ListS | RemoveS string

definition account_api ::
  "(json \<Rightarrow> pyfloat option) \<Rightarrow> (string \<Rightarrow> string option) \<Rightarrow> environ \<Rightarrow> moment \<Rightarrow> account_call \<Rightarrow> http_error + principal \<Rightarrow>
   site \<Rightarrow> site \<times> answer" where
  "account_api to_float pg_uuid env mo c =
     (case c of AddW b \<Rightarrow> watchlist_add env mo to_float b | ListW \<Rightarrow> watchlist_list env mo
      | RemoveW i \<Rightarrow> watchlist_remove env mo i | AddS b \<Rightarrow> saved_search_add env mo to_float b
      | ListS \<Rightarrow> saved_search_list env mo | RemoveS i \<Rightarrow> saved_search_remove pg_uuid env mo i)"

lemma with_account_error: "require_account who = Inl e \<Longrightarrow> with_account h who st = (st, Inl e)"
  by (simp add: with_account_def)

lemma with_account_ok: "require_account who = Inr p \<Longrightarrow> with_account h who st = h p st"
  by (simp add: with_account_def)

lemma optional_money_positive: "optional_money to_float v = Some m \<Longrightarrow> positive_price m"
  by (cases v) (auto simp: positive_price_def money_ok_def split: option.splits if_splits)

lemma positive_none [simp]: "positive_price None"
  by (simp add: positive_price_def)

lemma watch_in_ok: "watch_in to_float body = Some (i, m) \<Longrightarrow> offer_id_ok i \<and> positive_price m"
  by (auto simp: watch_in_def dest: optional_money_positive split: json.splits option.splits if_splits)

lemma saved_search_in_ok: "saved_search_in to_float body = Some (q, m) \<Longrightarrow>
    1 \<le> py_len q \<and> py_len q \<le> 200 \<and> no_nul q \<and> positive_price m"
  by (auto simp: saved_search_in_def search_text_def plain_text_def Let_def dest: optional_money_positive
      split: json.splits option.splits if_splits)

text \<open>What comes of a request whose handler has its body run over the database.\<close>

lemma with_db_answer:
  assumes "with_db env mo body st = (st', a)"
  obtains "a = Inl (503, ''accounts need a database (set DATABASE_URL)'')" "st_rows st' = st_rows st"
  | "mo_db mo = Db_Fails" "a = Inl server_error" "st_rows st' = st_rows st"
  | rows e where "mo_db mo \<noteq> Db_Fails" "body (st_rows st) = (rows, Raised e)" "a = Inl e" "st_rows st' = st_rows st"
  | b where "mo_db mo \<noteq> Db_Fails" "ds_up (st_db st')" "body (st_rows st) = (st_rows st', Committed b)"
      "a = (if mo_db mo = Commit_Lost then Inl server_error else b)"
  using assms by (auto simp: with_db_def require_db_def Let_def split: prod.splits option.splits tx_end.splits if_splits)

definition client_errors :: "nat set" where "client_errors = {404, 409, 422, 503}"

definition answered_well :: "database \<Rightarrow> database \<times> tx_end \<Rightarrow> bool" where
  \<comment> \<open>an error is a documented one and changes no row\<close>
  "answered_well db r \<longleftrightarrow> (case snd r of
       Raised e \<Rightarrow> fst e \<in> client_errors
     | Committed (Inl e) \<Rightarrow> fst r = db \<and> fst e \<in> client_errors
     | Committed (Inr (code, reply)) \<Rightarrow> code \<in> {200, 201})"

lemma add_watch_answered: "positive_price t \<Longrightarrow> (case add_watch s now i t db of
    (db1, Inl e) \<Rightarrow> db1 = db \<and> e \<noteq> CheckViolation | (db1, Inr w) \<Rightarrow> True)"
  by (auto simp: add_watch_def Let_def split: option.split)

lemma add_saved_answered: "1 \<le> py_len q \<Longrightarrow> py_len q \<le> 200 \<Longrightarrow> positive_price m \<Longrightarrow>
    (case add_saved_search s now i q m db of (db1, Inl e) \<Rightarrow> db1 = db \<and> e = LimitExceeded | (db1, Inr w) \<Rightarrow> True)"
  by (auto simp: add_saved_search_def Let_def)

lemma remove_none: "snd (remove_watch s i db) = 0 \<Longrightarrow> fst (remove_watch s i db) = db"
  "snd (remove_saved_search s i db) = 0 \<Longrightarrow> fst (remove_saved_search s i db) = db"
  by (simp_all add: remove_watch_def remove_saved_search_def Let_def filter_empty_conv)

definition handler_ok :: "scope \<Rightarrow> (database \<Rightarrow> database \<times> tx_end) \<Rightarrow> bool" where
  "handler_ok s body \<longleftrightarrow> (\<forall>db. hidden s (fst (body db)) = hidden s db \<and> answered_well db (body db))"

definition told_or_failed :: "moment \<Rightarrow> database \<Rightarrow> database \<Rightarrow> http_error \<Rightarrow> bool" where
  \<comment> \<open>a documented error over unchanged rows, or the database failed for this request\<close>
  "told_or_failed mo rows rows' e \<longleftrightarrow> fst e \<in> client_errors \<and> rows' = rows
     \<or> e = server_error \<and> (mo_db mo = Db_Fails \<and> rows' = rows \<or> mo_db mo = Commit_Lost)"

lemma with_db_ok:
  assumes "handler_ok s body" and "with_db env mo body st = (st', a)"
  shows "hidden s (st_rows st') = hidden s (st_rows st)"
    and "\<And>e. a = Inl e \<Longrightarrow> told_or_failed mo (st_rows st) (st_rows st') e"
    and "\<And>r. a = Inr r \<Longrightarrow> ds_up (st_db st') \<and> fst r \<in> {200, 201} \<and> mo_db mo = Db_Works"
proof -
  from assms(1) have ok: "hidden s (fst (body (st_rows st))) = hidden s (st_rows st)"
      "answered_well (st_rows st) (body (st_rows st))" by (auto simp: handler_ok_def)
  show "hidden s (st_rows st') = hidden s (st_rows st)"
    using assms(2) by (rule with_db_answer) (use ok(1) in auto)
  show "told_or_failed mo (st_rows st) (st_rows st') e" if "a = Inl e" for e
    using assms(2) by (rule with_db_answer)
      (use ok(2) that in \<open>auto simp: answered_well_def client_errors_def told_or_failed_def split: if_splits\<close>)
  show "ds_up (st_db st') \<and> fst r \<in> {200, 201} \<and> mo_db mo = Db_Works" if "a = Inr r" for r
    using assms(2) by (rule with_db_answer)
      (use ok(2) that in \<open>auto simp: answered_well_def split: prod.splits if_splits intro: db_outcome.exhaust [of "mo_db mo"]\<close>)
qed

lemma add_watch_handler:
  assumes "positive_price t"
  shows "handler_ok s (\<lambda>db. case add_watch s now i t db of
       (db1, Inr w) \<Rightarrow> (db1, Committed (Inr (201, Watched w)))
     | (db1, Inl LookupFailed) \<Rightarrow> (db1, Raised (404, msg))
     | (db1, Inl LimitExceeded) \<Rightarrow> (db1, Raised (409, msg'))
     | (db1, Inl CheckViolation) \<Rightarrow> (db1, Raised server_error))"
  unfolding handler_ok_def
proof (intro allI conjI)
  fix db
  note frame = add_watch_scope(1) [of s now i t db] and ans = add_watch_answered [OF assms, where s = s and now = now and i = i and db = db]
  show "hidden s (fst (case add_watch s now i t db of
       (db1, Inr w) \<Rightarrow> (db1, Committed (Inr (201, Watched w)))
     | (db1, Inl LookupFailed) \<Rightarrow> (db1, Raised (404, msg))
     | (db1, Inl LimitExceeded) \<Rightarrow> (db1, Raised (409, msg'))
     | (db1, Inl CheckViolation) \<Rightarrow> (db1, Raised server_error))) = hidden s db"
    using frame by (auto split: prod.split sum.split store_error.split)
  show "answered_well db (case add_watch s now i t db of
       (db1, Inr w) \<Rightarrow> (db1, Committed (Inr (201, Watched w)))
     | (db1, Inl LookupFailed) \<Rightarrow> (db1, Raised (404, msg))
     | (db1, Inl LimitExceeded) \<Rightarrow> (db1, Raised (409, msg'))
     | (db1, Inl CheckViolation) \<Rightarrow> (db1, Raised server_error))"
    using ans by (auto simp: answered_well_def client_errors_def split: prod.split sum.split store_error.split)
qed

lemma add_saved_handler:
  assumes "1 \<le> py_len q" "py_len q \<le> 200" "positive_price m"
  shows "handler_ok s (\<lambda>db. case add_saved_search s now i q m db of
       (db1, Inr x) \<Rightarrow> (db1, Committed (Inr (201, Saved x)))
     | (db1, Inl LimitExceeded) \<Rightarrow> (db1, Raised (409, msg))
     | (db1, Inl _) \<Rightarrow> (db1, Raised server_error))"
  unfolding handler_ok_def
proof (intro allI conjI)
  fix db
  note frame = saved_scope(1) [of s now i q m db] and ans = add_saved_answered [OF assms, where s = s and now = now and i = i and db = db]
  show "hidden s (fst (case add_saved_search s now i q m db of
       (db1, Inr x) \<Rightarrow> (db1, Committed (Inr (201, Saved x)))
     | (db1, Inl LimitExceeded) \<Rightarrow> (db1, Raised (409, msg))
     | (db1, Inl _) \<Rightarrow> (db1, Raised server_error))) = hidden s db"
    using frame by (auto split: prod.split sum.split store_error.split)
  show "answered_well db (case add_saved_search s now i q m db of
       (db1, Inr x) \<Rightarrow> (db1, Committed (Inr (201, Saved x)))
     | (db1, Inl LimitExceeded) \<Rightarrow> (db1, Raised (409, msg))
     | (db1, Inl _) \<Rightarrow> (db1, Raised server_error))"
    using ans by (auto simp: answered_well_def client_errors_def split: prod.split sum.split store_error.split)
qed

lemma list_handlers:
  "handler_ok s (\<lambda>db. let items = list_watch s db in (db, Committed (Inr (200, Watchlist (length items) items))))"
  "handler_ok s (\<lambda>db. let items = list_saved_searches s db in (db, Committed (Inr (200, Searches (length items) items))))"
  by (simp_all add: handler_ok_def answered_well_def Let_def)

lemma remove_handlers:
  "handler_ok s (\<lambda>db. let (db1, n) = remove_watch s i db
     in (db1, Committed (if n = 0 then Inl (404, msg) else Inr (200, Removed x))))"
  "handler_ok s (\<lambda>db. let (db1, n) = remove_saved_search s i db
     in (db1, Committed (if n = 0 then Inl (404, msg) else Inr (200, Removed x))))"
  using remove_none [of s i] remove_watch_scope(1) [of s i] saved_scope(4) [of s i]
  by (auto simp: handler_ok_def answered_well_def client_errors_def split_beta)

section \<open>Properties\<close>

definition early_error :: "site \<Rightarrow> site \<times> answer \<Rightarrow> bool" where
  "early_error st r \<longleftrightarrow> (\<exists>e. r = (st, Inl e) \<and> fst e \<in> client_errors)"

definition good_body :: "scope \<Rightarrow> environ \<Rightarrow> moment \<Rightarrow> site \<Rightarrow> site \<times> answer \<Rightarrow> bool" where
  "good_body s env mo st r \<longleftrightarrow> (\<exists>body. handler_ok s body \<and> r = with_db env mo body st)"

lemma good_bodyI: "r = with_db env mo body st \<Longrightarrow> handler_ok s body \<Longrightarrow> good_body s env mo st r"
  unfolding good_body_def by blast

lemma watch_routes_shape:
  assumes p: "require_account who = Inr p"
  shows "early_error st (watchlist_add env mo to_float b who st) \<or> good_body (scope_of p) env mo st (watchlist_add env mo to_float b who st)"
    and "good_body (scope_of p) env mo st (watchlist_list env mo who st)"
    and "early_error st (watchlist_remove env mo i who st) \<or> good_body (scope_of p) env mo st (watchlist_remove env mo i who st)"
proof -
  show "early_error st (watchlist_add env mo to_float b who st) \<or> good_body (scope_of p) env mo st (watchlist_add env mo to_float b who st)"
  proof (cases "watch_in to_float b")
    case None
    with p show ?thesis
      by (simp add: early_error_def watchlist_add_def with_account_ok unprocessable_def client_errors_def)
  next
    case (Some im)
    obtain j m where im: "im = (j, m)" by (cases im) auto
    with Some watch_in_ok have m: "positive_price m" by auto
    show ?thesis
      by (rule disjI2, rule good_bodyI [OF _ add_watch_handler [OF m]]) (simp add: watchlist_add_def with_account_ok [OF p] Some im)
  qed
  show "good_body (scope_of p) env mo st (watchlist_list env mo who st)"
    by (rule good_bodyI [OF _ list_handlers(1)]) (simp add: watchlist_list_def with_account_ok [OF p])
  show "early_error st (watchlist_remove env mo i who st) \<or> good_body (scope_of p) env mo st (watchlist_remove env mo i who st)"
  proof (cases "no_nul i")
    case True
    show ?thesis
      by (rule disjI2, rule good_bodyI [OF _ remove_handlers(1)]) (simp add: watchlist_remove_def with_account_ok [OF p] True)
  qed (simp add: early_error_def watchlist_remove_def with_account_ok [OF p] client_errors_def)
qed

lemma search_routes_shape:
  assumes p: "require_account who = Inr p"
  shows "early_error st (saved_search_add env mo to_float b who st) \<or> good_body (scope_of p) env mo st (saved_search_add env mo to_float b who st)"
    and "good_body (scope_of p) env mo st (saved_search_list env mo who st)"
    and "\<not> (uuid_accepts i \<and> pg_uuid i = None) \<Longrightarrow>
      early_error st (saved_search_remove pg_uuid env mo i who st) \<or> good_body (scope_of p) env mo st (saved_search_remove pg_uuid env mo i who st)"
    and "uuid_accepts i \<Longrightarrow> pg_uuid i = None \<Longrightarrow>
      saved_search_remove pg_uuid env mo i who st = with_db env mo (\<lambda>db. (db, Raised server_error)) st"
proof -
  show "early_error st (saved_search_add env mo to_float b who st) \<or> good_body (scope_of p) env mo st (saved_search_add env mo to_float b who st)"
  proof (cases "saved_search_in to_float b")
    case None
    with p show ?thesis
      by (simp add: early_error_def saved_search_add_def with_account_ok unprocessable_def client_errors_def)
  next
    case (Some qm)
    obtain q m where qm: "qm = (q, m)" by (cases qm) auto
    with Some saved_search_in_ok have m: "1 \<le> py_len q" "py_len q \<le> 200" "positive_price m" by blast+
    show ?thesis
      by (rule disjI2, rule good_bodyI [OF _ add_saved_handler [OF m]]) (simp add: saved_search_add_def with_account_ok [OF p] Some qm)
  qed
  show "good_body (scope_of p) env mo st (saved_search_list env mo who st)"
    by (rule good_bodyI [OF _ list_handlers(2)]) (simp add: saved_search_list_def with_account_ok [OF p])
  show "early_error st (saved_search_remove pg_uuid env mo i who st) \<or> good_body (scope_of p) env mo st (saved_search_remove pg_uuid env mo i who st)"
    if "\<not> (uuid_accepts i \<and> pg_uuid i = None)"
  proof (cases "uuid_accepts i")
    case True
    with that obtain j where j: "pg_uuid i = Some j" by auto
    show ?thesis
      by (rule disjI2, rule good_bodyI [OF _ remove_handlers(2)])
        (simp add: saved_search_remove_def with_account_ok [OF p] True j)
  qed (simp add: early_error_def saved_search_remove_def with_account_ok [OF p] client_errors_def)
  show "saved_search_remove pg_uuid env mo i who st = with_db env mo (\<lambda>db. (db, Raised server_error)) st"
    if "uuid_accepts i" "pg_uuid i = None"
    using that by (simp add: saved_search_remove_def with_account_ok [OF p])
qed

lemma account_shape:
  assumes p: "require_account who = Inr p"
  shows "early_error st (account_api to_float pg_uuid env mo c who st)
    \<or> good_body (scope_of p) env mo st (account_api to_float pg_uuid env mo c who st)
    \<or> (\<exists>i. c = RemoveS i \<and> uuid_accepts i \<and> pg_uuid i = None
         \<and> with_db env mo (\<lambda>db. (db, Raised server_error)) st = account_api to_float pg_uuid env mo c who st)"
proof (cases c)
  case (AddW b)
  with watch_routes_shape(1) [OF p] show ?thesis by (simp add: account_api_def)
next
  case ListW
  with watch_routes_shape(2) [OF p] show ?thesis by (simp add: account_api_def)
next
  case (RemoveW i)
  with watch_routes_shape(3) [OF p] show ?thesis by (simp add: account_api_def)
next
  case (AddS b)
  with search_routes_shape(1) [OF p] show ?thesis by (simp add: account_api_def)
next
  case ListS
  with search_routes_shape(2) [OF p] show ?thesis by (simp add: account_api_def)
next
  case (RemoveS i)
  show ?thesis
  proof (cases "uuid_accepts i \<and> pg_uuid i = None")
    case True
    with search_routes_shape(4) [OF p] RemoveS show ?thesis by (simp add: account_api_def)
  next
    case False
    with search_routes_shape(3) [OF p, where i = i and pg_uuid = pg_uuid and st = st and env = env and mo = mo] RemoveS
    show ?thesis by (simp add: account_api_def) blast
  qed
qed

lemma account_lost:
  "mo_db mo = Commit_Lost \<Longrightarrow>
   fst (account_api to_float pg_uuid env mo c who st) = fst (account_api to_float pg_uuid env (mo\<lparr>mo_db := Db_Works\<rparr>) c who st)"
  by (auto simp: account_api_def watchlist_add_def watchlist_list_def watchlist_remove_def saved_search_add_def saved_search_list_def
      saved_search_remove_def with_account_def with_db_def Let_def split: account_call.split sum.split option.split prod.split tx_end.split)


definition demo_site :: site where
  "demo_site = \<lparr>st_db = \<lparr>ds_up = True, ds_checked_at = 0, ds_ready = None\<rparr>,
     st_rows = \<lparr>offers = [], watchlist = [], saved = []\<rparr>\<rparr>"

definition demo_moment :: moment where "demo_moment = \<lparr>mo_now = 1, mo_schema = True, mo_id = ''new'', mo_db = Db_Works\<rparr>"

definition demo_principal :: principal where
  "demo_principal = \<lparr>pr_tenant = ''t'', pr_user = Some ''u'', pr_role = ''free''\<rparr>"

definition demo_uuid :: string where "demo_uuid = ''urn:uuid:12345678-1234-5678-1234-567812345678''"

lemma demo_uuid_accepted: "uuid_accepts demo_uuid"
  by (simp add: demo_uuid_def) code_simp

lemma demo_delete:
  "account_api (\<lambda>_. None) (\<lambda>_. None) [] demo_moment (RemoveS demo_uuid) (Inr demo_principal) demo_site
     = (demo_site, Inl server_error)"
  using demo_uuid_accepted
  by (simp add: account_api_def saved_search_remove_def with_account_def require_account_def truthy_def demo_principal_def
      with_db_def require_db_def maybe_recheck_db_def recheck_due_def demo_site_def Let_def)


section \<open>Watching and unwatching\<close>

definition primary_key :: "watch list \<Rightarrow> bool" where
  "primary_key rows \<longleftrightarrow> distinct (map (\<lambda>r. (wa_user r, wa_offer r)) rows)"

definition watched_items :: "scope \<Rightarrow> database \<Rightarrow> string \<Rightarrow> (watch \<times> bool) list" where
  \<comment> \<open>what the list shows of one offer\<close>
  "watched_items s db i = filter (\<lambda>(w, h). wa_offer w = i) (list_watch s db)"

definition other_items :: "scope \<Rightarrow> database \<Rightarrow> string \<Rightarrow> (watch \<times> bool) list" where
  "other_items s db i = filter (\<lambda>(w, h). wa_offer w \<noteq> i) (list_watch s db)"

abbreviation same_watch :: "scope \<Rightarrow> string \<Rightarrow> watch \<Rightarrow> bool" where
  "same_watch s i \<equiv> \<lambda>r. wa_user r = sc_user s \<and> wa_offer r = i"

lemma items_filter:
  "watched_items s db i = map (\<lambda>r. (r, hit r)) (sort_key (\<lambda>r. - wa_created r) (filter (same_watch s i) (watchlist db)))"
  "other_items s db i = map (\<lambda>r. (r, hit r)) (sort_key (\<lambda>r. - wa_created r)
     (filter (\<lambda>r. own_watch s r \<and> wa_offer r \<noteq> i) (watchlist db)))"
  by (simp_all add: watched_items_def other_items_def list_watch_def filter_map comp_def filter_sort own_watch_def conj_commute)

lemma primary_key_unique: "primary_key rows \<Longrightarrow> length (filter (same_watch s i) rows) \<le> 1"
proof (induction rows)
  case (Cons r rows)
  have "filter (same_watch s i) rows = []" if "same_watch s i r"
    using that Cons.prems by (auto simp: primary_key_def filter_empty_conv image_iff)
  with Cons show ?case by (auto simp: primary_key_def)
qed (simp add: primary_key_def)

lemma on_conflict_one:
  assumes "length (filter same rows) \<le> 1" "same new" "\<And>r. same r \<Longrightarrow> same (upd r)"
  shows "filter same (on_conflict same upd new rows) = [the (find same (on_conflict same upd new rows))]"
proof -
  have one: "length (filter same (on_conflict same upd new rows)) = 1"
  proof (cases "\<exists>r \<in> set rows. same r")
    case True
    have "filter same (map (\<lambda>r. if same r then upd r else r) xs) = map upd (filter same xs)" for xs
      using assms(3) by (induction xs) auto
    moreover have "filter same rows \<noteq> []" using True by (auto simp: filter_empty_conv)
    ultimately show ?thesis using True assms(1) by (cases "filter same rows") (auto simp: on_conflict_def)
  next
    case False
    then have "filter same rows = []" by (simp add: filter_empty_conv)
    with False assms(2) show ?thesis by (simp add: on_conflict_def)
  qed
  then obtain w where w: "filter same (on_conflict same upd new rows) = [w]" by (auto simp: length_Suc_conv)
  have "find same xs = Some w" if "filter same xs = [w]" for xs
    using that by (induction xs) (auto split: if_splits)
  with w show ?thesis by simp
qed

lemma add_watch_listed:
  assumes pk: "primary_key (watchlist db)" and add: "add_watch s now i t db = (db1, Inr w)"
  shows "filter (same_watch s i) (watchlist db1) = [w]"
    and "filter (\<lambda>r. \<not> same_watch s i r) (watchlist db1) = filter (\<lambda>r. \<not> same_watch s i r) (watchlist db)"
    and "wa_target w = t" and "\<exists>off \<in> set (offers db). own_offer s off \<and> o_id off = i \<and> wa_price w = o_price off"
    and "\<exists>off. find (\<lambda>r. own_offer s r \<and> o_id r = i) (offers db) = Some off \<and> wa_price w = o_price off"
    and "wa_offer w = i"
proof -
  from add obtain off where off: "find (\<lambda>r. own_offer s r \<and> o_id r = i) (offers db) = Some off"
    by (auto simp: add_watch_def split: option.splits)
  then have found: "off \<in> set (offers db)" "own_offer s off" "o_id off = i" by (auto simp: find_Some_iff)
  define new where "new = watch_row s now off t"
  define upd where "upd = (\<lambda>r :: watch. new\<lparr>wa_tenant := wa_tenant r, wa_created := wa_created r\<rparr>)"
  define rows where "rows = on_conflict (same_watch s i) upd new (watchlist db)"
  have db1: "watchlist db1 = rows" and w: "w = the (find (same_watch s i) rows)"
    using add off by (auto simp: add_watch_def Let_def rows_def upd_def new_def fun_eq_iff split: if_splits)
  have sn: "same_watch s i new" using found(3) by (simp add: new_def watch_row_def)
  have su: "same_watch s i (upd r)" for r using sn by (simp add: upd_def)
  show one: "filter (same_watch s i) (watchlist db1) = [w]"
    unfolding db1 w rows_def by (rule on_conflict_one [OF primary_key_unique [OF pk] sn su])
  show "filter (\<lambda>r. \<not> same_watch s i r) (watchlist db1) = filter (\<lambda>r. \<not> same_watch s i r) (watchlist db)"
    unfolding db1 rows_def by (rule filter_on_conflict_out) (use sn su in auto)
  have "w \<in> set (filter (same_watch s i) rows)" using one db1 by simp
  then have "w \<in> set rows" "same_watch s i w" by simp_all
  then have "w = new \<or> (\<exists>r. w = upd r)" unfolding rows_def by (auto simp: on_conflict_def split: if_splits)
  then show "wa_target w = t" "\<exists>off \<in> set (offers db). own_offer s off \<and> o_id off = i \<and> wa_price w = o_price off"
    "\<exists>off. find (\<lambda>r. own_offer s r \<and> o_id r = i) (offers db) = Some off \<and> wa_price w = o_price off" "wa_offer w = i"
    using found off by (auto simp: upd_def new_def watch_row_def)
qed

text \<open>C24: Watching round trip. After a 201 the caller's list shows the offer exactly once, with the target it asked for, the
  price of the server's own catalog and a hit flag for price at most target; removing it then answers 200, the
  list shows it no more, and the rest of the list is what it was before. When the database fails for the removal, the
  answer is the internal error and no row changes, or, when only the confirmation of its commit is lost, the rows are
  those of the removal.\<close>

theorem watch_roundtrip:
  assumes "require_account who = Inr p" and "primary_key (watchlist (st_rows st))"
    and "watchlist_add env mo to_float body who st = (st1, Inr (201, Watched w))"
    and "watchlist_remove env mo' (wa_offer w) who st1 = (st2, a)"
  shows "watched_items (scope_of p) (st_rows st1) (wa_offer w) = [(w, hit w)]
    \<and> (\<exists>off \<in> set (offers (st_rows st)). own_offer (scope_of p) off \<and> o_id off = wa_offer w \<and> wa_price w = o_price off)
    \<and> Some (wa_offer w, wa_target w) = watch_in to_float body
    \<and> (if mo_db mo' = Db_Fails then a = Inl server_error \<and> st_rows st2 = st_rows st1
       else a = (if mo_db mo' = Db_Works then Inr (200, Removed (wa_offer w)) else Inl server_error)
        \<and> watched_items (scope_of p) (st_rows st2) (wa_offer w) = []
        \<and> other_items (scope_of p) (st_rows st2) (wa_offer w) = other_items (scope_of p) (st_rows st) (wa_offer w))"
proof -
  let ?s = "scope_of p"
  from assms(1,3) obtain i t where b: "watch_in to_float body = Some (i, t)"
    by (auto simp: watchlist_add_def with_account_ok split: option.splits)
  have "ds_up (st_db st1) \<and> add_watch ?s (mo_now mo) i t (st_rows st) = (st_rows st1, Inr w)"
    using assms(1,3) b
    by (auto simp: watchlist_add_def with_account_ok with_db_def require_db_def Let_def
        split: prod.splits option.splits sum.splits store_error.splits tx_end.splits if_splits)
  then have up: "ds_up (st_db st1)" and add: "add_watch ?s (mo_now mo) i t (st_rows st) = (st_rows st1, Inr w)" by auto
  note l = add_watch_listed [OF assms(2) add]
  have "w \<in> set (filter (same_watch ?s i) (watchlist (st_rows st1)))" by (simp add: l(1))
  then have i: "wa_offer w = i" by simp
  have nn: "no_nul i" using watch_in_ok [OF b] by (simp add: offer_id_ok_def)
  have gone: "remove_watch ?s i (st_rows st1) =
      (st_rows st1\<lparr>watchlist := filter (\<lambda>r. \<not> same_watch ?s i r) (watchlist (st_rows st))\<rparr>, 1)"
    using l(1,2) by (simp add: remove_watch_def own_watch_def Let_def)
  have lost: "mo_db mo' \<noteq> Db_Works \<Longrightarrow> mo_db mo' \<noteq> Db_Fails \<Longrightarrow> mo_db mo' = Commit_Lost" by (cases "mo_db mo'") simp_all
  have removed: "if mo_db mo' = Db_Fails then a = Inl server_error \<and> st_rows st2 = st_rows st1
     else a = (if mo_db mo' = Db_Works then Inr (200, Removed i) else Inl server_error)
      \<and> watchlist (st_rows st2) = filter (\<lambda>r. \<not> same_watch ?s i r) (watchlist (st_rows st))"
    using assms(1,4) i nn up gone lost
    by (auto simp: watchlist_remove_def with_account_ok with_db_def require_db_def recheck_keeps_up Let_def split: prod.splits if_splits)
  have others: "filter (\<lambda>r. own_watch ?s r \<and> wa_offer r \<noteq> i) (filter (\<lambda>r. \<not> same_watch ?s i r) rows) =
      filter (\<lambda>r. own_watch ?s r \<and> wa_offer r \<noteq> i) rows" for rows
    by (auto intro!: filter_cong)
  have "other_items ?s (st_rows st2) i = other_items ?s (st_rows st) i \<and> watched_items ?s (st_rows st2) i = []"
    if "watchlist (st_rows st2) = filter (\<lambda>r. \<not> same_watch ?s i r) (watchlist (st_rows st))"
    by (simp only: items_filter that others) simp
  moreover have "watched_items ?s (st_rows st1) i = [(w, hit w)]" by (simp add: items_filter l(1))
  ultimately show ?thesis using l(3,4) removed b i by (auto split: if_splits)
qed

definition demo_catalog :: site where
  "demo_catalog = demo_site\<lparr>st_rows := \<lparr>offers = [\<lparr>o_tenant = ''t'', o_id = ''x'', o_title = ''T'', o_brand = None,
     o_source = ''BestBuy'', o_price = 9, o_currency = ''USD'', o_url = None, o_image = None, o_vec = None, o_sku = None,
     o_regular = None, o_fetched = 0\<rparr>],
     watchlist = [], saved = []\<rparr>\<rparr>"

definition demo_body :: json where "demo_body = JObj [(''offer_id'', JStr ''x'')]"

definition demo_watch :: watch where
  "demo_watch = \<lparr>wa_user = ''u'', wa_tenant = ''t'', wa_offer = ''x'', wa_title = ''T'', wa_url = None, wa_image = None,
     wa_source = Some ''BestBuy'', wa_target = None, wa_price = 9, wa_checked = 0, wa_created = 1\<rparr>"

definition demo_watched :: site where
  "demo_watched = demo_catalog\<lparr>st_rows := st_rows demo_catalog\<lparr>watchlist := [demo_watch]\<rparr>\<rparr>"

lemma demo_may_store: "may_store ''BestBuy''"
  by code_simp

lemma demo_offer_id: "offer_id_ok ''x''"
  by code_simp

lemmas demo_account_defs = with_account_def require_account_def truthy_def demo_principal_def with_db_def require_db_def
  recheck_keeps_up demo_watched_def demo_catalog_def demo_site_def demo_moment_def scope_of_def Let_def

lemma demo_add: "watchlist_add [] demo_moment (\<lambda>_. None) demo_body (Inr demo_principal) demo_catalog =
    (demo_watched, Inr (201, Watched demo_watch))"
  using demo_may_store demo_offer_id
  by (simp add: watchlist_add_def watch_in_def demo_body_def fields_only_def add_watch_def own_offer_def own_watch_def
      WATCH_LIMIT_def positive_price_def on_conflict_def watch_row_def demo_watch_def demo_account_defs)

theorem watch_roundtrip_witness:
  "watched_items (scope_of demo_principal) (st_rows demo_watched) ''x'' = [(demo_watch, False)]
   \<and> watched_items (scope_of demo_principal) (st_rows (fst (watchlist_remove [] demo_moment ''x'' (Inr demo_principal) demo_watched))) ''x'' = []"
proof -
  have acct: "require_account (Inr demo_principal) = Inr demo_principal"
    by (simp add: require_account_def truthy_def demo_principal_def)
  have pk: "primary_key (watchlist (st_rows demo_catalog))" by (simp add: primary_key_def demo_catalog_def)
  have i: "wa_offer demo_watch = ''x''" "hit demo_watch = False" by (simp_all add: demo_watch_def hit_def)
  obtain st2 a where rm: "watchlist_remove [] demo_moment (wa_offer demo_watch) (Inr demo_principal) demo_watched = (st2, a)"
    by (metis prod.exhaust)
  from watch_roundtrip [OF acct pk demo_add rm] show ?thesis
    unfolding i(1) rm [unfolded i(1)] i(2) by (simp add: demo_moment_def)
qed

end
