(* ===== verification/Serve.thy ===== *)
theory Serve
  imports Accounts_Api Shop Agentic_Rag Orchestrate Context_Window
begin

text \<open>
  The public routes of \<open>dealfinder/serve.py\<close>: the searches and what they remember, the event stream, the
  retrieval, review and context routes, the lab page, and the single deal. An answer is \<open>Inl\<close> an HTTP error or
  \<open>Inr\<close> the reply. The live search of a query, the eBay box, the embedding model and the retrieval over the
  snapshot are arguments, as in the theories that model them.
\<close>

section \<open>Search\<close>

record search_reply =
  se_cache :: string
  se_reply :: shop_reply

definition cache_control :: "bool \<Rightarrow> bool \<Rightarrow> string" where
  \<comment> \<open>an \<open>Authorization\<close> header, a degraded result\<close>
  "cache_control authorized degraded =
     (if authorized then ''private, no-store'' else if degraded then ''no-store'' else ''public, max-age=300'')"

definition search_route ::
  "(string \<Rightarrow> int \<Rightarrow> shop_reply) \<Rightarrow> bool \<Rightarrow> http_error + principal \<Rightarrow> string \<Rightarrow> int \<Rightarrow> http_error + search_reply" where
  \<comment> \<open>the dependency on the principal comes first, then the validation of \<open>q\<close> and \<open>k\<close>\<close>
  "search_route shop authorized who q k =
     (case who of Inl e \<Rightarrow> Inl e
      | Inr p \<Rightarrow>
          (case search_text q of
             None \<Rightarrow> Inl unprocessable
           | Some s \<Rightarrow>
               if \<not> (1 \<le> k \<and> k \<le> 24) then Inl unprocessable
               else (let r = shop s k in Inr \<lparr>se_cache = cache_control authorized (sr_degraded r), se_reply = r\<rparr>)))"

definition put_vecs :: "nat \<Rightarrow> nat list \<Rightarrow> pyfloat list list \<Rightarrow> pyfloat list option list" where
  \<comment> \<open>\<open>embs = [None] * n\<close>, then \<open>embs[i] = v\<close> for each pair\<close>
  "put_vecs n idx vecs = foldl (\<lambda>es (i, v). es[i := Some v]) (replicate n None) (zip idx vecs)"

definition remembered_product :: "shop_row \<Rightarrow> product" where
  \<comment> \<open>the shown row as the catalog stores it: its price is the rounded one and it carries no currency\<close>
  "remembered_product x = (rr_product (sh_offer x))\<lparr>price := sh_price x, currency := []\<rparr>"

definition remember_offers ::
  "environ \<Rightarrow> db_outcome \<Rightarrow> (string list \<Rightarrow> pyfloat list list option) \<Rightarrow> (string \<Rightarrow> pyfloat option) \<Rightarrow> pyfloat \<Rightarrow> shop_row list \<Rightarrow>
   string \<Rightarrow> site \<Rightarrow> site" where
  \<comment> \<open>\<open>emb\<close>: \<open>None\<close> when it raises; \<open>stamp\<close>: a row's \<open>fetched_at\<close> as a time. Best effort: a failure leaves the store as it is\<close>
  "remember_offers env dbo emb stamp now rows tenant st =
     (if \<not> ds_up (st_db st) \<or> rows = [] then st
      else
        (let idx = filter (\<lambda>i. may_embed (row_source (rows ! i))) [0..<length rows];
             embeddable = (if verdict_mode env = Check then [] else idx);
             vecs = (if embeddable = [] then Some [] else emb (map (\<lambda>i. title (rr_product (sh_offer (rows ! i)))) embeddable))
         in case vecs of
              None \<Rightarrow> st
            | Some vs \<Rightarrow>
                (let ps = map remembered_product rows;
                     stamps = map (\<lambda>x. stamp (fetched_at (sh_offer x))) rows;
                     s = \<lparr>sc_tenant = tenant, sc_user = []\<rparr>;
                     batch = zip ps (zip stamps (put_vecs (length rows) embeddable vs))
                 in if dbo = Db_Fails \<or> \<not> upsert_fits batch then st
                    else st\<lparr>st_rows := (st_rows st)\<lparr>offers := fst (upsert s now batch (offers (st_rows st)))\<rparr>\<rparr>)))"

record ranked_reply =
  rk_count :: nat
  rk_median :: "pyfloat option"
  rk_attribution :: "attribution list"
  rk_live :: "string list"
  rk_threshold :: pyfloat
  rk_modeled :: nat
  rk_estimated :: nat
  rk_results :: "shop_row list"

definition ranked_route ::
  "environ \<Rightarrow> (string list \<Rightarrow> pyfloat list list option) \<Rightarrow> (string \<Rightarrow> string) \<Rightarrow> (string \<Rightarrow> (int list \<Rightarrow> pyfloat) option) \<Rightarrow>
   agg_result \<Rightarrow> int \<Rightarrow> ranked_reply" where
  "ranked_route env emb asc mdls agg k =
     (let md = verdict_mode env; offers = results agg;
          rated = map (price \<circ> rr_product) (filter (\<lambda>r. may_verdict (source (rr_product r))) offers);
          median = (case py_median rated of None \<Rightarrow> 0 | Some m \<Rightarrow> m);
          scored = py_slice_to k (score_offers emb asc mdls md offers median)
      in \<lparr>rk_count = length scored, rk_median = (if md = Check then None else Some (py_round 2 median)),
          rk_attribution = attribution_for (map row_source scored), rk_live = sources_live agg,
          rk_threshold = SUSPICIOUS_RESIDUAL_FRAC,
          rk_modeled = length (filter (\<lambda>x. sh_basis x = Some Model) scored),
          rk_estimated = length (filter (\<lambda>x. sh_basis x = Some Peers) scored), rk_results = scored\<rparr>)"

definition check_route ::
  "(string \<Rightarrow> (int list \<Rightarrow> pyfloat) option) \<Rightarrow> (string \<times> string) list \<Rightarrow> string \<Rightarrow> pyfloat \<Rightarrow> http_error + checked" where
  "check_route mdls snapshot t p =
     (case check_title t of
        None \<Rightarrow> Inl unprocessable
      | Some s \<Rightarrow> if 0 < p \<and> p \<le> 50000 then Inr (check_deal mdls snapshot s p) else Inl unprocessable)"

section \<open>The event stream\<close>

datatype src_run = Unavailable_src | Threw | Found "product list"

datatype stream_event =
    Source_Error string
  | Results string "product list"
  | Done string nat "pyfloat option" "attribution list"

definition stream_step ::
  "(string, product) dict \<times> stream_event list \<Rightarrow> string \<times> src_run \<Rightarrow> (string, product) dict \<times> stream_event list" where
  \<comment> \<open>one turn of the loop over the sources: what was seen so far and the frames sent so far\<close>
  "stream_step se nr =
     (let (seen, evs) = se; (n, run) = nr in
      case run of
        Unavailable_src \<Rightarrow> (seen, evs)
      | Threw \<Rightarrow> (seen, evs @ [Source_Error n])
      | Found ps \<Rightarrow>
          (let batch = filter (\<lambda>p. may_comingle (source p)) ps in
           (foldl keep_cheapest seen batch, if batch = [] then evs else evs @ [Results n batch])))"

definition stream_search :: "environ \<Rightarrow> string \<Rightarrow> (string \<times> src_run) list \<Rightarrow> stream_event list" where
  "stream_search env q srcs =
     (let (seen, evs) = foldl stream_step ([], []) srcs;
          items = dict_values seen;
          rated = map price (filter (\<lambda>p. may_verdict (source p)) items);
          median = (case py_median rated of None \<Rightarrow> 0 | Some m \<Rightarrow> py_round 2 m)
      in evs @ [Done q (length items) (if verdict_mode env = Check then None else Some median)
                  (attribution_for (map source items))])"

definition sse :: "string option \<Rightarrow> string \<Rightarrow> string" where
  \<comment> \<open>\<open>_sse\<close>; the second argument is the event's JSON text\<close>
  "sse ev payload =
     (if truthy ev then ''event: '' @ the ev @ [CHR 10] else []) @ ''data: '' @ payload @ [CHR 10, CHR 10]"

section \<open>Search by meaning\<close>

record semantic_reply =
  sm_results :: "(offer \<times> pyfloat) list"
  sm_tenant :: string

record snapshot_hit =
  sn_item :: retrieved
  sn_pct :: int
  sn_url :: "string option"
  sn_image :: "string option"

definition semantic_db ::
  "(pyfloat list \<Rightarrow> pyfloat list \<Rightarrow> pyfloat) \<Rightarrow> pyfloat list \<Rightarrow> nat \<Rightarrow> principal \<Rightarrow> database \<Rightarrow> semantic_reply" where
  "semantic_db cdist qv k p db =
     \<lparr>sm_results = map (\<lambda>(r, sim). (r, py_round 3 sim))
        (semantic_search cdist \<lparr>sc_tenant = pr_tenant p, sc_user = []\<rparr> qv k (offers db)),
      sm_tenant = pr_tenant p\<rparr>"

definition catalog_entry :: "product list \<Rightarrow> string \<Rightarrow> product option" where
  \<comment> \<open>\<open>_catalog[_idx[id]]\<close>: the last row of an id\<close>
  "catalog_entry catalog i = find (\<lambda>p. p_id p = i) (rev catalog)"

definition semantic_snapshot :: "product list \<Rightarrow> retrieved list \<Rightarrow> snapshot_hit list" where
  "semantic_snapshot catalog items =
     map (\<lambda>it. let p = catalog_entry catalog (rt_id it) in
        \<lparr>sn_item = it, sn_pct = round_half_even (rt_median_signal it * 100), sn_url = map_option url p,
         sn_image = Option.bind p image_url\<rparr>) items"

definition semantic_route ::
  "(string list \<Rightarrow> pyfloat list list) \<Rightarrow> (pyfloat list \<Rightarrow> pyfloat list \<Rightarrow> pyfloat) \<Rightarrow> product list \<Rightarrow> (string \<Rightarrow> retrieved list) \<Rightarrow>
   http_error + principal \<Rightarrow> string \<Rightarrow> nat \<Rightarrow> site \<Rightarrow> http_error + (semantic_reply + snapshot_hit list)" where
  "semantic_route emb cdist catalog ret who q k st =
     (case who of Inl e \<Rightarrow> Inl e
      | Inr p \<Rightarrow>
          Inr (if ds_up (st_db st) then Inl (semantic_db cdist (emb [q] ! 0) k p (st_rows st))
               else Inr (semantic_snapshot catalog (ret q))))"

section \<open>Answers\<close>

definition ask_route :: "chat option \<Rightarrow> (string \<Rightarrow> retrieved list) \<Rightarrow> string \<Rightarrow> rag_answer" where
  "ask_route client ret q = rag_answer_for client q (ret q)"

definition ask_agentic_route ::
  "chat option \<Rightarrow> product list \<Rightarrow> (string \<Rightarrow> retrieved list) \<Rightarrow> string \<Rightarrow> int \<Rightarrow> agentic" where
  \<comment> \<open>no products are passed, so both retrievals are over the default catalog; \<open>range\<close> of a negative number is empty\<close>
  "ask_agentic_route client catalog ret q max_hops = agentic_answer ret ret client catalog (nat max_hops) q"

definition TRAP_WRITER :: chat where
  "TRAP_WRITER msgs = Some (Some (''Best value: Bose QuietComfort 45 Wireless Noise Cancelling '' @
     ''Headphones at $46.00 '' @ em_dash @ '' an incredible deal.''))"

record reviewed =
  rw_draft :: string
  rw_used_llm :: bool
  rw_draft_review :: review_result
  rw_revised :: bool
  rw_final :: string
  rw_final_review :: review_result

definition review_route :: "chat option \<Rightarrow> (string \<Rightarrow> retrieved list) \<Rightarrow> string \<Rightarrow> bool \<Rightarrow> reviewed" where
  "review_route client ret q trap =
     (let writer = (if trap then Some TRAP_WRITER else client);
          draft = rag_answer_for writer q (ret q); r = review (ret q) (ra_text draft);
          fixed = extractive_answer (ret q)
      in if rv_approved r
         then \<lparr>rw_draft = ra_text draft, rw_used_llm = ra_used_llm draft, rw_draft_review = r, rw_revised = False,
               rw_final = ra_text draft, rw_final_review = r\<rparr>
         else \<lparr>rw_draft = ra_text draft, rw_used_llm = ra_used_llm draft, rw_draft_review = r, rw_revised = True,
               rw_final = ra_text fixed, rw_final_review = review (ret q) (ra_text fixed)\<rparr>)"

datatype place = Start | Middle | Last

definition place_of :: "nat \<Rightarrow> nat \<Rightarrow> place" where
  "place_of i n = (if i = 0 then Start else if i = n - 1 then Last else Middle)"

record context_reply =
  cx_retrieved :: nat
  cx_block_tokens :: nat
  cx_packed_tokens :: nat
  cx_system_tokens :: nat
  cx_kept :: nat
  cx_evicted :: nat
  cx_included :: "(retrieved \<times> place) list"
  cx_dropped :: "retrieved list"

definition context_route :: "(string \<Rightarrow> nat) \<Rightarrow> (string \<Rightarrow> retrieved list) \<Rightarrow> string \<Rightarrow> int \<Rightarrow> context_reply" where
  "context_route count_tokens ret q budget =
     (let items = ret q; p = pack_deals count_tokens items budget; ordered = lost_in_the_middle (pk_included p); n = length ordered
      in \<lparr>cx_retrieved = length items,
          cx_block_tokens = sum_list (map (item_cost count_tokens) items),
          cx_packed_tokens = pk_tokens p, cx_system_tokens = count_tokens SYSTEM_PROMPT,
          cx_kept = length (pk_included p), cx_evicted = length (pk_dropped p),
          cx_included = map (\<lambda>(i, it). (it, place_of i n)) (List.enumerate 0 ordered), cx_dropped = pk_dropped p\<rparr>)"

section \<open>The lab page, the sources, the single deal\<close>

fun replace_first :: "string \<Rightarrow> string \<Rightarrow> string \<Rightarrow> string" where
  \<comment> \<open>\<open>s.replace(a, b, 1)\<close> for a non-empty \<open>a\<close>\<close>
  "replace_first a b [] = []"
| "replace_first a b (c # s) = (if prefix a (c # s) then b @ drop (length a) (c # s) else c # replace_first a b s)"

definition LAB_ASSETS :: "(string, string) dict" where
  "LAB_ASSETS = [(''lab.css'', ''text/css''), (''lab.js'', ''text/javascript''), (''lessons.json'', ''application/json'')]"

definition lab_asset :: "(string \<Rightarrow> string) \<Rightarrow> string \<Rightarrow> http_error + (string \<times> string)" where
  \<comment> \<open>\<open>read\<close>: the bytes of a file of the static directory; the reply is a media type and a content\<close>
  "lab_asset read name =
     (case dict_get LAB_ASSETS name of None \<Rightarrow> Inl (404, ''not found'') | Some media \<Rightarrow> Inr (media, read name))"

definition live_data :: "environ \<Rightarrow> bool" where
  "live_data env =
     (case enabled_sources env None of Inl e \<Rightarrow> False | Inr ss \<Rightarrow> \<exists>s \<in> set ss. source_available env (lv_name s))"

definition CDN_SCRIPT :: rx where
  \<comment> \<open>\<open>(?:<!--[^>]*-->\n)?<script src="https://cdn\.jsdelivr\.net/[^"]+"[^>]*></script>\n\<close>\<close>
  "CDN_SCRIPT =
     Cat (opt (seqs [str ''<!--'', Star (Cls (\<lambda>c. c \<noteq> CHR ''>'')), str ''-->'', lit (CHR 10)]))
      (seqs [str ''<script src=\"https://cdn.jsdelivr.net/'', plus (Cls (\<lambda>c. c \<noteq> CHR ''\"'')), lit (CHR ''\"''),
        Star (Cls (\<lambda>c. c \<noteq> CHR ''>'')), str ''></script>'', lit (CHR 10)])"

definition lab_page :: "environ \<Rightarrow> bool \<Rightarrow> string \<Rightarrow> string" where
  \<comment> \<open>\<open>edge\<close>: the request carries the edge header\<close>
  "lab_page env edge html =
     (let base = (if edge then ''/api'' else []); on = live_data env;
          h1 = replace_first ''<meta name=\"api-base\" content=\"\">'' (''<meta name=\"api-base\" content=\"'' @ base @ ''\">'') html;
          h2 = replace_first ''<meta name=\"live-data\" content=\"off\">''
                 (''<meta name=\"live-data\" content=\"'' @ (if on then ''on'' else ''off'') @ ''\">'') h1
      in if on then h2 else rx_sub CDN_SCRIPT [] h2)"

definition sources_route :: "environ \<Rightarrow> string + (string, bool) dict" where
  "sources_route env =
     map_sum id (\<lambda>ss. dict_set ''eBay'' (ebay_available env)
        (foldl (\<lambda>d s. dict_set (lv_name s) (source_available env (lv_name s)) d) [] ss)) (enabled_sources env None)"

definition snapshot_fair :: "(string \<Rightarrow> (int list \<Rightarrow> pyfloat) option) \<Rightarrow> product \<Rightarrow> pyfloat" where
  \<comment> \<open>\<open>_fair\<close>\<close>
  "snapshot_fair mdls p = (case mdls (category p) of Some model \<Rightarrow> model (featurize p) | None \<Rightarrow> price p)"

record deal_reply =
  dl_id :: string
  dl_price :: pyfloat
  dl_fair :: pyfloat
  dl_score :: pyfloat
  dl_pct :: pyfloat
  dl_residual :: pyfloat
  dl_badge :: string

definition deal_route ::
  "product list \<Rightarrow> (string \<Rightarrow> (int list \<Rightarrow> pyfloat) option) \<Rightarrow> (string, pyfloat) dict \<Rightarrow> string \<Rightarrow> http_error + deal_reply" where
  "deal_route catalog mdls medians i =
     (case catalog_entry catalog i of
        None \<Rightarrow> Inl (404, ''unknown product'')
      | Some p \<Rightarrow>
          (let fair = snapshot_fair mdls p;
               m = median_signal (price p) (dict_get_or medians (p_id p) 0);
               rf = residual_fraction (price p) fair
           in Inr \<lparr>dl_id = p_id p, dl_price = price p, dl_fair = py_round 2 fair,
                dl_score = py_round 3 (deal_score (price p) fair), dl_pct = py_round 3 m, dl_residual = py_round 3 rf,
                dl_badge = render_badge m rf\<rparr>))"

definition me_route :: "http_error + user \<Rightarrow> http_error + (string \<times> string option \<times> string)" where
  "me_route u = map_sum id (\<lambda>v. (u_id v, u_email v, u_role v)) u"

record public_settings =
  ps_url :: "string option"
  ps_key :: "string option"
  ps_providers :: "string list"

definition some_text :: "string option \<Rightarrow> string option" where
  \<comment> \<open>\<open>os.getenv(k) or None\<close>\<close>
  "some_text v = (if truthy v then v else None)"

definition public_config :: "environ \<Rightarrow> public_settings" where
  "public_config env =
     \<lparr>ps_url = some_text (getenv env ''SUPABASE_URL''), ps_key = some_text (getenv env ''SUPABASE_PUBLISHABLE_KEY''),
      ps_providers = [''google'', ''github'']\<rparr>"

definition healthz :: "(string \<times> string) list" where "healthz = [(''status'', ''ok'')]"

definition moved_to_lab :: "nat \<times> string" where
  \<comment> \<open>\<open>redesign\<close> and \<open>home\<close>\<close>
  "moved_to_lab = (301, ''/lab'')"

section \<open>What may be cached, what is remembered\<close>

lemma search_route_ok: "search_route shop authorized (Inr p) q k = Inr r \<longleftrightarrow>
    (\<exists>s. search_text q = Some s \<and> 1 \<le> k \<and> k \<le> 24 \<and> r = \<lparr>se_cache = cache_control authorized (sr_degraded (shop s k)), se_reply = shop s k\<rparr>)"
  by (auto simp: search_route_def Let_def split: option.split)

lemma cache_control_public: "cache_control authorized degraded = ''public, max-age=300'' \<longleftrightarrow> \<not> authorized \<and> \<not> degraded"
  by (simp add: cache_control_def)

lemma search_text_shape: "search_text q = Some s \<Longrightarrow> 1 \<le> py_len s \<and> py_len s \<le> 200 \<and> no_nul s \<and> s = text_trim q"
  by (auto simp: search_text_def plain_text_def Let_def split: if_splits)

lemma length_put_vecs [simp]: "length (put_vecs n idx vecs) = n"
proof -
  have "length (foldl (\<lambda>es (i, v). es[i := Some v]) es ps) = length es" for es :: "pyfloat list option list" and ps
    by (induction ps arbitrary: es) (auto simp: split_beta)
  then show ?thesis by (simp add: put_vecs_def)
qed

lemma put_vecs_at: "j < n \<Longrightarrow> j \<notin> set idx \<Longrightarrow> put_vecs n idx vecs ! j = None"
proof -
  have "j < length es \<Longrightarrow> j \<notin> fst ` set ps \<Longrightarrow> foldl (\<lambda>es (i, v). es[i := Some v]) es ps ! j = es ! j"
    for es :: "pyfloat list option list" and ps
    by (induction ps arbitrary: es) (auto simp: split_beta)
  from this [of "replicate n None" "zip idx vecs"]
  have at: "j < n \<Longrightarrow> j \<notin> fst ` set (zip idx vecs) \<Longrightarrow> put_vecs n idx vecs ! j = None"
    by (simp add: put_vecs_def)
  have "fst ` set (zip idx vecs) \<subseteq> set idx" by (auto dest: set_zip_leftD)
  with at show "j < n \<Longrightarrow> j \<notin> set idx \<Longrightarrow> put_vecs n idx vecs ! j = None" by blast
qed

lemma remembered_simps [simp]: "source (remembered_product x) = row_source x" "p_id (remembered_product x) = p_id (rr_product (sh_offer x))"
  "price (remembered_product x) = sh_price x"
  by (simp_all add: remembered_product_def row_source_def)

text \<open>The rows of an upsert are the rows before it and rows of storable products of the batch.\<close>

lemma upsert_row_from:
  assumes "r \<in> set (upsert_row s now p tm v rows)"
  shows "r \<in> set rows \<or> o_tenant r = sc_tenant s \<and> o_id r = p_id p \<and> o_source r = source p \<and> o_price r = price p
    \<and> (o_vec r \<noteq> None \<longrightarrow> v \<noteq> None \<or> (\<exists>q \<in> set rows. o_tenant q = sc_tenant s \<and> o_id q = p_id p \<and> o_vec q = o_vec r))"
  using assms
  by (auto simp: upsert_row_def on_conflict_def split: if_splits option.splits)

lemma upsert_from:
  assumes "r \<in> set (fst (upsert s now ps rows))"
  shows "r \<in> set rows \<or> (\<exists>p \<in> fst ` set ps. may_store (source p) \<and> o_tenant r = sc_tenant s \<and> o_id r = p_id p
    \<and> o_source r = source p \<and> o_price r = price p)"
  using assms
proof (induction ps arbitrary: rows)
  case (Cons q ps)
  obtain p tm v where q: "q = (p, tm, v)" by (cases q) auto
  show ?case
  proof (cases "may_store (source p)")
    case False
    with Cons q show ?thesis by fastforce
  next
    case True
    let ?rows = "upsert_row s now p tm (if may_embed (source p) then v else None) rows"
    have "r \<in> set (fst (upsert s now ps ?rows))" using Cons.prems True by (simp add: q split_beta Let_def)
    from Cons.IH [OF this] show ?thesis
    proof
      assume "r \<in> set ?rows"
      from upsert_row_from [OF this] True show ?thesis by (auto simp: q)
    qed (auto simp: q)
  qed
qed simp

lemma remember_offers_cases:
  obtains "remember_offers env dbo emb stamp now rows tenant st = st"
  | vs embeddable where "ds_up (st_db st)" "rows \<noteq> []"
      "embeddable = (if verdict_mode env = Check then [] else filter (\<lambda>i. may_embed (row_source (rows ! i))) [0..<length rows])"
      "embeddable = [] \<longrightarrow> vs = []"
      "remember_offers env dbo emb stamp now rows tenant st = st\<lparr>st_rows := (st_rows st)\<lparr>offers :=
         fst (upsert \<lparr>sc_tenant = tenant, sc_user = []\<rparr> now
           (zip (map remembered_product rows) (zip (map (\<lambda>x. stamp (fetched_at (sh_offer x))) rows) (put_vecs (length rows) embeddable vs)))
           (offers (st_rows st)))\<rparr>\<rparr>"
proof (cases "remember_offers env dbo emb stamp now rows tenant st = st")
  case True
  then show ?thesis using that(1) by blast
next
  case False
  define embeddable where "embeddable =
    (if verdict_mode env = Check then [] else filter (\<lambda>i. may_embed (row_source (rows ! i))) [0..<length rows])"
  define vecs where "vecs = (if embeddable = [] then Some []
      else emb (map (\<lambda>i. title (rr_product (sh_offer (rows ! i)))) embeddable))"
  from False obtain vs where vs: "vecs = Some vs" "ds_up (st_db st)" "rows \<noteq> []"
    unfolding remember_offers_def Let_def embeddable_def [symmetric] vecs_def [symmetric]
    by (auto split: if_splits option.splits)
  from False vs have fits: "dbo \<noteq> Db_Fails" "upsert_fits (zip (map remembered_product rows)
      (zip (map (\<lambda>x. stamp (fetched_at (sh_offer x))) rows) (put_vecs (length rows) embeddable vs)))"
    unfolding remember_offers_def Let_def embeddable_def [symmetric] vecs_def [symmetric] by (auto split: if_splits)
  show ?thesis
  proof (rule that(2) [OF vs(2,3) embeddable_def])
    show "embeddable = [] \<longrightarrow> vs = []" using vs(1) by (auto simp: vecs_def)
    show "remember_offers env dbo emb stamp now rows tenant st = st\<lparr>st_rows := (st_rows st)\<lparr>offers :=
         fst (upsert \<lparr>sc_tenant = tenant, sc_user = []\<rparr> now
           (zip (map remembered_product rows) (zip (map (\<lambda>x. stamp (fetched_at (sh_offer x))) rows) (put_vecs (length rows) embeddable vs)))
           (offers (st_rows st)))\<rparr>\<rparr>"
      unfolding remember_offers_def Let_def embeddable_def [symmetric] vecs_def [symmetric]
      using vs fits by simp
  qed
qed

text \<open>C10: The search route. A search runs only for a sound sign-in, a text of 1 to 200 characters without a NUL and a size of 1
  to 24. Its reply is the same whoever asks; it may be cached publicly exactly when the request carries no
  \<open>Authorization\<close> header and every store answered; and it never holds more rows than asked for.\<close>

theorem search_cached_only_when_shared:
  assumes "search_route (\<lambda>s k. shop_search env emb asc mdls s k (agg s) (box s)) authorized who q k = Inr r"
  shows "(\<exists>p. who = Inr p) \<and> 1 \<le> py_len (text_trim q) \<and> py_len (text_trim q) \<le> 200 \<and> no_nul (text_trim q)
    \<and> search_route (\<lambda>s k. shop_search env emb asc mdls s k (agg s) (box s)) authorized (Inr p') q k = Inr r
    \<and> (se_cache r = ''public, max-age=300'' \<longleftrightarrow> \<not> authorized \<and> ar_timed_out (agg (text_trim q)) = []
         \<and> ar_throttled (agg (text_trim q)) = [] \<and> ar_benched (agg (text_trim q)) = [])
    \<and> sr_count (se_reply r) = length (sr_results (se_reply r)) \<and> sr_count (se_reply r) \<le> nat k \<and> 1 \<le> k \<and> k \<le> 24"
proof -
  obtain p where p: "who = Inr p" using assms by (cases who) (auto simp: search_route_def)
  from assms obtain s where s: "search_text q = Some s" "1 \<le> k" "k \<le> 24"
    "r = \<lparr>se_cache = cache_control authorized (sr_degraded (shop_search env emb asc mdls s k (agg s) (box s))),
          se_reply = shop_search env emb asc mdls s k (agg s) (box s)\<rparr>" unfolding p search_route_ok by blast
  have same: "search_route (\<lambda>s k. shop_search env emb asc mdls s k (agg s) (box s)) authorized (Inr p') q k = Inr r"
    unfolding search_route_ok using s by blast
  have len: "length (py_slice_to k xs) \<le> nat k" for xs :: "shop_row list" using s(2) by (simp add: py_slice_to_def)
  show ?thesis
    using p same s(2,3) search_text_shape [OF s(1)] len
    by (auto simp: s(4) cache_control_public shop_search_def Let_def)
qed

theorem search_cached_only_when_shared_witness:
  "search_route (\<lambda>s k. shop_search [] (\<lambda>_. None) id (\<lambda>_. None) s k
       \<lparr>ar_query = s, sources_live = [], ar_throttled = [], ar_timed_out = [''BestBuy''], ar_benched = [], median_price = 0,
        ar_count = 0, results = []\<rparr> None) False (Inr demo_principal) '' tv '' 5
   = search_route (\<lambda>s k. shop_search [] (\<lambda>_. None) id (\<lambda>_. None) s k
       \<lparr>ar_query = s, sources_live = [], ar_throttled = [], ar_timed_out = [''BestBuy''], ar_benched = [], median_price = 0,
        ar_count = 0, results = []\<rparr> None) False
       (Inr \<lparr>pr_tenant = ''public'', pr_user = None, pr_role = ''anonymous''\<rparr>) '' tv '' 5"
proof -
  let ?agg = "\<lambda>s. \<lparr>ar_query = s, sources_live = [], ar_throttled = [], ar_timed_out = [''BestBuy''], ar_benched = [], median_price = 0,
        ar_count = 0, results = []\<rparr>"
  have q: "search_text '' tv '' = Some ''tv''" by code_simp
  obtain r where r: "search_route (\<lambda>s k. shop_search [] (\<lambda>_. None) id (\<lambda>_. None) s k (?agg s) ((\<lambda>_. None) s)) False
      (Inr demo_principal) '' tv '' 5 = Inr r" by (simp add: search_route_def q Let_def)
  from search_cached_only_when_shared [OF r, of "\<lparr>pr_tenant = ''public'', pr_user = None, pr_role = ''anonymous''\<rparr>"] r
  show ?thesis by simp
qed

section \<open>From a shown offer to a watched one\<close>

lemma on_conflict_found:
  assumes "same new" and "\<And>r. same r \<Longrightarrow> same (upd r)" and "Q new" and "\<And>r. Q (upd r)"
  shows "\<exists>r. find same (on_conflict same upd new rows) = Some r \<and> Q r"
proof (cases "\<exists>r \<in> set rows. same r")
  case True
  then have "\<exists>r. find same (map (\<lambda>r. if same r then upd r else r) rows) = Some r \<and> Q r"
    using assms(2,4) by (induction rows) auto
  with True show ?thesis by (simp add: on_conflict_def)
next
  case False
  then have "find same (rows @ [new]) = Some new" using assms(1) by (induction rows) auto
  with False assms(3) show ?thesis by (simp add: on_conflict_def)
qed

lemma on_conflict_find_other:
  assumes "\<not> P new" and "\<And>r. same r \<Longrightarrow> \<not> P r \<and> \<not> P (upd r)"
  shows "find P (on_conflict same upd new rows) = find P rows"
proof -
  have "find P (map (\<lambda>r. if same r then upd r else r) rows) = find P rows" using assms(2) by (induction rows) auto
  moreover have "find P (rows @ [new]) = find P rows" using assms(1) by (induction rows) auto
  ultimately show ?thesis by (simp add: on_conflict_def)
qed

lemma upsert_row_find:
  "\<exists>r. find (\<lambda>r. own_offer s r \<and> o_id r = p_id p) (upsert_row s now p tm v rows) = Some r
     \<and> o_price r = price p \<and> o_source r = source p"
  unfolding upsert_row_def own_offer_def by (rule on_conflict_found) auto

lemma upsert_row_find_other:
  "p_id p \<noteq> i \<Longrightarrow> find (\<lambda>r. own_offer s r \<and> o_id r = i) (upsert_row s now p tm v rows) = find (\<lambda>r. own_offer s r \<and> o_id r = i) rows"
  unfolding upsert_row_def own_offer_def by (rule on_conflict_find_other) auto

lemma upsert_find_other:
  assumes "i \<notin> p_id ` fst ` set ps"
  shows "find (\<lambda>r. own_offer s r \<and> o_id r = i) (fst (upsert s now ps rows)) = find (\<lambda>r. own_offer s r \<and> o_id r = i) rows"
  using assms
proof (induction ps arbitrary: rows)
  case (Cons q ps)
  obtain p tm v where q: "q = (p, tm, v)" by (cases q) auto
  with Cons show ?case by (auto simp: Let_def split_beta upsert_row_find_other)
qed simp

lemma upsert_find:
  assumes "distinct (map p_id (map fst ps))" "(p, tm, v) \<in> set ps" "may_store (source p)"
  shows "\<exists>r. find (\<lambda>r. own_offer s r \<and> o_id r = p_id p) (fst (upsert s now ps rows)) = Some r
     \<and> o_price r = price p \<and> o_source r = source p"
  using assms(1,2)
proof (induction ps arbitrary: rows)
  case (Cons q ps)
  obtain p' tm' v' where q: "q = (p', tm', v')" by (cases q) auto
  show ?case
  proof (cases "q = (p, tm, v)")
    case True
    with Cons.prems(1) have "p_id p \<notin> p_id ` fst ` set ps" by (auto simp: image_image comp_def)
    with True upsert_row_find show ?thesis by (simp add: assms(3) Let_def split_beta upsert_find_other)
  next
    case False
    then have "(p, tm, v) \<in> set ps" "distinct (map p_id (map fst ps))" using Cons.prems q by auto
    from Cons.IH [OF this(2,1)] show ?thesis by (simp add: q Let_def split_beta)
  qed
qed simp

lemma remember_offers_rows:
  assumes "remember_offers env dbo emb stamp now rows tenant st = st'"
  shows "watchlist (st_rows st') = watchlist (st_rows st) \<and> saved (st_rows st') = saved (st_rows st) \<and> st_db st' = st_db st"
  unfolding assms [symmetric]
  by (rule remember_offers_cases [of env dbo emb stamp now rows tenant st]) simp_all

lemma remembered_source:
  assumes "r \<in> set (offers (st_rows (remember_offers env dbo emb stamp now rows tenant st)))"
  shows "r \<in> set (offers (st_rows st)) \<or> (\<exists>x \<in> set rows. may_store (row_source x) \<and> o_tenant r = tenant
     \<and> o_id r = p_id (rr_product (sh_offer x)) \<and> o_source r = row_source x \<and> o_price r = sh_price x)"
proof (rule remember_offers_cases [of env dbo emb stamp now rows tenant st])
  assume "remember_offers env dbo emb stamp now rows tenant st = st"
  with assms show ?thesis by simp
next
  fix vs embeddable
  let ?ps = "zip (map remembered_product rows) (zip (map (\<lambda>x. stamp (fetched_at (sh_offer x))) rows) (put_vecs (length rows) embeddable vs))"
  assume "remember_offers env dbo emb stamp now rows tenant st = st\<lparr>st_rows := (st_rows st)\<lparr>offers :=
      fst (upsert \<lparr>sc_tenant = tenant, sc_user = []\<rparr> now ?ps (offers (st_rows st)))\<rparr>\<rparr>"
  with assms have "r \<in> set (fst (upsert \<lparr>sc_tenant = tenant, sc_user = []\<rparr> now ?ps (offers (st_rows st))))" by simp
  moreover have "fst ` set ?ps \<subseteq> remembered_product ` set rows" by (auto dest: set_zip_leftD)
  ultimately show ?thesis using upsert_from [of r "\<lparr>sc_tenant = tenant, sc_user = []\<rparr>" now ?ps "offers (st_rows st)"] by fastforce
qed

lemma remembered_others:
  "sc_tenant s = tenant \<Longrightarrow>
   filter (\<lambda>r. \<not> own_offer s r) (offers (st_rows (remember_offers env dbo emb stamp now rows tenant st))) =
   filter (\<lambda>r. \<not> own_offer s r) (offers (st_rows st))"
proof -
  assume t: "sc_tenant s = tenant"
  then have own: "own_offer s = own_offer \<lparr>sc_tenant = tenant, sc_user = []\<rparr>" by (simp add: fun_eq_iff own_offer_def)
  show ?thesis
    unfolding own by (rule remember_offers_cases [of env dbo emb stamp now rows tenant st]) (simp_all add: upsert_scope)
qed

lemma remembered_found:
  assumes "remember_offers env dbo emb stamp now rows tenant st \<noteq> st" and "sc_tenant s = tenant"
    and "x \<in> set rows" "distinct (map (\<lambda>x. p_id (rr_product (sh_offer x))) rows)" "may_store (row_source x)"
  shows "\<exists>r. find (\<lambda>r. own_offer s r \<and> o_id r = p_id (rr_product (sh_offer x)))
      (offers (st_rows (remember_offers env dbo emb stamp now rows tenant st))) = Some r
    \<and> o_price r = sh_price x \<and> o_source r = row_source x"
proof (rule remember_offers_cases [of env dbo emb stamp now rows tenant st])
  assume "remember_offers env dbo emb stamp now rows tenant st = st"
  with assms(1) show ?thesis by simp
next
  fix vs embeddable
  let ?ps = "zip (map remembered_product rows) (zip (map (\<lambda>x. stamp (fetched_at (sh_offer x))) rows) (put_vecs (length rows) embeddable vs))"
  assume st': "remember_offers env dbo emb stamp now rows tenant st = st\<lparr>st_rows := (st_rows st)\<lparr>offers :=
      fst (upsert \<lparr>sc_tenant = tenant, sc_user = []\<rparr> now ?ps (offers (st_rows st)))\<rparr>\<rparr>"
  have own: "own_offer s = own_offer \<lparr>sc_tenant = tenant, sc_user = []\<rparr>" using assms(2) by (simp add: fun_eq_iff own_offer_def)
  have fsts: "map fst ?ps = map remembered_product rows" by simp
  then have d: "distinct (map p_id (map fst ?ps))" using assms(4) unfolding fsts by (simp add: comp_def)
  have "fst ` set ?ps = remembered_product ` set rows" unfolding set_map [symmetric] fsts ..
  then have "remembered_product x \<in> fst ` set ?ps" using assms(3) by simp
  then obtain tm v where "(remembered_product x, tm, v) \<in> set ?ps" by force
  from upsert_find [OF d this, of "\<lparr>sc_tenant = tenant, sc_user = []\<rparr>" now "offers (st_rows st)"] assms(5)
  show ?thesis unfolding st' own by simp
qed

text \<open>C25: From the results page to the watchlist. The rows a search shows are stored for the searcher's tenant only, only
  where the store's licence allows it, at the price that was shown; everything else in the database stays as it
  was. When the store was ready and the write succeeded, a shown storable offer can be watched right away: over a database
  that works the answer is the cap's 409, or a 201 whose price is the shown one; over one that fails it is the internal error.\<close>

theorem shown_offer_can_be_watched:
  assumes "require_account who = Inr p" and "st1 = remember_offers env dbo emb stamp now rows (pr_tenant p) st" and "st1 \<noteq> st"
    and "x \<in> set rows" and "distinct (map (\<lambda>x. p_id (rr_product (sh_offer x))) rows)" and "may_store (row_source x)"
    and "primary_key (watchlist (st_rows st))"
    and "watch_in to_float body = Some (p_id (rr_product (sh_offer x)), target)"
    and "watchlist_add env mo to_float body who st1 = (st2, a)"
  shows "(\<forall>r \<in> set (offers (st_rows st1)). r \<in> set (offers (st_rows st)) \<or> (\<exists>y \<in> set rows. may_store (row_source y)
          \<and> o_tenant r = pr_tenant p \<and> o_id r = p_id (rr_product (sh_offer y)) \<and> o_price r = sh_price y))
    \<and> filter (\<lambda>r. o_tenant r \<noteq> pr_tenant p) (offers (st_rows st1)) = filter (\<lambda>r. o_tenant r \<noteq> pr_tenant p) (offers (st_rows st))
    \<and> watchlist (st_rows st1) = watchlist (st_rows st) \<and> saved (st_rows st1) = saved (st_rows st)
    \<and> (case mo_db mo of
          Db_Works \<Rightarrow> (\<exists>msg. a = Inl (409, msg)) \<or> (\<exists>w. a = Inr (201, Watched w) \<and> wa_offer w = p_id (rr_product (sh_offer x))
            \<and> wa_price w = sh_price x)
        | Db_Fails \<Rightarrow> a = Inl server_error
        | Commit_Lost \<Rightarrow> (\<exists>msg. a = Inl (409, msg)) \<or> a = Inl server_error)"
proof -
  let ?s = "scope_of p" let ?i = "p_id (rr_product (sh_offer x))"
  have t: "sc_tenant ?s = pr_tenant p" by (simp add: scope_of_def)
  have not_own: "(\<lambda>r. \<not> own_offer ?s r) = (\<lambda>r. o_tenant r \<noteq> pr_tenant p)" by (simp add: fun_eq_iff own_offer_def t)
  note kept = remember_offers_rows [OF assms(2) [symmetric]]
  have up: "ds_up (st_db st1)"
    by (rule remember_offers_cases [of env dbo emb stamp now rows "pr_tenant p" st]) (use assms(2,3) kept in simp_all)
  obtain r where r: "find (\<lambda>r. own_offer ?s r \<and> o_id r = ?i) (offers (st_rows st1)) = Some r"
      "o_price r = sh_price x" "o_source r = row_source x"
    using remembered_found [OF _ t assms(4-6)] assms(2,3) by metis
  have pk: "primary_key (watchlist (st_rows st1))" using assms(7) kept by simp
  have m: "positive_price target" using watch_in_ok [OF assms(8)] by blast
  obtain db1 out where add: "add_watch ?s (mo_now mo) ?i target (st_rows st1) = (db1, out)" by (metis prod.exhaust)
  have out: "out = Inl LimitExceeded \<or> (\<exists>w. out = Inr w)"
    using add r(1,3) assms(6) m by (auto simp: add_watch_def Let_def split: if_splits)
  have a: "a = (if mo_db mo = Db_Fails then Inl server_error else
        (case out of Inr w \<Rightarrow> if mo_db mo = Commit_Lost then Inl server_error else Inr (201, Watched w)
         | Inl _ \<Rightarrow> Inl (409, ''watchlist limit reached ('' @ nat_digits WATCH_LIMIT @ '')'')))"
    using assms(9) add up out
    by (auto simp: watchlist_add_def with_account_ok [OF assms(1)] assms(8) with_db_def require_db_def recheck_keeps_up Let_def)
  have "wa_price w = sh_price x \<and> wa_offer w = ?i" if "out = Inr w" for w
    using add_watch_listed(5,6) [OF pk add [unfolded that]] r(1,2) by auto
  then have "case mo_db mo of
          Db_Works \<Rightarrow> (\<exists>msg. a = Inl (409, msg)) \<or> (\<exists>w. a = Inr (201, Watched w) \<and> wa_offer w = ?i \<and> wa_price w = sh_price x)
        | Db_Fails \<Rightarrow> a = Inl server_error
        | Commit_Lost \<Rightarrow> (\<exists>msg. a = Inl (409, msg)) \<or> a = Inl server_error"
    using out unfolding a by (auto split: db_outcome.split)
  moreover have "\<forall>r \<in> set (offers (st_rows st1)). r \<in> set (offers (st_rows st)) \<or> (\<exists>y \<in> set rows. may_store (row_source y)
          \<and> o_tenant r = pr_tenant p \<and> o_id r = p_id (rr_product (sh_offer y)) \<and> o_price r = sh_price y)"
    unfolding assms(2) by (blast dest: remembered_source)
  moreover have "filter (\<lambda>r. o_tenant r \<noteq> pr_tenant p) (offers (st_rows st1)) = filter (\<lambda>r. o_tenant r \<noteq> pr_tenant p) (offers (st_rows st))"
    using remembered_others [OF t] unfolding assms(2) not_own .
  ultimately show ?thesis using kept by blast
qed

definition demo_offer :: result_row where
  "demo_offer = \<lparr>rr_product = mk_product ''x'' ''T'' None ''tv'' 9 ''U'' ''BestBuy'', fetched_at = [], deal_pct = 0\<rparr>"

definition demo_row :: shop_row where "demo_row = unrated id demo_offer [] None"

lemma demo_row_simps: "row_source demo_row = ''BestBuy''" "p_id (rr_product (sh_offer demo_row)) = ''x''" "sh_price demo_row = py_round 2 9"
  by (simp_all add: demo_row_def row_source_def demo_offer_def mk_product_def)

lemma demo_works: "mo_db demo_moment = Db_Works" by (simp add: demo_moment_def)

lemma demo_remembered:
  "remember_offers [] Db_Works (\<lambda>ts. Some (map (\<lambda>_. replicate 384 1) ts)) (\<lambda>_. None) 1 [demo_row] ''t'' demo_site \<noteq> demo_site"
  using demo_may_store
  by (simp add: remember_offers_def demo_site_def verdict_mode_def getenv_def dict_get_def Let_def demo_row_simps upsert_row_def
      on_conflict_def put_vecs_def upsert_fits_def vec_fits_def EMBED_DIM_def)

theorem shown_offer_can_be_watched_witness:
  "\<exists>w. snd (watchlist_add [] demo_moment (\<lambda>_. None) demo_body (Inr demo_principal)
      (remember_offers [] Db_Works (\<lambda>ts. Some (map (\<lambda>_. replicate 384 1) ts)) (\<lambda>_. None) 1 [demo_row] ''t'' demo_site))
     = Inr (201, Watched w) \<and> wa_price w = py_round 2 9 \<or>
   (\<exists>msg. snd (watchlist_add [] demo_moment (\<lambda>_. None) demo_body (Inr demo_principal)
      (remember_offers [] Db_Works (\<lambda>ts. Some (map (\<lambda>_. replicate 384 1) ts)) (\<lambda>_. None) 1 [demo_row] ''t'' demo_site)) = Inl (409, msg))"
proof -
  let ?st1 = "remember_offers [] Db_Works (\<lambda>ts. Some (map (\<lambda>_. replicate 384 1) ts)) (\<lambda>_. None) 1 [demo_row] (pr_tenant demo_principal) demo_site"
  obtain st2 a where add: "watchlist_add [] demo_moment (\<lambda>_. None) demo_body (Inr demo_principal) ?st1 = (st2, a)" by (metis prod.exhaust)
  have t: "pr_tenant demo_principal = ''t''" by (simp add: demo_principal_def)
  have "(\<exists>msg. a = Inl (409, msg)) \<or> (\<exists>w. a = Inr (201, Watched w) \<and> wa_offer w = ''x'' \<and> wa_price w = py_round 2 9)"
    using shown_offer_can_be_watched [where x = demo_row and p = demo_principal and target = None, OF _ refl _ _ _ _ _ _ add]
      demo_remembered demo_may_store demo_offer_id
    by (simp add: t demo_row_simps require_account_def truthy_def demo_principal_def primary_key_def demo_site_def
        watch_in_def demo_body_def fields_only_def demo_works)
  then show ?thesis using add unfolding t by auto
qed

section \<open>The event stream and the merge\<close>

definition streamed :: "stream_event list \<Rightarrow> product list" where
  "streamed evs = concat (List.map_filter (\<lambda>e. case e of Results n ps \<Rightarrow> Some ps | _ \<Rightarrow> None) evs)"

definition failed_sources :: "stream_event list \<Rightarrow> string list" where
  "failed_sources evs = List.map_filter (\<lambda>e. case e of Source_Error n \<Rightarrow> Some n | _ \<Rightarrow> None) evs"

lemma streamed_simps [simp]:
  "streamed [] = []" "streamed (evs @ [Results n ps]) = streamed evs @ ps" "streamed (evs @ [Source_Error n]) = streamed evs"
  "streamed (evs @ [Done q c m att]) = streamed evs"
  "failed_sources [] = []" "failed_sources (evs @ [Results n ps]) = failed_sources evs"
  "failed_sources (evs @ [Source_Error n]) = failed_sources evs @ [n]" "failed_sources (evs @ [Done q c m att]) = failed_sources evs"
  by (simp_all add: streamed_def failed_sources_def List.map_filter_def)

definition allowed_rows :: "(string \<times> src_run) list \<Rightarrow> product list" where
  "allowed_rows srcs = filter (\<lambda>p. may_comingle (source p)) (concat (map (\<lambda>(n, r). case r of Found ps \<Rightarrow> ps | _ \<Rightarrow> []) srcs))"

lemma stream_fold:
  "foldl stream_step ([], []) srcs = (seen, evs) \<Longrightarrow>
   seen = cheapest_by_key (allowed_rows srcs) \<and> streamed evs = allowed_rows srcs
   \<and> failed_sources evs = map fst (filter (\<lambda>(n, r). r = Threw) srcs)"
proof (induction srcs arbitrary: seen evs rule: rev_induct)
  case (snoc x srcs)
  obtain n r where x: "x = (n, r)" by (cases x) auto
  obtain s e where prev: "foldl stream_step ([], []) srcs = (s, e)" by (cases "foldl stream_step ([], []) srcs") auto
  have step: "stream_step (s, e) (n, r) = (seen, evs)"
    using snoc.prems by (simp only: x prev foldl_append foldl_Cons foldl_Nil)
  from snoc.IH [OF prev] step show ?case
    by (cases r) (auto simp: x stream_step_def Let_def allowed_rows_def cheapest_by_key_def split: if_splits)
qed (simp add: cheapest_by_key_def allowed_rows_def)

text \<open>C26: The stream is the merge done bit by bit. The rows sent while the sources answer are exactly the rows that may be
  mixed, in the order they came; each source that failed is named, once; and the closing summary counts the
  rows of the exact-key merge of what was sent (one, cheapest, per key), with the median of those that may be
  rated, or with none in check mode, and the attributions of its sources.\<close>

theorem stream_is_the_merge:
  "\<exists>evs. stream_search env q srcs = evs @ [Done q (length (ingest [streamed evs]))
       (if verdict_mode env = Check then None
        else Some (case py_median (map price (filter (\<lambda>p. may_verdict (source p)) (ingest [streamed evs]))) of
          None \<Rightarrow> 0 | Some m \<Rightarrow> py_round 2 m))
       (attribution_for (map source (ingest [streamed evs])))]
     \<and> streamed evs = allowed_rows srcs \<and> failed_sources evs = map fst (filter (\<lambda>(n, r). r = Threw) srcs)"
proof -
  obtain seen evs where f: "foldl stream_step ([], []) srcs = (seen, evs)" by (cases "foldl stream_step ([], []) srcs") auto
  note s = stream_fold [OF f]
  then have "dict_values seen = ingest [streamed evs]" by (simp add: ingest_def cheapest_by_key_def)
  with s f show ?thesis by (intro exI [of _ evs]) (simp add: stream_search_def Let_def)
qed

section \<open>Reading the stream back\<close>

text \<open>The reading side, as the EventSource protocol defines it for the two fields the server uses: an \<open>event\<close> line
  names the event, \<open>data\<close> lines add to it, an empty line delivers it.\<close>

fun sse_read :: "string option \<Rightarrow> string list \<Rightarrow> string list \<Rightarrow> (string option \<times> string) list" where
  "sse_read ev d [] = []"
| "sse_read ev d (l # ls) =
     (if l = [] then (if d = [] then [] else [(ev, py_join [CHR 10] d)]) @ sse_read None [] ls
      else if prefix ''event: '' l then sse_read (Some (drop 7 l)) d ls
      else if prefix ''data: '' l then sse_read ev (d @ [drop 6 l]) ls
      else sse_read ev d ls)"

definition one_line :: "string \<Rightarrow> bool" where "one_line s \<longleftrightarrow> CHR 10 \<notin> set s"

lemma split_on_line: "one_line a \<Longrightarrow> py_split_on (CHR 10) (a @ CHR 10 # b) = a # py_split_on (CHR 10) b"
  by (induction a) (auto simp: one_line_def split: list.split)

lemma sse_read_frame:
  assumes "one_line payload" and "case ev of None \<Rightarrow> True | Some e \<Rightarrow> e \<noteq> [] \<and> one_line e"
  shows "sse_read None [] (py_split_on (CHR 10) (sse ev payload @ rest)) = (ev, payload) # sse_read None [] (py_split_on (CHR 10) rest)"
proof -
  have d: "one_line (''data: '' @ payload)" using assms(1) by (simp add: one_line_def)
  have blank: "py_split_on (CHR 10) (CHR 10 # rest) = [] # py_split_on (CHR 10) rest" by simp
  show ?thesis
  proof (cases ev)
    case None
    have "sse ev payload @ rest = (''data: '' @ payload) @ CHR 10 # CHR 10 # rest" by (simp add: sse_def None truthy_def)
    then have "py_split_on (CHR 10) (sse ev payload @ rest) = (''data: '' @ payload) # [] # py_split_on (CHR 10) rest"
      by (simp only: split_on_line [OF d] blank)
    then show ?thesis by (simp add: None)
  next
    case (Some e)
    with assms(2) have e: "e \<noteq> []" "one_line (''event: '' @ e)" by (auto simp: one_line_def)
    have "sse ev payload @ rest = (''event: '' @ e) @ CHR 10 # ((''data: '' @ payload) @ CHR 10 # CHR 10 # rest)"
      by (simp add: sse_def Some e(1) truthy_def)
    then have "py_split_on (CHR 10) (sse ev payload @ rest) =
        (''event: '' @ e) # (''data: '' @ payload) # [] # py_split_on (CHR 10) rest"
      by (simp only: split_on_line [OF d] split_on_line [OF e(2)] blank)
    then show ?thesis by (simp add: Some)
  qed
qed

lemma sse_roundtrip:
  assumes "\<forall>(ev, payload) \<in> set frames. one_line payload \<and> (case ev of None \<Rightarrow> True | Some e \<Rightarrow> e \<noteq> [] \<and> one_line e)"
  shows "sse_read None [] (py_split_on (CHR 10) (concat (map (\<lambda>(ev, payload). sse ev payload) frames))) = frames"
  using assms
proof (induction frames)
  case (Cons f fs)
  then show ?case by (cases f) (auto simp: sse_read_frame)
qed simp

section \<open>The other routes\<close>

lemma review_route_orchestrate:
  "rw_final (review_route client ret q False) = or_answer (orchestrate client ret q)
   \<and> rw_final_review (review_route client ret q False) = or_review (orchestrate client ret q)
   \<and> rw_revised (review_route client ret q False) = or_revised (orchestrate client ret q)"
  by (simp add: review_route_def orchestrate_def Let_def)

lemma review_route_revised:
  "rw_revised (review_route client ret q trap) \<longleftrightarrow> \<not> rv_approved (rw_draft_review (review_route client ret q trap))"
  "\<not> rw_revised (review_route client ret q trap) \<Longrightarrow> rw_final (review_route client ret q trap) = rw_draft (review_route client ret q trap)"
  by (auto simp: review_route_def Let_def)

lemma lab_asset_ok: "lab_asset read n = Inr r \<Longrightarrow> n \<in> {''lab.css'', ''lab.js'', ''lessons.json''} \<and> snd r = read n"
  by (auto simp: lab_asset_def LAB_ASSETS_def dict_get_def split: if_splits)

lemma live_data_off: "enabled_sources env None = Inl e \<Longrightarrow> \<not> live_data env"
  by (simp add: live_data_def)

lemma catalog_entry_id: "catalog_entry catalog i = Some p \<Longrightarrow> p \<in> set catalog \<and> p_id p = i"
  by (auto simp: catalog_entry_def find_Some_iff) (metis nth_mem set_rev length_rev)

lemma catalog_entry_none: "catalog_entry catalog i = None \<longleftrightarrow> i \<notin> p_id ` set catalog"
  by (auto simp: catalog_entry_def find_None_iff)

lemma deal_route_unknown: "deal_route catalog mdls medians i = Inl e \<longleftrightarrow> e = (404, ''unknown product'') \<and> i \<notin> p_id ` set catalog"
  by (auto simp: deal_route_def Let_def catalog_entry_none [symmetric] split: option.split)

lemma place_of_ends: "0 < n \<Longrightarrow> place_of 0 n = Start" "1 < n \<Longrightarrow> place_of (n - 1) n = Last"
  "0 < i \<Longrightarrow> i < n - 1 \<Longrightarrow> place_of i n = Middle"
  by (auto simp: place_of_def)

lemma context_route_counts:
  "cx_kept (context_route ct ret q b) + cx_evicted (context_route ct ret q b) = cx_retrieved (context_route ct ret q b)"
proof -
  have "length (pk_included (foldl (pack_step ct) p items)) + length (pk_dropped (foldl (pack_step ct) p items)) =
      length (pk_included p) + length (pk_dropped p) + length items" for p items
    by (induction items arbitrary: p) (auto simp: pack_step_def Let_def)
  then show ?thesis by (simp add: context_route_def pack_deals_def Let_def)
qed

end
