(* ===== verification/Worker.thy ===== *)
theory Worker
  imports Search
begin

text \<open>
  \<open>dealfinder/worker.py\<close>: the periodic suggestions. A run searches every saved search, keeps the results whose
  deal score clears the threshold, and notifies those the user was not told of yet; the memory of what was shown
  is a dictionary from user and query to the ids. \<open>deals q k\<close> is what \<open>find_deals\<close> finds in the run's catalog.
\<close>

section \<open>The job\<close>

definition DEAL_SCORE_THRESHOLD :: pyfloat where "DEAL_SCORE_THRESHOLD = 0.30"

record wanted =
  \<comment> \<open>\<open>SavedSearch\<close>\<close>
  wn_user :: string
  wn_query :: string
  wn_k :: int

type_synonym seen_ids = "(string \<times> string, string list) dict"

record notification =
  no_user :: string
  no_query :: string
  no_item :: string
  no_title :: string
  no_price :: pyfloat
  no_score :: pyfloat

definition note_dict :: "notification \<Rightarrow> notification" where
  \<comment> \<open>\<open>as_dict\<close>, the payload that is sent\<close>
  "note_dict n = n\<lparr>no_score := py_round 4 (no_score n)\<rparr>"

definition state_key :: "wanted \<Rightarrow> string \<times> string" where "state_key s = (wn_user s, wn_query s)"

definition already_seen :: "seen_ids \<Rightarrow> wanted \<Rightarrow> string list" where
  "already_seen st s = dict_get_or st (state_key s) []"

definition mark_seen :: "wanted \<Rightarrow> string list \<Rightarrow> seen_ids \<Rightarrow> seen_ids" where
  "mark_seen s ids st =
     (let old = already_seen st s in dict_set (state_key s) (old @ filter (\<lambda>i. i \<notin> set old) ids) st)"

definition find_deals ::
  "(string list \<Rightarrow> pyfloat list list) \<Rightarrow> fitter \<Rightarrow> product list \<Rightarrow> pyfloat list list \<Rightarrow> (string, pyfloat) dict \<Rightarrow>
   string \<Rightarrow> int \<Rightarrow> (product \<times> pyfloat) list" where
  "find_deals emb fit ps embeddings medians q k =
     map snd (filter (\<lambda>(i, p, score). score \<ge> DEAL_SCORE_THRESHOLD) (search_catalog emb fit q ps embeddings medians k 0.5))"

definition note_of :: "wanted \<Rightarrow> product \<times> pyfloat \<Rightarrow> notification" where
  "note_of s ps = \<lparr>no_user = wn_user s, no_query = wn_query s, no_item = p_id (fst ps), no_title = title (fst ps),
     no_price = price (fst ps), no_score = snd ps\<rparr>"

definition suggest_one ::
  "(string \<Rightarrow> int \<Rightarrow> (product \<times> pyfloat) list) \<Rightarrow> notification list \<times> seen_ids \<Rightarrow> wanted \<Rightarrow> notification list \<times> seen_ids" where
  \<comment> \<open>one turn of the loop; \<open>seen\<close> is read before the turn adds to it\<close>
  "suggest_one deals ns s =
     (let (sent, st) = ns; seen = already_seen st s;
          fresh = filter (\<lambda>d. p_id (fst d) \<notin> set seen) (deals (wn_query s) (wn_k s))
      in (sent @ map (note_of s) fresh,
          if fresh = [] then st else mark_seen s (py_dedupe (map (p_id \<circ> fst) fresh)) st))"

definition run_suggestions ::
  "(string \<Rightarrow> int \<Rightarrow> (product \<times> pyfloat) list) \<Rightarrow> wanted list \<Rightarrow> seen_ids \<Rightarrow> notification list \<times> seen_ids" where
  "run_suggestions deals saved st = foldl (suggest_one deals) ([], st) saved"

fun run_worker ::
  "((string \<Rightarrow> int \<Rightarrow> (product \<times> pyfloat) list) \<times> wanted list) list \<Rightarrow> seen_ids \<Rightarrow> notification list \<times> seen_ids" where
  \<comment> \<open>run after run, each over its own catalog and saved searches, the state handed on\<close>
  "run_worker [] st = ([], st)"
| "run_worker ((deals, saved) # rs) st =
     (let (n1, st1) = run_suggestions deals saved st; (n2, st2) = run_worker rs st1 in (n1 @ n2, st2))"

section \<open>What has been told\<close>

definition told :: "notification \<Rightarrow> (string \<times> string) \<times> string" where
  "told n = ((no_user n, no_query n), no_item n)"

definition knows_of :: "seen_ids \<Rightarrow> ((string \<times> string) \<times> string) set" where
  "knows_of st = {(k, i). i \<in> set (dict_get_or st k [])}"

lemma told_note_of [simp]: "told (note_of s d) = (state_key s, p_id (fst d))"
  by (simp add: told_def note_of_def state_key_def)

lemma knows_of_seen: "(state_key s, i) \<in> knows_of st \<longleftrightarrow> i \<in> set (already_seen st s)"
  by (simp add: knows_of_def already_seen_def)

lemma knows_of_mark: "knows_of (mark_seen s ids st) = knows_of st \<union> (\<lambda>i. (state_key s, i)) ` set ids"
  by (auto simp: knows_of_def mark_seen_def already_seen_def Let_def dict_get_or_def split: if_splits option.splits)

definition distinct_deals :: "(string \<Rightarrow> int \<Rightarrow> (product \<times> pyfloat) list) \<Rightarrow> bool" where
  "distinct_deals deals \<longleftrightarrow> (\<forall>q k. distinct (map (p_id \<circ> fst) (deals q k)))"

lemma suggest_one_step:
  assumes "suggest_one deals (sent, st) s = (sent', st')"
  shows "\<exists>new. sent' = sent @ new \<and> knows_of st' = knows_of st \<union> told ` set new \<and> told ` set new \<inter> knows_of st = {}
    \<and> (distinct_deals deals \<longrightarrow> distinct (map told new))
    \<and> (\<forall>d \<in> set (deals (wn_query s) (wn_k s)). (state_key s, p_id (fst d)) \<in> knows_of st')
    \<and> (\<forall>n \<in> set new. \<exists>d \<in> set (deals (wn_query s) (wn_k s)). n = note_of s d)"
proof -
  define fresh where "fresh = filter (\<lambda>d. p_id (fst d) \<notin> set (already_seen st s)) (deals (wn_query s) (wn_k s))"
  have n: "sent' = sent @ map (note_of s) fresh"
    and st: "st' = (if fresh = [] then st else mark_seen s (py_dedupe (map (p_id \<circ> fst) fresh)) st)"
    using assms by (auto simp: suggest_one_def Let_def fresh_def)
  have k: "knows_of st' = knows_of st \<union> told ` set (map (note_of s) fresh)"
    by (cases "fresh = []") (auto simp: st knows_of_mark image_image)
  moreover have "told ` set (map (note_of s) fresh) \<inter> knows_of st = {}"
    by (auto simp: fresh_def knows_of_seen)
  moreover have "distinct (map told (map (note_of s) fresh))" if "distinct_deals deals"
  proof -
    have "distinct (map (p_id \<circ> fst) (deals (wn_query s) (wn_k s)))" using that by (simp add: distinct_deals_def)
    then have "distinct (map (p_id \<circ> fst) fresh)" unfolding fresh_def by (rule distinct_map_filter)
    moreover have "map told (map (note_of s) fresh) = map (\<lambda>i. (state_key s, i)) (map (p_id \<circ> fst) fresh)" by simp
    ultimately show ?thesis by (simp only: distinct_map) (simp add: inj_on_def)
  qed
  moreover have "\<forall>d \<in> set (deals (wn_query s) (wn_k s)). (state_key s, p_id (fst d)) \<in> knows_of st'"
    unfolding k by (auto simp: fresh_def knows_of_seen image_image)
  ultimately show ?thesis unfolding n by (intro exI [of _ "map (note_of s) fresh"]) (auto simp: fresh_def)
qed

text \<open>The same step for a run and for a sequence of runs: what is notified is new and remembered.\<close>

definition steps_to :: "notification list \<Rightarrow> seen_ids \<Rightarrow> seen_ids \<Rightarrow> bool" where
  "steps_to new st st' \<longleftrightarrow> knows_of st' = knows_of st \<union> told ` set new \<and> told ` set new \<inter> knows_of st = {}
     \<and> distinct (map told new)"

lemma steps_to_append [trans]:
  "steps_to n1 st st1 \<Longrightarrow> steps_to n2 st1 st2 \<Longrightarrow> steps_to (n1 @ n2) st st2"
  unfolding steps_to_def set_append map_append distinct_append set_map image_Un by blast

lemma run_suggestions_fold:
  assumes "distinct_deals deals" and "foldl (suggest_one deals) (sent, st) saved = (sent', st')"
  shows "\<exists>new. sent' = sent @ new \<and> steps_to new st st'
    \<and> (\<forall>s \<in> set saved. \<forall>d \<in> set (deals (wn_query s) (wn_k s)). (state_key s, p_id (fst d)) \<in> knows_of st')
    \<and> (\<forall>n \<in> set new. \<exists>s \<in> set saved. \<exists>d \<in> set (deals (wn_query s) (wn_k s)). n = note_of s d)"
  using assms(2)
proof (induction saved arbitrary: sent st)
  case Nil
  then show ?case by (simp add: steps_to_def)
next
  case (Cons s saved)
  obtain sent1 st1 where one: "suggest_one deals (sent, st) s = (sent1, st1)" by (cases "suggest_one deals (sent, st) s") auto
  from suggest_one_step [OF one] assms(1) obtain n1 where n1: "sent1 = sent @ n1" "steps_to n1 st st1"
    "\<forall>d \<in> set (deals (wn_query s) (wn_k s)). (state_key s, p_id (fst d)) \<in> knows_of st1"
    "\<forall>n \<in> set n1. \<exists>d \<in> set (deals (wn_query s) (wn_k s)). n = note_of s d" by (auto simp: steps_to_def)
  from Cons.prems one have "foldl (suggest_one deals) (sent1, st1) saved = (sent', st')" by simp
  from Cons.IH [OF this] obtain n2 where n2: "sent' = sent1 @ n2" "steps_to n2 st1 st'"
    "\<forall>s \<in> set saved. \<forall>d \<in> set (deals (wn_query s) (wn_k s)). (state_key s, p_id (fst d)) \<in> knows_of st'"
    "\<forall>n \<in> set n2. \<exists>s \<in> set saved. \<exists>d \<in> set (deals (wn_query s) (wn_k s)). n = note_of s d" by blast
  have grow: "knows_of st1 \<subseteq> knows_of st'" using n2(2) by (auto simp: steps_to_def)
  show ?case
  proof (intro exI [of _ "n1 @ n2"] conjI)
    show "sent' = sent @ n1 @ n2" by (simp add: n1(1) n2(1))
    show "steps_to (n1 @ n2) st st'" by (rule steps_to_append [OF n1(2) n2(2)])
    show "\<forall>s \<in> set (s # saved). \<forall>d \<in> set (deals (wn_query s) (wn_k s)). (state_key s, p_id (fst d)) \<in> knows_of st'"
      using n1(3) n2(3) grow by auto
    show "\<forall>n \<in> set (n1 @ n2). \<exists>s \<in> set (s # saved). \<exists>d \<in> set (deals (wn_query s) (wn_k s)). n = note_of s d"
      using n1(4) n2(4) by auto
  qed
qed

lemma run_worker_steps:
  "\<forall>r \<in> set rs. distinct_deals (fst r) \<Longrightarrow> run_worker rs st = (sent, st') \<Longrightarrow> steps_to sent st st'"
proof (induction rs arbitrary: st sent)
  case (Cons r rs)
  obtain deals saved where r: "r = (deals, saved)" by (cases r) auto
  obtain n1 st1 where one: "run_suggestions deals saved st = (n1, st1)" by (cases "run_suggestions deals saved st") auto
  obtain n2 where rest: "run_worker rs st1 = (n2, st')" "sent = n1 @ n2"
    using Cons.prems(2) by (auto simp: r one Let_def split: prod.splits)
  have "distinct_deals deals" using Cons.prems(1) by (simp add: r)
  from run_suggestions_fold [OF this one [unfolded run_suggestions_def]] have "steps_to n1 st st1" by auto
  moreover have "steps_to n2 st1 st'" using Cons.IH [OF _ rest(1)] Cons.prems(1) by simp
  ultimately show ?case unfolding rest(2) by (rule steps_to_append)
qed (simp add: steps_to_def)

text \<open>A run repeated on what it left behind is silent.\<close>

lemma rerun_silent:
  assumes "distinct_deals deals" and "run_suggestions deals saved st = (new, st')"
  shows "fst (run_suggestions deals saved st') = []"
proof -
  from run_suggestions_fold [OF assms(1) assms(2) [unfolded run_suggestions_def]]
  have all: "\<forall>s \<in> set saved. \<forall>d \<in> set (deals (wn_query s) (wn_k s)). (state_key s, p_id (fst d)) \<in> knows_of st'" by auto
  obtain n2 st2 where again: "run_suggestions deals saved st' = (n2, st2)" by (cases "run_suggestions deals saved st'") auto
  from run_suggestions_fold [OF assms(1) again [unfolded run_suggestions_def]]
  have "steps_to n2 st' st2" "\<forall>n \<in> set n2. \<exists>s \<in> set saved. \<exists>d \<in> set (deals (wn_query s) (wn_k s)). n = note_of s d" by auto
  then have "told n \<in> knows_of st' \<and> told n \<notin> knows_of st'" if "n \<in> set n2" for n
    using that all by (fastforce simp: steps_to_def)
  then have "n2 = []" by (cases n2) auto
  with again show ?thesis by simp
qed

text \<open>The worker's own search finds no item twice when the catalog's ids are distinct.\<close>

lemma set_py_slice_from_rrf:
  "set (rrf_fuse rankings c (Some n)) \<subseteq> \<Union> (set ` set rankings) \<and> distinct (rrf_fuse rankings c (Some n))"
  using rrf_fuse_all [of rankings c] set_py_slice_to [of n "rrf_fuse rankings c None"]
  by (auto simp: rrf_fuse_cut py_slice_to_def)

lemma search_catalog_shape:
  assumes "length embeddings = length ps"
  shows "\<exists>js. distinct js \<and> set js \<subseteq> {..<length ps}
    \<and> map (fst \<circ> snd) (search_catalog emb fit q ps embeddings medians k alpha) = map (\<lambda>i. ps ! i) js"
proof -
  let ?n = "length ps"
  let ?rankings = "[map fst (cosine_rank (hd (emb [q])) embeddings (int ?n)), map fst (bm25_search (new_bm25 (map product_text ps)) q (int ?n))]"
  let ?hybrid = "rrf_fuse ?rankings 60 (Some (max (k * 3) k))"
  let ?js = "py_slice_to k (value_rerank ?hybrid (two_signal_deal_scores fit ps medians) alpha)"
  have "\<Union> (set ` set ?rankings) \<subseteq> {..<?n}"
    using cosine_rank_all [of "hd (emb [q])" embeddings] bm25_in_range [of "new_bm25 (map product_text ps)" q "int ?n"] assms
    by (auto simp: new_bm25_def Let_def)
  with set_py_slice_from_rrf [of ?rankings 60 "max (k * 3) k"]
  have h: "set ?hybrid \<subseteq> {..<?n}" "distinct ?hybrid" by blast+
  have "distinct ?js" "set ?js \<subseteq> {..<?n}"
    using h set_py_slice_to [of k "value_rerank ?hybrid (two_signal_deal_scores fit ps medians) alpha"]
    by (auto simp: value_rerank_def py_slice_to_def)
  then show ?thesis by (intro exI [of _ ?js]) (simp add: search_catalog_def Let_def comp_def)
qed

lemma find_deals_distinct:
  assumes "length embeddings = length ps" and "distinct (map p_id ps)"
  shows "distinct_deals (find_deals emb fit ps embeddings medians)"
  unfolding distinct_deals_def
proof (intro allI)
  fix q k
  let ?hits = "search_catalog emb fit q ps embeddings medians k 0.5"
  obtain js where js: "distinct js" "set js \<subseteq> {..<length ps}" "map (fst \<circ> snd) ?hits = map (\<lambda>i. ps ! i) js"
    using search_catalog_shape [OF assms(1)] by blast
  have "map (p_id \<circ> (fst \<circ> snd)) ?hits = map (\<lambda>i. p_id (ps ! i)) js"
    using arg_cong [OF js(3), of "map p_id"] by (simp add: comp_def)
  moreover have "distinct (map (\<lambda>i. p_id (ps ! i)) js)"
    using distinct_map_nth [OF assms(2) js(1,2)] by (simp add: comp_def)
  ultimately have "distinct (map (p_id \<circ> (fst \<circ> snd)) ?hits)" by simp
  then have "distinct (map (p_id \<circ> (fst \<circ> snd)) (filter (\<lambda>(i, p, score). score \<ge> DEAL_SCORE_THRESHOLD) ?hits))"
    by (rule distinct_map_filter)
  then show "distinct (map (p_id \<circ> fst) (find_deals emb fit ps embeddings medians q k))"
    by (simp add: find_deals_def comp_def)
qed

text \<open>C11: Every deal once. Over any sequence of runs, each over its own catalog and saved searches, no user is notified twice
  of the same item for the same search; each notification is of a deal its run found for a saved search of that
  user; and no deal is lost: after a run, each deal it found for a saved search has been notified then or before.
  Running again over the same catalog notifies nothing.\<close>

theorem suggestions_once:
  assumes "\<forall>r \<in> set rs. distinct_deals (fst r)" and "run_worker rs [] = (sent, st)"
    and "distinct_deals deals" and "run_suggestions deals saved st = (new, st')"
  shows "distinct (map told (sent @ new))
    \<and> (\<forall>n \<in> set new. \<exists>s \<in> set saved. \<exists>d \<in> set (deals (wn_query s) (wn_k s)). n = note_of s d)
    \<and> (\<forall>s \<in> set saved. \<forall>d \<in> set (deals (wn_query s) (wn_k s)). (state_key s, p_id (fst d)) \<in> told ` set (sent @ new))
    \<and> fst (run_suggestions deals saved st') = []"
proof -
  have a: "steps_to sent [] st" by (rule run_worker_steps [OF assms(1,2)])
  from run_suggestions_fold [OF assms(3) assms(4) [unfolded run_suggestions_def]]
  have b: "steps_to new st st'"
    and all: "\<forall>s \<in> set saved. \<forall>d \<in> set (deals (wn_query s) (wn_k s)). (state_key s, p_id (fst d)) \<in> knows_of st'"
    and from_run: "\<forall>n \<in> set new. \<exists>s \<in> set saved. \<exists>d \<in> set (deals (wn_query s) (wn_k s)). n = note_of s d" by auto
  have ab: "steps_to (sent @ new) [] st'" by (rule steps_to_append [OF a b])
  moreover have "knows_of [] = {}" by (simp add: knows_of_def dict_get_or_def dict_get_def)
  ultimately have k: "knows_of st' = told ` set (sent @ new)" "distinct (map told (sent @ new))" by (auto simp: steps_to_def)
  have "fst (run_suggestions deals saved st') = []" by (rule rerun_silent [OF assms(3,4)])
  with k all from_run show ?thesis by simp
qed

definition demo_deals :: "string \<Rightarrow> int \<Rightarrow> (product \<times> pyfloat) list" where
  "demo_deals q k = [(mk_product ''a'' ''tv'' None ''x'' 9 ''u'' ''BestBuy'', 0.5)]"

theorem suggestions_once_witness:
  "fst (run_suggestions demo_deals [\<lparr>wn_user = ''u'', wn_query = ''tv'', wn_k = 5\<rparr>]
     (snd (run_suggestions demo_deals [\<lparr>wn_user = ''u'', wn_query = ''tv'', wn_k = 5\<rparr>] []))) = []"
proof -
  have d: "distinct_deals demo_deals" by (simp add: distinct_deals_def demo_deals_def)
  obtain new st' where run: "run_suggestions demo_deals [\<lparr>wn_user = ''u'', wn_query = ''tv'', wn_k = 5\<rparr>] [] = (new, st')"
    by (metis prod.exhaust)
  from suggestions_once [of "[]" "[]" "[]", OF _ _ d run] run show ?thesis by simp
qed

end
