(* ===== verification/Snapshot.thy ===== *)
theory Snapshot
  imports Live_Sources Features
begin

text \<open>
  The two offline ways into the product schema: \<open>dealfinder/snapshot.py\<close> (the committed corpus) and
  \<open>dealfinder/sources.py\<close> (the connectors of the first parts). A raw row is the dictionary of a JSON
  object; what Python raises on it is a value of \<open>load_error\<close>. A JSON value in a text column that is no string,
  which Python would store as it is, is the error \<open>Not_Text\<close>: such rows are outside the model.
\<close>

type_synonym row = "(string, json) dict"

datatype load_error =
    Key_Error string
  | Bad_Number string
  | Not_Text string
  | Http_Error nat
  | No_Connection
  | Bad_Shape
  | No_Snapshot

section \<open>Reading columns\<close>

definition andthen :: "'e + 'a \<Rightarrow> ('a \<Rightarrow> 'e + 'b) \<Rightarrow> 'e + 'b" where
  "andthen r f = (case r of Inl e \<Rightarrow> Inl e | Inr x \<Rightarrow> f x)"

fun collect :: "('a \<Rightarrow> 'e + 'b) \<Rightarrow> 'a list \<Rightarrow> 'e + 'b list" where
  \<comment> \<open>a loop that stops at the first error\<close>
  "collect f [] = Inr []"
| "collect f (x # xs) = andthen (f x) (\<lambda>y. andthen (collect f xs) (\<lambda>ys. Inr (y # ys)))"

definition col_at :: "string \<Rightarrow> row \<Rightarrow> load_error + json" where
  "col_at k r = (case dict_get r k of None \<Rightarrow> Inl (Key_Error k) | Some v \<Rightarrow> Inr v)"

definition text_of :: "string \<Rightarrow> json \<Rightarrow> load_error + string" where
  "text_of k v = (case v of JStr s \<Rightarrow> Inr s | _ \<Rightarrow> Inl (Not_Text k))"

definition text_col :: "string \<Rightarrow> row \<Rightarrow> load_error + string" where
  "text_col k r = andthen (col_at k r) (text_of k)"

definition opt_text :: "string \<Rightarrow> row \<Rightarrow> load_error + string option" where
  \<comment> \<open>\<open>r.get(k)\<close>\<close>
  "opt_text k r = (case dict_get r k of None \<Rightarrow> Inr None | Some JNull \<Rightarrow> Inr None
     | Some v \<Rightarrow> andthen (text_of k v) (\<lambda>s. Inr (Some s)))"

definition text_or :: "string \<Rightarrow> string \<Rightarrow> row \<Rightarrow> load_error + string" where
  \<comment> \<open>\<open>r.get(k, v)\<close>: the default only where the key is absent\<close>
  "text_or k v r = (case dict_get r k of None \<Rightarrow> Inr v | Some w \<Rightarrow> text_of k w)"

fun to_float :: "json \<Rightarrow> pyfloat option" where
  \<comment> \<open>\<open>float(v)\<close>\<close>
  "to_float (JInt i) = Some (of_int i)"
| "to_float (JNum x) = Some x"
| "to_float (JBool b) = Some (if b then 1 else 0)"
| "to_float (JStr s) = parse_float (py_strip s)"
| "to_float _ = None"

definition num_col :: "string \<Rightarrow> row \<Rightarrow> load_error + pyfloat" where
  "num_col k r = andthen (col_at k r) (\<lambda>v. case to_float v of None \<Rightarrow> Inl (Bad_Number k) | Some x \<Rightarrow> Inr x)"

lemma andthen_Inr [simp]: "andthen (Inr x) f = f x"
  and andthen_Inl [simp]: "andthen (Inl e) f = Inl e"
  by (simp_all add: andthen_def)

lemma andthen_eq_Inr: "andthen r f = Inr y \<longleftrightarrow> (\<exists>x. r = Inr x \<and> f x = Inr y)"
  by (cases r) auto

lemma andthenE: "andthen r f = Inr y \<Longrightarrow> (\<And>x. r = Inr x \<Longrightarrow> f x = Inr y \<Longrightarrow> P) \<Longrightarrow> P"
  by (cases r) auto

lemma andthen_eq_Inl: "andthen r f = Inl e \<longleftrightarrow> r = Inl e \<or> (\<exists>x. r = Inr x \<and> f x = Inl e)"
  by (cases r) auto

lemma collect_Inr: "collect f xs = Inr ys \<longleftrightarrow> list_all2 (\<lambda>x y. f x = Inr y) xs ys"
  by (induction xs arbitrary: ys) (auto simp: andthen_eq_Inr list_all2_Cons1)

lemma collect_cong: "(\<And>x. x \<in> set xs \<Longrightarrow> f x = g x) \<Longrightarrow> collect f xs = collect g xs"
  by (induction xs) simp_all

lemma col_at_Inl: "col_at k r = Inl e \<longleftrightarrow> e = Key_Error k \<and> \<not> dict_has r k"
  by (auto simp: col_at_def split: option.splits)

section \<open>The snapshot file\<close>

definition newest_snapshot :: "string option \<Rightarrow> string list \<Rightarrow> load_error + string" where
  \<comment> \<open>\<open>_newest_snapshot\<close>, over the matches of the glob in lexical order; the override replaces the function when set\<close>
  "newest_snapshot override matches =
     (case override of
        Some p \<Rightarrow> if p \<noteq> [] then Inr p else if matches = [] then Inl No_Snapshot else Inr (last matches)
      | None \<Rightarrow> if matches = [] then Inl No_Snapshot else Inr (last matches))"

fun items_of :: "json \<Rightarrow> load_error + json list" where
  \<comment> \<open>the file is an object with \<open>items\<close>, or a bare list\<close>
  "items_of (JObj d) = andthen (col_at ''items'' d) (\<lambda>v. Inr (j_list v))"
| "items_of v = Inr (j_list v)"

fun fields_of :: "json \<Rightarrow> row" where
  "fields_of (JObj d) = d"
| "fields_of _ = []"

definition load_snapshot :: "json \<Rightarrow> load_error + row list" where
  "load_snapshot data =
     andthen (items_of data) (\<lambda>items. Inr (map (\<lambda>r. filter (\<lambda>(k, v). k \<noteq> ''image_url'') (fields_of r)) items))"

fun load_snapshot_meta :: "json \<Rightarrow> row" where
  "load_snapshot_meta (JObj d) = fields_of (j_get ''meta'' (JObj d))"
| "load_snapshot_meta _ = []"

definition snapshot_source :: "row \<Rightarrow> load_error + string" where
  "snapshot_source r = (case dict_get r ''source'' of
     None \<Rightarrow> text_or ''marketplace'' ''snapshot'' r | Some v \<Rightarrow> text_of ''source'' v)"

definition to_product :: "row \<Rightarrow> load_error + product" where
  "to_product r =
     andthen (text_col ''id'' r) (\<lambda>i.
     andthen (text_col ''title'' r) (\<lambda>t.
     andthen (opt_text ''brand'' r) (\<lambda>b.
     andthen (text_col ''category'' r) (\<lambda>c.
     andthen (num_col ''price'' r) (\<lambda>p.
     andthen (text_or ''currency'' ''USD'' r) (\<lambda>cur.
     andthen (text_col ''url'' r) (\<lambda>u.
     andthen (snapshot_source r) (\<lambda>s.
     andthen (opt_text ''marketplace'' r) (\<lambda>m.
       Inr ((mk_product i t b c p u s)\<lparr>currency := cur, marketplace := m, condition := parse_condition t\<rparr>))))))))))"

definition to_products :: "row list \<Rightarrow> load_error + product list" where
  "to_products rows = collect to_product rows"

definition load_products :: "json \<Rightarrow> load_error + product list" where
  "load_products data = andthen (load_snapshot data) to_products"

lemma to_product_fields:
  "to_product r = Inr p \<Longrightarrow> text_col ''id'' r = Inr (p_id p) \<and> text_col ''title'' r = Inr (title p)
     \<and> num_col ''price'' r = Inr (price p) \<and> text_col ''category'' r = Inr (category p)
     \<and> condition p = parse_condition (title p) \<and> image_url p = None"
  unfolding to_product_def by (elim andthenE) (clarsimp simp: mk_product_def)

lemma load_products_rows:
  assumes "load_products data = Inr ps"
  obtains rows where "load_snapshot data = Inr rows" "list_all2 (\<lambda>r p. to_product r = Inr p) rows ps"
  using assms by (auto simp: load_products_def andthen_eq_Inr to_products_def collect_Inr)

lemma no_image_reaches_a_page:
  assumes "load_products data = Inr ps" and "p \<in> set ps"
  shows "image_url p = None"
proof -
  obtain rows where "list_all2 (\<lambda>r p. to_product r = Inr p) rows ps" using load_products_rows [OF assms(1)] by blast
  with assms(2) obtain r where "to_product r = Inr p" by (auto simp: list_all2_conv_all_nth in_set_conv_nth)
  then show ?thesis using to_product_fields by blast
qed

lemma load_snapshot_drops_images:
  "load_snapshot data = Inr rows \<Longrightarrow> r \<in> set rows \<Longrightarrow> dict_get r ''image_url'' = None"
  by (auto simp: load_snapshot_def andthen_eq_Inr dict_get_def map_of_eq_None_iff)

section \<open>The connectors of the first parts\<close>

fun number :: "json \<Rightarrow> pyfloat option" where
  \<comment> \<open>a value used as a number without a conversion\<close>
  "number (JInt i) = Some (of_int i)"
| "number (JNum x) = Some x"
| "number _ = None"

definition raw_num :: "string \<Rightarrow> row \<Rightarrow> load_error + pyfloat" where
  "raw_num k r = andthen (col_at k r) (\<lambda>v. case number v of None \<Rightarrow> Inl (Bad_Number k) | Some x \<Rightarrow> Inr x)"

definition price_at :: "json \<Rightarrow> load_error + price_point" where
  \<comment> \<open>a pair of the history, its day already the ordinal of the date\<close>
  "price_at v = (case v of
     JArr [d, p] \<Rightarrow> (case (d, number p) of
        (JInt n, Some x) \<Rightarrow> Inr \<lparr>pp_day = n, pp_price = x\<rparr> | _ \<Rightarrow> Inl (Bad_Number ''history''))
   | _ \<Rightarrow> Inl (Bad_Number ''history''))"

definition history_of :: "row \<Rightarrow> json list" where
  "history_of r = (case dict_get r ''history'' of None \<Rightarrow> [] | Some v \<Rightarrow> j_list v)"

definition dataset_product :: "(json \<Rightarrow> string) \<Rightarrow> row \<Rightarrow> load_error + product" where
  \<comment> \<open>\<open>to_str\<close> is \<open>str\<close> on a JSON value\<close>
  "dataset_product to_str r =
     andthen (text_col ''sku'' r) (\<lambda>i.
     andthen (text_col ''name'' r) (\<lambda>t.
     andthen (opt_text ''make'' r) (\<lambda>b.
     andthen (text_col ''cat'' r) (\<lambda>c.
     andthen (raw_num ''usd'' r) (\<lambda>p.
     andthen (text_col ''link'' r) (\<lambda>u.
     andthen (collect price_at (history_of r)) (\<lambda>h.
       Inr ((mk_product i t b c p u ''dataset'')
         \<lparr>specs := map (\<lambda>k. (k, to_str (the (dict_get r k)))) (filter (dict_has r) [''weight_kg'', ''capacity'']),
          price_history := h\<rparr>))))))))"

definition dataset_source :: "(json \<Rightarrow> string) \<Rightarrow> json \<Rightarrow> load_error + product list" where
  "dataset_source to_str data = collect (\<lambda>v. dataset_product to_str (fields_of v)) (j_list data)"

definition api_url :: "string \<Rightarrow> string" where
  "api_url base = rev (dropWhile (\<lambda>c. c = CHR ''/'') (rev base)) @ ''/search''"

definition api_product :: "row \<Rightarrow> load_error + product" where
  "api_product r =
     andthen (text_col ''id'' r) (\<lambda>i.
     andthen (text_col ''title'' r) (\<lambda>t.
     andthen (opt_text ''brand'' r) (\<lambda>b.
     andthen (text_col ''category'' r) (\<lambda>c.
     andthen (raw_num ''price'' r) (\<lambda>p.
     andthen (text_col ''url'' r) (\<lambda>u.
       Inr (mk_product i t b c p u ''api'')))))))"

definition api_source ::
  "(string \<Rightarrow> string \<Rightarrow> (nat \<times> json) option) \<Rightarrow> string \<Rightarrow> string \<Rightarrow> load_error + product list" where
  \<comment> \<open>one request under the bearer token; \<open>raise_for_status\<close> passes the 2xx answers only\<close>
  "api_source http base key =
     (case http (api_url base) (''Bearer '' @ key) of
        None \<Rightarrow> Inl No_Connection
      | Some (status, body) \<Rightarrow>
          if 200 \<le> status \<and> status < 300
          then andthen (col_at ''items'' (fields_of body)) (\<lambda>v. collect (\<lambda>it. api_product (fields_of it)) (j_list v))
          else Inl (Http_Error status))"

record scraped =
  \<comment> \<open>what the HTML parser finds in one \<open>div.product\<close>\<close>
  sc_id :: string
  sc_title :: string
  sc_brand :: string
  sc_price :: string

definition scraper_source :: "string \<Rightarrow> scraped list list \<Rightarrow> load_error + product list" where
  "scraper_source source_url pages =
     collect (\<lambda>n. case parse_float (py_strip (sc_price n)) of
        None \<Rightarrow> Inl (Bad_Number ''data-price'')
      | Some x \<Rightarrow> Inr (mk_product (sc_id n) (py_strip (sc_title n)) (Some (py_strip (sc_brand n))) ''unknown'' x source_url ''scrape''))
      (concat pages)"

text \<open>Whatever its origin, every row a connector yields names the connector as its source.\<close>

lemma collect_in:
  assumes "collect f xs = Inr ys" and "y \<in> set ys"
  obtains x where "x \<in> set xs" "f x = Inr y"
  using assms unfolding collect_Inr list_all2_conv_all_nth in_set_conv_nth by metis

lemma dataset_product_source: "dataset_product to_str r = Inr p \<Longrightarrow> source p = ''dataset''"
  unfolding dataset_product_def by (elim andthenE) (drule Inr_inject, erule subst, simp add: mk_product_def)

lemma dataset_source_named: "dataset_source to_str data = Inr ps \<Longrightarrow> p \<in> set ps \<Longrightarrow> source p = ''dataset''"
  unfolding dataset_source_def by (erule (1) collect_in) (rule dataset_product_source)

lemma scraper_source_named: "scraper_source u pages = Inr ps \<Longrightarrow> p \<in> set ps \<Longrightarrow> source p = ''scrape'' \<and> url p = u"
  unfolding scraper_source_def
  by (erule (1) collect_in) (auto simp: mk_product_def split: option.splits)

lemma api_product_source: "api_product r = Inr p \<Longrightarrow> source p = ''api''"
  unfolding api_product_def by (elim andthenE) (drule Inr_inject, erule subst, simp add: mk_product_def)

lemma api_source_named:
  assumes "api_source http base key = Inr ps" and "p \<in> set ps"
  shows "source p = ''api''"
proof -
  from assms(1) obtain v where "collect (\<lambda>it. api_product (fields_of it)) (j_list v) = Inr ps"
    by (auto simp: api_source_def andthen_eq_Inr split: option.splits if_splits)
  then show ?thesis using assms(2) by (rule collect_in) (rule api_product_source)
qed

end
