(* ===== verification/Dataset.thy ===== *)
theory Dataset
  imports Snapshot Search "HOL-Library.Multiset"
begin

text \<open>
  \<open>dealfinder/dataset.py\<close>: the labelled training set made of the snapshot, its splits, and the class
  weights. Fitting one category's linear model is the parameter \<open>fit\<close>; numpy's seeded permutation of \<open>n\<close>
  indices is the parameter \<open>perm\<close>, of which only that it permutes is used (\<open>permutes_range\<close>).
\<close>

section \<open>Labels\<close>

definition LABELS :: "label list" where "LABELS = [Deal, Fair, Suspicious, Overpriced]"

fun label_index :: "label \<Rightarrow> nat" where
  \<comment> \<open>\<open>LABELS.index\<close>\<close>
  "label_index Deal = 0"
| "label_index Fair = 1"
| "label_index Suspicious = 2"
| "label_index Overpriced = 3"

lemma LABELS_label_index [simp]: "LABELS ! label_index l = l"
  and label_index_less [simp]: "label_index l < length LABELS"
  by (cases l; simp add: LABELS_def)+

definition label_for :: "product \<Rightarrow> pyfloat \<Rightarrow> (string \<Rightarrow> (int list \<Rightarrow> pyfloat) option) \<Rightarrow> label" where
  "label_for p median models =
     (let fair = (case models (category p) of Some model \<Rightarrow> model (featurize p) | None \<Rightarrow> median)
      in v_label (verdict (price p) median fair))"

record labeled_dataset =
  ds_X :: "pyfloat list list"
  ds_y :: "nat list"
  ds_ids :: "string list"
  ds_queries :: "string list"
  ds_feature_names :: "string list"

definition label_names :: "labeled_dataset \<Rightarrow> string list" where
  "label_names ds = map (\<lambda>c. label_str (LABELS ! c)) (ds_y ds)"

definition label_distribution :: "labeled_dataset \<Rightarrow> (label \<times> nat) list" where
  "label_distribution ds = map (\<lambda>l. (l, length (filter (\<lambda>s. s = label_str l) (label_names ds)))) LABELS"

section \<open>Building the set\<close>

definition by_id :: "product list \<Rightarrow> (string, product) dict" where
  "by_id ps = foldl (\<lambda>d p. dict_set (p_id p) p d) [] ps"

definition label_row ::
  "(string, product) dict \<Rightarrow> (string \<Rightarrow> (int list \<Rightarrow> pyfloat) option) \<Rightarrow> row \<Rightarrow>
   load_error + (string \<times> string \<times> nat \<times> pyfloat list)" where
  \<comment> \<open>one turn of the loop: id, query, label code and hand features\<close>
  "label_row products models r =
     andthen (text_col ''id'' r) (\<lambda>i. case dict_get products i of
        None \<Rightarrow> Inl (Key_Error i)
      | Some p \<Rightarrow> andthen (num_col ''median_price_at_capture'' r) (\<lambda>median.
          andthen (text_col ''query'' r) (\<lambda>q.
            Inr (p_id p, q, label_index (label_for p median models), map of_int (featurize p)))))"

definition title_vectors :: "string list \<Rightarrow> pyfloat list list \<Rightarrow> string list \<Rightarrow> load_error + pyfloat list list" where
  \<comment> \<open>the cached embedding of each row; a later entry of the cache for an id wins\<close>
  "title_vectors emb_ids vectors ids =
     (let order = foldl (\<lambda>d (i, v). dict_set i v d) [] (zip emb_ids vectors)
      in collect (\<lambda>i. case dict_get order i of None \<Rightarrow> Inl (Key_Error i) | Some v \<Rightarrow> Inr v) ids)"

definition add_embeddings ::
  "string list \<times> pyfloat list list \<Rightarrow> labeled_dataset \<Rightarrow> load_error + labeled_dataset" where
  \<comment> \<open>vectors of different lengths, or no row at all, are an error of numpy\<close>
  "add_embeddings cache ds =
     andthen (title_vectors (fst cache) (snd cache) (ds_ids ds)) (\<lambda>emb.
       if emb = [] \<or> list_ex (\<lambda>v. length v \<noteq> length (hd emb)) emb then Inl Bad_Shape
       else Inr (ds\<lparr>ds_X := map2 (@) (ds_X ds) emb,
              ds_feature_names := ds_feature_names ds @ map (\<lambda>k. ''emb_'' @ nat_digits k) [0..<length (hd emb)]\<rparr>))"

definition build_labeled_dataset ::
  "fitter \<Rightarrow> json \<Rightarrow> (string list \<times> pyfloat list list) option \<Rightarrow> load_error + labeled_dataset" where
  \<comment> \<open>\<open>Some cache\<close>: with the cached title embeddings\<close>
  "build_labeled_dataset fit data cache =
     andthen (load_snapshot data) (\<lambda>items.
     andthen (load_products data) (\<lambda>products.
     andthen (collect (label_row (by_id products) (category_models fit products)) items) (\<lambda>rows.
       let ds = \<lparr>ds_X = map (snd \<circ> snd \<circ> snd) rows, ds_y = map (fst \<circ> snd \<circ> snd) rows, ds_ids = map fst rows,
              ds_queries = map (fst \<circ> snd) rows, ds_feature_names = [''category_code'', ''brand_tier'', ''condition_code'']\<rparr>
       in case cache of None \<Rightarrow> Inr ds | Some c \<Rightarrow> add_embeddings c ds)))"

section \<open>Splits\<close>

definition n_test_groups :: "nat \<Rightarrow> pyfloat \<Rightarrow> int" where
  "n_test_groups n test_frac =
     (let k = max 1 (round_half_even (of_nat n * test_frac)) in if n \<ge> 2 then min k (int n - 1) else k)"

definition grouped_split :: "(nat \<Rightarrow> nat list) \<Rightarrow> string list \<Rightarrow> pyfloat \<Rightarrow> nat list \<times> nat list" where
  "grouped_split perm queries test_frac =
     (let groups = py_dedupe queries;
          order = perm (length groups);
          test_groups = map (\<lambda>i. groups ! i) (py_slice_to (n_test_groups (length groups) test_frac) order);
          rows = [0..<length queries]
      in (filter (\<lambda>i. queries ! i \<notin> set test_groups) rows, filter (\<lambda>i. queries ! i \<in> set test_groups) rows))"

definition temporal_split :: "'k::linorder list option \<Rightarrow> nat option \<Rightarrow> pyfloat \<Rightarrow> (nat list \<times> nat list) option" where
  \<comment> \<open>\<open>None\<close> is the \<open>ValueError\<close>; a stable argsort of the keys\<close>
  "temporal_split order_key n test_frac =
     (case (order_key, n) of
        (None, None) \<Rightarrow> None
      | (Some ks, _) \<Rightarrow>
          (let ranked = sort_key (\<lambda>i. ks ! i) [0..<length ks];
               n_test = max 1 (round_half_even (of_nat (length ks) * test_frac))
           in Some (py_slice_to (- n_test) ranked, py_slice_from (- n_test) ranked))
      | (None, Some m) \<Rightarrow>
          (let n_test = max 1 (round_half_even (of_nat m * test_frac))
           in Some (py_slice_to (- n_test) [0..<m], py_slice_from (- n_test) [0..<m])))"

section \<open>Imbalance\<close>

definition class_weights :: "nat list \<Rightarrow> (nat \<times> pyfloat) list" where
  "class_weights y =
     (let codes = sort (py_dedupe y); k = length codes
      in map (\<lambda>c. (c, of_nat (length y) / (of_nat k * of_nat (count_list y c)))) codes)"

record imbalance =
  im_n :: nat
  im_counts :: "(label \<times> nat) list"
  im_fractions :: "(label \<times> pyfloat) list"
  im_majority :: label
  im_majority_fraction :: pyfloat
  im_weights :: "(label \<times> pyfloat) list"

definition imbalance_summary :: "labeled_dataset \<Rightarrow> imbalance option" where
  \<comment> \<open>\<open>None\<close>: the division by the size of an empty set; \<open>max\<close> takes the first of equal counts\<close>
  "imbalance_summary ds =
     (let dist = label_distribution ds; n = length (ds_y ds) in
      if n = 0 then None
      else case py_min (\<lambda>(l, c). - int c) dist of
        None \<Rightarrow> None
      | Some (majority, m) \<Rightarrow> Some \<lparr>im_n = n, im_counts = dist,
            im_fractions = map (\<lambda>(l, c). (l, py_round 4 (of_nat c / of_nat n))) dist,
            im_majority = majority, im_majority_fraction = py_round 4 (of_nat m / of_nat n),
            im_weights = map (\<lambda>(c, w). (LABELS ! c, py_round 4 w)) (class_weights (ds_y ds))\<rparr>)"

section \<open>The set is aligned\<close>

lemma label_row_code: "label_row products models r = Inr (i, q, c, x) \<Longrightarrow> c < length LABELS"
  unfolding label_row_def by (elim andthenE) (auto split: option.splits elim!: andthenE)

lemma build_aligned:
  assumes "build_labeled_dataset fit data None = Inr ds" and "load_snapshot data = Inr items"
  shows "length (ds_X ds) = length items \<and> length (ds_y ds) = length items \<and> length (ds_ids ds) = length items
    \<and> length (ds_queries ds) = length items \<and> (\<forall>c \<in> set (ds_y ds). c < length LABELS)"
proof -
  from assms obtain products rows where rows: "collect (label_row (by_id products) (category_models fit products)) items = Inr rows"
    and ds: "ds = \<lparr>ds_X = map (snd \<circ> snd \<circ> snd) rows, ds_y = map (fst \<circ> snd \<circ> snd) rows, ds_ids = map fst rows,
      ds_queries = map (fst \<circ> snd) rows, ds_feature_names = [''category_code'', ''brand_tier'', ''condition_code'']\<rparr>"
    by (auto simp: build_labeled_dataset_def Let_def elim!: andthenE)
  have "length rows = length items" using rows by (auto simp: collect_Inr dest: list_all2_lengthD)
  moreover have "fst (snd (snd z)) < length LABELS" if "z \<in> set rows" for z
  proof -
    from rows that obtain r where "label_row (by_id products) (category_models fit products) r = Inr z" by (rule collect_in)
    then show ?thesis using label_row_code by (cases z) auto
  qed
  ultimately show ?thesis by (auto simp: ds)
qed

lemma label_str_eq: "label_str l = label_str l' \<longleftrightarrow> l = l'"
  by (cases l; cases l') auto

lemma label_distribution_total: "sum_list (map snd (label_distribution ds)) = length (ds_y ds)"
proof -
  have "sum_list (map snd (map (\<lambda>l. (l, length (filter (\<lambda>s. s = label_str l) (map (\<lambda>c. label_str (LABELS ! c)) y)))) LABELS))
      = length y" for y
  proof (induction y)
    case (Cons c y)
    then show ?case by (cases "LABELS ! c") (simp_all add: LABELS_def)
  qed (simp add: LABELS_def)
  then show ?thesis by (simp only: label_distribution_def label_names_def)
qed

lemma class_weight_balances:
  assumes "(c, w) \<in> set (class_weights y)"
  shows "w * of_nat (count_list y c) = of_nat (length y) / of_nat (card (set y))"
proof -
  have k: "length (py_dedupe y) = card (set y)" using distinct_card [OF distinct_py_dedupe [of y]] by simp
  from assms have c: "c \<in> set y" and w: "w = of_nat (length y) / (of_nat (card (set y)) * of_nat (count_list y c))"
    by (auto simp: class_weights_def Let_def k)
  have "count_list y c \<noteq> 0" using c by (simp add: count_list_0_iff)
  then show ?thesis by (simp add: w)
qed

section \<open>The splits\<close>

definition permutes_range :: "(nat \<Rightarrow> nat list) \<Rightarrow> bool" where
  "permutes_range perm \<longleftrightarrow> (\<forall>n. mset (perm n) = mset [0..<n])"

lemma permutes_rangeD: "permutes_range perm \<Longrightarrow> distinct (perm n) \<and> set (perm n) = {..<n} \<and> length (perm n) = n"
  unfolding permutes_range_def
  by (metis atLeast0LessThan distinct_upt diff_zero length_upt mset_eq_imp_distinct_iff mset_eq_length mset_eq_setD set_upt)

lemma n_test_groups_bounds: "n \<ge> 2 \<Longrightarrow> 1 \<le> n_test_groups n f \<and> n_test_groups n f < int n"
  by (simp add: n_test_groups_def Let_def)

lemma n_test_groups_pos: "1 \<le> n_test_groups n f"
  by (cases "n \<ge> 2") (use n_test_groups_bounds [of n f] in simp, simp add: n_test_groups_def)

text \<open>The groups on the test side: so many distinct queries of the data.\<close>

lemma test_groups:
  assumes "permutes_range perm"
  shows "distinct (map (\<lambda>i. py_dedupe qs ! i) (take m (perm (length (py_dedupe qs)))))
    \<and> set (map (\<lambda>i. py_dedupe qs ! i) (take m (perm (length (py_dedupe qs))))) \<subseteq> set qs"
proof -
  let ?g = "py_dedupe qs" and ?js = "take m (perm (length (py_dedupe qs)))"
  have js: "distinct ?js" "set ?js \<subseteq> {..<length ?g}"
    using permutes_rangeD [OF assms, of "length ?g"] set_take_subset [of m "perm (length ?g)"] by auto
  have "distinct (map (\<lambda>i. ?g ! i) ?js)"
    using distinct_map_nth [of "\<lambda>x. x" ?g ?js] js by simp
  moreover have "set (map (\<lambda>i. ?g ! i) ?js) \<subseteq> set ?g"
  proof
    fix x assume "x \<in> set (map (\<lambda>i. ?g ! i) ?js)"
    then obtain i where i: "i \<in> set ?js" "x = ?g ! i" by auto
    from i(1) js(2) have "i < length ?g" by auto
    then show "x \<in> set ?g" unfolding i(2) by (rule nth_mem)
  qed
  ultimately show ?thesis unfolding set_py_dedupe by (rule conjI)
qed

text \<open>C21: No leakage. The rows are split by query: every row is on exactly one side, in the order of the data, and no query
  has rows on both. The test side holds the rounded share of the queries, at least one and, with two queries or
  more, never all of them, so that neither side is empty, whatever the fraction and the permutation drawn.\<close>

theorem grouped_split_no_leakage:
  assumes "permutes_range perm" and "grouped_split perm queries test_frac = (train, test)"
  shows "sorted train \<and> sorted test \<and> mset (train @ test) = mset [0..<length queries]
    \<and> (\<lambda>i. queries ! i) ` set train \<inter> (\<lambda>i. queries ! i) ` set test = {}
    \<and> int (card ((\<lambda>i. queries ! i) ` set test)) =
        min (int (card (set queries))) (n_test_groups (card (set queries)) test_frac)
    \<and> (card (set queries) \<ge> 2 \<longrightarrow> train \<noteq> [] \<and> test \<noteq> [])"
proof -
  let ?g = "py_dedupe queries"
  define k where "k = n_test_groups (length ?g) test_frac"
  define tg where "tg = map (\<lambda>i. ?g ! i) (take (nat k) (perm (length ?g)))"
  have n: "length ?g = card (set queries)" using distinct_card [OF distinct_py_dedupe [of queries]] by simp
  have k1: "1 \<le> k" unfolding k_def by (rule n_test_groups_pos)
  have sl: "py_slice_to k (perm (length ?g)) = take (nat k) (perm (length ?g))" using k1 by (simp add: py_slice_to_def)
  have train: "train = filter (\<lambda>i. queries ! i \<notin> set tg) [0..<length queries]"
    and test: "test = filter (\<lambda>i. queries ! i \<in> set tg) [0..<length queries]"
    using assms(2) by (auto simp: grouped_split_def Let_def tg_def sl k_def [symmetric])
  have tg: "distinct tg" "set tg \<subseteq> set queries" using test_groups [OF assms(1), of queries "nat k"] by (simp_all only: tg_def)
  have qtest: "(\<lambda>i. queries ! i) ` set test = set tg"
    using tg(2) by (auto simp: test in_set_conv_nth image_iff subset_iff) (metis atLeast0LessThan in_set_conv_nth lessThan_iff subsetD)
  have card: "int (card (set tg)) = min (int (card (set queries))) k"
  proof -
    have "card (set tg) = length tg" using tg(1) by (rule distinct_card)
    also have "\<dots> = min (nat k) (card (set queries))" using permutes_rangeD [OF assms(1), of "length ?g"] by (simp add: tg_def n)
    finally show ?thesis using k1 by simp
  qed
  have qs: "set queries = (\<lambda>i. queries ! i) ` set train \<union> set tg"
    using tg(2) by (auto simp: train image_iff in_set_conv_nth)
  have "train \<noteq> [] \<and> test \<noteq> []" if "card (set queries) \<ge> 2"
  proof -
    have kb: "1 \<le> k" "k < int (card (set queries))" using n_test_groups_bounds that by (auto simp: k_def n)
    have "set tg \<noteq> {}" using card kb by auto
    moreover have "set tg \<noteq> set queries" using card kb by auto
    ultimately show ?thesis using qtest qs by auto
  qed
  moreover have "mset (train @ test) = mset [0..<length queries]"
    unfolding train test mset_append by (simp only: mset_filter add.commute multiset_partition [symmetric])
  moreover have "sorted train" "sorted test" by (simp_all add: train test sorted_wrt_filter)
  moreover have "(\<lambda>i. queries ! i) ` set train \<inter> set tg = {}" by (auto simp: train)
  ultimately show ?thesis unfolding qtest using card by (simp only: k_def n) blast
qed

lemma demo_permutes: "permutes_range (\<lambda>n. [0..<n])"
  by (simp add: permutes_range_def)

lemma demo_split:
  "grouped_split (\<lambda>n. [0..<n]) [''tv'', ''tv'', ''pc'', ''pc'', ''pc'', ''usb''] (1/3) = ([2, 3, 4, 5], [0, 1])"
proof -
  have "n_test_groups (Suc (Suc (Suc 0))) (1/3) = 1" using round_half_even_int [of 1] by (simp add: n_test_groups_def)
  then show ?thesis by (simp add: grouped_split_def py_dedupe_def py_slice_to_def Let_def)
qed

theorem grouped_split_no_leakage_witness:
  "(\<lambda>i. [''tv'', ''tv'', ''pc'', ''pc'', ''pc'', ''usb''] ! i) ` set [2, 3, 4, 5] \<inter>
    (\<lambda>i. [''tv'', ''tv'', ''pc'', ''pc'', ''pc'', ''usb''] ! i) ` set [0, 1] = {}"
  using grouped_split_no_leakage [OF demo_permutes demo_split] by blast

text \<open>The temporal split: the past is for training, the future for testing.\<close>

lemma slices_of_sorted:
  assumes "sorted (map f rk)" and "i \<in> set (py_slice_to k rk)" and "j \<in> set (py_slice_from k rk)"
  shows "f i \<le> f j"
proof -
  have "sorted (map f (py_slice_to k rk) @ map f (py_slice_from k rk))"
    using assms(1) by (simp only: map_append [symmetric] py_slice_append)
  then show ?thesis using assms(2,3) by (auto simp: sorted_append)
qed

lemma temporal_split_no_peeking:
  assumes "temporal_split (Some ks) n test_frac = Some (train, test)"
  shows "mset (train @ test) = mset [0..<length ks] \<and> (i \<in> set train \<and> j \<in> set test \<longrightarrow> ks ! i \<le> ks ! j)
    \<and> (ks \<noteq> [] \<longrightarrow> test \<noteq> [])"
proof -
  define rk where "rk = sort_key (\<lambda>i. ks ! i) [0..<length ks]"
  define k where "k = max 1 (round_half_even (of_nat (length ks) * test_frac))"
  have s: "train = py_slice_to (- k) rk" "test = py_slice_from (- k) rk"
    using assms by (auto simp: temporal_split_def Let_def rk_def k_def)
  have "mset (train @ test) = mset rk" unfolding s py_slice_append ..
  moreover have "sorted (map (\<lambda>i. ks ! i) rk)" by (simp add: rk_def)
  then have "i \<in> set train \<and> j \<in> set test \<longrightarrow> ks ! i \<le> ks ! j" unfolding s by (blast intro: slices_of_sorted)
  moreover have "ks \<noteq> [] \<longrightarrow> test \<noteq> []"
  proof
    assume "ks \<noteq> []"
    moreover have "1 \<le> k" by (simp add: k_def)
    ultimately have "nat (int (length rk) + - k) < length rk" by (cases ks) (auto simp: rk_def)
    then show "test \<noteq> []" using \<open>1 \<le> k\<close> by (simp add: s py_slice_from_def)
  qed
  ultimately show ?thesis by (simp add: rk_def)
qed

end
