(* ===== verification/Flows.thy ===== *)
theory Flows
  imports Dataset
begin

text \<open>
  \<open>dealfinder/flows.py\<close> and \<open>dealfinder/models/good_deals.sql\<close>: the batch pipeline from the snapshot to a
  labelled, quality-gated table. The last section is the flow under the orchestrator, with the
  retries of its ingestion. Parameters: \<open>as_float\<close> (what the validation library accepts as a float), \<open>complain\<close>
  (the first line of its message, from the columns at fault) and \<open>show_float\<close> (Python's text of a float).
\<close>

section \<open>The data contract\<close>

definition REQUIRED_COLUMNS :: "string list" where
  "REQUIRED_COLUMNS = [''id'', ''query'', ''category'', ''title'', ''price'', ''median_price_at_capture'']"

definition text_ok :: "row \<Rightarrow> string \<Rightarrow> bool" where
  "text_ok r k \<longleftrightarrow> (case dict_get r k of Some (JStr s) \<Rightarrow> True | _ \<Rightarrow> False)"

definition price_positive :: "pyfloat \<Rightarrow> bool" where "price_positive v \<longleftrightarrow> \<not> v \<le> 0"

definition category_known :: "string \<Rightarrow> bool" where "category_known v \<longleftrightarrow> v \<in> set KNOWN_CATEGORIES"

definition column_ok :: "(json \<Rightarrow> pyfloat option) \<Rightarrow> row \<Rightarrow> string \<Rightarrow> bool" where
  \<comment> \<open>\<open>SnapshotRow\<close>: the type of each column and its validator\<close>
  "column_ok as_float r k =
     (if k = ''price'' then (case dict_get r k of None \<Rightarrow> False | Some v \<Rightarrow>
          (case as_float v of None \<Rightarrow> False | Some x \<Rightarrow> price_positive x))
      else if k = ''median_price_at_capture'' then (case dict_get r k of None \<Rightarrow> False | Some v \<Rightarrow> as_float v \<noteq> None)
      else if k = ''category'' then (case dict_get r k of Some (JStr s) \<Rightarrow> category_known s | _ \<Rightarrow> False)
      else text_ok r k)"

record violation =
  vi_id :: json
  vi_error :: string

record contract_report =
  cr_total :: nat
  cr_valid :: nat
  cr_violations :: "violation list"

definition passed :: "contract_report \<Rightarrow> bool" where "passed r \<longleftrightarrow> cr_total r > 0 \<and> cr_valid r = cr_total r"

definition repr_names :: "string list \<Rightarrow> string" where
  "repr_names ks = ''['' @ py_join '', '' (map (\<lambda>k. [CHR 0x27] @ k @ [CHR 0x27]) ks) @ '']''"

definition check_row :: "(json \<Rightarrow> pyfloat option) \<Rightarrow> (string list \<Rightarrow> string) \<Rightarrow> row \<Rightarrow> violation option" where
  "check_row as_float complain r =
     (let missing = filter (\<lambda>c. \<not> dict_has r c) REQUIRED_COLUMNS;
          at_fault = filter (\<lambda>c. \<not> column_ok as_float r c) REQUIRED_COLUMNS;
          i = (case dict_get r ''id'' of None \<Rightarrow> JNull | Some v \<Rightarrow> v)
      in if missing \<noteq> [] then Some \<lparr>vi_id = i, vi_error = ''missing columns: '' @ repr_names missing\<rparr>
         else if at_fault \<noteq> [] then Some \<lparr>vi_id = i, vi_error = complain at_fault\<rparr>
         else None)"

definition contract_step ::
  "(json \<Rightarrow> pyfloat option) \<Rightarrow> (string list \<Rightarrow> string) \<Rightarrow> nat \<times> violation list \<Rightarrow> row \<Rightarrow> nat \<times> violation list" where
  "contract_step as_float complain acc r =
     (case check_row as_float complain r of None \<Rightarrow> (fst acc + 1, snd acc) | Some v \<Rightarrow> (fst acc, snd acc @ [v]))"

definition validate_contract ::
  "(json \<Rightarrow> pyfloat option) \<Rightarrow> (string list \<Rightarrow> string) \<Rightarrow> row list \<Rightarrow> contract_report" where
  "validate_contract as_float complain rows =
     (let (valid, violations) = foldl (contract_step as_float complain) (0, []) rows
      in \<lparr>cr_total = length rows, cr_valid = valid, cr_violations = violations\<rparr>)"

datatype flow_error = Load_Failed load_error | Data_Contract contract_report

definition quality_gate ::
  "(json \<Rightarrow> pyfloat option) \<Rightarrow> (string list \<Rightarrow> string) \<Rightarrow> row list \<Rightarrow> flow_error + contract_report" where
  "quality_gate as_float complain rows =
     (let report = validate_contract as_float complain rows
      in if passed report then Inr report else Inl (Data_Contract report))"

section \<open>The view of the good deals\<close>

record deal_row =
  d_id :: string
  d_query :: string
  d_category :: string
  d_title :: string
  d_brand :: "string option"
  d_price :: pyfloat
  d_median :: pyfloat
  d_pct :: pyfloat

definition median_deal_pct :: "pyfloat \<Rightarrow> pyfloat \<Rightarrow> pyfloat" where
  "median_deal_pct median p = (median - p) / median"

definition table_row :: "row \<Rightarrow> load_error + deal_row" where
  \<comment> \<open>the values inserted into \<open>products\<close>; the last column is the computed one\<close>
  "table_row r =
     andthen (text_col ''id'' r) (\<lambda>i.
     andthen (text_col ''query'' r) (\<lambda>q.
     andthen (text_col ''category'' r) (\<lambda>c.
     andthen (text_col ''title'' r) (\<lambda>t.
     andthen (opt_text ''brand'' r) (\<lambda>b.
     andthen (num_col ''price'' r) (\<lambda>p.
     andthen (num_col ''median_price_at_capture'' r) (\<lambda>m.
       Inr \<lparr>d_id = i, d_query = q, d_category = c, d_title = t, d_brand = b, d_price = p, d_median = m,
            d_pct = median_deal_pct m p\<rparr>)))))))"

definition good_deals :: "deal_row list \<Rightarrow> deal_row list" where
  \<comment> \<open>the SQL; it leaves the order of equal percentages open, here the order of insertion\<close>
  "good_deals rows =
     sort_key (\<lambda>d. - d_pct d)
       (filter (\<lambda>d. d_price d > 0 \<and> d_median d > 0 \<and> 0.10 \<le> d_pct d \<and> d_pct d \<le> 0.90) rows)"

definition run_good_deals_model :: "row list \<Rightarrow> load_error + deal_row list" where
  "run_good_deals_model rows = andthen (collect table_row rows) (\<lambda>table. Inr (good_deals table))"

section \<open>The stages\<close>

definition ingest_snapshot :: "json \<Rightarrow> load_error + row list" where "ingest_snapshot data = load_snapshot data"

definition normalize_row :: "row \<Rightarrow> load_error + row" where
  "normalize_row r =
     andthen (col_at ''title'' r) (\<lambda>v.
     andthen (if j_truthy v then andthen (text_of ''title'' v) (\<lambda>s. Inr (title_brand s)) else Inr None) (\<lambda>b.
       Inr (dict_set ''true_brand'' (case b of None \<Rightarrow> JNull | Some s \<Rightarrow> JStr s) r)))"

definition normalize_rows :: "row list \<Rightarrow> load_error + row list" where "normalize_rows rows = collect normalize_row rows"

definition label_rows :: "fitter \<Rightarrow> json \<Rightarrow> load_error + labeled_dataset" where
  "label_rows fit data = build_labeled_dataset fit data None"

record flow_result =
  fr_ingested :: nat
  fr_normalized :: nat
  fr_contract :: contract_report
  fr_labeled :: nat
  fr_distribution :: "(label \<times> nat) list"
  fr_good_deals :: nat
  fr_persisted :: "string option"  \<comment> \<open>the text of \<open>good_deals.csv\<close>\<close>

definition csv_line :: "(pyfloat \<Rightarrow> string) \<Rightarrow> deal_row \<Rightarrow> string" where
  "csv_line show_float d = d_id d @ '','' @ d_query d @ '','' @ d_category d @ '','' @ show_float (d_price d) @ '','' @
     fmt_fixed 4 (d_pct d)"

definition csv_text :: "(pyfloat \<Rightarrow> string) \<Rightarrow> deal_row list \<Rightarrow> string" where
  "csv_text show_float deals =
     py_join [CHR 10] (''id,query,category,price,median_deal_pct'' # map (csv_line show_float) deals) @ [CHR 10]"

definition loaded :: "load_error + 'a \<Rightarrow> flow_error + 'a" where
  "loaded r = (case r of Inl e \<Rightarrow> Inl (Load_Failed e) | Inr x \<Rightarrow> Inr x)"

definition run_pipeline ::
  "(json \<Rightarrow> pyfloat option) \<Rightarrow> (string list \<Rightarrow> string) \<Rightarrow> (pyfloat \<Rightarrow> string) \<Rightarrow> fitter \<Rightarrow> json \<Rightarrow> bool \<Rightarrow>
   flow_error + flow_result" where
  \<comment> \<open>the flag: a directory to persist to was given\<close>
  "run_pipeline as_float complain show_float fit data persist =
     andthen (loaded (ingest_snapshot data)) (\<lambda>rows.
     andthen (loaded (normalize_rows rows)) (\<lambda>normalized.
     andthen (quality_gate as_float complain normalized) (\<lambda>report.
     andthen (loaded (label_rows fit data)) (\<lambda>ds.
     andthen (loaded (run_good_deals_model normalized)) (\<lambda>deals.
       Inr \<lparr>fr_ingested = length rows, fr_normalized = length normalized, fr_contract = report,
            fr_labeled = length (ds_y ds), fr_distribution = label_distribution ds, fr_good_deals = length deals,
            fr_persisted = (if persist then Some (csv_text show_float deals) else None)\<rparr>)))))"

section \<open>The contract decides row by row\<close>

definition row_valid :: "(json \<Rightarrow> pyfloat option) \<Rightarrow> row \<Rightarrow> bool" where
  "row_valid as_float r \<longleftrightarrow> text_ok r ''id'' \<and> text_ok r ''query'' \<and> text_ok r ''title''
     \<and> (\<exists>c. dict_get r ''category'' = Some (JStr c) \<and> c \<in> set KNOWN_CATEGORIES)
     \<and> (\<exists>v x. dict_get r ''price'' = Some v \<and> as_float v = Some x \<and> 0 < x)
     \<and> (\<exists>v x. dict_get r ''median_price_at_capture'' = Some v \<and> as_float v = Some x)"

lemma column_ok_has: "column_ok as_float r k \<Longrightarrow> dict_get r k \<noteq> None"
  by (auto simp: column_ok_def text_ok_def split: if_splits option.splits)

lemma check_row_None: "check_row as_float complain r = None \<longleftrightarrow> list_all (column_ok as_float r) REQUIRED_COLUMNS"
  using column_ok_has [of as_float r] by (auto simp: check_row_def Let_def filter_empty_conv list_all_iff)

lemma all_columns_ok: "list_all (column_ok as_float r) REQUIRED_COLUMNS \<longleftrightarrow> row_valid as_float r"
proof -
  have p: "column_ok as_float r ''price'' \<longleftrightarrow> (\<exists>v x. dict_get r ''price'' = Some v \<and> as_float v = Some x \<and> 0 < x)"
    by (auto simp: column_ok_def price_positive_def not_le split: option.splits)
  have m: "column_ok as_float r ''median_price_at_capture'' \<longleftrightarrow>
      (\<exists>v x. dict_get r ''median_price_at_capture'' = Some v \<and> as_float v = Some x)"
    by (auto simp: column_ok_def split: option.splits)
  have c: "column_ok as_float r ''category'' \<longleftrightarrow> (\<exists>c. dict_get r ''category'' = Some (JStr c) \<and> c \<in> set KNOWN_CATEGORIES)"
    by (auto simp: column_ok_def category_known_def split: option.splits json.splits)
  have t: "column_ok as_float r ''id'' = text_ok r ''id''" "column_ok as_float r ''query'' = text_ok r ''query''"
    "column_ok as_float r ''title'' = text_ok r ''title''" by (simp_all add: column_ok_def)
  show ?thesis unfolding REQUIRED_COLUMNS_def list.pred_inject p m c t row_valid_def by simp (simp only: conj_ac)
qed

lemma validate_contract_counts:
  "cr_total (validate_contract f g rows) = length rows"
  "cr_valid (validate_contract f g rows) = length (filter (row_valid f) rows)"
  "length (cr_violations (validate_contract f g rows)) = length (filter (\<lambda>r. \<not> row_valid f r) rows)"
proof -
  have "fst (foldl (contract_step f g) acc rows) = fst acc + length (filter (row_valid f) rows)
      \<and> length (snd (foldl (contract_step f g) acc rows)) = length (snd acc) + length (filter (\<lambda>r. \<not> row_valid f r) rows)" for acc
  proof (induction rows arbitrary: acc)
    case (Cons r rows)
    have "row_valid f r \<longleftrightarrow> check_row f g r = None" by (simp only: check_row_None all_columns_ok)
    then show ?case using Cons.IH [of "contract_step f g acc r"] by (cases "check_row f g r") (simp_all add: contract_step_def)
  qed simp
  from this [of "(0, [])"] show "cr_total (validate_contract f g rows) = length rows"
    "cr_valid (validate_contract f g rows) = length (filter (row_valid f) rows)"
    "length (cr_violations (validate_contract f g rows)) = length (filter (\<lambda>r. \<not> row_valid f r) rows)"
    by (simp_all add: validate_contract_def case_prod_beta)
qed

lemma passed_iff: "passed (validate_contract f g rows) \<longleftrightarrow> rows \<noteq> [] \<and> list_all (row_valid f) rows"
proof -
  have "length (filter (row_valid f) rows) = length rows \<longleftrightarrow> list_all (row_valid f) rows"
    by (metis filter_id_conv length_filter_less less_irrefl list_all_iff)
  then show ?thesis by (simp add: passed_def validate_contract_counts)
qed

lemma quality_gate_Inr: "quality_gate f g rows = Inr report \<longleftrightarrow>
  report = validate_contract f g rows \<and> rows \<noteq> [] \<and> list_all (row_valid f) rows"
  by (auto simp: quality_gate_def Let_def passed_iff)

section \<open>What the pipeline promises\<close>

lemma good_deals_shape:
  "set (good_deals rows) = {d \<in> set rows. d_price d > 0 \<and> d_median d > 0 \<and> 0.10 \<le> d_pct d \<and> d_pct d \<le> 0.90}"
  "sorted_wrt (\<lambda>a b. d_pct a \<ge> d_pct b) (good_deals rows)"
  using sort_key_sorted_wrt [of "\<lambda>d. - d_pct d"] by (auto simp: good_deals_def)

lemma loaded_Inr: "loaded r = Inr x \<longleftrightarrow> r = Inr x"
  by (simp add: loaded_def split: sum.splits)

lemma normalize_row_keeps:
  "normalize_row r = Inr r' \<Longrightarrow> k \<noteq> ''true_brand'' \<Longrightarrow> dict_get r' k = dict_get r k"
  unfolding normalize_row_def by (elim andthenE) auto

lemma row_valid_normalized: "normalize_row r = Inr r' \<Longrightarrow> row_valid f r' = row_valid f r"
  using normalize_row_keeps [of r r'] by (simp add: row_valid_def text_ok_def)

lemma run_pipeline_result:
  assumes "run_pipeline f g sh fit data persist = Inr res"
  shows "fr_ingested res > 0 \<and> fr_normalized res = fr_ingested res \<and> fr_labeled res = fr_ingested res
    \<and> passed (fr_contract res) \<and> sum_list (map snd (fr_distribution res)) = fr_labeled res
    \<and> (\<exists>rows. load_snapshot data = Inr rows \<and> list_all (row_valid f) rows)"
proof -
  from assms obtain rows normalized report ds where rows: "load_snapshot data = Inr rows"
    and n: "collect normalize_row rows = Inr normalized" and gate: "quality_gate f g normalized = Inr report"
    and ds: "build_labeled_dataset fit data None = Inr ds"
    and res: "fr_ingested res = length rows" "fr_normalized res = length normalized" "fr_contract res = report"
      "fr_labeled res = length (ds_y ds)" "fr_distribution res = label_distribution ds"
    unfolding run_pipeline_def by (elim andthenE) (auto simp: loaded_Inr ingest_snapshot_def normalize_rows_def label_rows_def)
  have all2: "list_all2 (\<lambda>r r'. normalize_row r = Inr r') rows normalized" using n by (simp add: collect_Inr)
  then have len: "length normalized = length rows" by (simp add: list_all2_lengthD)
  from gate have ok: "report = validate_contract f g normalized" "normalized \<noteq> []" "list_all (row_valid f) normalized"
    by (simp_all add: quality_gate_Inr)
  have "list_all (row_valid f) rows"
    using ok(3) all2 row_valid_normalized [of _ _ f] unfolding list_all_length list_all2_conv_all_nth by metis
  moreover have "length (ds_y ds) = length rows" using build_aligned [OF ds rows] by simp
  moreover have "passed report" using ok by (simp add: passed_iff)
  moreover have "length rows > 0" using ok(2) len by auto
  ultimately show ?thesis using rows len label_distribution_total [of ds] by (simp add: res)
qed

text \<open>The brands are read off the titles before the contract looks at the rows, so a row without a title ends the
  run with a \<open>KeyError\<close> and no contract report.\<close>

lemma missing_title_is_no_violation:
  assumes "load_snapshot data = Inr (rows1 @ r # rows2)" and "dict_get r ''title'' = None"
    and "list_all (\<lambda>r. \<exists>r'. normalize_row r = Inr r') rows1"
  shows "run_pipeline f g sh fit data persist = Inl (Load_Failed (Key_Error ''title''))"
proof -
  have "collect normalize_row (rows1 @ r # rows2) = Inl (Key_Error ''title'')" using assms(3)
  proof (induction rows1)
    case Nil
    then show ?case using assms(2) by (simp add: normalize_row_def col_at_def)
  qed auto
  then show ?thesis using assms(1) by (simp add: run_pipeline_def loaded_def ingest_snapshot_def normalize_rows_def)
qed

section \<open>Under Prefect\<close>

fun retried :: "nat \<Rightarrow> nat \<Rightarrow> (nat \<Rightarrow> 'e + 'a) \<Rightarrow> 'e + 'a" where
  \<comment> \<open>attempt \<open>k\<close>, and \<open>n\<close> retries if it raises\<close>
  "retried 0 k f = f k"
| "retried (Suc n) k f = (case f k of Inr x \<Rightarrow> Inr x | Inl e \<Rightarrow> retried n (Suc k) f)"

definition snapshot_flow ::
  "bool \<Rightarrow> (json \<Rightarrow> pyfloat option) \<Rightarrow> (string list \<Rightarrow> string) \<Rightarrow> (pyfloat \<Rightarrow> string) \<Rightarrow> fitter \<Rightarrow> (nat \<Rightarrow> load_error + json) \<Rightarrow>
   load_error + json \<Rightarrow> bool \<Rightarrow> flow_error + flow_result" where
  \<comment> \<open>the first flag: Prefect is installed; \<open>reading k\<close>: what attempt \<open>k\<close> reads, \<open>relabel\<close>: what the label task reads\<close>
  "snapshot_flow has_prefect as_float complain show_float fit reading relabel persist =
     (if has_prefect then
        andthen (loaded (retried 2 0 (\<lambda>k. andthen (reading k) ingest_snapshot))) (\<lambda>rows.
        andthen (loaded (normalize_rows rows)) (\<lambda>normalized.
        andthen (quality_gate as_float complain normalized) (\<lambda>report.
        andthen (loaded (andthen relabel (label_rows fit))) (\<lambda>ds.
        andthen (loaded (run_good_deals_model normalized)) (\<lambda>deals.
          Inr \<lparr>fr_ingested = length rows, fr_normalized = length normalized, fr_contract = report,
               fr_labeled = length (ds_y ds), fr_distribution = label_distribution ds, fr_good_deals = length deals,
               fr_persisted = (if persist then Some (csv_text show_float deals) else None)\<rparr>)))))
      else andthen (loaded (reading 0)) (\<lambda>data. run_pipeline as_float complain show_float fit data persist))"

lemma retried_first: "\<forall>j < m. \<exists>e. f (k + j) = Inl e \<Longrightarrow> f (k + m) = Inr x \<Longrightarrow> m \<le> n \<Longrightarrow> retried n k f = Inr x"
proof (induction n arbitrary: k m)
  case (Suc n)
  show ?case
  proof (cases m)
    case 0
    with Suc.prems show ?thesis by simp
  next
    case (Suc j)
    have "\<exists>e. f k = Inl e" using Suc.prems(1) Suc by (metis add_0_right zero_less_Suc)
    moreover have "\<forall>i < j. \<exists>e. f (Suc k + i) = Inl e" using Suc.prems(1) Suc by (metis Suc_less_eq add_Suc add_Suc_right)
    ultimately show ?thesis using Suc.IH [of j "Suc k"] Suc.prems(2,3) Suc by auto
  qed
qed simp

text \<open>Prefect adds retries of the reading and nothing else: once one of the first three attempts reads the file, the result is
  that of the plain pipeline.\<close>

lemma prefect_adds_retries:
  assumes "m \<le> 2" and "\<forall>k < m. \<exists>e. reading k = Inl e" and "reading m = Inr data"
    and "ingest_snapshot data = Inr rows"
  shows "snapshot_flow True as_float complain show_float fit reading (Inr data) persist =
    run_pipeline as_float complain show_float fit data persist"
proof -
  have "retried 2 0 (\<lambda>k. andthen (reading k) ingest_snapshot) = Inr rows"
    using retried_first [of m "\<lambda>k. andthen (reading k) ingest_snapshot" 0 rows 2] assms by fastforce
  then show ?thesis using assms(4) by (simp add: snapshot_flow_def run_pipeline_def)
qed

end
