(* ===== verification/Mlops.thy ===== *)
theory Mlops
  imports Dataset
begin

text \<open>
  Measuring and promoting models: \<open>dealfinder/ops.py\<close> (cost, budget, drift), \<open>dealfinder/evals.py\<close> (the
  golden set, the two rankers, the gate) and \<open>dealfinder/mlops.py\<close> (drift, retrain, gate, promotion). What
  numpy calls \<open>nan\<close> is \<open>None\<close>; \<open>show_float\<close> is Python's text of a float, a parameter.
\<close>

section \<open>Cost and drift\<close>

definition PRICES :: "(string, pyfloat \<times> pyfloat) dict" where
  "PRICES = [(''gpt-4o-mini'', (0.15, 0.60)), (''gpt-4o'', (2.50, 10.0))]"

record model_call =
  mc_model :: string
  mc_cost :: pyfloat
  mc_in :: int
  mc_out :: int

definition record_call :: "string \<Rightarrow> int \<Rightarrow> int \<Rightarrow> model_call list \<Rightarrow> (pyfloat \<times> model_call list) option" where
  \<comment> \<open>\<open>CostTracker.record\<close>; \<open>None\<close>: a model without a price\<close>
  "record_call model in_tok out_tok calls =
     (case dict_get PRICES model of
        None \<Rightarrow> None
      | Some (p_in, p_out) \<Rightarrow>
          (let cost = (of_int in_tok * p_in + of_int out_tok * p_out) / 1000000
           in Some (cost, calls @ [\<lparr>mc_model = model, mc_cost = cost, mc_in = in_tok, mc_out = out_tok\<rparr>])))"

definition total_cost :: "model_call list \<Rightarrow> pyfloat" where
  "total_cost calls = py_sum (map mc_cost calls)"

definition by_model :: "model_call list \<Rightarrow> (string, pyfloat) dict" where
  "by_model calls = foldl (\<lambda>out c. dict_set (mc_model c) (dict_get_or out (mc_model c) 0 + mc_cost c) out) [] calls"

definition budget_status :: "pyfloat \<Rightarrow> pyfloat \<Rightarrow> string option" where
  \<comment> \<open>\<open>None\<close>: division by a budget of zero\<close>
  "budget_status spent budget =
     (if budget = 0 then None
      else let frac = spent / budget in Some (if frac < 0.8 then ''ok'' else if frac < 1 then ''warn'' else ''over''))"

definition shares :: "pyfloat list \<Rightarrow> pyfloat list" where
  "shares xs = map (\<lambda>x. max (x / sum_list xs) 0.000001) xs"

definition population_stability_index :: "pyfloat list \<Rightarrow> pyfloat list \<Rightarrow> pyfloat option" where
  \<comment> \<open>over histograms of one length; a total of zero makes every share \<open>nan\<close>\<close>
  "population_stability_index ref cur =
     (if sum_list ref = 0 \<or> sum_list cur = 0 then None
      else Some (sum_list (map2 (\<lambda>r c. (c - r) * ln (c / r)) (shares ref) (shares cur))))"

definition has_drifted :: "pyfloat list \<Rightarrow> pyfloat list \<Rightarrow> pyfloat \<Rightarrow> bool" where
  "has_drifted ref cur threshold =
     (case population_stability_index ref cur of None \<Rightarrow> False | Some psi \<Rightarrow> psi \<ge> threshold)"

section \<open>The golden set and the rankers\<close>

definition GATE_K :: int where "GATE_K = 5"
definition GATE_PRECISION :: pyfloat where "GATE_PRECISION = 0.80"

definition HEADPHONE_LABELS :: "(string \<times> string) list" where
  "HEADPHONE_LABELS =
     [(''Cowin SE7'', ''suspicious''), (''Anker Soundcore Q20i'', ''deal''), (''Bose QuietComfort 45'', ''suspicious''),
      (''JBL Tune 770NC'', ''deal''), (''Sony WH-CH720N Noise'', ''deal''), (''Sony WH-CH720N/P'', ''deal''),
      (''Soundcore Space 2'', ''deal''), (''Sony WH-1000XM5 Wireless Headphones'', ''fair''),
      (''Skullcandy Crusher ANC 2'', ''overpriced''), (''JBL Live 770NC'', ''overpriced''),
      (''WH-1000XM5 Wireless Noise-Canceling'', ''overpriced''), (''Beats Studio Pro'', ''overpriced''),
      (''Bose QuietComfort Noise Cancelling'', ''overpriced''), (''Sony WH-1000XM6'', ''overpriced''),
      (''Bose QuietComfort Ultra'', ''overpriced'')]"

definition CROSS_LABELS :: "(string \<times> string) list" where
  "CROSS_LABELS =
     [(''Kindle Paperwhite'', ''suspicious''), (''Samsung Galaxy Tab A11+'', ''suspicious''),
      (''Armitron Link Smart Watch'', ''deal''), (''Arlo Ultra 3'', ''overpriced''), (''PNY NVIDIA RTX PRO 6000'', ''overpriced'')]"

definition GOLDEN_LABELS :: "(string \<times> string) list" where "GOLDEN_LABELS = HEADPHONE_LABELS @ CROSS_LABELS"

record golden =
  g_id :: string
  g_title :: string
  g_category :: string
  g_price :: pyfloat
  g_median :: pyfloat
  g_label :: string

definition resolve :: "row list \<Rightarrow> string \<Rightarrow> load_error + row" where
  \<comment> \<open>the first of the rows whose title contains the needle\<close>
  "resolve items needle =
     andthen (collect (\<lambda>r. andthen (text_col ''title'' r) (\<lambda>t. Inr (py_in (py_lower needle) (py_lower t), r))) items) (\<lambda>rs.
       case find fst rs of None \<Rightarrow> Inl (Key_Error needle) | Some (b, r) \<Rightarrow> Inr r)"

definition golden_row :: "row list \<Rightarrow> string \<times> string \<Rightarrow> load_error + golden" where
  "golden_row items nl =
     andthen (resolve items (fst nl)) (\<lambda>r.
     andthen (text_col ''id'' r) (\<lambda>i.
     andthen (text_col ''title'' r) (\<lambda>t.
     andthen (text_col ''category'' r) (\<lambda>c.
     andthen (num_col ''price'' r) (\<lambda>p.
     andthen (num_col ''median_price_at_capture'' r) (\<lambda>m.
       Inr \<lparr>g_id = i, g_title = t, g_category = c, g_price = p, g_median = m, g_label = snd nl\<rparr>))))))"

definition load_golden :: "json \<Rightarrow> load_error + golden list" where
  "load_golden data = andthen (load_snapshot data) (\<lambda>items. collect (golden_row items) GOLDEN_LABELS)"

type_synonym ranker = "golden list \<Rightarrow> golden list"

definition median_only_ranker :: ranker where
  "median_only_ranker gs = sort_key (\<lambda>g. - median_signal (g_price g) (g_median g)) gs"

definition EVAL_SUSPICIOUS_FRAC :: pyfloat where "EVAL_SUSPICIOUS_FRAC = 0.70"

definition golden_score :: "fitter \<Rightarrow> product list \<Rightarrow> golden \<Rightarrow> pyfloat" where
  "golden_score fit products g =
     (let m = median_signal (g_price g) (g_median g) in
      case (category_models fit products (g_category g), dict_get (by_id products) (g_id g)) of
        (Some model, Some p) \<Rightarrow>
          (let rf = residual_fraction (price p) (model (featurize p))
           in if m \<ge> 0.15 \<and> rf > EVAL_SUSPICIOUS_FRAC then m - 1 else m)
      | _ \<Rightarrow> m)"

definition two_signal_ranker :: "fitter \<Rightarrow> product list \<Rightarrow> ranker" where
  "two_signal_ranker fit products gs = sort_key (\<lambda>g. - golden_score fit products g) gs"

definition eval_precision :: "golden list \<Rightarrow> int \<Rightarrow> pyfloat" where
  \<comment> \<open>\<open>precision_at_k\<close> of the golden rows\<close>
  "eval_precision gs k =
     (let t = py_slice_to k gs in of_nat (length (filter (\<lambda>g. g_label g = ''deal'') t)) / of_nat (max 1 (length t)))"

record eval_report =
  ev_n :: nat
  ev_precision :: pyfloat
  ev_gate :: pyfloat
  ev_passes :: bool
  ev_top5 :: "(string \<times> string) list"

definition evaluate :: "ranker \<Rightarrow> golden list \<Rightarrow> eval_report" where
  "evaluate ranker gs =
     (let ordered = ranker gs; p = eval_precision ordered GATE_K
      in \<lparr>ev_n = length gs, ev_precision = p, ev_gate = GATE_PRECISION, ev_passes = (p \<ge> GATE_PRECISION),
          ev_top5 = map (\<lambda>g. (g_title g, g_label g)) (py_slice_to GATE_K ordered)\<rparr>)"

definition ab_compare :: "string \<Rightarrow> pyfloat \<Rightarrow> string \<Rightarrow> pyfloat \<Rightarrow> string \<times> pyfloat" where
  "ab_compare name_a a name_b b = (if a \<ge> b then name_a else name_b, py_round 3 \<bar>a - b\<bar>)"

section \<open>One cycle of the loop\<close>

definition DRIFT_THRESHOLD :: pyfloat where "DRIFT_THRESHOLD = 0.2"

definition reference_category_histogram :: "product list \<Rightarrow> pyfloat list" where
  \<comment> \<open>eleven bins of width one, and every code lies in one\<close>
  "reference_category_histogram ps =
     map (\<lambda>c. of_nat (length (filter (\<lambda>p. category_code (category p) = int c) ps))) [0..<11]"

definition shift_distribution :: "pyfloat list \<Rightarrow> pyfloat \<Rightarrow> pyfloat list" where
  "shift_distribution ref shift =
     (let moved = map (\<lambda>x. x * shift) ref; h = map2 (\<lambda>x m. x - m) ref moved
      in py_slice_to (- 3) h @ map (\<lambda>x. x + sum_list moved / 3) (py_slice_from (- 3) h))"

record drift_report =
  dr_psi :: "pyfloat option"
  dr_threshold :: pyfloat
  dr_drifted :: bool
  dr_frac :: pyfloat

definition drift_action :: "drift_report \<Rightarrow> string" where
  "drift_action d = (if dr_drifted d then ''retrain'' else ''hold'')"

definition check_drift :: "product list \<Rightarrow> pyfloat \<Rightarrow> drift_report" where
  "check_drift ps shift =
     (let ref = reference_category_histogram ps; cur = shift_distribution ref shift
      in \<lparr>dr_psi = map_option (py_round 4) (population_stability_index ref cur), dr_threshold = DRIFT_THRESHOLD,
          dr_drifted = has_drifted ref cur DRIFT_THRESHOLD, dr_frac = shift\<rparr>)"

record retrain_report =
  rt_linear_mae :: pyfloat
  rt_gbdt_mae :: pyfloat
  rt_improvement :: pyfloat
  rt_n_train :: nat
  rt_n_test :: nat

record gate_report =
  gt_challenger :: string
  gt_precision :: pyfloat
  gt_gate :: pyfloat
  gt_passes :: bool

definition eval_gate :: "(string, ranker) dict \<Rightarrow> golden list \<Rightarrow> string \<Rightarrow> load_error + gate_report" where
  "eval_gate rankers gs challenger =
     (case dict_get rankers challenger of
        None \<Rightarrow> Inl (Key_Error challenger)
      | Some ranker \<Rightarrow> (let res = evaluate ranker gs
          in Inr \<lparr>gt_challenger = challenger, gt_precision = ev_precision res, gt_gate = GATE_PRECISION, gt_passes = ev_passes res\<rparr>))"

record decision =
  dc_drift :: drift_report
  dc_retrained :: bool
  dc_retrain :: "retrain_report option"
  dc_gate :: "gate_report option"
  dc_champion :: string
  dc_champion_precision :: pyfloat
  dc_challenger :: string
  dc_promote :: bool
  dc_reason :: string
  dc_trace :: "string list"

definition champion_precision :: "(string, ranker) dict \<Rightarrow> golden list \<Rightarrow> string option \<Rightarrow> load_error + pyfloat" where
  "champion_precision rankers gs champion =
     (case champion of
        None \<Rightarrow> Inr 0
      | Some c \<Rightarrow> (case dict_get rankers c of None \<Rightarrow> Inl (Key_Error c) | Some ranker \<Rightarrow> Inr (ev_precision (evaluate ranker gs))))"

definition arrow :: string where "arrow = map char_of [226, 134, 146 :: nat]"
definition at_least :: string where "at_least = map char_of [226, 137, 165 :: nat]"
definition at_most :: string where "at_most = map char_of [226, 137, 164 :: nat]"

definition or_none :: "string option \<Rightarrow> string" where
  "or_none champion = (case champion of None \<Rightarrow> ''(none)'' | Some c \<Rightarrow> if c = [] then ''(none)'' else c)"

definition promotion_reason :: "(pyfloat \<Rightarrow> string) \<Rightarrow> gate_report \<Rightarrow> string option \<Rightarrow> pyfloat \<Rightarrow> string" where
  "promotion_reason show_float gate champion champ_p =
     (let who = gt_challenger gate; p = show_float (gt_precision gate);
          name = (case champion of None \<Rightarrow> ''None'' | Some c \<Rightarrow> c)
      in if gt_passes gate \<and> gt_precision gate > champ_p
         then ''promoted: '' @ who @ '' passed the gate (p@5='' @ p @ '' '' @ at_least @ '' '' @ show_float (gt_gate gate) @
           '') and beat champion '' @ name @ '' ('' @ show_float champ_p @ '')''
         else if \<not> gt_passes gate
         then ''rejected: '' @ who @ '' failed the eval gate (p@5='' @ p @ '' < '' @ show_float (gt_gate gate) @ '')''
         else ''rejected: '' @ who @ '' passed the gate but did not beat champion '' @ name @ '' ('' @ p @ '' '' @ at_most @
           '' '' @ show_float champ_p @ '')'')"

definition drift_line :: "(pyfloat \<Rightarrow> string) \<Rightarrow> drift_report \<Rightarrow> string" where
  "drift_line show_float d =
     ''drift: PSI='' @ (case dr_psi d of None \<Rightarrow> ''nan'' | Some x \<Rightarrow> show_float x) @ '' vs threshold '' @
     show_float (dr_threshold d) @ '' '' @ arrow @ '' '' @ (if dr_drifted d then ''DRIFT, retrain'' else ''no drift, hold'')"

definition retrain_line :: "(pyfloat \<Rightarrow> string) \<Rightarrow> retrain_report \<Rightarrow> string" where
  "retrain_line show_float r =
     ''retrain: GBDT MAE $'' @ show_float (rt_gbdt_mae r) @ '' vs linear $'' @ show_float (rt_linear_mae r) @ '' ('' @
     show_float (rt_improvement r) @ ''% better) on '' @ nat_digits (rt_n_train r) @ ''/'' @ nat_digits (rt_n_test r) @ '' split''"

definition gate_line :: "(pyfloat \<Rightarrow> string) \<Rightarrow> gate_report \<Rightarrow> string" where
  "gate_line show_float g =
     ''gate: '' @ gt_challenger g @ '' precision@'' @ int_str GATE_K @ ''='' @ show_float (gt_precision g) @ '' vs '' @
     show_float (gt_gate g) @ '' '' @ arrow @ '' '' @ (if gt_passes g then ''PASS'' else ''FAIL'')"

definition run_mlops_cycle ::
  "(pyfloat \<Rightarrow> string) \<Rightarrow> product list \<Rightarrow> (string, ranker) dict \<Rightarrow> golden list \<Rightarrow> (load_error + retrain_report) \<Rightarrow>
   pyfloat \<Rightarrow> string \<Rightarrow> string option \<Rightarrow> load_error + decision" where
  \<comment> \<open>\<open>retrain\<close> is what \<open>retrain()\<close> returns\<close>
  "run_mlops_cycle show_float ps rankers gs retrain shift challenger champion =
     (let drift = check_drift ps shift in
      if \<not> dr_drifted drift then
        andthen (champion_precision rankers gs champion) (\<lambda>champ_p.
          Inr \<lparr>dc_drift = drift, dc_retrained = False, dc_retrain = None, dc_gate = None, dc_champion = or_none champion,
            dc_champion_precision = champ_p, dc_challenger = challenger, dc_promote = False,
            dc_reason = ''no drift detected '' @ em_dash @ '' champion retained, nothing to promote'',
            dc_trace = [drift_line show_float drift, ''no retrain (no drift); champion retained'']\<rparr>)
      else
        andthen retrain (\<lambda>rr.
        andthen (eval_gate rankers gs challenger) (\<lambda>gate.
        andthen (champion_precision rankers gs champion) (\<lambda>champ_p.
          (let promote = (gt_passes gate \<and> gt_precision gate > champ_p);
               reason = promotion_reason show_float gate champion champ_p
           in Inr \<lparr>dc_drift = drift, dc_retrained = True, dc_retrain = Some rr, dc_gate = Some gate,
                dc_champion = or_none champion, dc_champion_precision = champ_p, dc_challenger = challenger,
                dc_promote = promote, dc_reason = reason,
                dc_trace = [drift_line show_float drift, retrain_line show_float rr, gate_line show_float gate, reason]\<rparr>)))))"

definition RANKERS :: "fitter \<Rightarrow> product list \<Rightarrow> (string, ranker) dict" where
  "RANKERS fit products = [(''two_signal'', two_signal_ranker fit products), (''median_only'', median_only_ranker)]"

section \<open>Cost and drift: what holds\<close>

lemma by_model_fold:
  "sum_list (map snd (foldl (\<lambda>out c. dict_set (mc_model c) (dict_get_or out (mc_model c) 0 + mc_cost c) out) out calls))
     = sum_list (map snd out) + sum_list (map mc_cost calls)"
proof (induction calls arbitrary: out)
  case (Cons c calls)
  have "sum_list (map snd (dict_set k (dict_get_or d k 0 + x) d)) = sum_list (map snd d) + x" for k and d :: "(string, pyfloat) dict" and x
    by (induction d) (auto simp: dict_get_or_def dict_get_def)
  then show ?case by (simp add: Cons.IH)
qed simp

lemma cost_is_attributed: "sum_list (map snd (by_model calls)) = total_cost calls"
  by (simp add: by_model_def total_cost_def by_model_fold)

lemma total_after_record:
  "record_call model i n calls = Some (cost, calls') \<Longrightarrow> total_cost calls' = total_cost calls + cost"
  by (auto simp: record_call_def total_cost_def Let_def split: option.splits)

lemma shares_pos: "r \<in> set (shares xs) \<Longrightarrow> 0 < r"
proof -
  have "0 < max x (0.000001 :: pyfloat)" for x by (simp add: less_max_iff_disj)
  then show "r \<in> set (shares xs) \<Longrightarrow> 0 < r" by (auto simp: shares_def)
qed

lemma psi_term: "0 < r \<Longrightarrow> 0 < c \<Longrightarrow> 0 \<le> (c - r) * ln (c / (r :: pyfloat))"
  by (cases "c \<ge> r") (auto simp: mult_nonneg_nonneg mult_nonpos_nonpos ln_div)

lemma psi_nonneg: "population_stability_index ref cur = Some psi \<Longrightarrow> 0 \<le> psi"
proof -
  have "0 \<le> sum_list (map2 (\<lambda>r c. (c - r) * ln (c / r)) rs cs)"
    if "\<forall>r \<in> set rs. 0 < r" "\<forall>c \<in> set cs. 0 < c" for rs cs :: "pyfloat list"
  proof (intro sum_list_nonneg)
    fix x assume "x \<in> set (map2 (\<lambda>r c. (c - r) * ln (c / r)) rs cs)"
    then obtain r c where rc: "(r, c) \<in> set (zip rs cs)" and x: "x = (c - r) * ln (c / r)" by auto
    from rc that have "0 < r" "0 < c" by (auto dest: set_zip_leftD set_zip_rightD)
    then show "0 \<le> x" unfolding x by (rule psi_term)
  qed
  then show "population_stability_index ref cur = Some psi \<Longrightarrow> 0 \<le> psi"
    using shares_pos by (auto simp: population_stability_index_def split: if_splits)
qed

lemma no_shift_no_drift: "population_stability_index ref ref = Some psi \<Longrightarrow> psi = 0"
proof -
  have "map2 (\<lambda>r c. (c - r) * ln (c / r)) xs xs = map (\<lambda>x. 0) xs" for xs :: "pyfloat list"
    by (induction xs) simp_all
  then show "population_stability_index ref ref = Some psi \<Longrightarrow> psi = 0"
    by (auto simp: population_stability_index_def sum_list_0 split: if_splits)
qed

lemma shift_keeps_mass: "length ref \<ge> 3 \<Longrightarrow> sum_list (shift_distribution ref f) = sum_list ref"
proof -
  assume n: "length ref \<ge> 3"
  define h where "h = map2 (\<lambda>x m. x - m) ref (map (\<lambda>x. x * f) ref)"
  have h: "length h = length ref" "sum_list h = sum_list ref - sum_list (map (\<lambda>x. x * f) ref)"
    unfolding h_def by (simp, induction ref) simp_all
  have "length (py_slice_from (- 3) h) = 3" using n h(1) by (simp add: py_slice_from_def)
  then have "sum_list (map (\<lambda>x. x + d / 3) (py_slice_from (- 3) h)) = sum_list (py_slice_from (- 3) h) + d" for d :: pyfloat
    by (simp add: sum_list_addf sum_list_triv)
  moreover have "sum_list (py_slice_to (- 3) h) + sum_list (py_slice_from (- 3) h) = sum_list h"
    by (simp only: sum_list_append [symmetric] py_slice_append)
  ultimately show ?thesis by (simp add: shift_distribution_def Let_def h_def [symmetric] h(2))
qed

section \<open>The gate and the promotion: what holds\<close>

lemma eval_precision_bounds: "0 \<le> eval_precision gs k \<and> eval_precision gs k \<le> 1"
proof -
  have "length (filter P xs) \<le> max 1 (length xs)" for P :: "golden \<Rightarrow> bool" and xs
    by (rule le_trans [OF length_filter_le]) simp
  then show ?thesis by (simp add: eval_precision_def Let_def)
qed

lemma rankers_permute: "mset (median_only_ranker gs) = mset gs" "mset (two_signal_ranker fit ps gs) = mset gs"
  by (simp_all add: median_only_ranker_def two_signal_ranker_def)

text \<open>The demotion: a row the price model calls a trap ranks below every row that is not above its median.\<close>

lemma trap_below_deals:
  assumes "golden_score fit ps g = median_signal (g_price g) (g_median g) - 1" and "0 < g_price g" and "0 < g_median g"
    and "0 \<le> golden_score fit ps g'"
  shows "golden_score fit ps g < golden_score fit ps g'"
proof -
  have "median_signal (g_price g) (g_median g) < 1" using assms(2,3) by (simp add: median_signal_def field_simps)
  then show ?thesis using assms(1,4) by simp
qed

lemma promoted_only_if_better:
  assumes "run_mlops_cycle sh ps rankers gs retrain f challenger champion = Inr d"
  shows "dc_promote d \<longrightarrow> dc_retrained d \<and> (\<exists>r. dict_get rankers challenger = Some r
      \<and> ev_precision (evaluate r gs) \<ge> GATE_PRECISION \<and> ev_precision (evaluate r gs) > dc_champion_precision d)"
    and "dc_retrained d \<longleftrightarrow> has_drifted (reference_category_histogram ps) (shift_distribution (reference_category_histogram ps) f) DRIFT_THRESHOLD"
    and "champion_precision rankers gs champion = Inr (dc_champion_precision d)"
  using assms unfolding run_mlops_cycle_def Let_def
  by (auto simp: andthen_eq_Inr eval_gate_def evaluate_def Let_def check_drift_def split: if_splits option.splits)

end
