(* ===== verification/Tracking.thy ===== *)
theory Tracking
  imports Mlops
begin

text \<open>
  The price models and their bookkeeping: \<open>dealfinder/models.py\<close> (the comparison with the boosted model, the
  forecaster) and \<open>dealfinder/tracking.py\<close> (the run records, the selection of the winner, the registry).
  Parameters: \<open>perm\<close> (numpy's seeded permutation), \<open>fit\<close> (the linear model), \<open>pca\<close> and \<open>boost\<close> (scikit-learn's
  PCA and gradient boosting: fitted on the training rows, applied to any rows), \<open>polyfit\<close> (the least-squares line,
  slope and intercept), and the torch loops' results (\<open>Torch_Head\<close>). A mean over no row, \<open>nan\<close> in numpy, is the error \<open>Bad_Shape\<close>.
\<close>

section \<open>The split and the comparison\<close>

definition TEST_FRAC :: pyfloat where "TEST_FRAC = 0.25"
definition PCA_COMPONENTS :: nat where "PCA_COMPONENTS = 16"

definition split_indices :: "(nat \<Rightarrow> nat list) \<Rightarrow> nat \<Rightarrow> nat list \<times> nat list" where
  \<comment> \<open>\<open>_split\<close>\<close>
  "split_indices perm n =
     (let idx = perm n; n_test = round_half_even (of_nat n * TEST_FRAC) in (py_slice_from n_test idx, py_slice_to n_test idx))"

definition pick :: "'a list \<Rightarrow> nat list \<Rightarrow> 'a list" where
  \<comment> \<open>\<open>X[idx]\<close>\<close>
  "pick xs js = map (\<lambda>i. xs ! i) js"

type_synonym matrix = "pyfloat list list"
type_synonym reducer = "nat \<Rightarrow> matrix \<Rightarrow> matrix \<Rightarrow> matrix"
type_synonym booster = "matrix \<Rightarrow> pyfloat list \<Rightarrow> matrix \<Rightarrow> pyfloat list"

definition hand_features :: "product list \<Rightarrow> matrix" where
  "hand_features ps = map (map of_int) (feature_matrix ps)"

definition joined :: "reducer \<Rightarrow> nat \<Rightarrow> matrix \<Rightarrow> matrix \<Rightarrow> nat list \<Rightarrow> nat list \<Rightarrow> matrix \<times> matrix" where
  \<comment> \<open>hand features beside the compressed embeddings; the PCA sees the training rows only\<close>
  "joined pca components hand emb tr te =
     (let n_comp = min (min components (length tr)) (length (hd emb));
          reduce = pca n_comp (pick emb tr)
      in (map2 (@) (pick hand tr) (reduce (pick emb tr)), map2 (@) (pick hand te) (reduce (pick emb te))))"

record comparison =
  cm_category :: string
  cm_n_train :: nat
  cm_n_test :: nat
  cm_linear_mae :: pyfloat
  cm_gbdt_mae :: pyfloat
  cm_improvement :: pyfloat

definition linear_predictions :: "fitter \<Rightarrow> product list \<Rightarrow> nat list \<Rightarrow> nat list \<Rightarrow> pyfloat list" where
  "linear_predictions fit ps tr te =
     map (fit (pick (feature_matrix ps) tr) (pick (map price ps) tr)) (pick (feature_matrix ps) te)"

definition improvement :: "pyfloat \<Rightarrow> pyfloat \<Rightarrow> pyfloat" where
  "improvement lin boosted = (if lin \<noteq> 0 then (lin - boosted) / lin * 100 else 0)"

definition gbdt_vs_linear ::
  "(nat \<Rightarrow> nat list) \<Rightarrow> fitter \<Rightarrow> reducer \<Rightarrow> booster \<Rightarrow> string list \<times> matrix \<Rightarrow> product list \<Rightarrow>
   string option \<Rightarrow> bool \<Rightarrow> nat \<Rightarrow> load_error + comparison" where
  "gbdt_vs_linear perm fit pca boost cache all_products category_wanted with_embeddings components =
     (let ps = (case category_wanted of None \<Rightarrow> all_products | Some c \<Rightarrow> filter (\<lambda>p. category p = c) all_products);
          (tr, te) = split_indices perm (length ps); y = map price ps; hand = hand_features ps
      in if tr = [] \<or> te = [] then Inl Bad_Shape
         else
           (let linear_mae = mae (pick y te) (linear_predictions fit ps tr te) in
            andthen
              (if with_embeddings
               then andthen (title_vectors (fst cache) (snd cache) (map p_id ps)) (\<lambda>emb. Inr (joined pca components hand emb tr te))
               else Inr (pick hand tr, pick hand te)) (\<lambda>(x_tr, x_te).
              (let gbdt_mae = mae (pick y te) (boost x_tr (pick y tr) x_te) in
               Inr \<lparr>cm_category = (case category_wanted of None \<Rightarrow> ''all'' | Some c \<Rightarrow> if c = [] then ''all'' else c),
                 cm_n_train = length tr, cm_n_test = length te, cm_linear_mae = py_round 2 linear_mae,
                 cm_gbdt_mae = py_round 2 gbdt_mae, cm_improvement = py_round 1 (improvement linear_mae gbdt_mae)\<rparr>))))"

definition retrain :: "load_error + comparison \<Rightarrow> load_error + retrain_report" where
  \<comment> \<open>\<open>mlops.retrain\<close>, of the default comparison\<close>
  "retrain comparison =
     andthen comparison (\<lambda>c. Inr \<lparr>rt_linear_mae = cm_linear_mae c, rt_gbdt_mae = cm_gbdt_mae c,
       rt_improvement = cm_improvement c, rt_n_train = cm_n_train c, rt_n_test = cm_n_test c\<rparr>)"

section \<open>The forecaster\<close>

definition synthetic_price_history :: "pyfloat \<Rightarrow> nat \<Rightarrow> (nat \<Rightarrow> pyfloat) \<Rightarrow> pyfloat list option" where
  \<comment> \<open>\<open>noise\<close> is the seeded normal noise; \<open>None\<close> is the division by \<open>n - 1 = 0\<close>\<close>
  "synthetic_price_history anchor n noise =
     (if n = 1 then None
      else Some (map (\<lambda>t. anchor * 1.06 + (- anchor * 0.06 / (of_nat n - 1)) * of_nat t + noise t) [0..<n]))"

record forecast =
  fo_last :: pyfloat
  fo_next :: pyfloat
  fo_slope :: pyfloat
  fo_drop_pct :: pyfloat
  fo_will_drop :: bool
  fo_illustrative :: bool

definition forecast_price_drop :: "(pyfloat list \<Rightarrow> pyfloat \<times> pyfloat) \<Rightarrow> pyfloat list \<Rightarrow> forecast option" where
  \<comment> \<open>\<open>None\<close> is the \<open>ValueError\<close>\<close>
  "forecast_price_drop polyfit h =
     (if length h < 2 then None
      else (let (slope, intercept) = polyfit h; nxt = intercept + slope * of_nat (length h); final = last h;
                drop_pct = (if final \<noteq> 0 then (final - nxt) / final * 100 else 0)
            in Some \<lparr>fo_last = py_round 2 final, fo_next = py_round 2 nxt, fo_slope = py_round 3 slope,
                 fo_drop_pct = py_round 2 drop_pct, fo_will_drop = (nxt < final), fo_illustrative = True\<rparr>))"

section \<open>Runs and the registry\<close>

record run_record =
  rr_name :: string
  rr_contract :: string
  rr_mae :: pyfloat
  rr_r2 :: "pyfloat option"
  rr_params :: "(string, string) dict"
  rr_selectable :: bool

definition contract_matrix ::
  "(nat \<Rightarrow> nat list) \<Rightarrow> reducer \<Rightarrow> string list \<times> matrix \<Rightarrow> product list \<Rightarrow>
   load_error + (matrix \<times> matrix \<times> pyfloat list \<times> pyfloat list)" where
  "contract_matrix perm pca cache ps =
     (let (tr, te) = split_indices perm (length ps); y = map price ps in
      if tr = [] \<or> te = [] then Inl Bad_Shape
      else andthen (title_vectors (fst cache) (snd cache) (map p_id ps)) (\<lambda>emb.
        (let (x_tr, x_te) = joined pca PCA_COMPONENTS (hand_features ps) emb tr te in Inr (x_tr, x_te, pick y tr, pick y te))))"

definition same_features :: "booster \<Rightarrow> booster \<Rightarrow> (matrix \<Rightarrow> matrix \<Rightarrow> pyfloat list \<Rightarrow> pyfloat list \<Rightarrow> pyfloat) option \<Rightarrow>
   matrix \<times> matrix \<times> pyfloat list \<times> pyfloat list \<Rightarrow> run_record list" where
  \<comment> \<open>the runs on the shared matrix: the linear model, the boosted one, and torch where it is installed\<close>
  "same_features lin boost torch m =
     (case m of (x_tr, x_te, y_tr, y_te) \<Rightarrow>
        [\<lparr>rr_name = ''linear'', rr_contract = ''fair-price'', rr_mae = py_round 2 (mae y_te (lin x_tr y_tr x_te)),
           rr_r2 = Some (py_round 3 (r2 y_te (lin x_tr y_tr x_te))),
           rr_params = [(''model'', ''LinearModel''), (''features'', ''hand+emb16''), (''solver'', ''normal-eq'')], rr_selectable = True\<rparr>,
         \<lparr>rr_name = ''gbdt'', rr_contract = ''fair-price'', rr_mae = py_round 2 (mae y_te (boost x_tr y_tr x_te)),
           rr_r2 = Some (py_round 3 (r2 y_te (boost x_tr y_tr x_te))),
           rr_params = [(''model'', ''GradientBoostingRegressor''), (''features'', ''hand+emb16''), (''random_state'', ''0'')], rr_selectable = True\<rparr>] @
        (case torch of None \<Rightarrow> [] | Some train \<Rightarrow>
          [\<lparr>rr_name = ''torch'', rr_contract = ''fair-price'', rr_mae = train x_tr x_te y_tr y_te, rr_r2 = None,
            rr_params = [(''model'', ''MLP''), (''features'', ''hand+emb16''), (''epochs'', ''300''), (''hidden'', ''16''), (''lr'', ''0.05''), (''seed'', ''0'')],
            rr_selectable = True\<rparr>]))"

definition documented_baselines :: "comparison \<Rightarrow> (pyfloat \<times> nat) option \<Rightarrow> run_record list" where
  \<comment> \<open>\<open>Some\<close>: mean error and epochs of the hand-only torch model\<close>
  "documented_baselines doc torch =
     \<lparr>rr_name = ''linear_baseline'', rr_contract = ''documented-baseline'', rr_mae = cm_linear_mae doc, rr_r2 = None,
       rr_params = [(''model'', ''LinearModel''), (''features'', ''hand-only''), (''source'', ''Part 21'')], rr_selectable = False\<rparr> #
     (case torch of None \<Rightarrow> [] | Some (m, epochs) \<Rightarrow>
       [\<lparr>rr_name = ''torch_baseline'', rr_contract = ''documented-baseline'', rr_mae = m, rr_r2 = None,
         rr_params = [(''model'', ''MLP''), (''features'', ''hand-only''), (''epochs'', nat_digits epochs)], rr_selectable = False\<rparr>])"

definition winner_of :: "run_record list \<Rightarrow> run_record option" where
  "winner_of runs = py_min rr_mae (filter rr_selectable runs)"

datatype mlflow_call =
    Start_Run string
  | Log_Params "(string, string) dict"
  | Set_Tag string string
  | Log_Metric string pyfloat
  | Register_Model string string
  | Create_Registered string
  | Tag_Registered string string string

definition log_run :: "run_record \<Rightarrow> mlflow_call list" where
  "log_run r =
     [Start_Run (rr_name r), Log_Params (rr_params r), Set_Tag ''contract'' (rr_contract r),
      Set_Tag ''selectable'' (if rr_selectable r then ''True'' else ''False''), Log_Metric ''mae'' (rr_mae r)] @
     (case rr_r2 r of None \<Rightarrow> [] | Some x \<Rightarrow> [Log_Metric ''r2'' x])"

definition winner_run_id :: "run_record \<Rightarrow> (run_record \<times> string) list \<Rightarrow> string option" where
  \<comment> \<open>the id given to the winner's run; a later run of the name wins\<close>
  "winner_run_id winner started = map_option snd (find (\<lambda>(r, i). rr_name r = rr_name winner) (rev started))"

definition register_winner :: "(pyfloat \<Rightarrow> string) \<Rightarrow> bool \<Rightarrow> run_record \<Rightarrow> string option \<Rightarrow> mlflow_call list" where
  \<comment> \<open>the flag: registering the run's artifact works; otherwise the entry is made by hand\<close>
  "register_winner show_float works winner run_id =
     (let reg = ''dealfinder-fair-price'' in
      Register_Model (''runs:/'' @ (case run_id of None \<Rightarrow> ''None'' | Some i \<Rightarrow> i) @ ''/model'') reg #
      (if works then [] else
        [Create_Registered reg, Tag_Registered reg ''winner_run_id'' (case run_id of None \<Rightarrow> [] | Some i \<Rightarrow> i),
         Tag_Registered reg ''winner'' (rr_name winner), Tag_Registered reg ''winner_mae'' (show_float (rr_mae winner))]))"

definition track_uri :: "string option \<Rightarrow> string \<Rightarrow> string" where
  \<comment> \<open>\<open>local_tracking\<close>: a file in a fresh directory unless a store is named\<close>
  "track_uri uri tmp = (case uri of None \<Rightarrow> ''sqlite:///'' @ tmp @ ''/mlflow.db'' | Some u \<Rightarrow> u)"

definition with_tracking :: "string option \<Rightarrow> string \<Rightarrow> (string \<Rightarrow> 'e + 'a) \<Rightarrow> string \<Rightarrow> ('e + 'a) \<times> string" where
  \<comment> \<open>the body under the local store; the previous store is set again however the body ends\<close>
  "with_tracking uri tmp body prev = (body (track_uri uri tmp), prev)"

record tracking_result =
  tk_runs :: "run_record list"
  tk_winner :: string
  tk_winner_mae :: pyfloat
  tk_uri :: string
  tk_torch :: bool

definition run_tracking ::
  "(pyfloat \<Rightarrow> string) \<Rightarrow> run_record list \<Rightarrow> (run_record \<Rightarrow> string) \<Rightarrow> bool \<Rightarrow> string option \<Rightarrow> string \<Rightarrow> bool \<Rightarrow>
   tracking_result option \<times> mlflow_call list" where
  \<comment> \<open>over the runs already trained: selection, log and registry; \<open>run_id\<close> is what the store names a run\<close>
  "run_tracking show_float runs run_id works uri tmp torch =
     (case winner_of runs of
        None \<Rightarrow> (None, [])
      | Some w \<Rightarrow>
          (Some \<lparr>tk_runs = runs, tk_winner = rr_name w, tk_winner_mae = rr_mae w, tk_uri = track_uri uri tmp, tk_torch = torch\<rparr>,
           concat (map log_run runs) @ register_winner show_float works w (winner_run_id w (map (\<lambda>r. (r, run_id r)) runs))))"

definition pad_right :: "nat \<Rightarrow> string \<Rightarrow> string" where "pad_right n s = s @ replicate (n - py_len s) (CHR '' '')"
definition pad_space :: "nat \<Rightarrow> string \<Rightarrow> string" where "pad_space n s = replicate (n - py_len s) (CHR '' '') @ s"
definition squared :: string where "squared = map char_of [194, 178 :: nat]"

definition table_line :: "string \<Rightarrow> run_record \<Rightarrow> string" where
  "table_line winner r =
     pad_right 18 (rr_name r) @ (if rr_name r = winner then '' *'' else ''  '') @ '' '' @ pad_space 9 (fmt_fixed 2 (rr_mae r)) @ ''  '' @
     (case rr_r2 r of None \<Rightarrow> ''   n/a'' | Some x \<Rightarrow> pad_space 6 (fmt_fixed 3 x)) @ ''   '' @ rr_contract r"

definition comparison_table :: "tracking_result \<Rightarrow> string" where
  "comparison_table t =
     py_join [CHR 10] ((''model                metric  MAE ($)     R'' @ squared @ ''     contract'') # map (table_line (tk_winner t)) (tk_runs t))"

section \<open>What holds\<close>

lemma split_indices_partition:
  assumes "permutes_range perm"
  shows "mset (fst (split_indices perm n)) + mset (snd (split_indices perm n)) = mset [0..<n]"
proof -
  have "mset (py_slice_from k xs) + mset (py_slice_to k xs) = mset xs" for k and xs :: "nat list"
    using arg_cong [OF py_slice_append [of k xs], of mset] by (simp only: mset_append add.commute)
  with assms show ?thesis by (simp add: split_indices_def Let_def permutes_range_def)
qed

lemma comparison_counts:
  assumes "permutes_range perm" and "gbdt_vs_linear perm fit pca boost cache ps None emb k = Inr c"
  shows "cm_n_train c + cm_n_test c = length ps"
proof -
  obtain tr te where s: "split_indices perm (length ps) = (tr, te)" by (cases "split_indices perm (length ps)") auto
  have "size (mset tr + mset te) = length ps" using split_indices_partition [OF assms(1), of "length ps"] by (simp add: s)
  moreover have "cm_n_train c = length tr \<and> cm_n_test c = length te"
    using assms(2) by (auto simp: gbdt_vs_linear_def Let_def s andthen_eq_Inr split: if_splits)
  ultimately show ?thesis by simp
qed

lemma forecast_direction:
  assumes "forecast_price_drop polyfit h = Some f" and "0 < last h"
  shows "fo_will_drop f \<Longrightarrow> 0 \<le> fo_drop_pct f" and "\<not> fo_will_drop f \<Longrightarrow> fo_drop_pct f \<le> 0"
  using assms py_round_mono [of 0 _ 2] py_round_mono [of _ 0 2]
  by (auto simp: forecast_price_drop_def Let_def split_beta split: if_splits intro!: py_round_mono [of 0 _ 2, simplified] py_round_mono [of _ 0 2, simplified] mult_nonpos_nonneg divide_nonpos_pos)

text \<open>A documented baseline never wins, however low its error; the winner has the least error of the comparable runs.\<close>

lemma winner_is_comparable:
  assumes "winner_of (same_features lin boost torch m @ documented_baselines doc tb) = Some w"
  shows "rr_contract w = ''fair-price''" and "r \<in> set (same_features lin boost torch m) \<Longrightarrow> rr_mae w \<le> rr_mae r"
proof -
  have sel: "filter rr_selectable (same_features lin boost torch m @ documented_baselines doc tb) = same_features lin boost torch m"
    by (auto simp: same_features_def documented_baselines_def split: prod.splits option.splits)
  from assms have w: "py_min rr_mae (same_features lin boost torch m) = Some w" unfolding winner_of_def sel .
  from py_min_SomeD(1) [OF w] show "rr_contract w = ''fair-price''"
    by (auto simp: same_features_def split: prod.splits option.splits)
  show "r \<in> set (same_features lin boost torch m) \<Longrightarrow> rr_mae w \<le> rr_mae r" by (rule py_min_SomeD(2) [OF w])
qed

lemma winner_exists: "\<exists>w. winner_of (same_features lin boost torch m @ rest) = Some w"
  by (cases m) (simp add: winner_of_def same_features_def py_min_def)

end
