(* ===== verification/Agent_Loop.thy ===== *)
theory Agent_Loop
  imports Prelude
begin

text \<open>
  \<open>dealfinder/agent.py\<close>: the think, act, observe loop with a human gate. The policy, the tools and the approver
  act on a world \<open>'w\<close>, which stands for whatever they read and change; \<open>'a\<close> are arguments, \<open>'o\<close> observations
  and answers. A tool or a policy that raises ends the run, as does a tool name that is not registered.
\<close>

record ('a, 'o, 'w) tool =
  tl_name :: string
  tl_fn :: "'a \<Rightarrow> 'w \<Rightarrow> 'o option \<times> 'w"  \<comment> \<open>\<open>None\<close>: the tool raised\<close>
  tl_requires_approval :: bool

record ('a, 'o) action =
  ac_thought :: string
  ac_tool :: "string option"  \<comment> \<open>\<open>None\<close>: finish\<close>
  ac_args :: 'a
  ac_answer :: 'o

datatype 'o observation = Observed 'o | Blocked

record ('a, 'o) step =
  st_thought :: string
  st_tool :: "string option"
  st_args :: "'a option"  \<comment> \<open>\<open>None\<close>: the empty arguments of the last step\<close>
  st_observation :: "'o observation"

record ('a, 'o, 'w) agent =
  ag_tools :: "(string, ('a, 'o, 'w) tool) dict"
  ag_policy :: "string \<Rightarrow> ('a, 'o) step list \<Rightarrow> 'w \<Rightarrow> ('a, 'o) action option \<times> 'w"  \<comment> \<open>\<open>None\<close>: the policy raised\<close>
  ag_approve :: "string \<Rightarrow> 'a \<Rightarrow> 'w \<Rightarrow> bool \<times> 'w"
  ag_max_steps :: int

definition new_agent ::
  "('a, 'o, 'w) tool list \<Rightarrow> (string \<Rightarrow> ('a, 'o) step list \<Rightarrow> 'w \<Rightarrow> ('a, 'o) action option \<times> 'w) \<Rightarrow>
   (string \<Rightarrow> 'a \<Rightarrow> 'w \<Rightarrow> bool \<times> 'w) option \<Rightarrow> int \<Rightarrow> ('a, 'o, 'w) agent" where
  \<comment> \<open>a later tool of a name replaces the earlier; without an approver every call is approved\<close>
  "new_agent tools policy approve max_steps =
     \<lparr>ag_tools = foldl (\<lambda>d t. dict_set (tl_name t) t d) [] tools, ag_policy = policy,
      ag_approve = (case approve of None \<Rightarrow> (\<lambda>name args w. (True, w)) | Some f \<Rightarrow> f), ag_max_steps = max_steps\<rparr>"

datatype 'o outcome =
    Answered 'o
  | Out_Of_Steps
  | Policy_Raised
  | Unknown_Tool string
  | Tool_Raised string

datatype ('a, 'w) effect =
  \<comment> \<open>what the loop does beside thinking, for the statements below; the approver is asked in a world\<close>
    Asked string 'a 'w
  | Called string 'a

type_synonym ('a, 'o, 'w) run = "'o outcome \<times> ('a, 'o) step list \<times> ('a, 'w) effect list \<times> 'w"

fun agent_loop :: "('a, 'o, 'w) agent \<Rightarrow> string \<Rightarrow> nat \<Rightarrow> ('a, 'o) step list \<Rightarrow> ('a, 'w) effect list \<Rightarrow> 'w \<Rightarrow> ('a, 'o, 'w) run" where
  \<comment> \<open>the number is what is left of \<open>range(max_steps)\<close>\<close>
  "agent_loop ag goal 0 trace done_so_far w = (Out_Of_Steps, trace, done_so_far, w)"
| "agent_loop ag goal (Suc n) trace done_so_far w =
     (case ag_policy ag goal trace w of
        (None, w1) \<Rightarrow> (Policy_Raised, trace, done_so_far, w1)
      | (Some act, w1) \<Rightarrow> (case ac_tool act of
        None \<Rightarrow> (Answered (ac_answer act),
          trace @ [\<lparr>st_thought = ac_thought act, st_tool = None, st_args = None, st_observation = Observed (ac_answer act)\<rparr>], done_so_far, w1)
      | Some name \<Rightarrow> (case dict_get (ag_tools ag) name of
          None \<Rightarrow> (Unknown_Tool name, trace, done_so_far, w1)
        | Some t \<Rightarrow>
            (let (ok, w2) = (if tl_requires_approval t then ag_approve ag name (ac_args act) w1 else (True, w1));
                 asked = (if tl_requires_approval t then [Asked name (ac_args act) w1] else [])
             in if \<not> ok then
                  agent_loop ag goal n
                    (trace @ [\<lparr>st_thought = ac_thought act, st_tool = Some name, st_args = Some (ac_args act), st_observation = Blocked\<rparr>])
                    (done_so_far @ asked) w2
                else (case tl_fn t (ac_args act) w2 of
                  (None, w3) \<Rightarrow> (Tool_Raised name, trace, done_so_far @ asked @ [Called name (ac_args act)], w3)
                | (Some obs, w3) \<Rightarrow>
                    agent_loop ag goal n
                      (trace @ [\<lparr>st_thought = ac_thought act, st_tool = Some name, st_args = Some (ac_args act), st_observation = Observed obs\<rparr>])
                      (done_so_far @ asked @ [Called name (ac_args act)]) w3)))))"

definition run_agent :: "('a, 'o, 'w) agent \<Rightarrow> string \<Rightarrow> 'w \<Rightarrow> ('a, 'o, 'w) run" where
  "run_agent ag goal w = agent_loop ag goal (nat (ag_max_steps ag)) [] [] w"

section \<open>What the gate guarantees\<close>

fun gated :: "('a, 'o, 'w) agent \<Rightarrow> ('a, 'w) effect list \<Rightarrow> bool" where
  \<comment> \<open>only registered tools are called, and one that needs approval right after the approver said yes to these arguments\<close>
  "gated ag [] = True"
| "gated ag (Called name a # es) =
     ((\<exists>t. dict_get (ag_tools ag) name = Some t \<and> \<not> tl_requires_approval t) \<and> gated ag es)"
| "gated ag (Asked name a w # es) =
     (if fst (ag_approve ag name a w)
      then (case es of Called name' a' # es' \<Rightarrow> name' = name \<and> a' = a \<and> gated ag es' | _ \<Rightarrow> False)
      else gated ag es)"

lemma gated_append: "gated ag es \<Longrightarrow> gated ag es' \<Longrightarrow> gated ag (es @ es')"
  by (induction ag es rule: gated.induct) (auto split: list.splits effect.splits)

definition finished :: "'o outcome \<Rightarrow> nat" where
  "finished r = (case r of Answered x \<Rightarrow> 1 | _ \<Rightarrow> 0)"

lemma agent_loop_gated:
  "gated ag es \<Longrightarrow> agent_loop ag goal n trace es w = (r, trace', es', w') \<Longrightarrow>
     gated ag es' \<and> length trace' \<le> length trace + n \<and> (\<exists>more. trace' = trace @ more)
     \<and> (r = Out_Of_Steps \<longrightarrow> length trace' = length trace + n)
     \<and> length (filter (\<lambda>s. st_tool s = None) trace') = length (filter (\<lambda>s. st_tool s = None) trace) + finished r"
proof (induction n arbitrary: trace es w)
  case 0
  then show ?case by (auto simp: finished_def)
next
  case (Suc n)
  show ?case
  proof (cases "fst (ag_policy ag goal trace w)")
    case None
    with Suc.prems show ?thesis by (cases "ag_policy ag goal trace w") (auto simp: finished_def)
  next
   case raised_not: (Some act)
   then obtain w1 where act: "ag_policy ag goal trace w = (Some act, w1)" by (cases "ag_policy ag goal trace w") auto
   show ?thesis
   proof (cases "ac_tool act")
    case None
    with Suc.prems act show ?thesis by (auto simp: finished_def)
  next
    case (Some name)
    note tool = Some
    show ?thesis
    proof (cases "dict_get (ag_tools ag) name")
      case None
      with Suc.prems act tool show ?thesis by (auto simp: finished_def)
    next
      case (Some t)
      define ok w2 where "ok = fst (if tl_requires_approval t then ag_approve ag name (ac_args act) w1 else (True, w1))"
        and "w2 = snd (if tl_requires_approval t then ag_approve ag name (ac_args act) w1 else (True, w1))"
      define asked where "asked = (if tl_requires_approval t then [Asked name (ac_args act) w1] else [])"
      have pair: "(if tl_requires_approval t then ag_approve ag name (ac_args act) w1 else (True, w1)) = (ok, w2)"
        by (simp add: ok_def w2_def)
      show ?thesis
      proof (cases ok)
        case False
        then have g: "gated ag (es @ asked)" using Suc.prems(1) by (intro gated_append) (auto simp: asked_def ok_def)
        from Suc.IH [OF g] Suc.prems(2) act tool Some pair False show ?thesis
          by (fastforce simp: Let_def asked_def)
      next
        case True
        then have g: "gated ag (es @ asked @ [Called name (ac_args act)])"
          using Some by (intro gated_append [OF Suc.prems(1)]) (auto simp: asked_def ok_def)
        show ?thesis
        proof (cases "tl_fn t (ac_args act) w2")
          case (Pair obs w3)
          show ?thesis
          proof (cases obs)
            case None
            with Suc.prems(2) act tool Some pair True Pair g show ?thesis by (auto simp: Let_def asked_def finished_def)
          next
            case Some': (Some x)
            from Suc.IH [OF g] Suc.prems(2) act tool Some Some' pair True Pair show ?thesis
              by (fastforce simp: Let_def asked_def)
          qed
        qed
      qed
    qed
   qed
  qed
qed

text \<open>C14: No tool without its approval, and always an end. Whatever the policy, the tools and the approver do, a run takes at
  most the agent's number of steps and returns; every call is of a registered tool, and a call of a tool that
  needs approval follows at once the approver's yes to that tool and those arguments. The trace records at most
  one final step, and exactly that many steps as were allowed when the run ends without an answer.\<close>

theorem tools_need_approval:
  assumes "run_agent ag goal w = (r, trace, es, w')"
  shows "gated ag es \<and> length trace \<le> nat (ag_max_steps ag)
    \<and> (r = Out_Of_Steps \<longrightarrow> length trace = nat (ag_max_steps ag))
    \<and> length (filter (\<lambda>s. st_tool s = None) trace) = finished r"
  using agent_loop_gated [of ag "[]" goal "nat (ag_max_steps ag)" "[]" w r trace es w'] assms
  by (simp add: run_agent_def)

definition demo_buyer :: "(unit, nat, nat) agent" where
  \<comment> \<open>a policy that always buys, an approver that agrees while fewer than one item is bought\<close>
  "demo_buyer = new_agent [\<lparr>tl_name = ''buy'', tl_fn = (\<lambda>u w. (Some w, w + 1)), tl_requires_approval = True\<rparr>]
     (\<lambda>goal trace w. (Some \<lparr>ac_thought = ''buy'', ac_tool = Some ''buy'', ac_args = (), ac_answer = 0\<rparr>, w))
     (Some (\<lambda>name u w. (w < 1, w))) 3"

lemma demo_buyer_run:
  "run_agent demo_buyer ''shop'' 0 =
     (Out_Of_Steps,
      [\<lparr>st_thought = ''buy'', st_tool = Some ''buy'', st_args = Some (), st_observation = Observed 0\<rparr>,
       \<lparr>st_thought = ''buy'', st_tool = Some ''buy'', st_args = Some (), st_observation = Blocked\<rparr>,
       \<lparr>st_thought = ''buy'', st_tool = Some ''buy'', st_args = Some (), st_observation = Blocked\<rparr>],
      [Asked ''buy'' () 0, Called ''buy'' (), Asked ''buy'' () 1, Asked ''buy'' () 1], 1)"
  by (simp add: run_agent_def demo_buyer_def new_agent_def dict_get_def numeral_3_eq_3 Let_def)

theorem tools_need_approval_witness:
  "gated demo_buyer [Asked ''buy'' () 0, Called ''buy'' (), Asked ''buy'' () 1, Asked ''buy'' () 1]
    \<and> (3::nat) \<le> nat (ag_max_steps demo_buyer)"
  using tools_need_approval [OF demo_buyer_run] by (simp del: gated.simps)

end
