(* ===== verification/Deploy.thy ===== *)
theory Deploy
  imports Json
begin

text \<open>
  The production credentials: \<open>deploy/secrets.py\<close> (one Secret Manager secret holds every key),
  \<open>deploy/prod_db.py\<close> (the admin connection) and \<open>deploy/create_login_role.py\<close> (the login role's password
  and the matching \<open>DATABASE_URL\<close>). The \<open>gcloud\<close> command is the parameter \<open>run\<close> on a world \<open>'w\<close>; a payload is
  kept as the object it is the JSON text of. The three programs are in \<open>Deploy_Cli\<close>.
\<close>

type_synonym env = "(string, string) dict"

section \<open>The secret\<close>

definition KEYS :: "string list" where
  "KEYS = [''DATABASE_URL'', ''BESTBUY_API_KEY'', ''EBAY_APP_ID'', ''EBAY_CERT_ID'', ''EDGE_SHARED_SECRET'',
     ''CLOUDFLARE_ACCOUNT_ID'', ''CLOUDFLARE_R2_TOKEN'', ''RESEND_API_KEY'', ''UNSUBSCRIBE_SECRET'',
     ''SENTRY_DSN'', ''HEALTHCHECK_PAGES_URL'', ''HEALTHCHECK_ALERTS_URL'', ''CLOUDFLARE_AI_TOKEN'']"

definition GENERATED :: "string list" where "GENERATED = [''EDGE_SHARED_SECRET'', ''UNSUBSCRIBE_SECRET'']"
definition NEVER_FROM_ENV_FILE :: "string list" where "NEVER_FROM_ENV_FILE = [''DATABASE_URL'']"

definition value_of :: "env \<Rightarrow> string \<Rightarrow> string" where
  \<comment> \<open>\<open>env.get(k)\<close>, empty where absent\<close>
  "value_of e k = dict_get_or e k []"

definition build_payload :: "env \<Rightarrow> env" where
  "build_payload e = map (\<lambda>k. (k, value_of e k)) (filter (\<lambda>k. value_of e k \<noteq> []) KEYS)"

definition overlay :: "env \<Rightarrow> env \<Rightarrow> env" where
  \<comment> \<open>\<open>{**stored, **updates}\<close>\<close>
  "overlay stored updates = foldl (\<lambda>d (k, v). dict_set k v d) stored updates"

datatype gcloud =
    Versions_Add env
  | Versions_List
  | Versions_Destroy string
  | Versions_Access

record proc =
  pr_code :: int
  pr_out :: string
  pr_err :: string

type_synonym 'w runner = "gcloud \<Rightarrow> 'w \<Rightarrow> proc \<times> 'w"

datatype deploy_error =
    Cloud_Failed string
  | Bad_Output
  | Role_Exists
  | Sql_Failed
  | Connect_Failed
  | Commit_Failed
  | Missing string
  | Pooler_Failed
  | Lookup_Raised

definition checked_out :: "string \<Rightarrow> proc \<Rightarrow> deploy_error + string" where
  \<comment> \<open>\<open>_check\<close>\<close>
  "checked_out what p = (if pr_code p \<noteq> 0 then Inl (Cloud_Failed what) else Inr (pr_out p))"

definition version_number :: "string \<Rightarrow> nat option" where
  \<comment> \<open>\<open>int(out.strip().rsplit('/', 1)[-1])\<close> on the digits \<open>gcloud\<close> prints\<close>
  "version_number out =
     (let s = last (py_split_on (CHR ''/'') (py_strip out))
      in if s \<noteq> [] \<and> list_all is_digit s then Some (digits_val 0 s) else None)"

definition listed_versions :: "string \<Rightarrow> (string \<times> string) list" where
  \<comment> \<open>name and state of each line, blank lines skipped\<close>
  "listed_versions out =
     concat (map (\<lambda>l. case py_words l of [] \<Rightarrow> [] | [v] \<Rightarrow> [(v, ''enabled'')] | v # s # _ \<Rightarrow> [(v, py_lower s)])
       (py_split_on (CHR 10) out))"

fun destroy_older :: "'w runner \<Rightarrow> nat \<Rightarrow> (string \<times> string) list \<Rightarrow> 'w \<Rightarrow> (deploy_error + nat) \<times> 'w" where
  "destroy_older run new [] w = (Inr new, w)"
| "destroy_older run new ((v, state) # vs) w =
     (if v \<noteq> nat_digits new \<and> state \<noteq> ''destroyed'' then
        (case run (Versions_Destroy v) w of (p, w1) \<Rightarrow>
          (case checked_out (''destroy v'' @ v) p of Inl e \<Rightarrow> (Inl e, w1) | Inr out \<Rightarrow> destroy_older run new vs w1))
      else destroy_older run new vs w)"

definition push :: "'w runner \<Rightarrow> env \<Rightarrow> 'w \<Rightarrow> (deploy_error + nat) \<times> 'w" where
  "push run payload w =
     (case run (Versions_Add payload) w of (p, w1) \<Rightarrow>
       (case checked_out ''versions add'' p of
          Inl e \<Rightarrow> (Inl e, w1)
        | Inr out \<Rightarrow> (case version_number out of
            None \<Rightarrow> (Inl Bad_Output, w1)
          | Some new \<Rightarrow> (case run Versions_List w1 of (p2, w2) \<Rightarrow>
              (case checked_out ''versions list'' p2 of
                 Inl e \<Rightarrow> (Inl e, w2)
               | Inr listed \<Rightarrow> destroy_older run new (listed_versions listed) w2)))))"

definition current :: "(string \<Rightarrow> env option) \<Rightarrow> 'w runner \<Rightarrow> 'w \<Rightarrow> (deploy_error + env) \<times> 'w" where
  \<comment> \<open>\<open>loads\<close> reads the JSON object\<close>
  "current loads run w =
     (case run Versions_Access w of (p, w1) \<Rightarrow>
       (if pr_code p \<noteq> 0 \<and> py_in ''NOT_FOUND'' (pr_err p) then Inr []
        else case checked_out ''versions access'' p of
               Inl e \<Rightarrow> Inl e
             | Inr out \<Rightarrow> (case loads out of None \<Rightarrow> Inl Bad_Output | Some d \<Rightarrow> Inr d), w1))"

definition merge_keys :: "(string \<Rightarrow> env option) \<Rightarrow> 'w runner \<Rightarrow> env \<Rightarrow> 'w \<Rightarrow> (deploy_error + nat) \<times> 'w" where
  \<comment> \<open>\<open>merge\<close>\<close>
  "merge_keys loads run updates w =
     (case current loads run w of
        (Inl e, w1) \<Rightarrow> (Inl e, w1)
      | (Inr stored, w1) \<Rightarrow> push run (build_payload (overlay stored updates)) w1)"

definition with_generated :: "string list \<Rightarrow> env \<Rightarrow> env" where
  \<comment> \<open>\<open>merged.setdefault(k, new_token())\<close> for each generated key, over the tokens drawn\<close>
  "with_generated tokens e = foldl (\<lambda>d (k, t). if dict_has d k then d else dict_set k t d) e (zip GENERATED tokens)"

definition push_command :: "(string \<Rightarrow> env option) \<Rightarrow> 'w runner \<Rightarrow> string list \<Rightarrow> env \<Rightarrow> 'w \<Rightarrow> (deploy_error + nat) \<times> 'w" where
  \<comment> \<open>the \<open>push\<close> command, over what the env file holds\<close>
  "push_command loads run tokens env_file w =
     (case current loads run w of
        (Inl e, w1) \<Rightarrow> (Inl e, w1)
      | (Inr stored, w1) \<Rightarrow>
          (let from_file = filter (\<lambda>(k, v). v \<noteq> [] \<and> k \<in> set KEYS \<and> k \<notin> set NEVER_FROM_ENV_FILE) env_file
           in push run (build_payload (with_generated tokens (overlay stored from_file))) w1))"

section \<open>Connection strings\<close>

definition hex_digit :: "nat \<Rightarrow> char" where
  "hex_digit d = (if d < 10 then char_of (48 + d) else char_of (55 + d))"

definition unreserved :: "char \<Rightarrow> bool" where
  "unreserved c \<longleftrightarrow> is_alpha c \<or> is_digit c \<or> c = CHR ''_'' \<or> c = CHR ''.'' \<or> c = CHR ''-'' \<or> c = CHR ''~''"

definition quote_char :: "char \<Rightarrow> string" where
  "quote_char c = (if unreserved c then [c] else [CHR ''%'', hex_digit (ord c div 16), hex_digit (ord c mod 16)])"

definition url_quote :: "string \<Rightarrow> string" where
  \<comment> \<open>\<open>urllib.parse.quote(s, safe='')\<close>\<close>
  "url_quote s = concat (map quote_char s)"

definition quote_plus :: "string \<Rightarrow> string" where
  \<comment> \<open>what \<open>urlencode\<close> applies to each value\<close>
  "quote_plus s = concat (map (\<lambda>c. if c = CHR '' '' then [CHR ''+''] else quote_char c) s)"

definition ROLE :: string where "ROLE = ''dealfinder_svc''"
definition IMAGE_CA :: string where "IMAGE_CA = ''/app/dealfinder/certs/supabase-prod-ca-2021.crt''"
definition SESSION_PORT :: nat where "SESSION_PORT = 5432"

definition pooler_url :: "string \<Rightarrow> string \<Rightarrow> string \<Rightarrow> string" where
  "pooler_url ref host password =
     ''postgresql://'' @ ROLE @ ''.'' @ ref @ '':'' @ url_quote password @ ''@'' @ host @ '':6543/postgres'' @
     ''?sslmode=verify-full&sslrootcert='' @ url_quote IMAGE_CA"

definition management_token :: "env \<Rightarrow> string option" where
  "management_token site =
     map_option (value_of site) (find (\<lambda>n. py_startswith (value_of site n) ''sbp_'') [''SUPABASE_ACCESS_TOKEN'', ''GOOGLE_ACCESS_TOKEN''])"

fun primary_host :: "json list \<Rightarrow> deploy_error + string" where
  \<comment> \<open>a row that is no object, or the chosen one without its host, raises\<close>
  "primary_host [] = Inl Pooler_Failed"
| "primary_host (JObj d # rows) =
     (if j_get ''database_type'' (JObj d) = JStr ''PRIMARY'' \<or> j_get ''pool_mode'' (JObj d) = JStr ''transaction''
      then (case j_get ''db_host'' (JObj d) of JStr h \<Rightarrow> Inr h | _ \<Rightarrow> Inl Lookup_Raised)
      else primary_host rows)"
| "primary_host (row # rows) = Inl Lookup_Raised"

definition pooler_host :: "(string \<Rightarrow> string \<Rightarrow> (nat \<times> json) option) \<Rightarrow> string \<Rightarrow> string \<Rightarrow> deploy_error + string" where
  \<comment> \<open>\<open>http\<close> is the management API: url and bearer token to status and body, \<open>None\<close> where the call raises\<close>
  "pooler_host http ref token =
     (case http (''https://api.supabase.com/v1/projects/'' @ ref @ ''/config/database/pooler'') token of
        None \<Rightarrow> Inl Lookup_Raised
      | Some (status, body) \<Rightarrow>
          if status \<noteq> 200 then Inl Pooler_Failed
          else primary_host (case body of JArr rows \<Rightarrow> rows | row \<Rightarrow> [row]))"

definition admin_url :: "env \<Rightarrow> string \<Rightarrow> string \<Rightarrow> deploy_error + string" where
  "admin_url site ca host =
     (let ref = value_of site ''SUPABASE_PROJECT_ID''; pw = value_of site ''SUPABASE_DB_PASSWORD'' in
      if ref = [] then Inl (Missing ''SUPABASE_PROJECT_ID'')
      else if pw = [] then Inl (Missing ''SUPABASE_DB_PASSWORD'')
      else Inr (''postgresql://postgres.'' @ ref @ '':'' @ url_quote pw @ ''@'' @ host @ '':'' @ nat_digits SESSION_PORT @
        ''/postgres?sslmode=verify-full&sslrootcert='' @ quote_plus ca))"

definition admin_connection ::
  "(string \<Rightarrow> string \<Rightarrow> (nat \<times> json) option) \<Rightarrow> bool \<Rightarrow> string \<Rightarrow> env \<Rightarrow> deploy_error + string" where
  \<comment> \<open>\<open>_admin\<close>; the flag: the CA file exists\<close>
  "admin_connection http ca_exists ca site =
     (if \<not> ca_exists then Inl (Missing ''CA'')
      else (case (value_of site ''SUPABASE_PROJECT_ID'', management_token site) of
          ([], _) \<Rightarrow> Inl (Missing ''SUPABASE_PROJECT_ID'')
        | (_, None) \<Rightarrow> Inl (Missing ''token'')
        | (ref, Some token) \<Rightarrow> (case pooler_host http ref token of Inl e \<Rightarrow> Inl e | Inr host \<Rightarrow> admin_url site ca host)))"

section \<open>The login role\<close>

record scram =
  \<comment> \<open>the primitives the verifier is made with\<close>
  sc_pbkdf2 :: "string \<Rightarrow> string \<Rightarrow> nat \<Rightarrow> string"
  sc_hmac :: "string \<Rightarrow> string \<Rightarrow> string"
  sc_sha256 :: "string \<Rightarrow> string"
  sc_b64 :: "string \<Rightarrow> string"

definition scram_verifier :: "scram \<Rightarrow> string \<Rightarrow> nat \<Rightarrow> string \<Rightarrow> string" where
  "scram_verifier sc salt iterations password =
     (let salted = sc_pbkdf2 sc password salt iterations;
          stored_key = sc_sha256 sc (sc_hmac sc salted ''Client Key'');
          server_key = sc_hmac sc salted ''Server Key''
      in ''SCRAM-SHA-256$'' @ nat_digits iterations @ '':'' @ sc_b64 sc salt @ ''$'' @ sc_b64 sc stored_key @ '':'' @ sc_b64 sc server_key)"

datatype statement =
    Create_Role string
  | Alter_Password string
  | Other_Sql string

definition role_statements :: "string \<Rightarrow> bool \<Rightarrow> statement list" where
  \<comment> \<open>over the verifier of the password\<close>
  "role_statements verifier rotating =
     (if rotating then Alter_Password verifier else Create_Role verifier) #
     map Other_Sql [''GRANT dealfinder_app TO dealfinder_svc'', ''GRANT dealfinder_job TO dealfinder_svc'',
       ''GRANT USAGE ON SCHEMA dealfinder TO dealfinder_svc'', ''GRANT SELECT ON dealfinder.schema_migrations TO dealfinder_svc'']"

record pg =
  pg_verifier :: "string option"  \<comment> \<open>of the role, where it exists\<close>
  pg_grants :: "string list"

fun exec_stmt :: "(statement \<Rightarrow> bool) \<Rightarrow> statement \<Rightarrow> pg \<Rightarrow> deploy_error + pg" where
  \<comment> \<open>what Postgres does; \<open>refused\<close> says for which statements it raises for any other reason\<close>
  "exec_stmt refused (Create_Role v) db =
     (if pg_verifier db \<noteq> None then Inl Role_Exists else if refused (Create_Role v) then Inl Sql_Failed
      else Inr (db\<lparr>pg_verifier := Some v\<rparr>))"
| "exec_stmt refused (Alter_Password v) db =
     (if pg_verifier db = None \<or> refused (Alter_Password v) then Inl Sql_Failed else Inr (db\<lparr>pg_verifier := Some v\<rparr>))"
| "exec_stmt refused (Other_Sql s) db =
     (if refused (Other_Sql s) then Inl Sql_Failed else Inr (db\<lparr>pg_grants := pg_grants db @ [s]\<rparr>))"

fun exec_all :: "(statement \<Rightarrow> bool) \<Rightarrow> statement list \<Rightarrow> pg \<Rightarrow> deploy_error + pg" where
  "exec_all refused [] db = Inr db"
| "exec_all refused (s # ss) db = (case exec_stmt refused s db of Inl e \<Rightarrow> Inl e | Inr db' \<Rightarrow> exec_all refused ss db')"

datatype pg_session =
    Commits
  | No_Connection
  | Commit_Refused  \<comment> \<open>the COMMIT raises and the transaction is rolled back\<close>
  | Commit_Unheard  \<comment> \<open>the COMMIT takes effect, and the connection is lost before it says so\<close>

definition provision ::
  "(string \<Rightarrow> env option) \<Rightarrow> 'w runner \<Rightarrow> (string \<Rightarrow> string) \<Rightarrow> (statement \<Rightarrow> bool) \<Rightarrow> pg_session \<Rightarrow>
   deploy_error + string \<Rightarrow> string \<Rightarrow> string \<Rightarrow> bool \<Rightarrow> pg \<times> 'w \<Rightarrow> (deploy_error + nat) \<times> pg \<times> 'w" where
  \<comment> \<open>\<open>verifier\<close> maps the new password to what Postgres stores, \<open>session\<close> says how the connection fares; the
     lookups come first, the role changes in one transaction, the secret is written before the commit\<close>
  "provision loads run verifier refused session host ref password rotating s =
     (let (db, w) = s in
      case host of
        Inl e \<Rightarrow> (Inl e, db, w)
      | Inr h \<Rightarrow> (case current loads run w of
          (Inl e, w1) \<Rightarrow> (Inl e, db, w1)
        | (Inr stored, w1) \<Rightarrow> if session = No_Connection then (Inl Connect_Failed, db, w1)
          else (case exec_all refused (role_statements (verifier password) rotating) db of
            Inl e \<Rightarrow> (Inl e, db, w1)
          | Inr db' \<Rightarrow> (case merge_keys loads run [(''DATABASE_URL'', pooler_url ref h password)] w1 of
              (Inl e, w2) \<Rightarrow> (Inl e, db, w2)
            | (Inr n, w2) \<Rightarrow>
                if session = Commits then (Inr n, db', w2)
                else (Inl Commit_Failed, if session = Commit_Unheard then db' else db, w2)))))"

section \<open>Connection strings cannot be broken out of\<close>

lemma hex_digit_unreserved: "d < 16 \<Longrightarrow> unreserved (hex_digit d)"
proof -
  assume d: "d < 16"
  show ?thesis
  proof (cases "d < 10")
    case True
    then show ?thesis by (simp add: hex_digit_def unreserved_def)
  next
    case False
    with d have "is_upper (char_of (55 + d))" by (simp add: is_upper_def ord_def)
    with False show ?thesis by (simp add: hex_digit_def unreserved_def is_alpha_def)
  qed
qed

lemma quote_char_safe: "x \<in> set (quote_char c) \<Longrightarrow> unreserved x \<or> x = CHR ''%''"
proof -
  have "ord c < 256" using ord_less [of c] by simp
  then show "x \<in> set (quote_char c) \<Longrightarrow> unreserved x \<or> x = CHR ''%''"
    by (auto simp: quote_char_def hex_digit_unreserved less_mult_imp_div_less split: if_splits)
qed

lemma url_quote_safe: "x \<in> set (url_quote s) \<Longrightarrow> unreserved x \<or> x = CHR ''%''"
  using quote_char_safe by (auto simp: url_quote_def)

text \<open>Whatever the password, the part after its \<open>@\<close> is the host the code put there.\<close>

lemma pooler_url_host:
  assumes "CHR ''@'' \<notin> set ref"
  shows "py_after (CHR ''@'') (pooler_url ref host password) =
    host @ '':6543/postgres?sslmode=verify-full&sslrootcert='' @ url_quote IMAGE_CA"
proof -
  have q: "CHR ''@'' \<notin> set (url_quote s)" for s
  proof
    assume "CHR ''@'' \<in> set (url_quote s)"
    then have "unreserved CHR ''@''" using url_quote_safe by fastforce
    then show False by (simp add: unreserved_def is_alpha_def is_upper_def is_lower_def is_digit_def ord_def)
  qed
  have "CHR ''@'' \<notin> set (''postgresql://'' @ ROLE @ ''.'' @ ref @ '':'' @ url_quote password)"
    using assms q by (simp add: ROLE_def)
  then have "py_after (CHR ''@'') ((''postgresql://'' @ ROLE @ ''.'' @ ref @ '':'' @ url_quote password) @ CHR ''@'' # rest) = rest" for rest
    by (rule py_after_append)
  then show ?thesis by (simp add: pooler_url_def)
qed

section \<open>What the secret holds\<close>

lemma value_of_overlay1: "value_of (overlay stored [(k, v)]) k' = (if k' = k then v else value_of stored k')"
  by (simp add: overlay_def value_of_def dict_get_or_def)

lemma build_payload_get: "dict_get (build_payload e) k = (if k \<in> set KEYS \<and> value_of e k \<noteq> [] then Some (value_of e k) else None)"
proof -
  have "map_of (map (\<lambda>k. (k, f k)) ks) k = (if k \<in> set ks then Some (f k) else None)" for f :: "string \<Rightarrow> string" and ks
    by (induction ks) auto
  then show ?thesis by (simp add: build_payload_def dict_get_def)
qed

lemma value_of_payload: "value_of (build_payload e) k = (if k \<in> set KEYS then value_of e k else [])"
proof -
  have "value_of (build_payload e) k = (case dict_get (build_payload e) k of None \<Rightarrow> [] | Some v \<Rightarrow> v)"
    by (simp add: value_of_def dict_get_or_def dict_get_def)
  then show ?thesis by (simp add: build_payload_get)
qed

text \<open>What \<open>gcloud\<close> promises: the last version that was added is the one the service reads, an add that fails adds
  nothing, and listing, reading and destroying another version leave it alone.\<close>

definition secret_manager :: "(string \<Rightarrow> env option) \<Rightarrow> 'w runner \<Rightarrow> ('w \<Rightarrow> (nat \<times> env) option) \<Rightarrow> bool" where
  "secret_manager loads run latest \<longleftrightarrow>
     (\<forall>p w. latest (snd (run (Versions_Add p) w)) =
        (if pr_code (fst (run (Versions_Add p) w)) = 0
         then map_option (\<lambda>n. (n, p)) (version_number (pr_out (fst (run (Versions_Add p) w)))) else latest w))
   \<and> (\<forall>p w. pr_code (fst (run (Versions_Add p) w)) = 0 \<longrightarrow> version_number (pr_out (fst (run (Versions_Add p) w))) \<noteq> None)
   \<and> (\<forall>w. latest (snd (run Versions_List w)) = latest w)
   \<and> (\<forall>v w. (\<forall>n p. latest w = Some (n, p) \<longrightarrow> v \<noteq> nat_digits n) \<longrightarrow> latest (snd (run (Versions_Destroy v) w)) = latest w)
   \<and> (\<forall>w. latest (snd (run Versions_Access w)) = latest w)
   \<and> (\<forall>w. pr_code (fst (run Versions_Access w)) = 0 \<longrightarrow> loads (pr_out (fst (run Versions_Access w))) = map_option snd (latest w))
   \<and> (\<forall>w. pr_code (fst (run Versions_Access w)) \<noteq> 0 \<and> py_in ''NOT_FOUND'' (pr_err (fst (run Versions_Access w))) \<longrightarrow> latest w = None)"

definition stored_keys :: "('w \<Rightarrow> (nat \<times> env) option) \<Rightarrow> 'w \<Rightarrow> env" where
  "stored_keys latest w = (case latest w of None \<Rightarrow> [] | Some (n, p) \<Rightarrow> p)"

lemma current_reads:
  assumes "secret_manager loads run latest" and "current loads run w = (r, w')"
  shows "latest w' = latest w" and "r = Inr d \<Longrightarrow> d = stored_keys latest w"
  using assms by (auto simp: current_def secret_manager_def checked_out_def stored_keys_def split_beta split: if_splits option.splits)

lemma destroy_older_keeps:
  assumes "secret_manager loads run latest"
  shows "latest w = Some (new, p) \<Longrightarrow> destroy_older run new vs w = (r, w') \<Longrightarrow>
    latest w' = Some (new, p) \<and> (\<forall>n. r = Inr n \<longrightarrow> n = new) \<and> (\<forall>e. r = Inl e \<longrightarrow> (\<exists>v. e = Cloud_Failed (''destroy v'' @ v)))"
proof (induction vs arbitrary: w)
  case (Cons x vs)
  obtain v state where x: "x = (v, state)" by (cases x) auto
  show ?case
  proof (cases "v \<noteq> nat_digits new \<and> state \<noteq> ''destroyed''")
    case True
    obtain q w1 where q: "run (Versions_Destroy v) w = (q, w1)" by (cases "run (Versions_Destroy v) w") auto
    have keep: "latest w1 = Some (new, p)"
    proof -
      have "latest (snd (run (Versions_Destroy v) w)) = latest w"
        using assms Cons.prems(1) True by (simp add: secret_manager_def)
      then show ?thesis using Cons.prems(1) q by simp
    qed
    show ?thesis
    proof (cases "checked_out (''destroy v'' @ v) q")
      case (Inl e)
      with Cons.prems(2) x True q keep show ?thesis by (auto simp: checked_out_def split: if_splits)
    next
      case (Inr out)
      with Cons.prems(2) x True q have "destroy_older run new vs w1 = (r, w')" by simp
      from Cons.IH [OF keep this] show ?thesis .
    qed
  next
    case False
    with Cons.prems(2) x have "destroy_older run new vs w = (r, w')" by auto
    from Cons.IH [OF Cons.prems(1) this] show ?thesis .
  qed
qed auto

definition cleaning_failed :: "deploy_error \<Rightarrow> bool" where
  \<comment> \<open>the new version was added, and what failed came after it\<close>
  "cleaning_failed e \<longleftrightarrow> e = Cloud_Failed ''versions list'' \<or> (\<exists>v. e = Cloud_Failed (''destroy v'' @ v))"

lemma push_writes:
  assumes sm: "secret_manager loads run latest" and "push run payload w = (r, w')"
  shows "(\<exists>n. r = Inr n \<and> latest w' = Some (n, payload))
    \<or> (\<exists>e. r = Inl e \<and> \<not> cleaning_failed e \<and> latest w' = latest w)
    \<or> (\<exists>e n. r = Inl e \<and> cleaning_failed e \<and> latest w' = Some (n, payload))"
proof -
  obtain p w1 where add: "run (Versions_Add payload) w = (p, w1)" by (cases "run (Versions_Add payload) w") auto
  have law: "latest (snd (run (Versions_Add payload) w)) =
        (if pr_code (fst (run (Versions_Add payload) w)) = 0
         then map_option (\<lambda>n. (n, payload)) (version_number (pr_out (fst (run (Versions_Add payload) w)))) else latest w)"
    "pr_code (fst (run (Versions_Add payload) w)) = 0 \<longrightarrow> version_number (pr_out (fst (run (Versions_Add payload) w))) \<noteq> None"
    using sm by (simp_all add: secret_manager_def)
  show ?thesis
  proof (cases "pr_code p = 0")
    case False
    then have "r = Inl (Cloud_Failed ''versions add'')" "w' = w1"
      using assms(2) by (auto simp: push_def add checked_out_def)
    moreover have "latest w1 = latest w" using law(1) add False by simp
    ultimately show ?thesis by (simp add: cleaning_failed_def)
  next
    case True
    with law add obtain n where n: "version_number (pr_out p) = Some n" "latest w1 = Some (n, payload)" by auto
    obtain p2 w2 where l: "run Versions_List w1 = (p2, w2)" by (cases "run Versions_List w1") auto
    have "latest (snd (run Versions_List w1)) = latest w1" using sm by (simp add: secret_manager_def)
    then have w2: "latest w2 = Some (n, payload)" using n(2) l by simp
    show ?thesis
    proof (cases "pr_code p2 = 0")
      case False
      with assms(2) True n l have "r = Inl (Cloud_Failed ''versions list'')" "w' = w2" by (auto simp: push_def add checked_out_def)
      then show ?thesis using w2 by (simp add: cleaning_failed_def)
    next
      case lok: True
      with assms(2) True n l have "destroy_older run n (listed_versions (pr_out p2)) w2 = (r, w')"
        by (simp add: push_def add checked_out_def)
      from destroy_older_keeps [OF sm w2 this] show ?thesis by (cases r) (auto simp: cleaning_failed_def)
    qed
  qed
qed

lemma database_url_key: "''DATABASE_URL'' \<in> set KEYS"
  by (simp add: KEYS_def)

lemma value_of_merged:
  "k \<in> set KEYS \<Longrightarrow> value_of (build_payload (overlay stored [(k0, v)])) k = (if k = k0 then v else value_of stored k)"
  by (simp only: value_of_payload value_of_overlay1 if_True)

lemma merge_keys_writes:
  assumes sm: "secret_manager loads run latest" and "merge_keys loads run [(''DATABASE_URL'', u)] w = (r, w')"
  shows "(\<exists>n p. r = Inr n \<and> latest w' = Some (n, p) \<and> value_of p ''DATABASE_URL'' = u
      \<and> (\<forall>k \<in> set KEYS - {''DATABASE_URL''}. value_of p k = value_of (stored_keys latest w) k))
    \<or> (\<exists>e. r = Inl e \<and> (latest w' = latest w \<or> cleaning_failed e))"
proof -
  obtain c w1 where cur: "current loads run w = (c, w1)" by (cases "current loads run w") auto
  have w1: "latest w1 = latest w" by (rule current_reads(1) [OF sm cur])
  show ?thesis
  proof (cases c)
    case (Inl e)
    then show ?thesis using assms(2) cur w1 by (auto simp: merge_keys_def)
  next
    case (Inr stored)
    have s: "stored = stored_keys latest w" using current_reads(2) [OF sm cur] Inr by simp
    define p where "p = build_payload (overlay stored [(''DATABASE_URL'', u)])"
    have p: "value_of p ''DATABASE_URL'' = u" "\<forall>k \<in> set KEYS - {''DATABASE_URL''}. value_of p k = value_of (stored_keys latest w) k"
      using database_url_key by (auto simp: p_def value_of_merged s)
    have "push run p w1 = (r, w')" using assms(2) cur Inr by (simp add: merge_keys_def p_def)
    from push_writes [OF sm this] p w1 show ?thesis by auto
  qed
qed

lemma exec_other_verifier: "exec_all refused (map Other_Sql ss) db = Inr db' \<Longrightarrow> pg_verifier db' = pg_verifier db"
  by (induction ss arbitrary: db) (auto split: sum.splits if_splits)

lemma role_statements_set:
  assumes "exec_all refused (role_statements v rotating) db = Inr db'"
  shows "pg_verifier db' = Some v"
proof -
  obtain db1 where "exec_stmt refused (if rotating then Alter_Password v else Create_Role v) db = Inr db1"
    and rest: "exec_all refused (map Other_Sql [''GRANT dealfinder_app TO dealfinder_svc'', ''GRANT dealfinder_job TO dealfinder_svc'',
       ''GRANT USAGE ON SCHEMA dealfinder TO dealfinder_svc'', ''GRANT SELECT ON dealfinder.schema_migrations TO dealfinder_svc'']) db1 = Inr db'"
    using assms by (auto simp only: role_statements_def exec_all.simps split: sum.splits)
  then have "pg_verifier db1 = Some v" by (auto split: if_splits)
  then show ?thesis using exec_other_verifier [OF rest] by simp
qed

lemma provision_outcomes:
  assumes "secret_manager loads run latest"
    and "provision loads run verifier refused session host ref password rotating (db, w) = (r, db', w')"
  shows "case r of
      Inr n \<Rightarrow> (\<exists>h p. host = Inr h \<and> pg_verifier db' = Some (verifier password) \<and> latest w' = Some (n, p)
        \<and> value_of p ''DATABASE_URL'' = pooler_url ref h password
        \<and> (\<forall>k \<in> set KEYS - {''DATABASE_URL''}. value_of p k = value_of (stored_keys latest w) k))
    | Inl e \<Rightarrow> db' = db \<and> (latest w' = latest w \<or> cleaning_failed e \<or> e = Commit_Failed)
        \<or> e = Commit_Failed \<and> session = Commit_Unheard \<and> pg_verifier db' = Some (verifier password)
          \<and> (\<exists>h. host = Inr h \<and> value_of (stored_keys latest w') ''DATABASE_URL'' = pooler_url ref h password)"
proof (cases host)
  case (Inl e)
  then show ?thesis using assms(2) by (auto simp: provision_def)
next
  case (Inr h)
  obtain c w1 where cur: "current loads run w = (c, w1)" by (cases "current loads run w") auto
  have w1: "latest w1 = latest w" by (rule current_reads(1) [OF assms(1) cur])
  show ?thesis
  proof (cases c)
    case (Inl e)
    then show ?thesis using assms(2) Inr cur w1 by (auto simp: provision_def)
  next
    case c: (Inr stored)
    show ?thesis
    proof (cases "session = No_Connection")
      case True
      then show ?thesis using assms(2) Inr cur c w1 by (auto simp: provision_def)
    next
      case opened: False
      show ?thesis
      proof (cases "exec_all refused (role_statements (verifier password) rotating) db")
        case (Inl e)
        then show ?thesis using assms(2) Inr cur c w1 opened by (auto simp: provision_def)
      next
        case db1: (Inr db1)
        have ver: "pg_verifier db1 = Some (verifier password)" by (rule role_statements_set [OF db1])
        obtain m w2 where m: "merge_keys loads run [(''DATABASE_URL'', pooler_url ref h password)] w1 = (m, w2)"
          by (cases "merge_keys loads run [(''DATABASE_URL'', pooler_url ref h password)] w1") auto
        have "stored_keys latest w1 = stored_keys latest w" using w1 by (simp add: stored_keys_def)
        with merge_keys_writes [OF assms(1) m] show ?thesis
          using assms(2) Inr cur c db1 m w1 ver opened by (cases m) (auto simp: provision_def stored_keys_def split: if_splits)
      qed
    qed
  qed
qed

text \<open>C18: A new password, or nothing. When provisioning returns a version, Postgres holds the verifier of the new password, the
  stored secret holds the connection string of that same password at the looked-up host, and every other key of
  the contract keeps its stored value. When it fails, whether in a lookup, in connecting, in a statement or in the secret's write,
  the role is as it was, and so is the secret, except in the two cases after the new version is already stored: listing or
  destroying the older versions fails, or the final commit does. If that commit took effect and only its confirmation was
  lost, the role and the secret both have the new password.\<close>

theorem provision_all_or_nothing:
  assumes "secret_manager loads run latest"
    and "provision loads run verifier refused session host ref password rotating (db, w) = (r, db', w')"
  shows "(\<exists>n h p. r = Inr n \<and> host = Inr h \<and> pg_verifier db' = Some (verifier password) \<and> latest w' = Some (n, p)
      \<and> value_of p ''DATABASE_URL'' = pooler_url ref h password
      \<and> (\<forall>k \<in> set KEYS - {''DATABASE_URL''}. value_of p k = value_of (stored_keys latest w) k))
    \<or> (\<exists>e. r = Inl e \<and> db' = db \<and> (latest w' = latest w \<or> cleaning_failed e \<or> e = Commit_Failed))
    \<or> r = Inl Commit_Failed \<and> session = Commit_Unheard \<and> pg_verifier db' = Some (verifier password)
      \<and> (\<exists>h. host = Inr h \<and> value_of (stored_keys latest w') ''DATABASE_URL'' = pooler_url ref h password)"
  using provision_outcomes [OF assms] by (cases r) auto

text \<open>An instance of the promises: a store that appends, whose listing may be broken, and which lets nobody read.\<close>

fun demo_gcloud :: "bool \<Rightarrow> env list runner" where
  "demo_gcloud list_ok (Versions_Add p) w = (\<lparr>pr_code = 0, pr_out = nat_digits (Suc (length w)), pr_err = []\<rparr>, w @ [p])"
| "demo_gcloud list_ok Versions_List w = (\<lparr>pr_code = (if list_ok then 0 else 1), pr_out = [], pr_err = []\<rparr>, w)"
| "demo_gcloud list_ok (Versions_Destroy v) w = (\<lparr>pr_code = 1, pr_out = [], pr_err = []\<rparr>, w)"
| "demo_gcloud list_ok Versions_Access w = (\<lparr>pr_code = 1, pr_out = [], pr_err = (if w = [] then ''NOT_FOUND'' else [])\<rparr>, w)"

definition demo_latest :: "env list \<Rightarrow> (nat \<times> env) option" where
  "demo_latest w = (if w = [] then None else Some (length w, last w))"

lemma version_number_digits: "version_number (nat_digits n) = Some n"
proof -
  have d: "is_digit c" if "c \<in> set (nat_digits n)" for c using nat_digits_digits [OF that] .
  have sp: "\<not> is_space c" if "is_digit c" for c using that by (auto simp: is_space_def is_digit_def)
  have drop: "dropWhile is_space s = s" if "\<And>c. c \<in> set s \<Longrightarrow> \<not> is_space c" for s
    using that by (cases s) auto
  have strip: "py_strip s = s" if "\<And>c. c \<in> set s \<Longrightarrow> \<not> is_space c" for s
    using drop [of s] drop [of "rev s"] that by (simp add: py_strip_def)
  have split: "py_split_on (CHR ''/'') s = [s]" if "\<And>c. c \<in> set s \<Longrightarrow> is_digit c" for s
    using that
  proof (induction s)
    case (Cons c s)
    have "c \<noteq> CHR ''/''" using Cons.prems [of c] by (auto simp: is_digit_def ord_def)
    moreover have "py_split_on (CHR ''/'') s = [s]" using Cons.IH Cons.prems by simp
    ultimately show ?case by simp
  qed simp
  have "py_strip (nat_digits n) = nat_digits n" using strip d sp by blast
  moreover have "py_split_on (CHR ''/'') (nat_digits n) = [nat_digits n]" using split d by blast
  moreover have "list_all is_digit (nat_digits n)" using d by (simp add: list_all_iff)
  ultimately show ?thesis by (simp add: version_number_def)
qed

lemma demo_secret_manager: "secret_manager (\<lambda>s. None) (demo_gcloud ok) demo_latest"
proof -
  have "\<not> py_in ''NOT_FOUND'' []" by simp
  then show ?thesis unfolding secret_manager_def by (auto simp: demo_latest_def version_number_digits)
qed

definition demo_provision :: "bool \<Rightarrow> pg \<times> env list \<Rightarrow> (deploy_error + nat) \<times> pg \<times> env list" where
  "demo_provision list_ok = provision (\<lambda>s. None) (demo_gcloud list_ok) (\<lambda>p. ''scram '' @ p) (\<lambda>s. False) Commits (Inr ''db.host'') ''ref'' ''pw'' False"

lemma demo_payload: "build_payload (overlay [] [(''DATABASE_URL'', u)]) = (if u = [] then [] else [(''DATABASE_URL'', u)])"
  by (simp add: build_payload_def overlay_def KEYS_def value_of_def dict_get_or_def)

lemma demo_url: "pooler_url r h p \<noteq> []"
  by (simp add: pooler_url_def)

lemma demo_provision_ok: "fst (demo_provision True (\<lparr>pg_verifier = None, pg_grants = []\<rparr>, [])) = Inr 1"
  by (simp add: demo_provision_def provision_def current_def merge_keys_def push_def demo_payload demo_url checked_out_def
    version_number_digits listed_versions_def py_words_def role_statements_def)

theorem provision_all_or_nothing_witness:
  "\<exists>p db' w'. demo_provision True (\<lparr>pg_verifier = None, pg_grants = []\<rparr>, []) = (Inr 1, db', w')
     \<and> pg_verifier db' = Some ''scram pw'' \<and> demo_latest w' = Some (1, p) \<and> value_of p ''DATABASE_URL'' = pooler_url ''ref'' ''db.host'' ''pw''"
proof -
  obtain r db' w' where run: "demo_provision True (\<lparr>pg_verifier = None, pg_grants = []\<rparr>, []) = (r, db', w')" by (metis prod.exhaust)
  have r: "r = Inr 1" using demo_provision_ok run by simp
  from provision_all_or_nothing [OF demo_secret_manager run [unfolded demo_provision_def]] r run show ?thesis by auto
qed

text \<open>The promise of the source, that Postgres and the secret never disagree, is broken by the first of the two cases: the
  new connection string is stored, and the role still has its old password (here, does not exist).\<close>

lemma provision_can_disagree:
  "\<exists>db' w'. demo_provision False (\<lparr>pg_verifier = None, pg_grants = []\<rparr>, []) = (Inl (Cloud_Failed ''versions list''), db', w')
     \<and> pg_verifier db' = None \<and> demo_latest w' = Some (1, [(''DATABASE_URL'', pooler_url ''ref'' ''db.host'' ''pw'')])"
  by (simp add: demo_provision_def provision_def current_def merge_keys_def push_def demo_payload demo_url checked_out_def
    version_number_digits listed_versions_def py_words_def role_statements_def demo_latest_def)

end
