(* ===== verification/Scripts.thy ===== *)
theory Scripts
  imports Snapshot Inference
begin

text \<open>
  The command-line tools: \<open>scripts/cost_check.py\<close> (what can bill, before the start and on the deployed product),
  \<open>scripts/loadtest.py\<close> and \<open>scripts/coldstart.py\<close> (latency figures), \<open>scripts/disk_check.py\<close>,
  \<open>scripts/strip_snapshot_images.py\<close> and \<open>data/build_snapshot.py\<close> (the committed corpus). The output of
  \<open>gcloud\<close>, the clock and the running application are parameters; the calls and the printed lines are in \<open>Script_Runs\<close>.
\<close>

section \<open>The cost preflight\<close>

definition unquoted :: "string \<Rightarrow> string" where
  \<comment> \<open>\<open>v.strip().strip(double quote).strip(single quote)\<close>\<close>
  "unquoted v = py_strip_chars [CHR 0x27] (py_strip_chars [CHR 0x22] (py_strip v))"

definition dotenv_line :: "environ \<Rightarrow> string \<Rightarrow> environ" where
  "dotenv_line env raw =
     (let l = py_strip raw in
      if l = [] \<or> hd l = CHR ''#'' \<or> CHR ''='' \<notin> set l then env
      else setdefault env (py_strip (py_before (CHR ''='') l), unquoted (py_after (CHR ''='') l)))"

definition load_dotenv :: "string list option \<Rightarrow> environ \<Rightarrow> environ" where
  \<comment> \<open>the lines of \<open>.env\<close>, where there is one; a variable that is set is kept\<close>
  "load_dotenv file env = (case file of None \<Rightarrow> env | Some ls \<Rightarrow> foldl dotenv_line env ls)"

definition METERED :: "(string \<times> string) list" where
  \<comment> \<open>source and the variable that holds its key\<close>
  "METERED = [(''Apify'', ''APIFY_TOKEN''), (''Amazon'', ''APIFY_TOKEN''), (''Firecrawl'', ''FIRECRAWL_API_KEY'')]"

definition armed :: "environ \<Rightarrow> string list" where
  "armed env = map fst (filter (\<lambda>(n, k). paid_ok env \<and> has_var env k) METERED)"

definition paid_models :: "environ \<Rightarrow> string list" where
  "paid_models env = filter (\<lambda>m. m \<noteq> [] \<and> \<not> py_endswith m '':free'')
     (map py_strip (py_split_on (CHR '','') (env_or env ''OPENROUTER_MODELS'' [])))"

definition preflight :: "environ \<Rightarrow> int" where
  "preflight env = (if armed env = [] \<and> paid_models env = [] then 0 else 1)"

definition dormant :: "environ \<Rightarrow> string list" where
  \<comment> \<open>keys that are present and switched off\<close>
  "dormant env = filter (\<lambda>k. has_var env k \<and> \<not> paid_ok env) [''APIFY_TOKEN'', ''FIRECRAWL_API_KEY'']"

section \<open>The audit of the deployed product\<close>

record audit =
  au_name :: string
  au_value :: int
  au_limit :: int
  au_ok :: bool

definition REGISTRY_MAX_BYTES :: int where "REGISTRY_MAX_BYTES = 450000000"
definition SCHEDULER_FREE_JOBS :: int where "SCHEDULER_FREE_JOBS = 3"
definition SECRET_FREE_VERSIONS :: int where "SECRET_FREE_VERSIONS = 6"

record deployed =
  \<comment> \<open>what the calls print, read as the code reads it\<close>
  dp_min_scale :: "int option"
  dp_max_scale :: "int option"
  dp_jobs :: "int option list"  \<comment> \<open>per project of the account; \<open>None\<close>: the scheduler API is not enabled there\<close>
  dp_versions :: int
  dp_size :: "int option"
  dp_image_sizes :: "string list"
  dp_budget_projects :: "string list list"
  dp_number :: string

definition scheduler_jobs :: "int option \<Rightarrow> int" where
  "scheduler_jobs j = (case j of None \<Rightarrow> 0 | Some n \<Rightarrow> n)"

definition registry_bytes :: "deployed \<Rightarrow> int" where
  \<comment> \<open>where the API leaves the size out, the sum over the images\<close>
  "registry_bytes d = (case dp_size d of Some n \<Rightarrow> n
     | None \<Rightarrow> sum_list (map (\<lambda>s. int (digits_val 0 s)) (filter (\<lambda>s. s \<noteq> [] \<and> list_all is_digit s) (dp_image_sizes d))))"

definition live_report :: "deployed \<Rightarrow> audit list" where
  "live_report d =
     (let min_scale = (case dp_min_scale d of None \<Rightarrow> 0 | Some n \<Rightarrow> n);
          max_scale = (case dp_max_scale d of None \<Rightarrow> 100 | Some n \<Rightarrow> n);
          jobs = sum_list (map scheduler_jobs (dp_jobs d)); size = registry_bytes d;
          covered = list_ex (\<lambda>ps. (''projects/'' @ dp_number d) \<in> set ps) (dp_budget_projects d)
      in [\<lparr>au_name = ''cloud run min instances'', au_value = min_scale, au_limit = 0, au_ok = (min_scale = 0)\<rparr>,
          \<lparr>au_name = ''cloud run max instances'', au_value = max_scale, au_limit = 2, au_ok = (max_scale \<le> 2)\<rparr>,
          \<lparr>au_name = ''scheduler jobs on the billing account'', au_value = jobs, au_limit = SCHEDULER_FREE_JOBS, au_ok = (jobs \<le> SCHEDULER_FREE_JOBS)\<rparr>,
          \<lparr>au_name = ''secret versions active'', au_value = dp_versions d, au_limit = SECRET_FREE_VERSIONS, au_ok = (dp_versions d \<le> SECRET_FREE_VERSIONS)\<rparr>,
          \<lparr>au_name = ''artifact registry bytes'', au_value = size, au_limit = REGISTRY_MAX_BYTES, au_ok = (size \<le> REGISTRY_MAX_BYTES)\<rparr>,
          \<lparr>au_name = ''budget alert on the project'', au_value = (if covered then 1 else 0), au_limit = 1, au_ok = covered\<rparr>])"

definition live_exit :: "audit list option \<Rightarrow> int" where
  \<comment> \<open>\<open>None\<close>: a call failed\<close>
  "live_exit report = (case report of None \<Rightarrow> 1 | Some cs \<Rightarrow> if list_all au_ok cs then 0 else 1)"

section \<open>Latency\<close>

definition percentile :: "pyfloat list \<Rightarrow> pyfloat \<Rightarrow> pyfloat" where
  \<comment> \<open>\<open>_pct\<close>, nearest rank\<close>
  "percentile values p =
     (if values = [] then 0
      else (let ordered = sort values; n = int (length ordered);
                k = max 0 (min (n - 1) (round_half_even (p / 100 * of_int (n - 1))))
            in ordered ! nat k))"

record sample =
  sp_latencies :: "pyfloat list"
  sp_errors :: nat
  sp_statuses :: "(nat, nat) dict"

definition count_reply :: "sample \<Rightarrow> (nat \<times> pyfloat) option \<Rightarrow> sample" where
  \<comment> \<open>\<open>_one\<close>: status and milliseconds, \<open>None\<close> where the request raised\<close>
  "count_reply s r = (case r of
     None \<Rightarrow> s\<lparr>sp_errors := sp_errors s + 1\<rparr>
   | Some (status, ms) \<Rightarrow> s\<lparr>sp_latencies := sp_latencies s @ [ms],
        sp_statuses := dict_set status (dict_get_or (sp_statuses s) status 0 + 1) (sp_statuses s),
        sp_errors := (if status \<ge> 500 then sp_errors s + 1 else sp_errors s)\<rparr>)"

definition run_endpoint :: "(nat \<times> pyfloat) option list \<Rightarrow> sample" where
  \<comment> \<open>the replies in the order they end; the counting does not depend on it\<close>
  "run_endpoint replies = foldl count_reply \<lparr>sp_latencies = [], sp_errors = 0, sp_statuses = []\<rparr> replies"

definition throughput :: "sample \<Rightarrow> pyfloat \<Rightarrow> pyfloat" where
  "throughput s wall = (if wall > 0 then of_nat (length (sp_latencies s)) / wall else 0)"

definition load_test_exit :: "nat option \<Rightarrow> int" where
  \<comment> \<open>the liveness probe: no figures from a server that does not answer 200\<close>
  "load_test_exit probe = (if probe = Some 200 then 0 else 2)"

definition GATE_S :: pyfloat where "GATE_S = 10"

definition measure_run :: "(pyfloat \<times> pyfloat) \<times> (pyfloat \<times> pyfloat) \<Rightarrow> pyfloat \<times> pyfloat" where
  \<comment> \<open>start and end of \<open>/health\<close>, then of \<open>/readyz\<close>\<close>
  "measure_run t = (case t of ((h0, h1), (r0, r1)) \<Rightarrow> (h1 - h0, r1 - r0))"

definition coldstart_report :: "(pyfloat \<times> pyfloat) list \<Rightarrow> int" where
  "coldstart_report runs = (if filter (\<lambda>(h, r). h > GATE_S) runs \<noteq> [] then 1 else 0)"

definition coldstart_accepts :: "string \<Rightarrow> nat \<Rightarrow> bool" where
  \<comment> \<open>\<open>_get\<close>: the statuses that count as an answer\<close>
  "coldstart_accepts u status \<longleftrightarrow> status \<in> (if py_endswith u ''/readyz'' then {200, 503} else {200})"

definition disk_exit :: "pyfloat \<Rightarrow> pyfloat \<Rightarrow> int" where
  "disk_exit free_gb lowest = (if free_gb \<ge> lowest then 0 else 1)"

definition disk_floor :: "string list \<Rightarrow> pyfloat" where
  \<comment> \<open>\<open>_floor_gb\<close>: the argument after \<open>--floor\<close> where it is a number\<close>
  "disk_floor argv = (case dropWhile (\<lambda>a. a \<noteq> ''--floor'') argv of
     _ # v # _ \<Rightarrow> (case parse_float (py_strip v) of Some x \<Rightarrow> x | None \<Rightarrow> 10) | _ \<Rightarrow> 10)"

section \<open>The corpus\<close>

definition strip_images :: "row list \<Rightarrow> row list \<times> nat" where
  \<comment> \<open>over the items; the number of rows that changed decides whether the file is written\<close>
  "strip_images items = (map (dict_del ''image_url'') items, length (filter (\<lambda>r. dict_has r ''image_url'') items))"

definition EXCLUDE_SOURCE_PREFIXES :: "string list" where "EXCLUDE_SOURCE_PREFIXES = [''eBay'']"

definition excluded :: "string \<Rightarrow> bool" where
  "excluded src \<longleftrightarrow> list_ex (py_startswith src) EXCLUDE_SOURCE_PREFIXES"

record corpus =
  co_items :: "row list"
  co_seen :: "string list"
  co_sources :: "(string, nat) dict"
  co_kept :: nat

definition marketplace_of :: "string \<Rightarrow> string" where
  "marketplace_of src = (let m = py_before (CHR '':'') src in if m = [] then ''unknown'' else m)"

definition corpus_row :: "string \<Rightarrow> string \<Rightarrow> json \<Rightarrow> string \<Rightarrow> string \<Rightarrow> row \<Rightarrow> row" where
  "corpus_row query cat median src pid it =
     (let g = (\<lambda>k. case dict_get it k of None \<Rightarrow> JNull | Some v \<Rightarrow> v) in
      [(''id'', JStr pid), (''query'', JStr query), (''category'', JStr cat), (''title'', g ''title''), (''brand'', g ''brand''),
       (''price'', g ''price''), (''currency'', case dict_get it ''currency'' of None \<Rightarrow> JStr ''USD'' | Some v \<Rightarrow> v),
       (''source'', JStr src), (''marketplace'', JStr (marketplace_of src)), (''url'', g ''url''), (''deal_pct'', g ''deal_pct''),
       (''median_price_at_capture'', median)])"

definition corpus_step :: "string \<Rightarrow> string \<Rightarrow> json \<Rightarrow> corpus \<Rightarrow> row \<Rightarrow> corpus" where
  \<comment> \<open>one result of a query\<close>
  "corpus_step query cat median c it =
     (let src = (case dict_get it ''source'' of Some (JStr s) \<Rightarrow> s | _ \<Rightarrow> []);
          pid = (case dict_get it ''id'' of Some (JStr s) \<Rightarrow> s | _ \<Rightarrow> [])
      in if excluded src \<or> pid = [] \<or> pid \<in> set (co_seen c) then c
         else c\<lparr>co_items := co_items c @ [corpus_row query cat median src pid it], co_seen := co_seen c @ [pid],
                co_sources := dict_set (marketplace_of src) (dict_get_or (co_sources c) (marketplace_of src) 0 + 1) (co_sources c),
                co_kept := co_kept c + 1\<rparr>)"

definition build_query :: "(string \<Rightarrow> json option) \<Rightarrow> corpus \<times> nat list \<Rightarrow> string \<times> string \<Rightarrow> corpus \<times> nat list" where
  \<comment> \<open>\<open>None\<close>: the pull of this query failed, and the others go on; the list is the count kept per query\<close>
  "build_query pull acc qc =
     (let (c, kept) = acc; (query, cat) = qc in
      case pull query of
        None \<Rightarrow> (c, kept @ [0])
      | Some res \<Rightarrow>
          (let c' = foldl (corpus_step query cat (j_get ''median_price'' res)) (c\<lparr>co_kept := 0\<rparr>)
                 (map fields_of (j_list (j_get ''results'' res)))
           in (c', kept @ [co_kept c'])))"

definition CORPUS_QUERIES :: "(string \<times> string) list" where
  "CORPUS_QUERIES =
     [(''noise cancelling headphones'', ''audio''), (''wireless earbuds'', ''audio''), (''bluetooth speaker'', ''audio''),
      (''soundbar'', ''audio''), (''gaming laptop'', ''computers''), (''4k monitor'', ''displays''),
      (''mechanical keyboard'', ''peripherals''), (''gaming mouse'', ''peripherals''), (''1080p webcam'', ''peripherals''),
      (''external ssd 1tb'', ''storage''), (''usb c hub'', ''accessories''), (''power bank'', ''accessories''),
      (''android tablet'', ''mobile''), (''smartwatch'', ''wearables''), (''robot vacuum'', ''smart-home''),
      (''wifi security camera'', ''smart-home''), (''kindle e-reader'', ''misc''), (''graphics card rtx'', ''components'')]"

definition build_corpus :: "(string \<Rightarrow> json option) \<Rightarrow> (string \<times> string) list \<Rightarrow> corpus \<times> nat list" where
  "build_corpus pull queries =
     foldl (build_query pull) (\<lparr>co_items = [], co_seen = [], co_sources = [], co_kept = 0\<rparr>, []) queries"

section \<open>What the figures mean\<close>

text \<open>The preflight is exact. It answers 0 exactly when no metered source of the live sources is available and no model
  named in \<open>OPENROUTER_MODELS\<close> is other than a \<open>:free\<close> one; then every model the LLM client would try is either of
  the default tier or a \<open>:free\<close> one, and every source that a search can ask is free of charge.\<close>

theorem preflight_exact:
  "(preflight env = 0 \<longleftrightarrow>
      filter (\<lambda>s. lv_metered s \<and> source_available env (lv_name s)) LIVE_SOURCES = []
      \<and> filter (\<lambda>m. \<not> py_endswith m '':free'') (if truthy (getenv env ''OPENROUTER_MODELS'') then llm_models env else []) = [])
   \<and> preflight env \<in> {0, 1}"
proof -
  have a: "armed env = [] \<longleftrightarrow> filter (\<lambda>s. lv_metered s \<and> source_available env (lv_name s)) LIVE_SOURCES = []"
    unfolding armed_def METERED_def LIVE_SOURCES_def map_is_Nil_conv filter_empty_conv
    by (simp add: source_available_def) blast
  have m: "paid_models env = filter (\<lambda>m. \<not> py_endswith m '':free'') (if truthy (getenv env ''OPENROUTER_MODELS'') then llm_models env else [])"
  proof (cases "truthy (getenv env ''OPENROUTER_MODELS'')")
    case True
    then obtain v where v: "getenv env ''OPENROUTER_MODELS'' = Some v" "v \<noteq> []" by (auto simp: truthy_def split: option.splits)
    then have "llm_models env = filter (\<lambda>m. m \<noteq> []) (map py_strip (py_split_on (CHR '','') v))" by (simp add: llm_models_def)
    moreover have "env_or env ''OPENROUTER_MODELS'' [] = v" using v(1) by (simp add: env_or_def)
    ultimately show ?thesis using True by (simp only: paid_models_def filter_filter if_True)
  next
    case False
    then have "env_or env ''OPENROUTER_MODELS'' [] = []" by (auto simp: truthy_def env_or_def split: option.splits)
    with False show ?thesis by (simp add: paid_models_def py_strip_def)
  qed
  show ?thesis unfolding m [symmetric] a [symmetric] by (simp add: preflight_def)
qed

lemma live_exit_zero: "live_exit (Some (live_report d)) = 0 \<longleftrightarrow>
    scheduler_jobs (dp_min_scale d) = 0 \<and> (\<exists>n. dp_max_scale d = Some n \<and> n \<le> 2)
    \<and> sum_list (map scheduler_jobs (dp_jobs d)) \<le> 3 \<and> dp_versions d \<le> 6 \<and> registry_bytes d \<le> 450000000
    \<and> list_ex (\<lambda>ps. (''projects/'' @ dp_number d) \<in> set ps) (dp_budget_projects d)"
  by (auto simp: live_exit_def live_report_def Let_def scheduler_jobs_def SCHEDULER_FREE_JOBS_def SECRET_FREE_VERSIONS_def
    REGISTRY_MAX_BYTES_def split: option.splits)

lemma percentile_in: "values \<noteq> [] \<Longrightarrow> percentile values p \<in> set values"
proof -
  assume "values \<noteq> []"
  then have n: "length (sort values) > 0" by simp
  then have "nat (max 0 (min (int (length (sort values)) - 1) k)) < length (sort values)" for k by linarith
  then have "sort values ! nat (max 0 (min (int (length (sort values)) - 1) k)) \<in> set (sort values)" for k by (rule nth_mem)
  then show ?thesis using \<open>values \<noteq> []\<close> by (simp add: percentile_def Let_def)
qed

lemma percentile_mono: "p \<le> q \<Longrightarrow> percentile values p \<le> percentile values q"
proof (cases "values = []")
  case False
  assume pq: "p \<le> q"
  define n where "n = int (length (sort values))"
  have n: "n \<ge> 1" using False by (simp add: n_def Suc_le_eq)
  have "p / 100 * of_int (n - 1) \<le> q / 100 * of_int (n - 1)" using pq n by (intro mult_right_mono) auto
  then have "round_half_even (p / 100 * of_int (n - 1)) \<le> round_half_even (q / 100 * of_int (n - 1))" by (rule round_half_even_mono)
  then have "nat (max 0 (min (n - 1) (round_half_even (p / 100 * of_int (n - 1))))) \<le> nat (max 0 (min (n - 1) (round_half_even (q / 100 * of_int (n - 1)))))"
    by linarith
  moreover have "nat (max 0 (min (n - 1) (round_half_even (q / 100 * of_int (n - 1))))) < length (sort values)" using n by (simp add: n_def)
  ultimately have "sort values ! nat (max 0 (min (n - 1) (round_half_even (p / 100 * of_int (n - 1)))))
      \<le> sort values ! nat (max 0 (min (n - 1) (round_half_even (q / 100 * of_int (n - 1)))))"
    by (intro sorted_nth_mono) simp_all
  then show ?thesis using False by (simp add: percentile_def Let_def n_def)
qed (simp add: percentile_def)

lemma run_endpoint_counts:
  "length (sp_latencies (run_endpoint rs)) = length (filter (\<lambda>r. r \<noteq> None) rs)"
  "sp_errors (run_endpoint rs) = length (filter (\<lambda>r. case r of None \<Rightarrow> True | Some (st, ms) \<Rightarrow> st \<ge> 500) rs)"
proof -
  have "length (sp_latencies (foldl count_reply s rs)) = length (sp_latencies s) + length (filter (\<lambda>r. r \<noteq> None) rs)
    \<and> sp_errors (foldl count_reply s rs) = sp_errors s + length (filter (\<lambda>r. case r of None \<Rightarrow> True | Some (st, ms) \<Rightarrow> st \<ge> 500) rs)" for s
    by (induction rs arbitrary: s) (auto simp: count_reply_def split: option.splits prod.splits)
  from this [of "\<lparr>sp_latencies = [], sp_errors = 0, sp_statuses = []\<rparr>"]
  show "length (sp_latencies (run_endpoint rs)) = length (filter (\<lambda>r. r \<noteq> None) rs)"
    "sp_errors (run_endpoint rs) = length (filter (\<lambda>r. case r of None \<Rightarrow> True | Some (st, ms) \<Rightarrow> st \<ge> 500) rs)"
    by (simp_all add: run_endpoint_def)
qed

lemma strip_images_idem: "snd (strip_images (fst (strip_images items))) = 0" "fst (strip_images (fst (strip_images items))) = fst (strip_images items)"
  by (auto simp: strip_images_def comp_def filter_empty_conv) (simp add: dict_del_def)

text \<open>The corpus: every id once, nothing of the excluded source.\<close>

definition corpus_ok :: "corpus \<Rightarrow> bool" where
  "corpus_ok c \<longleftrightarrow> distinct (co_seen c) \<and> map (\<lambda>r. dict_get r ''id'') (co_items c) = map (Some \<circ> JStr) (co_seen c)
     \<and> list_all (\<lambda>r. \<exists>s. dict_get r ''source'' = Some (JStr s) \<and> \<not> py_startswith s ''eBay'') (co_items c)"

lemma corpus_step_ok: "corpus_ok c \<Longrightarrow> corpus_ok (corpus_step query cat median c it)"
  by (auto simp: corpus_ok_def corpus_step_def Let_def corpus_row_def dict_get_def excluded_def EXCLUDE_SOURCE_PREFIXES_def)

lemma build_corpus_ok: "corpus_ok (fst (build_corpus pull queries))"
proof -
  have rows: "corpus_ok c \<Longrightarrow> corpus_ok (foldl (corpus_step query cat median) c its)" for query cat median c its
    by (induction its arbitrary: c) (auto simp: corpus_step_ok)
  have "corpus_ok (fst acc) \<Longrightarrow> corpus_ok (fst (foldl (build_query pull) acc queries))" for acc
  proof (induction queries arbitrary: acc)
    case (Cons qc qs)
    have "corpus_ok (fst acc\<lparr>co_kept := 0\<rparr>)" using Cons.prems by (simp add: corpus_ok_def)
    then have "corpus_ok (fst (build_query pull acc qc))"
      using Cons.prems rows by (simp add: build_query_def split_beta Let_def split: option.split)
    then show ?case using Cons.IH by simp
  qed simp
  then show ?thesis by (simp add: build_corpus_def corpus_ok_def)
qed

end
