(* ===== verification/Mcp.thy ===== *)
theory Mcp
  imports Dataset Inference
begin

text \<open>
  \<open>dealfinder/mcp_server.py\<close>: the tools another agent may call. The state is built once: the catalog with its
  embeddings, the medians by id, the price models by category. \<open>emb\<close> embeds texts, \<open>fit\<close> fits a linear model;
  \<open>None\<close> is the \<open>KeyError\<close> of an unknown product.
\<close>

record mcp_state =
  mp_catalog :: "product list"
  mp_emb :: "pyfloat list list"
  mp_medians :: "(string, pyfloat) dict"
  mp_models :: "string \<Rightarrow> (int list \<Rightarrow> pyfloat) option"

definition new_mcp :: "fitter \<Rightarrow> product list \<Rightarrow> pyfloat list list \<Rightarrow> (string, pyfloat) dict \<Rightarrow> mcp_state" where
  "new_mcp fit ps emb medians = \<lparr>mp_catalog = ps, mp_emb = emb, mp_medians = medians, mp_models = category_models fit ps\<rparr>"

definition mcp_index :: "mcp_state \<Rightarrow> string \<Rightarrow> nat option" where
  \<comment> \<open>\<open>_idx\<close>: the last product of an id\<close>
  "mcp_index s i = dict_get (foldl (\<lambda>d (j, p). dict_set (p_id p) j d) [] (List.enumerate 0 (mp_catalog s))) i"

definition mcp_fair_price :: "mcp_state \<Rightarrow> product \<Rightarrow> pyfloat" where
  "mcp_fair_price s p = (case mp_models s (category p) of Some model \<Rightarrow> model (featurize p) | None \<Rightarrow> price p)"

definition mcp_median :: "mcp_state \<Rightarrow> string \<Rightarrow> product \<Rightarrow> pyfloat" where
  "mcp_median s i p = dict_get_or (mp_medians s) i (price p)"

record mcp_score =
  ms_id :: string
  ms_title :: string
  ms_price :: pyfloat
  ms_fair_price :: pyfloat
  ms_median_signal :: pyfloat
  ms_residual_frac :: pyfloat
  ms_verdict :: label

definition score_deal :: "mcp_state \<Rightarrow> string \<Rightarrow> mcp_score option" where
  "score_deal s i =
     map_option (\<lambda>j. let p = mp_catalog s ! j; fp = mcp_fair_price s p; median = mcp_median s i p
       in \<lparr>ms_id = i, ms_title = title p, ms_price = price p, ms_fair_price = py_round 2 fp,
           ms_median_signal = py_round 3 (median_signal (price p) median),
           ms_residual_frac = py_round 3 (residual_fraction (price p) fp), ms_verdict = v_label (verdict (price p) median fp)\<rparr>)
       (mcp_index s i)"

definition mcp_recommend :: "mcp_state \<Rightarrow> string \<Rightarrow> int \<Rightarrow> (string \<times> string \<times> pyfloat) list option" where
  "mcp_recommend s i k =
     map_option (\<lambda>j. map (\<lambda>n. let p = mp_catalog s ! n in (p_id p, title p, price p)) (content_recommend j (mp_emb s) k False)) (mcp_index s i)"

definition search_deals :: "(string list \<Rightarrow> pyfloat list list) \<Rightarrow> mcp_state \<Rightarrow> string \<Rightarrow> int \<Rightarrow> (string \<times> string \<times> pyfloat \<times> label) list" where
  "search_deals emb s q k =
     map (\<lambda>(i, sim). let p = mp_catalog s ! i in
         (p_id p, title p, price p, v_label (verdict (price p) (mcp_median s (p_id p) p) (mcp_fair_price s p))))
       (cosine_rank (hd (emb [q])) (mp_emb s) k)"

definition catalog_stats :: "mcp_state \<Rightarrow> string option" where
  \<comment> \<open>\<open>None\<close>: the average of an empty catalog\<close>
  "catalog_stats s =
     (let ps = mp_catalog s; n = length ps in
      if n = 0 then None
      else Some (nat_digits n @ '' electronics listings across '' @ nat_digits (length (py_dedupe (map category ps))) @
        '' categories; average price $'' @ fmt_fixed 0 (py_sum (map price ps) / of_nat n)))"

definition find_a_deal :: "string \<Rightarrow> string" where
  "find_a_deal cat = ''Find the best-value '' @ cat @ '' in the catalog and explain why it's a good deal.''"

section \<open>What the tools answer\<close>

lemma index_fold: "dict_get (foldl (\<lambda>d (j, p). dict_set (p_id p) j d) d0 (List.enumerate n ps)) i = Some j \<Longrightarrow>
    dict_get d0 i = Some j \<or> n \<le> j \<and> j < n + length ps \<and> p_id (ps ! (j - n)) = i"
proof (induction ps arbitrary: d0 n)
  case (Cons p ps)
  from Cons.IH [of "dict_set (p_id p) n d0" "Suc n"] Cons.prems
  consider "dict_get (dict_set (p_id p) n d0) i = Some j" | "Suc n \<le> j \<and> j < Suc n + length ps \<and> p_id (ps ! (j - Suc n)) = i"
    by auto
  then show ?case
  proof cases
    case 1
    then show ?thesis by (auto split: if_splits)
  next
    case 2
    then have "j - n = Suc (j - Suc n)" by arith
    then have "(p # ps) ! (j - n) = ps ! (j - Suc n)" by simp
    with 2 show ?thesis by auto
  qed
qed simp

lemma mcp_index_found: "mcp_index s i = Some j \<Longrightarrow> j < length (mp_catalog s) \<and> p_id (mp_catalog s ! j) = i"
  using index_fold [of "[]" 0 "mp_catalog s" i j] by (auto simp: mcp_index_def)

text \<open>The score of a product is that product's, and the label is the course's label wherever a median is known.\<close>

lemma score_deal_of:
  assumes "score_deal s i = Some r"
  shows "\<exists>p \<in> set (mp_catalog s). p_id p = i \<and> ms_price r = price p
    \<and> ms_verdict r = v_label (verdict (price p) (mcp_median s i p) (mcp_fair_price s p))"
proof -
  from assms obtain j where j: "mcp_index s i = Some j"
    and r: "ms_price r = price (mp_catalog s ! j)"
      "ms_verdict r = v_label (verdict (price (mp_catalog s ! j)) (mcp_median s i (mp_catalog s ! j)) (mcp_fair_price s (mp_catalog s ! j)))"
    by (auto simp: score_deal_def Let_def)
  from mcp_index_found [OF j] have "mp_catalog s ! j \<in> set (mp_catalog s)" "p_id (mp_catalog s ! j) = i" by auto
  with r show ?thesis by blast
qed

text \<open>Without a model the fair price is the price itself, so nothing is suspicious.\<close>

lemma no_model_not_suspicious:
  assumes "mp_models s (category p) = None"
  shows "v_label (verdict (price p) median (mcp_fair_price s p)) \<noteq> Suspicious"
  using assms by (auto simp: mcp_fair_price_def v_label_verdict verdict_of_def residual_fraction_def SUSPICIOUS_RESIDUAL_FRAC_def)

end
