(* ===== verification/Torch_Head.thy ===== *)
theory Torch_Head
  imports Tracking Inference
begin

text \<open>
  The torch price head of \<open>dealfinder/models.py\<close> and its copy on the shared matrix in \<open>dealfinder/tracking.py\<close>: the
  statistics of the training rows, the transformed target and its inverse, the figures; and the runs that
  \<open>run_tracking\<close> trains. Autograd is the parameter \<open>loop\<close>: from epochs, width of the hidden layer, learning rate, seed
  and the training rows it makes the final loss and the trained network.
\<close>

section \<open>Standardized rows and targets\<close>

definition feature_stats :: "matrix \<Rightarrow> (pyfloat \<times> pyfloat) list" where
  \<comment> \<open>\<open>mu\<close> and \<open>sd\<close>, column by column\<close>
  "feature_stats x = map (\<lambda>j. (mean_of (column x j), std_of (column x j) + 0.00000001)) [0..<width x]"

definition standardized :: "(pyfloat \<times> pyfloat) list \<Rightarrow> matrix \<Rightarrow> matrix" where
  "standardized stats x = map (map2 (\<lambda>(m, s) v. (v - m) / s) stats) x"

definition target_stats :: "pyfloat list \<Rightarrow> pyfloat \<times> pyfloat" where
  "target_stats y = (let ly = map (\<lambda>v. ln (1 + v)) y in (mean_of ly, std_of ly + 0.00000001))"

definition standard_target :: "pyfloat \<times> pyfloat \<Rightarrow> pyfloat list \<Rightarrow> pyfloat list" where
  "standard_target st y = (case st of (m, s) \<Rightarrow> map (\<lambda>v. (ln (1 + v) - m) / s) y)"

definition prices_back :: "pyfloat \<times> pyfloat \<Rightarrow> pyfloat list \<Rightarrow> pyfloat list" where
  "prices_back st z = (case st of (m, s) \<Rightarrow> map (\<lambda>p. exp (p * s + m) - 1) z)"

section \<open>The two loops\<close>

type_synonym torch_loop =
  "nat \<Rightarrow> nat \<Rightarrow> pyfloat \<Rightarrow> nat \<Rightarrow> matrix \<Rightarrow> pyfloat list \<Rightarrow> pyfloat \<times> (matrix \<Rightarrow> pyfloat list)"

record torch_result =
  tt_n_train :: nat
  tt_n_test :: nat
  tt_mae :: pyfloat
  tt_loss :: pyfloat
  tt_epochs :: nat
  tt_real :: bool

definition train_torch_pricehead ::
  "(nat \<Rightarrow> nat list) \<Rightarrow> torch_loop \<Rightarrow> product list \<Rightarrow> nat \<Rightarrow> nat \<Rightarrow> pyfloat \<Rightarrow> nat \<Rightarrow> torch_result option" where
  \<comment> \<open>\<open>None\<close>: a figure is not a number, because a part of the split is empty or no epoch ran\<close>
  "train_torch_pricehead perm loop ps epochs hidden lr seed =
     (let x = hand_features ps; y = map price ps; (tr, te) = split_indices perm (length ps)
      in if tr = [] \<or> te = [] \<or> epochs = 0 then None
         else
           (let stats = feature_stats (pick x tr); x_tr = standardized stats (pick x tr); x_te = standardized stats (pick x te);
                st = target_stats (pick y tr);
                (loss, net) = loop epochs hidden lr seed x_tr (standard_target st (pick y tr));
                preds = prices_back st (net x_te)
            in Some \<lparr>tt_n_train = length tr, tt_n_test = length te, tt_mae = py_round 2 (mae (pick y te) preds),
                     tt_loss = py_round 5 loss, tt_epochs = epochs, tt_real = True\<rparr>))"

definition torch_on_contract ::
  "torch_loop \<Rightarrow> nat \<Rightarrow> nat \<Rightarrow> pyfloat \<Rightarrow> nat \<Rightarrow> matrix \<Rightarrow> matrix \<Rightarrow> pyfloat list \<Rightarrow> pyfloat list \<Rightarrow> pyfloat" where
  "torch_on_contract loop epochs hidden lr seed x_tr x_te y_tr y_te =
     (let stats = feature_stats x_tr; xs = standardized stats x_tr; xt = standardized stats x_te; st = target_stats y_tr;
          net = snd (loop epochs hidden lr seed xs (standard_target st y_tr))
      in py_round 2 (mae y_te (prices_back st (net xt))))"

definition tracked_runs ::
  "(nat \<Rightarrow> nat list) \<Rightarrow> booster \<Rightarrow> fitter \<Rightarrow> reducer \<Rightarrow> booster \<Rightarrow> torch_loop option \<Rightarrow> string list \<times> matrix \<Rightarrow> product list \<Rightarrow>
   load_error + run_record list" where
  \<comment> \<open>\<open>lin\<close> is the linear model on real features; \<open>torch\<close> is \<open>None\<close> where torch is not installed\<close>
  "tracked_runs perm lin fit pca boost torch cache ps =
     andthen (contract_matrix perm pca cache ps) (\<lambda>m.
     andthen (gbdt_vs_linear perm fit pca boost cache ps None True PCA_COMPONENTS) (\<lambda>doc.
       Inr (same_features lin boost (map_option (\<lambda>loop. torch_on_contract loop 300 16 0.05 0) torch) m @
         documented_baselines doc (Option.bind torch (\<lambda>loop.
           map_option (\<lambda>t. (tt_mae t, tt_epochs t)) (train_torch_pricehead perm loop ps 300 16 0.05 0))))))"

section \<open>What holds\<close>

lemma std_of_nonneg: "0 \<le> std_of xs"
  by (auto simp: std_of_def mean_of_def intro!: divide_nonneg_nonneg sum_list_nonneg)

text \<open>The transform of the target can be undone: the spread is never zero, even when all prices are the same.\<close>

lemma prices_back_target:
  assumes "\<forall>v \<in> set y. - 1 < v"
  shows "prices_back (target_stats y') (standard_target (target_stats y') y) = y"
proof -
  obtain m s where st: "target_stats y' = (m, s)" by (cases "target_stats y'")
  have "0 < s" using st std_of_nonneg [of "map (\<lambda>v. ln (1 + v)) y'"] by (auto simp: target_stats_def Let_def)
  then show ?thesis using assms by (auto simp: st prices_back_def standard_target_def o_def intro!: map_idI)
qed

lemma mae_same: "mae y y = 0"
proof -
  have "map2 (\<lambda>a b. \<bar>a - b\<bar>) y y = map (\<lambda>a. 0 :: pyfloat) y" by (induction y) auto
  then show ?thesis by (simp only: mae_def) (simp add: mean_of_def)
qed

text \<open>So a network that hits every standardized target has no error in dollars.\<close>

lemma exact_network_no_error:
  assumes "\<forall>v \<in> set y_te. - 1 < v"
    and "snd (loop epochs hidden lr seed (standardized (feature_stats x_tr) x_tr) (standard_target (target_stats y_tr) y_tr))
           (standardized (feature_stats x_tr) x_te) = standard_target (target_stats y_tr) y_te"
  shows "torch_on_contract loop epochs hidden lr seed x_tr x_te y_tr y_te = 0"
  using assms by (simp add: torch_on_contract_def Let_def prices_back_target mae_same py_round_def round_half_even_def)

text \<open>The two loops are the same computation: on the hand features the shared one gives the price head's error.\<close>

lemma price_head_on_contract:
  assumes "train_torch_pricehead perm loop ps epochs hidden lr seed = Some t"
  shows "tt_mae t = torch_on_contract loop epochs hidden lr seed
      (pick (hand_features ps) (fst (split_indices perm (length ps)))) (pick (hand_features ps) (snd (split_indices perm (length ps))))
      (pick (map price ps) (fst (split_indices perm (length ps)))) (pick (map price ps) (snd (split_indices perm (length ps))))"
  using assms by (auto simp: train_torch_pricehead_def torch_on_contract_def Let_def split_beta split: if_splits)

text \<open>The trained runs always have a winner; it is on the shared features, and none of those has a lower error.\<close>

lemma tracked_winner:
  assumes "tracked_runs perm lin fit pca boost torch cache ps = Inr runs"
  obtains w where "winner_of runs = Some w" and "w \<in> set runs" and "rr_contract w = ''fair-price''"
    and "\<forall>r \<in> set runs. rr_contract r = ''fair-price'' \<longrightarrow> rr_mae w \<le> rr_mae r"
proof -
  obtain m doc tb where runs: "runs = same_features lin boost (map_option (\<lambda>loop. torch_on_contract loop 300 16 0.05 0) torch) m @ documented_baselines doc tb"
    using assms by (auto simp: tracked_runs_def andthen_eq_Inr)
  obtain w where w: "winner_of runs = Some w" using winner_exists runs by blast
  have base: "rr_contract r = ''documented-baseline''" if "r \<in> set (documented_baselines doc tb)" for r
    using that by (auto simp: documented_baselines_def split: option.splits)
  have fair: "rr_contract w = ''fair-price''" using winner_is_comparable(1) w runs by blast
  have least: "rr_mae w \<le> rr_mae r" if r: "r \<in> set runs" and c: "rr_contract r = ''fair-price''" for r
  proof -
    have "r \<notin> set (documented_baselines doc tb)" using base [of r] c by auto
    with r runs have "r \<in> set (same_features lin boost (map_option (\<lambda>loop. torch_on_contract loop 300 16 0.05 0) torch) m)" by simp
    then show ?thesis using winner_is_comparable(2) w runs by blast
  qed
  have "w \<in> set runs" using w py_min_SomeD(1) by (fastforce simp: winner_of_def)
  with w fair least show ?thesis by (intro that) auto
qed

end
