(* ===== verification/Model_Once.thy ===== *)
theory Model_Once
  imports Settings
begin

text \<open>
  The lazily built, process-wide resources: \<open>_get_model\<close> and \<open>warm\<close> of \<open>dealfinder/embed.py\<close> (the embedding
  model behind a double-checked lock) and \<open>get_pool\<close> of \<open>dealfinder/db.py\<close> (one connection pool per database URL).
  The first is a step relation over threads that call it at any time and are interrupted anywhere: one step is one
  read or write of the shared variables. Constructing the model may raise. A thread may call again.
\<close>

section \<open>The embedding model\<close>

definition model_cache_dir :: "environ \<Rightarrow> string option" where
  \<comment> \<open>where the model is read from; \<open>None\<close> is the library's own default\<close>
  "model_cache_dir env = (case getenv env ''DEALFINDER_MODEL_DIR'' of None \<Rightarrow> None | Some d \<Rightarrow> if d = [] then None else Some d)"

datatype pc =
    Idle
  | Waiting  \<comment> \<open>the first test saw no model\<close>
  | Locked  \<comment> \<open>inside the lock, before the second test\<close>
  | Building
  | Built  \<comment> \<open>the model is constructed, not yet assigned\<close>
  | Leaving  \<comment> \<open>the model is there, the lock not yet released\<close>
  | Failing  \<comment> \<open>the constructor raised, the lock not yet released\<close>
  | Returned
  | Raised

record 't model_state =
  mo_set :: bool
  mo_lock :: "'t option"
  mo_pc :: "'t \<Rightarrow> pc"
  mo_built :: nat  \<comment> \<open>models constructed so far\<close>

definition move :: "'t \<Rightarrow> pc \<Rightarrow> 't model_state \<Rightarrow> 't model_state" where
  "move t p s = s\<lparr>mo_pc := (mo_pc s)(t := p)\<rparr>"

inductive get_model :: "'t model_state \<Rightarrow> 't \<Rightarrow> 't model_state \<Rightarrow> bool" where
  found: "mo_pc s t = Idle \<Longrightarrow> mo_set s \<Longrightarrow> get_model s t (move t Returned s)"
| missing: "mo_pc s t = Idle \<Longrightarrow> \<not> mo_set s \<Longrightarrow> get_model s t (move t Waiting s)"
| acquire: "mo_pc s t = Waiting \<Longrightarrow> mo_lock s = None \<Longrightarrow> get_model s t (move t Locked (s\<lparr>mo_lock := Some t\<rparr>))"
| found_inside: "mo_pc s t = Locked \<Longrightarrow> mo_set s \<Longrightarrow> get_model s t (move t Leaving s)"
| build: "mo_pc s t = Locked \<Longrightarrow> \<not> mo_set s \<Longrightarrow> get_model s t (move t Building s)"
| built: "mo_pc s t = Building \<Longrightarrow> get_model s t (move t Built (s\<lparr>mo_built := mo_built s + 1\<rparr>))"
| raised: "mo_pc s t = Building \<Longrightarrow> get_model s t (move t Failing s)"
| assign: "mo_pc s t = Built \<Longrightarrow> get_model s t (move t Leaving (s\<lparr>mo_set := True\<rparr>))"
| leave: "mo_pc s t = Leaving \<Longrightarrow> get_model s t (move t Returned (s\<lparr>mo_lock := None\<rparr>))"
| fail: "mo_pc s t = Failing \<Longrightarrow> get_model s t (move t Raised (s\<lparr>mo_lock := None\<rparr>))"
| again: "mo_pc s t = Returned \<or> mo_pc s t = Raised \<Longrightarrow> get_model s t (move t Idle s)"

inductive_cases get_modelE: "get_model s t s'"

definition model_start :: "'t model_state" where
  "model_start = \<lparr>mo_set = False, mo_lock = None, mo_pc = (\<lambda>t. Idle), mo_built = 0\<rparr>"

inductive reachable :: "'t model_state \<Rightarrow> bool" where
  start: "reachable model_start"
| step: "reachable s \<Longrightarrow> get_model s t s' \<Longrightarrow> reachable s'"

definition inside :: "pc set" where
  \<comment> \<open>where a thread holds the lock\<close>
  "inside = {Locked, Building, Built, Leaving, Failing}"

definition model_inv :: "'t model_state \<Rightarrow> bool" where
  "model_inv s \<longleftrightarrow> mo_built s = (if mo_set s \<or> (\<exists>t. mo_pc s t = Built) then 1 else 0)
     \<and> (\<forall>t. mo_lock s = Some t \<longleftrightarrow> mo_pc s t \<in> inside)
     \<and> (\<forall>t. mo_pc s t = Building \<or> mo_pc s t = Built \<longrightarrow> \<not> mo_set s)
     \<and> (\<forall>t. mo_pc s t = Returned \<or> mo_pc s t = Leaving \<longrightarrow> mo_set s)"

lemma move_simps [simp]:
  "mo_pc (move t p s) u = (if u = t then p else mo_pc s u)" "mo_set (move t p s) = mo_set s"
  "mo_lock (move t p s) = mo_lock s" "mo_built (move t p s) = mo_built s"
  by (simp_all add: move_def)

lemma model_invD:
  assumes "model_inv s"
  shows "mo_built s = (if mo_set s \<or> (\<exists>t. mo_pc s t = Built) then 1 else 0)" "mo_lock s = Some t \<longleftrightarrow> mo_pc s t \<in> inside"
    "mo_pc s t = Building \<or> mo_pc s t = Built \<Longrightarrow> \<not> mo_set s" "mo_pc s t = Returned \<or> mo_pc s t = Leaving \<Longrightarrow> mo_set s"
  using assms by (auto simp: model_inv_def)

text \<open>The thread that builds holds the lock, so no other thread is between the two tests.\<close>

lemma get_model_inv:
  assumes "model_inv s" and "get_model s t s'"
  shows "model_inv s'"
proof -
  note I = model_invD [OF assms(1)]
  have alone: "mo_pc s u \<notin> inside" if "mo_pc s t \<in> inside" "u \<noteq> t" for u
    using I(2) [of t] I(2) [of u] that by auto
  have free: "mo_pc s u \<notin> inside" if "mo_lock s = None" for u using I(2) [of u] that by auto
  have same: "model_inv (move t p (s\<lparr>mo_lock := l\<rparr>))"
    if "mo_pc s t \<noteq> Built" "p \<notin> {Built, Building}" "p = Returned \<or> p = Leaving \<longrightarrow> mo_set s"
      "\<And>u. l = Some u \<longleftrightarrow> (if u = t then p \<in> inside else mo_pc s u \<in> inside)" for p l
  proof -
    have "(\<exists>u. mo_pc (move t p (s\<lparr>mo_lock := l\<rparr>)) u = Built) \<longleftrightarrow> (\<exists>u. mo_pc s u = Built)" using that(1,2) by (auto split: if_splits)
    with that I(1) show ?thesis unfolding model_inv_def using I(3,4) by auto
  qed
  have keeps: "mo_lock s = Some u \<longleftrightarrow> (if u = t then q \<in> inside else mo_pc s u \<in> inside)" if "mo_pc s t \<in> inside \<longleftrightarrow> q \<in> inside" for u q
    using I(2) [of u] that by simp
  have lets_go: "None = Some u \<longleftrightarrow> (if u = t then q \<in> inside else mo_pc s u \<in> inside)" if "mo_pc s t \<in> inside" "q \<notin> inside" for u q
    using alone [OF that(1)] that(2) by simp
  have none: "mo_pc s u \<noteq> Built" if "mo_pc s t \<in> {Locked, Building}" for u
    using alone [of u] that by (cases "u = t") (auto simp: inside_def)
  from assms(2) show ?thesis
  proof cases
    case found
    then show ?thesis using same [OF _ _ _ keeps, of Returned] by (simp add: inside_def)
  next
    case missing
    then show ?thesis using same [OF _ _ _ keeps, of Waiting] by (simp add: inside_def)
  next
    case acquire
    then show ?thesis using same [of Locked "Some t"] free by (auto simp: inside_def)
  next
    case found_inside
    then show ?thesis using same [OF _ _ _ keeps, of Leaving] by (simp add: inside_def)
  next
    case build
    then show ?thesis using I alone none by (auto simp: model_inv_def inside_def)
  next
    case built
    then show ?thesis using I alone none by (auto simp: model_inv_def inside_def)
  next
    case raised
    then show ?thesis using same [OF _ _ _ keeps, of Failing] by (simp add: inside_def)
  next
    case assign
    then show ?thesis using I alone by (auto simp: model_inv_def inside_def)
  next
    case leave
    then show ?thesis using same [OF _ _ _ lets_go, of Returned] I(4) [of t] by (simp add: inside_def)
  next
    case fail
    then show ?thesis using same [OF _ _ _ lets_go, of Raised] by (simp add: inside_def)
  next
    case again
    then show ?thesis using same [OF _ _ _ keeps, of Idle] by (auto simp: inside_def)
  qed
qed

lemma reachable_inv: "reachable s \<Longrightarrow> model_inv s"
proof (induction rule: reachable.induct)
  case start
  show ?case by (simp add: model_inv_def model_start_def inside_def)
next
  case (step s t s')
  then show ?case by (blast intro: get_model_inv)
qed

text \<open>C17: One model, however the calls interleave. In every reachable state at most one model has been constructed, at most
  one thread is constructing, and every thread that came back from a call has it; and the calls cannot block each
  other: as long as some call is under way, one that is under way can take a step.\<close>

theorem model_built_once:
  assumes "reachable s"
  shows "mo_built s \<le> 1 \<and> (mo_pc s t = Building \<and> mo_pc s u = Building \<longrightarrow> t = u)
    \<and> (mo_pc s t = Returned \<longrightarrow> mo_set s \<and> mo_built s = 1)
    \<and> (mo_pc s t \<notin> {Returned, Raised} \<longrightarrow> (\<exists>v s'. mo_pc s v \<notin> {Returned, Raised} \<and> get_model s v s'))"
proof -
  note I = model_invD [OF reachable_inv [OF assms]]
  have "\<exists>v s'. mo_pc s v \<notin> {Returned, Raised} \<and> get_model s v s'" if under: "mo_pc s t \<notin> {Returned, Raised}"
  proof (cases "mo_lock s")
    case None
    then have "mo_pc s t \<in> {Idle, Waiting}" using I(2) [of t] under by (cases "mo_pc s t") (auto simp: inside_def)
    then show ?thesis using under None get_model.intros(1-3) [of s t] by (cases "mo_set s") auto
  next
    case (Some v)
    then have "mo_pc s v \<in> inside" using I(2) [of v] by simp
    then have "\<exists>s'. get_model s v s'" using get_model.intros(4-10) [of s v] unfolding inside_def by (cases "mo_set s") blast+
    moreover have "mo_pc s v \<notin> {Returned, Raised}" using \<open>mo_pc s v \<in> inside\<close> by (auto simp: inside_def)
    ultimately show ?thesis by blast
  qed
  moreover have "t = u" if "mo_pc s t = Building" "mo_pc s u = Building"
    using I(2) [of t] I(2) [of u] that by (auto simp: inside_def)
  ultimately show ?thesis using I(1) I(4) [of t] by auto
qed

text \<open>Two threads that both saw no model: the second finds the first one's.\<close>

definition demo_asks :: "bool model_state" where
  "demo_asks = move True Building (move True Locked ((move False Waiting (move True Waiting model_start))\<lparr>mo_lock := Some True\<rparr>))"

definition demo_builds :: "bool model_state" where
  "demo_builds = move True Returned ((move True Leaving ((move True Built (demo_asks\<lparr>mo_built := 1\<rparr>))\<lparr>mo_set := True\<rparr>))\<lparr>mo_lock := None\<rparr>)"

definition demo_state :: "bool model_state" where
  "demo_state = move False Returned ((move False Leaving (move False Locked (demo_builds\<lparr>mo_lock := Some False\<rparr>)))\<lparr>mo_lock := None\<rparr>)"

lemma demo_start: "mo_pc (model_start :: bool model_state) = (\<lambda>t. Idle)" "\<not> mo_set (model_start :: bool model_state)"
    "mo_lock (model_start :: bool model_state) = None" "mo_built (model_start :: bool model_state) = 0"
  by (simp_all add: model_start_def)

lemma demo_asks_reachable: "reachable demo_asks"
proof -
  let ?s1 = "move True Waiting model_start :: bool model_state"
  let ?s2 = "move False Waiting ?s1"
  let ?s3 = "move True Locked (?s2\<lparr>mo_lock := Some True\<rparr>)"
  have "reachable ?s1" by (rule reachable.step [OF reachable.start get_model.missing]) (simp_all add: demo_start)
  then have "reachable ?s2" by (rule reachable.step [OF _ get_model.missing]) (simp_all add: demo_start)
  then have "reachable ?s3" by (rule reachable.step [OF _ get_model.acquire]) (simp_all add: demo_start)
  then have "reachable (move True Building ?s3)" by (rule reachable.step [OF _ get_model.build]) (simp_all add: demo_start)
  then show ?thesis by (simp add: demo_asks_def)
qed

lemma demo_builds_reachable: "reachable demo_builds"
proof -
  let ?s5 = "move True Built (demo_asks\<lparr>mo_built := 1\<rparr>)"
  let ?s6 = "move True Leaving (?s5\<lparr>mo_set := True\<rparr>)"
  have m: "mo_pc demo_asks True = Building" "mo_built demo_asks = 0" by (simp_all add: demo_asks_def demo_start)
  then have "get_model demo_asks True ?s5" using get_model.built [of demo_asks True] by simp
  with demo_asks_reachable have "reachable ?s5" by (rule reachable.step)
  then have "reachable ?s6" by (rule reachable.step [OF _ get_model.assign]) simp
  then have "reachable (move True Returned (?s6\<lparr>mo_lock := None\<rparr>))" by (rule reachable.step [OF _ get_model.leave]) simp
  then show ?thesis by (simp add: demo_builds_def)
qed

lemma demo_reachable: "reachable demo_state"
proof -
  let ?s8 = "move False Locked (demo_builds\<lparr>mo_lock := Some False\<rparr>)"
  have "mo_pc demo_builds False = Waiting" "mo_lock demo_builds = None" "mo_set demo_builds"
    by (simp_all add: demo_builds_def demo_asks_def)
  then have "reachable ?s8" by (intro reachable.step [OF demo_builds_reachable get_model.acquire])
  then have "reachable (move False Leaving ?s8)" by (rule reachable.step [OF _ get_model.found_inside]) (simp_all add: demo_builds_def)
  then have "reachable (move False Returned ((move False Leaving ?s8)\<lparr>mo_lock := None\<rparr>))"
    by (rule reachable.step [OF _ get_model.leave]) simp
  then show ?thesis by (simp add: demo_state_def)
qed

theorem model_built_once_witness: "mo_built demo_state = 1 \<and> mo_pc demo_state True = Returned \<and> mo_pc demo_state False = Returned"
proof -
  have "mo_pc demo_state True = Returned" "mo_pc demo_state False = Returned" by (simp_all add: demo_state_def demo_builds_def)
  with model_built_once [OF demo_reachable, of True False] show ?thesis by simp
qed

section \<open>The connection pools\<close>

definition pool_url :: "environ \<Rightarrow> string option \<Rightarrow> string option" where
  \<comment> \<open>\<open>_url\<close>: the argument or \<open>DATABASE_URL\<close>; \<open>None\<close> is the \<open>RuntimeError\<close>\<close>
  "pool_url env url = (case url of
     Some u \<Rightarrow> if u \<noteq> [] then Some u else (if truthy (getenv env ''DATABASE_URL'') then getenv env ''DATABASE_URL'' else None)
   | None \<Rightarrow> if truthy (getenv env ''DATABASE_URL'') then getenv env ''DATABASE_URL'' else None)"

definition get_pool :: "environ \<Rightarrow> (string \<Rightarrow> 'p) \<Rightarrow> string option \<Rightarrow> (string, 'p) dict \<Rightarrow> (string, 'p) dict \<times> 'p option" where
  \<comment> \<open>the whole body is one locked section; \<open>mk\<close> opens a pool\<close>
  "get_pool env mk url pools =
     (case pool_url env url of
        None \<Rightarrow> (pools, None)
      | Some u \<Rightarrow> (let pools' = (if dict_has pools u then pools else dict_set u (mk u) pools) in (pools', dict_get pools' u)))"

definition migration_url :: "environ \<Rightarrow> string option \<Rightarrow> string option" where
  \<comment> \<open>\<open>_url\<close> of \<open>dealfinder/migrate.py\<close>: the migration URL comes first\<close>
  "migration_url env url =
     (if truthy url then url else if truthy (getenv env ''MIGRATION_DATABASE_URL'') then getenv env ''MIGRATION_DATABASE_URL''
      else if truthy (getenv env ''DATABASE_URL'') then getenv env ''DATABASE_URL'' else None)"

lemma get_pool_shared:
  assumes "get_pool env mk url pools = (pools1, Some p)"
  shows "get_pool env mk' url pools1 = (pools1, Some p)"
  using assms by (auto simp: get_pool_def Let_def split: option.splits if_splits)

lemma get_pool_keeps:
  "get_pool env mk url pools = (pools', r) \<Longrightarrow> dict_get pools u = Some p \<Longrightarrow> dict_get pools' u = Some p"
  by (auto simp: get_pool_def Let_def split: option.splits if_splits)

end
