(* ===== verification/Shopper_Agent.thy ===== *)
theory Shopper_Agent
  imports Agent_Loop Mlops
begin

text \<open>
  The shopping agent of \<open>dealfinder/run_agent.py\<close> on the tools of \<open>dealfinder/tools.py\<close>: a question becomes SQL,
  the catalog table is filtered, the matches are ranked by the two-signal score, and the best is the answer. The
  part of SQL that \<open>nl_to_sql\<close> writes is given its meaning here: a conjunction of comparisons with a number or a
  text literal, and \<open>LIKE\<close> with a word between two \<open>%\<close> signs, which compares ASCII letters without case.
\<close>

section \<open>The table and its queries\<close>

record sql_row =
  sr_id :: string
  sr_title :: string
  sr_brand :: "string option"
  sr_category :: string
  sr_price :: pyfloat
  sr_condition :: string
  sr_source :: string

definition sql_row_of :: "product \<Rightarrow> sql_row" where
  "sql_row_of p = \<lparr>sr_id = p_id p, sr_title = title p, sr_brand = brand p, sr_category = category p, sr_price = price p,
     sr_condition = condition p, sr_source = source p\<rparr>"

definition build_db :: "product list \<Rightarrow> sql_row list" where "build_db ps = map sql_row_of ps"

fun split_and :: "string \<Rightarrow> string \<Rightarrow> string list" where
  \<comment> \<open>the operands of the conjunction\<close>
  "split_and acc [] = [rev acc]"
| "split_and acc (c # s) = (if prefix '' AND '' (c # s) then rev acc # split_and [] (drop 4 s) else split_and (c # acc) s)"

definition sql_literal :: "string \<Rightarrow> string" where
  \<comment> \<open>between the quotes\<close>
  "sql_literal s = butlast (tl s)"

definition holds :: "string \<Rightarrow> sql_row \<Rightarrow> bool" where
  "holds c r =
     (if prefix ''price < '' c then sr_price r < of_nat (digits_val 0 (drop 8 c))
      else if prefix ''price > '' c then sr_price r > of_nat (digits_val 0 (drop 8 c))
      else if prefix ''category = '' c then sr_category r = sql_literal (drop 11 c)
      else if prefix ''condition = '' c then sr_condition r = sql_literal (drop 12 c)
      else if prefix ''title LIKE '' c
      then py_in (py_lower (butlast (tl (sql_literal (drop 11 c))))) (py_lower (sr_title r))
      else c = ''1=1'')"

definition run_sql :: "sql_row list \<Rightarrow> string \<Rightarrow> sql_row list" where
  "run_sql db sql =
     (let conds = split_and [] (drop (length ''SELECT * FROM catalog WHERE '') sql)
      in filter (\<lambda>r. list_all (\<lambda>c. holds c r) conds) db)"

section \<open>What a question asks for\<close>

definition wanted_row :: "string \<Rightarrow> sql_row \<Rightarrow> bool" where
  \<comment> \<open>the question, read without SQL\<close>
  "wanted_row question r \<longleftrightarrow>
     (let q = py_lower question; says = (\<lambda>v P. case v of None \<Rightarrow> True | Some x \<Rightarrow> P x) in
      says (rx_group (price_re ''under'') q) (\<lambda>d. sr_price r < of_nat (digits_val 0 d))
    \<and> says (rx_group (price_re ''over'') q) (\<lambda>d. sr_price r > of_nat (digits_val 0 d))
    \<and> says (sql_category question) (\<lambda>c. sr_category r = c)
    \<and> says (sql_condition question) (\<lambda>c. sr_condition r = c)
    \<and> says (sql_brand question) (\<lambda>b. py_in (py_lower b) (py_lower (sr_title r)))
    \<and> says (find (\<lambda>kw. py_in kw q) TYPE_WORDS) (\<lambda>kw. py_in kw (py_lower (sr_title r))))"

section \<open>The agent\<close>

datatype shop_args = Ask string | Ids "string list"

datatype shop_obs =
    Matched string "sql_row list"
  | Ordered "(string \<times> pyfloat \<times> pyfloat) list"  \<comment> \<open>id, price, deal\<close>
  | Said string

definition deal_of :: "fitter \<Rightarrow> product list \<Rightarrow> (string, pyfloat) dict \<Rightarrow> product \<Rightarrow> pyfloat" where
  "deal_of fit ps medians p =
     (let m = median_signal (price p) (dict_get_or medians (p_id p) 0) in
      case category_models fit ps (category p) of
        None \<Rightarrow> m
      | Some model \<Rightarrow> (let rf = residual_fraction (price p) (model (featurize p))
          in if m \<ge> 0.15 \<and> rf > 0.70 then m - 1 else m))"

definition sql_search :: "product list \<Rightarrow> string \<Rightarrow> shop_obs" where
  "sql_search ps question = (let sql = nl_to_sql question ''catalog'' in Matched sql (run_sql (build_db ps) sql))"

definition rank_deals :: "fitter \<Rightarrow> product list \<Rightarrow> (string, pyfloat) dict \<Rightarrow> string list \<Rightarrow> shop_obs option" where
  \<comment> \<open>\<open>None\<close>: an id that is not in the catalog\<close>
  "rank_deals fit ps medians ids =
     (let products = map (dict_get (by_id ps)) ids in
      if None \<in> set products then None
      else Some (Ordered (sort_key (\<lambda>(i, x, d). - d)
        (map (\<lambda>p. (p_id p, price p, deal_of fit ps medians p)) (map the products)))))"

definition shop_tools :: "fitter \<Rightarrow> product list \<Rightarrow> (string, pyfloat) dict \<Rightarrow> (shop_args, shop_obs, unit) tool list" where
  \<comment> \<open>a tool called with the other tool's arguments raises\<close>
  "shop_tools fit ps medians =
     [\<lparr>tl_name = ''sql_search'', tl_fn = (\<lambda>a w. (case a of Ask q \<Rightarrow> Some (sql_search ps q) | Ids xs \<Rightarrow> None, w)), tl_requires_approval = False\<rparr>,
      \<lparr>tl_name = ''rank_deals'', tl_fn = (\<lambda>a w. (case a of Ids xs \<Rightarrow> rank_deals fit ps medians xs | Ask q \<Rightarrow> None, w)), tl_requires_approval = False\<rparr>]"

definition answer_text :: "product \<Rightarrow> pyfloat \<Rightarrow> string" where
  "answer_text p d = title p @ '' at $'' @ fmt_fixed 2 (price p) @ '' ('' @ fmt_fixed 0 (d * 100) @ ''% under median)''"

definition shop_policy :: "product list \<Rightarrow> string \<Rightarrow> (shop_args, shop_obs) step list \<Rightarrow> unit \<Rightarrow> (shop_args, shop_obs) action option \<times> unit" where
  "shop_policy ps goal trace w =
     ((if length trace = 0
       then Some \<lparr>ac_thought = ''Translate the request into SQL and filter the catalog'', ac_tool = Some ''sql_search'', ac_args = Ask goal,
              ac_answer = Said []\<rparr>
       else if length trace = 1
       then (case st_observation (trace ! 0) of
               Observed (Matched sql rows) \<Rightarrow> Some \<lparr>ac_thought = ''Rank those matches by how good a deal each is'',
                 ac_tool = Some ''rank_deals'', ac_args = Ids (map sr_id rows), ac_answer = Said []\<rparr>
             | _ \<Rightarrow> None)
       else (case st_observation (trace ! 1) of
               Observed (Ordered ((i, x, d) # others)) \<Rightarrow> map_option (\<lambda>p.
                 \<lparr>ac_thought = ''Pick the best-value match and answer'', ac_tool = None, ac_args = Ids [], ac_answer = Said (answer_text p d)\<rparr>)
                 (dict_get (by_id ps) i)
             | _ \<Rightarrow> None)), w)"

definition shopper_agent ::
  "fitter \<Rightarrow> product list \<Rightarrow> (string, pyfloat) dict \<Rightarrow> string \<Rightarrow> (shop_args, shop_obs, unit) run" where
  "shopper_agent fit ps medians goal = run_agent (new_agent (shop_tools fit ps medians) (shop_policy ps) None 8) goal ()"

definition GOAL :: string where "GOAL = ''find a good noise-cancelling headphone under $120''"

section \<open>The database reads what the question says\<close>

fun no_and :: "string \<Rightarrow> bool" where
  "no_and (c # d # s) = (\<not> (c = CHR '' '' \<and> d = CHR ''A'') \<and> no_and (d # s))"
| "no_and s = True"

lemma no_and_spaceless: "CHR '' '' \<notin> set s \<Longrightarrow> no_and s"
  by (induction s rule: no_and.induct) auto

lemma split_and_whole: "no_and x \<Longrightarrow> split_and acc x = [rev acc @ x]"
  by (induction x arbitrary: acc rule: no_and.induct) auto

lemma split_and_first: "no_and x \<Longrightarrow> split_and acc (x @ '' AND '' @ s) = (rev acc @ x) # split_and [] s"
  by (induction x arbitrary: acc rule: no_and.induct) auto

lemma split_and_join: "cs \<noteq> [] \<Longrightarrow> list_all no_and cs \<Longrightarrow> split_and [] (py_join '' AND '' cs) = cs"
proof (induction cs rule: induct_list012)
  case (2 w)
  then show ?case by (simp add: split_and_whole)
next
  case (3 w v ws)
  then show ?case using split_and_first [of w "[]" "py_join '' AND '' (v # ws)"] by simp
qed simp

lemma brand_words: "b \<in> set KNOWN_BRANDS \<union> set TYPE_WORDS \<Longrightarrow> b \<noteq> [] \<and> no_and (''title LIKE '' @ quote # ''%'' @ b @ ''%'' @ [quote])"
  by (auto simp: KNOWN_BRANDS_def TYPE_WORDS_def quote_def)

lemma digits_no_and: "u \<noteq> [] \<Longrightarrow> \<forall>c \<in> set u. is_digit c \<Longrightarrow> no_and (''price < '' @ u) \<and> no_and (''price > '' @ u)"
proof (cases u)
  case (Cons d v)
  moreover assume "\<forall>c \<in> set u. is_digit c"
  ultimately have "CHR '' '' \<notin> set u" "d \<noteq> CHR ''A''" by (auto simp: is_digit_def ord_def)
  with Cons show ?thesis using no_and_spaceless [of u] by simp
qed simp

lemma clauses_no_and: "list_all no_and (sql_clauses question)"
  unfolding list_all_iff
proof
  fix x assume "x \<in> set (sql_clauses question)"
  then show "no_and x"
  proof (cases rule: sql_clausesE)
    case (1 u)
    then show ?thesis using digits_no_and [of u] by (simp add: list_all_iff)
  next
    case (2 u)
    then show ?thesis using digits_no_and [of u] by (simp add: list_all_iff)
  next
    case (3 c)
    then show ?thesis by (auto simp: known_categories quote_def)
  next
    case (4 c)
    then show ?thesis by (auto simp: quote_def)
  next
    case (5 b)
    then show ?thesis using brand_words [of b] by simp
  qed
qed

lemma holds_forms:
  "holds (''price < '' @ u) r \<longleftrightarrow> sr_price r < of_nat (digits_val 0 u)"
  "holds (''price > '' @ u) r \<longleftrightarrow> sr_price r > of_nat (digits_val 0 u)"
  "holds (''category = '' @ quote # c @ [quote]) r \<longleftrightarrow> sr_category r = c"
  "holds (''condition = '' @ quote # c @ [quote]) r \<longleftrightarrow> sr_condition r = c"
  "holds (''title LIKE '' @ quote # ''%'' @ b @ ''%'' @ [quote]) r \<longleftrightarrow> py_in (py_lower b) (py_lower (sr_title r))"
  "holds ''1=1'' r"
  by (simp_all add: holds_def sql_literal_def butlast_append)

lemma list_all_clause:
  assumes "\<And>x. v = Some x \<Longrightarrow> x \<noteq> [] \<and> (holds (pre @ x @ post) r \<longleftrightarrow> P x)"
  shows "list_all (\<lambda>c. holds c r) (clause pre v post) \<longleftrightarrow> (case v of None \<Rightarrow> True | Some x \<Rightarrow> P x)"
  using assms by (auto simp: clause_def split: option.split)

lemma type_words_lower: "kw \<in> set TYPE_WORDS \<Longrightarrow> kw \<noteq> [] \<and> py_lower kw = kw"
  by (auto simp: TYPE_WORDS_def py_lower_def lower_char_def is_upper_def ord_def)

lemma clauses_hold: "list_all (\<lambda>c. holds c r) (sql_clauses question) \<longleftrightarrow> wanted_row question r"
proof -
  let ?q = "py_lower question"
  have price: "list_all (\<lambda>c. holds c r) (clause (''price < '') (rx_group (price_re ''under'') ?q) []) \<longleftrightarrow>
      (case rx_group (price_re ''under'') ?q of None \<Rightarrow> True | Some d \<Rightarrow> sr_price r < of_nat (digits_val 0 d))"
    "list_all (\<lambda>c. holds c r) (clause (''price > '') (rx_group (price_re ''over'') ?q) []) \<longleftrightarrow>
      (case rx_group (price_re ''over'') ?q of None \<Rightarrow> True | Some d \<Rightarrow> sr_price r > of_nat (digits_val 0 d))"
    using price_digits holds_forms(1,2) [of _ r] by (auto intro!: list_all_clause simp del: append.simps)
  have cat: "list_all (\<lambda>c. holds c r) (clause (''category = '' @ [quote]) (sql_category question) [quote]) \<longleftrightarrow>
      (case sql_category question of None \<Rightarrow> True | Some c \<Rightarrow> sr_category r = c)"
  proof (rule list_all_clause)
    fix c assume "sql_category question = Some c"
    then have "c \<noteq> []" using sql_category_known [of question c] by (auto simp: known_categories)
    then show "c \<noteq> [] \<and> (holds ((''category = '' @ [quote]) @ c @ [quote]) r \<longleftrightarrow> sr_category r = c)"
      using holds_forms(3) [of c r] by simp
  qed
  have cond: "list_all (\<lambda>c. holds c r) (clause (''condition = '' @ [quote]) (sql_condition question) [quote]) \<longleftrightarrow>
      (case sql_condition question of None \<Rightarrow> True | Some c \<Rightarrow> sr_condition r = c)"
  proof (rule list_all_clause)
    fix c assume "sql_condition question = Some c"
    then have "c \<noteq> []" using sql_condition_known [of question c] by auto
    then show "c \<noteq> [] \<and> (holds ((''condition = '' @ [quote]) @ c @ [quote]) r \<longleftrightarrow> sr_condition r = c)"
      using holds_forms(4) [of c r] by simp
  qed
  have like: "b \<in> set KNOWN_BRANDS \<union> set TYPE_WORDS \<Longrightarrow> b \<noteq> [] \<and>
      (holds ((''title LIKE '' @ quote # ''%'') @ b @ (''%'' @ [quote])) r \<longleftrightarrow> py_in (py_lower b) (py_lower (sr_title r)))" for b
    using holds_forms(5) [of b r] brand_words [of b] by simp
  have br: "list_all (\<lambda>c. holds c r) (clause (''title LIKE '' @ quote # ''%'') (sql_brand question) (''%'' @ [quote])) \<longleftrightarrow>
      (case sql_brand question of None \<Rightarrow> True | Some b \<Rightarrow> py_in (py_lower b) (py_lower (sr_title r)))"
    by (rule list_all_clause) (use like sql_brand_known in blast)
  have kw: "list_all (\<lambda>c. holds c r) (clause (''title LIKE '' @ quote # ''%'') (find (\<lambda>kw. py_in kw ?q) TYPE_WORDS) (''%'' @ [quote])) \<longleftrightarrow>
      (case find (\<lambda>kw. py_in kw ?q) TYPE_WORDS of None \<Rightarrow> True | Some b \<Rightarrow> py_in b (py_lower (sr_title r)))"
  proof (rule list_all_clause)
    fix b assume "find (\<lambda>kw. py_in kw ?q) TYPE_WORDS = Some b"
    then have "b \<in> set TYPE_WORDS" using find_in [of _ TYPE_WORDS b] by blast
    then show "b \<noteq> [] \<and> (holds ((''title LIKE '' @ quote # ''%'') @ b @ (''%'' @ [quote])) r \<longleftrightarrow> py_in b (py_lower (sr_title r)))"
      using like [of b] type_words_lower [of b] by simp
  qed
  show ?thesis
    unfolding sql_clauses_def wanted_row_def Let_def list_all_append price cat cond br kw by simp
qed

lemma run_sql_reads: "run_sql db (nl_to_sql question ''catalog'') = filter (wanted_row question) db"
proof -
  have "split_and [] (drop (length ''SELECT * FROM catalog WHERE '') (nl_to_sql question ''catalog'')) =
      (if sql_clauses question = [] then [''1=1''] else sql_clauses question)"
    using split_and_join [OF _ clauses_no_and, of question] by (simp add: nl_to_sql_def)
  moreover have "list_all (\<lambda>c. holds c r) (if sql_clauses question = [] then [''1=1''] else sql_clauses question) \<longleftrightarrow> wanted_row question r" for r
    using clauses_hold [of r question] holds_forms(6) by (cases "sql_clauses question = []") simp_all
  ultimately show ?thesis by (simp add: run_sql_def Let_def)
qed

section \<open>The run\<close>

lemma by_id_distinct:
  assumes "distinct (map p_id ps)" and "p \<in> set ps"
  shows "dict_get (by_id ps) (p_id p) = Some p"
proof -
  have "dict_get (foldl (\<lambda>d p. dict_set (p_id p) p d) d ps) i =
      (case find (\<lambda>p. p_id p = i) ps of Some p \<Rightarrow> Some p | None \<Rightarrow> dict_get d i)" if "distinct (map p_id ps)" for d i
    using that
  proof (induction ps arbitrary: d)
    case (Cons q ps)
    then have "find (\<lambda>p. p_id p = p_id q) ps = None"
      unfolding find_None_iff by (fastforce simp: image_def)
    with Cons show ?case by (auto split: option.split)
  qed simp
  moreover have "find (\<lambda>q. p_id q = p_id p) ps = Some p" using assms
    by (induction ps) (auto simp: image_iff)
  ultimately show ?thesis using assms(1) by (simp add: by_id_def)
qed

lemma rank_deals_all:
  assumes "distinct (map p_id ps)" and "set qs \<subseteq> set ps"
  shows "rank_deals fit ps medians (map p_id qs) =
    Some (Ordered (map (\<lambda>p. (p_id p, price p, deal_of fit ps medians p)) (sort_key (\<lambda>p. - deal_of fit ps medians p) qs)))"
proof -
  have found: "map (dict_get (by_id ps)) (map p_id qs) = map Some qs"
    using assms(2) by_id_distinct [OF assms(1)] by (induction qs) auto
  have "sort_key (\<lambda>(i, x, d). - d) (map (\<lambda>p. (p_id p, price p, f p)) qs) =
      map (\<lambda>p. (p_id p, price p, f p)) (sort_key (\<lambda>p. - f p) qs)" for f :: "product \<Rightarrow> pyfloat"
  proof -
    have "insort_key (\<lambda>(i, x, d). - d) (p_id q, price q, f q) (map (\<lambda>p. (p_id p, price p, f p)) xs) =
        map (\<lambda>p. (p_id p, price p, f p)) (insort_key (\<lambda>p. - f p) q xs)" for q xs
      by (induction xs) auto
    then show ?thesis by (induction qs) simp_all
  qed
  then show ?thesis unfolding rank_deals_def Let_def found by (auto simp: comp_def)
qed

lemma shopper_tools:
  "dict_get (ag_tools (new_agent (shop_tools fit ps medians) (shop_policy ps) None 8)) ''sql_search'' = Some (shop_tools fit ps medians ! 0)"
  "dict_get (ag_tools (new_agent (shop_tools fit ps medians) (shop_policy ps) None 8)) ''rank_deals'' = Some (shop_tools fit ps medians ! 1)"
  by (simp_all add: new_agent_def shop_tools_def dict_get_def)

lemma shopper_agent_run:
  fixes goal :: string
  assumes "distinct (map p_id ps)"
  defines "qs \<equiv> filter (\<lambda>p. wanted_row goal (sql_row_of p)) ps"
  shows "case shopper_agent fit ps medians goal of (r, trace, es, w) \<Rightarrow>
    es = [Called ''sql_search'' (Ask goal), Called ''rank_deals'' (Ids (map p_id qs))]
    \<and> (case sort_key (\<lambda>p. - deal_of fit ps medians p) qs of
         [] \<Rightarrow> r = Policy_Raised \<and> length trace = 2
       | p # more_qs \<Rightarrow> r = Answered (Said (answer_text p (deal_of fit ps medians p))) \<and> length trace = 3)"
proof -
  have rows: "run_sql (build_db ps) (nl_to_sql goal ''catalog'') = map sql_row_of qs"
    by (simp add: run_sql_reads build_db_def qs_def filter_map comp_def)
  have ids: "map sr_id (map sql_row_of qs) = map p_id qs" by (simp add: sql_row_of_def)
  have sub: "set qs \<subseteq> set ps" by (auto simp: qs_def)
  note ranked = rank_deals_all [OF assms(1) sub, of fit medians]
  have get: "p \<in> set qs \<Longrightarrow> dict_get (by_id ps) (p_id p) = Some p" for p using by_id_distinct [OF assms(1)] sub by blast
  define ag where "ag = new_agent (shop_tools fit ps medians) (shop_policy ps) None 8"
  have policy: "ag_policy ag = shop_policy ps" by (simp add: ag_def new_agent_def)
  obtain n where steps: "nat (ag_max_steps ag) = Suc (Suc (Suc n))"
    using that [of 5] by (simp add: ag_def new_agent_def)
  note tools = shopper_tools [of fit ps medians, folded ag_def]
  show ?thesis
  proof (cases "sort_key (\<lambda>p. - deal_of fit ps medians p) qs")
    case Nil
    then show ?thesis
      unfolding shopper_agent_def ag_def [symmetric] run_agent_def steps
      by (simp add: policy shop_policy_def tools shop_tools_def sql_search_def Let_def rows ids ranked del: map_map)
  next
    case (Cons p more_qs)
    then have "p \<in> set qs" by (metis list.set_intros(1) set_sort)
    with Cons show ?thesis
      unfolding shopper_agent_def ag_def [symmetric] run_agent_def steps
      by (simp add: policy shop_policy_def tools shop_tools_def sql_search_def Let_def rows ids ranked get del: map_map)
  qed
qed

text \<open>C15: The text-to-SQL tool answers the question. For any question and table, the rows the database returns for the query are
  exactly the rows that satisfy what was read out of the question: the price bounds as numbers, the category, the
  condition, the brand and the product word in the title, each where the question names one.\<close>

theorem text_to_sql_reads:
  "run_sql (build_db ps) (nl_to_sql question ''catalog'') = map sql_row_of (filter (\<lambda>p. wanted_row question (sql_row_of p)) ps)"
  by (simp add: run_sql_reads build_db_def filter_map comp_def)

text \<open>C16: The shopping agent finds the best match. Over a catalog with distinct ids it calls its two tools once each and
  answers, in its third step, with a catalog listing that satisfies the question and whose two-signal deal score is
  the highest of all that do; when nothing satisfies it, the policy raises on the empty ranking.\<close>

theorem shopper_agent_answer:
  assumes "distinct (map p_id ps)" and "shopper_agent fit ps medians goal = (r, trace, es, w)"
  shows "if list_ex (\<lambda>p. wanted_row goal (sql_row_of p)) ps
    then length trace = 3 \<and> (\<exists>p \<in> set ps. wanted_row goal (sql_row_of p) \<and> r = Answered (Said (answer_text p (deal_of fit ps medians p)))
      \<and> (\<forall>q \<in> set ps. wanted_row goal (sql_row_of q) \<longrightarrow> deal_of fit ps medians q \<le> deal_of fit ps medians p))
    else length trace = 2 \<and> r = Policy_Raised"
proof -
  define qs where "qs = filter (\<lambda>p. wanted_row goal (sql_row_of p)) ps"
  define ss where "ss = sort_key (\<lambda>p. - deal_of fit ps medians p) qs"
  note run = shopper_agent_run [OF assms(1), where fit = fit and medians = medians and goal = goal,
    folded qs_def, folded ss_def, unfolded assms(2) prod.case]
  have set: "set ss = {p \<in> set ps. wanted_row goal (sql_row_of p)}" by (auto simp: ss_def qs_def)
  show ?thesis
  proof (cases ss)
    case Nil
    then have "\<not> list_ex (\<lambda>p. wanted_row goal (sql_row_of p)) ps" using set by (auto simp: list_ex_iff)
    with run Nil show ?thesis by simp
  next
    case (Cons p more_ps)
    have "sorted_wrt (\<lambda>x y. - deal_of fit ps medians x \<le> - deal_of fit ps medians y) ss" unfolding ss_def by (rule sort_key_sorted_wrt)
    with Cons have "deal_of fit ps medians q \<le> deal_of fit ps medians p" if "q \<in> set ss" for q using that by auto
    with set Cons have "p \<in> set ps \<and> wanted_row goal (sql_row_of p)
        \<and> (\<forall>q \<in> set ps. wanted_row goal (sql_row_of q) \<longrightarrow> deal_of fit ps medians q \<le> deal_of fit ps medians p)" by auto
    moreover from this have "list_ex (\<lambda>p. wanted_row goal (sql_row_of p)) ps" by (auto simp: list_ex_iff)
    ultimately show ?thesis using run Cons by auto
  qed
qed

definition demo_headphone :: product where
  "demo_headphone = mk_product ''q20i'' ''Anker headphone'' None ''audio'' 40 ''u'' ''Best Buy''"

lemma demo_wanted: "wanted_row '''' (sql_row_of demo_headphone)"
proof -
  have "sql_brand '''' = None" by (simp add: sql_brand_def title_brand_def)
  moreover have "rx_group (price_re ''under'') (py_lower '''') = None" "rx_group (price_re ''over'') (py_lower '''') = None"
    "sql_category '''' = None" "sql_condition '''' = None" "find (\<lambda>kw. py_in kw (py_lower '''')) TYPE_WORDS = None"
    by code_simp+
  ultimately show ?thesis by (simp add: wanted_row_def Let_def)
qed

theorem shopper_agent_answer_witness:
  "fst (shopper_agent (\<lambda>xs ys x. 0) [demo_headphone] [(''q20i'', 60)] '''') =
     Answered (Said (answer_text demo_headphone (deal_of (\<lambda>xs ys x. 0) [demo_headphone] [(''q20i'', 60)] demo_headphone)))"
proof -
  obtain r trace es w where "shopper_agent (\<lambda>xs ys x. 0) [demo_headphone] [(''q20i'', 60)] '''' = (r, trace, es, w)"
    by (metis prod_cases4)
  with shopper_agent_answer [OF _ this] show ?thesis using demo_wanted by simp
qed

end
