(* ===== verification/Deploy_Cli.thy ===== *)
theory Deploy_Cli
  imports Deploy Userdata
begin

text \<open>
  The three command lines of \<open>deploy/\<close>: \<open>secrets.py\<close> (\<open>check\<close>, \<open>push\<close>, \<open>edge\<close>), \<open>prod_db.py\<close> (\<open>migrate\<close>) and
  \<open>create_login_role.py\<close>. Each is its exit, the lines it prints and what it did to the world. The arguments arrive
  parsed; the env files are read (\<open>None\<close>: there is no such file).
\<close>

datatype main_outcome =
    Exits int "string list"  \<comment> \<open>the exit code and the lines printed\<close>
  | Refuses deploy_error  \<comment> \<open>a caught \<open>RuntimeError\<close>: its message, exit code 1\<close>
  | Raises deploy_error  \<comment> \<open>any other exception leaves the program\<close>
  | Database_Raises

fun runtime_error :: "deploy_error \<Rightarrow> bool" where
  "runtime_error (Cloud_Failed what) = True"
| "runtime_error Role_Exists = True"
| "runtime_error (Missing what) = True"
| "runtime_error Pooler_Failed = True"
| "runtime_error e = False"

definition stops_with :: "deploy_error \<Rightarrow> main_outcome" where
  \<comment> \<open>\<open>except RuntimeError\<close>\<close>
  "stops_with e = (if runtime_error e then Refuses e else Raises e)"

section \<open>The secrets\<close>

datatype secrets_command = Secrets_Check | Secrets_Push bool | Secrets_Edge

definition tick :: string where "tick = map char_of [226, 156, 147 :: nat] @ '' ''"
definition unset_mark :: string where "unset_mark = map char_of [194, 183 :: nat] @ '' ''"
definition cross :: string where "cross = map char_of [226, 156, 151 :: nat] @ '' ''"

definition env_file_values :: "env option \<Rightarrow> env" where
  \<comment> \<open>\<open>_env_file\<close>\<close>
  "env_file_values file = (case file of None \<Rightarrow> [] | Some e \<Rightarrow> filter (\<lambda>(k, v). v \<noteq> []) e)"

definition NO_ENV_FILE :: string where
  "NO_ENV_FILE = cross @ ''no .env here. Run from the companion repo root, the folder that holds your .env, '' @
     ''or pass --no-env-file to store only the generated tokens.''"

definition NO_EDGE_SECRET :: string where "NO_EDGE_SECRET = cross @ ''no EDGE_SHARED_SECRET stored yet. Run push first.''"
definition EDGE_IS_SET :: string where "EDGE_IS_SET = tick @ ''EDGE_SHARED_SECRET set on dealfinder-edge-staging''"

definition pushed_line :: "nat \<Rightarrow> string list \<Rightarrow> string" where
  "pushed_line n ks = tick @ ''dealfinder-env v'' @ nat_digits n @ '': '' @ py_join '', '' ks"

definition pushed_env :: "string list \<Rightarrow> env \<Rightarrow> env \<Rightarrow> env" where
  \<comment> \<open>\<open>merged\<close>\<close>
  "pushed_env tokens stored values = with_generated tokens
     (overlay stored (filter (\<lambda>(k, v). k \<in> set KEYS \<and> k \<notin> set NEVER_FROM_ENV_FILE) values))"

definition secrets_main ::
  "(string \<Rightarrow> env option) \<Rightarrow> 'w runner \<Rightarrow> (string \<Rightarrow> 'w \<Rightarrow> bool \<times> 'w) \<Rightarrow> string list \<Rightarrow> secrets_command \<Rightarrow> env option \<Rightarrow> 'w
    \<Rightarrow> main_outcome \<times> 'w" where
  \<comment> \<open>\<open>wrangler\<close> puts the edge secret and says whether that worked; \<open>tokens\<close> are the ones \<open>new_token\<close> draws. Nothing is
     caught here, so an error of the cloud command is one that leaves the program.\<close>
  "secrets_main loads run wrangler tokens cmd file w =
     (if (cmd = Secrets_Check \<or> cmd = Secrets_Push False) \<and> file = None then (Exits 1 [NO_ENV_FILE], w)
      else (case cmd of
        Secrets_Check \<Rightarrow>
          (let have = env_file_values file in (Exits 0 (map (\<lambda>k. (if value_of have k \<noteq> [] then tick else unset_mark) @ k) KEYS), w))
      | Secrets_Push no_env_file \<Rightarrow>
          (case current loads run w of
             (Inl e, w1) \<Rightarrow> (Raises e, w1)
           | (Inr stored, w1) \<Rightarrow>
               (let merged = pushed_env tokens stored (env_file_values file) in
                case push run (build_payload merged) w1 of
                  (Inl e, w2) \<Rightarrow> (Raises e, w2)
                | (Inr n, w2) \<Rightarrow> (Exits 0 [pushed_line n (filter (\<lambda>k. value_of merged k \<noteq> []) KEYS)], w2)))
      | Secrets_Edge \<Rightarrow>
          (case current loads run w of
             (Inl e, w1) \<Rightarrow> (Raises e, w1)
           | (Inr stored, w1) \<Rightarrow>
               (let edge = value_of stored ''EDGE_SHARED_SECRET'' in
                if edge = [] then (Exits 1 [NO_EDGE_SECRET], w1)
                else (case wrangler edge w1 of
                  (ok, w2) \<Rightarrow> (if ok then Exits 0 [EDGE_IS_SET] else Raises (Cloud_Failed ''wrangler''), w2))))))"

section \<open>Production migrations\<close>

definition log_entries :: "string list option \<Rightarrow> string list" where
  \<comment> \<open>a database without the log table has applied nothing\<close>
  "log_entries lg = (case lg of None \<Rightarrow> [] | Some l \<Rightarrow> l)"

definition or_word :: "string \<Rightarrow> string list \<Rightarrow> string" where
  "or_word none xs = (if xs = [] then none else py_join '', '' xs)"

definition migrate_main ::
  "(string \<Rightarrow> string \<Rightarrow> (nat \<times> json) option) \<Rightarrow> bool \<Rightarrow> string \<Rightarrow> (string \<Rightarrow> bool) \<Rightarrow> (string \<Rightarrow> bool) \<Rightarrow> string list \<Rightarrow> bool \<Rightarrow>
   env option \<Rightarrow> string list option \<Rightarrow> main_outcome \<times> string list option" where
  \<comment> \<open>\<open>connects\<close>: the database answers at that URL; \<open>runs\<close>: the file's SQL succeeds; the last argument is the log table\<close>
  "migrate_main http ca_exists ca connects runs files dry_run site lg =
     (case admin_connection http ca_exists ca (case site of None \<Rightarrow> [] | Some e \<Rightarrow> e) of
        Inl e \<Rightarrow> (stops_with e, lg)
      | Inr target \<Rightarrow>
          (if \<not> connects target then (Database_Raises, lg)
           else (let todo = pending_migrations files (log_entries lg) in
             if dry_run then (Exits 0 [''pending: '' @ or_word ''none'' todo], lg)
             else (let (lg', ok) = apply_migrations runs files (log_entries lg) in
               (if ok then Exits 0 [tick @ ''applied: '' @ or_word ''nothing, already current'' (drop (length (log_entries lg)) lg')]
                else Database_Raises, Some lg')))))"

section \<open>The login role\<close>

definition login_missing :: "env \<Rightarrow> string list" where
  "login_missing site =
     (if value_of site ''SUPABASE_PROJECT_ID'' = [] then [''SUPABASE_PROJECT_ID''] else []) @
     (if management_token site = None then [''an sbp_ token in SUPABASE_ACCESS_TOKEN or GOOGLE_ACCESS_TOKEN''] else [])"

definition login_main ::
  "(string \<Rightarrow> env option) \<Rightarrow> 'w runner \<Rightarrow> (string \<Rightarrow> string) \<Rightarrow> (statement \<Rightarrow> bool) \<Rightarrow> pg_session \<Rightarrow>
   (string \<Rightarrow> string \<Rightarrow> (nat \<times> json) option) \<Rightarrow> (string \<Rightarrow> string \<Rightarrow> (nat \<times> json) option) \<Rightarrow> bool \<Rightarrow> string \<Rightarrow>
   string \<Rightarrow> bool \<Rightarrow> env option \<Rightarrow> pg \<times> 'w \<Rightarrow> main_outcome \<times> pg \<times> 'w" where
  \<comment> \<open>the pooler is looked up twice (\<open>http\<close>, \<open>http_again\<close>); \<open>password\<close> is the token drawn\<close>
  "login_main loads run verifier refused session http http_again ca_exists ca password rotating file s =
     (let site = (case file of None \<Rightarrow> [] | Some e \<Rightarrow> e); ref = value_of site ''SUPABASE_PROJECT_ID'' in
      if login_missing site \<noteq> []
      then (Exits 1 [cross @ ''missing from the site's env file: '' @ py_join '', '' (login_missing site)], s)
      else (case admin_connection http ca_exists ca site of
          Inl e \<Rightarrow> (stops_with e, s)
        | Inr target \<Rightarrow>
            (case provision loads run verifier refused session (pooler_host http_again ref (the (management_token site)))
                 ref password rotating s of
               (Inl e, s') \<Rightarrow> (stops_with e, s')
             | (Inr n, s') \<Rightarrow> (Exits 0 [tick @ ROLE @ '' ready, DATABASE_URL stored in dealfinder-env v'' @ nat_digits n], s'))))"

section \<open>What a push keeps\<close>

lemma value_of_dict_set: "value_of (dict_set k v d) k' = (if k' = k then v else value_of d k')"
  by (simp add: value_of_def dict_get_or_def)

lemma overlay_simps: "overlay stored [] = stored" "overlay stored ((k, v) # more_values) = overlay (dict_set k v stored) more_values"
  by (simp_all add: overlay_def)

lemma overlay_other: "(\<And>v. (k, v) \<notin> set f) \<Longrightarrow> value_of (overlay stored f) k = value_of stored k"
proof (induction f arbitrary: stored)
  case (Cons x f)
  obtain k' v where x: "x = (k', v)" by (cases x)
  have "k' \<noteq> k" using Cons.prems [of v] x by auto
  with Cons.IH [of "dict_set k' v stored"] Cons.prems show ?case by (simp add: x overlay_simps value_of_dict_set)
qed (simp add: overlay_simps)

lemma overlay_filled: "(\<And>k v. (k, v) \<in> set f \<Longrightarrow> v \<noteq> []) \<Longrightarrow> value_of stored k \<noteq> [] \<Longrightarrow> value_of (overlay stored f) k \<noteq> []"
proof (induction f arbitrary: stored)
  case (Cons x f)
  obtain k' v where x: "x = (k', v)" by (cases x)
  have "v \<noteq> []" using Cons.prems(1) [of k' v] x by simp
  then have "value_of (dict_set k' v stored) k \<noteq> []" using Cons.prems(2) by (simp add: value_of_dict_set)
  then have "value_of (overlay (dict_set k' v stored) f) k \<noteq> []"
    by (rule Cons.IH [rotated]) (rule Cons.prems(1) [OF list.set_intros(2)])
  then show ?case by (simp add: x overlay_simps)
qed (simp add: overlay_simps)

lemma with_generated_keeps: "k \<notin> set GENERATED \<or> value_of e k \<noteq> [] \<Longrightarrow> value_of (with_generated tokens e) k = value_of e k"
proof -
  have "k \<notin> fst ` set ps \<or> value_of d k \<noteq> [] \<Longrightarrow>
      value_of (foldl (\<lambda>d (k, t). if dict_has d k then d else dict_set k t d) d ps) k = value_of d k" for ps d
  proof (induction ps arbitrary: d)
    case (Cons x ps)
    obtain k' t where x: "x = (k', t)" by (cases x)
    have "value_of d k \<noteq> [] \<Longrightarrow> dict_has d k"
      by (auto simp: value_of_def dict_get_or_def dict_has_def dict_get_def split: option.splits)
    then have "value_of (if dict_has d k' then d else dict_set k' t d) k = value_of d k"
      using Cons.prems by (auto simp: x value_of_dict_set)
    with Cons.IH [of "if dict_has d k' then d else dict_set k' t d"] Cons.prems show ?case by (auto simp: x)
  qed simp
  moreover have "fst ` set (zip GENERATED tokens) \<subseteq> set GENERATED" by (auto dest: set_zip_leftD)
  ultimately show "k \<notin> set GENERATED \<or> value_of e k \<noteq> [] \<Longrightarrow> ?thesis" unfolding with_generated_def by blast
qed

lemma env_file_values_filled: "(k, v) \<in> set (env_file_values file) \<Longrightarrow> v \<noteq> []"
  by (auto simp: env_file_values_def split: option.splits)

lemma pushed_env_keeps:
  shows "value_of (pushed_env tokens stored (env_file_values file)) ''DATABASE_URL'' = value_of stored ''DATABASE_URL''"
    and "value_of stored k \<noteq> [] \<Longrightarrow> value_of (pushed_env tokens stored (env_file_values file)) k \<noteq> []"
    and "value_of stored k \<noteq> [] \<Longrightarrow> value_of (env_file_values file) k = [] \<Longrightarrow>
      value_of (pushed_env tokens stored (env_file_values file)) k = value_of stored k"
proof -
  let ?f = "filter (\<lambda>(k, v). k \<in> set KEYS \<and> k \<notin> set NEVER_FROM_ENV_FILE) (env_file_values file)"
  show "value_of (pushed_env tokens stored (env_file_values file)) ''DATABASE_URL'' = value_of stored ''DATABASE_URL''"
    by (simp add: pushed_env_def with_generated_keeps overlay_other GENERATED_def NEVER_FROM_ENV_FILE_def)
  show filled: "value_of (pushed_env tokens stored (env_file_values file)) k \<noteq> []" if "value_of stored k \<noteq> []" for k
  proof -
    have "value_of (overlay stored ?f) k \<noteq> []"
      by (rule overlay_filled [OF _ that]) (auto dest: env_file_values_filled)
    then show ?thesis by (simp add: pushed_env_def with_generated_keeps)
  qed
  assume k: "value_of stored k \<noteq> []" "value_of (env_file_values file) k = []"
  have "dict_get (env_file_values file) k = None"
    using k(2) env_file_values_filled [of k]
    by (auto simp: value_of_def dict_get_or_def dict_get_def split: option.splits dest: map_of_SomeD)
  then have "(k, v) \<notin> set (env_file_values file)" for v by (auto simp: dict_get_def map_of_eq_None_iff image_iff)
  then have "value_of (overlay stored ?f) k = value_of stored k" by (intro overlay_other) auto
  with k(1) show "value_of (pushed_env tokens stored (env_file_values file)) k = value_of stored k"
    by (simp add: pushed_env_def with_generated_keeps)
qed

lemma push_command_env: "push_command loads run tokens (env_file_values file) w =
    (case current loads run w of
       (Inl e, w1) \<Rightarrow> (Inl e, w1)
     | (Inr stored, w1) \<Rightarrow> push run (build_payload (pushed_env tokens stored (env_file_values file))) w1)"
proof -
  have "filter (\<lambda>(k, v). v \<noteq> [] \<and> k \<in> set KEYS \<and> k \<notin> set NEVER_FROM_ENV_FILE) (env_file_values file) =
      filter (\<lambda>(k, v). k \<in> set KEYS \<and> k \<notin> set NEVER_FROM_ENV_FILE) (env_file_values file)"
    by (rule filter_cong) (auto dest: env_file_values_filled)
  then show ?thesis by (cases "current loads run w"; cases "fst (current loads run w)") (simp_all add: push_command_def pushed_env_def Let_def)
qed

section \<open>The claims of the programs\<close>

definition printable :: "string \<Rightarrow> bool" where
  \<comment> \<open>a fixed message, a marked key name, or a version number with key names\<close>
  "printable l \<longleftrightarrow> l \<in> {NO_ENV_FILE, NO_EDGE_SECRET, EDGE_IS_SET}
    \<or> (\<exists>k \<in> set KEYS. l = tick @ k \<or> l = unset_mark @ k) \<or> (\<exists>n ks. subseq ks KEYS \<and> l = pushed_line n ks)"

lemma printables:
  "printable NO_ENV_FILE" "printable NO_EDGE_SECRET" "printable EDGE_IS_SET" "k \<in> set KEYS \<Longrightarrow> printable ((if b then tick else unset_mark) @ k)"
  "printable (pushed_line n (filter P KEYS))"
proof -
  show "printable (pushed_line n (filter P KEYS))"
    unfolding printable_def by (intro disjI2 exI conjI) (rule subseq_filter_left, rule refl)
qed (auto simp: printable_def)

lemma secrets_main_prints: "secrets_main loads run wrangler tokens cmd file w = (Exits c ls, w') \<Longrightarrow> list_all printable ls"
  by (auto simp: secrets_main_def printables list_all_iff Let_def simp del: append_eq_append_conv
    split: if_split_asm secrets_command.splits prod.splits sum.splits)

lemma push_keeps:
  assumes sm: "secret_manager loads run latest" and push: "push run (build_payload m) w1 = (r, w')" and "latest w1 = latest w"
    and keep: "\<And>k. k \<in> set KEYS \<Longrightarrow> Q k (value_of (stored_keys latest w) k) (value_of m k)"
    and refl: "\<And>k v. Q k v v"
  shows "\<forall>k \<in> set KEYS. Q k (value_of (stored_keys latest w) k) (value_of (stored_keys latest w') k)"
proof -
  from push_writes [OF sm push] assms(3) have "latest w' = latest w \<or> (\<exists>n. latest w' = Some (n, build_payload m))" by auto
  then show ?thesis
  proof
    assume "latest w' = latest w"
    then have "stored_keys latest w' = stored_keys latest w" by (simp add: stored_keys_def)
    with refl show ?thesis by simp
  next
    assume "\<exists>n. latest w' = Some (n, build_payload m)"
    then have "stored_keys latest w' = build_payload m" by (auto simp: stored_keys_def)
    with keep show ?thesis by (simp add: value_of_payload)
  qed
qed

text \<open>C19: The secrets command keeps what is stored and shows none of it. Under the promises of Secret Manager, whatever the
  command, the env file and the point of failure: the stored \<open>DATABASE_URL\<close> is the one from before, no key of the
  contract loses its value, a key that the env file does not set keeps the value it has (so a generated token is never
  replaced), and only a push changes anything; every line that is printed is a fixed message, a marked key name, or a
  version number with key names.\<close>

theorem secrets_main_keeps:
  assumes "secret_manager loads run latest" and "\<And>e w. latest (snd (wrangler e w)) = latest w"
    and "secrets_main loads run wrangler tokens cmd file w = (out, w')"
  shows "value_of (stored_keys latest w') ''DATABASE_URL'' = value_of (stored_keys latest w) ''DATABASE_URL''
    \<and> (\<forall>k \<in> set KEYS. value_of (stored_keys latest w) k \<noteq> [] \<longrightarrow> value_of (stored_keys latest w') k \<noteq> []
         \<and> (value_of (env_file_values file) k = [] \<longrightarrow> value_of (stored_keys latest w') k = value_of (stored_keys latest w) k))
    \<and> ((\<forall>no_file. cmd \<noteq> Secrets_Push no_file) \<longrightarrow> latest w' = latest w)
    \<and> (\<forall>c ls. out = Exits c ls \<longrightarrow> list_all printable ls)"
proof -
  let ?s = "stored_keys latest w"
  define Q :: "string \<Rightarrow> string \<Rightarrow> string \<Rightarrow> bool" where "Q k v v' \<longleftrightarrow> (k = ''DATABASE_URL'' \<longrightarrow> v' = v) \<and> (v \<noteq> [] \<longrightarrow> v' \<noteq> []
    \<and> (value_of (env_file_values file) k = [] \<longrightarrow> v' = v))" for k v v'
  have refl: "Q k v v" for k v by (simp add: Q_def)
  obtain c w1 where cur: "current loads run w = (c, w1)" by (cases "current loads run w") auto
  note read = current_reads [OF assms(1) cur]
  have wrangled: "wrangler e w1 = (b, w2) \<Longrightarrow> latest w2 = latest w" for e b w2
    using assms(2) [of e w1] read(1) by simp
  have "(\<forall>k \<in> set KEYS. Q k (value_of ?s k) (value_of (stored_keys latest w') k))
      \<and> ((\<forall>no_file. cmd \<noteq> Secrets_Push no_file) \<longrightarrow> latest w' = latest w)"
  proof (cases "latest w' = latest w")
    case True
    then have "stored_keys latest w' = ?s" by (simp add: stored_keys_def)
    with True refl show ?thesis by simp
  next
    case False
    then have "\<exists>no_file. cmd = Secrets_Push no_file"
      using assms(3) cur read(1)
      by (cases cmd) (auto simp: secrets_main_def Let_def dest: wrangled split: if_splits sum.splits prod.splits)
    moreover obtain stored r where c: "c = Inr stored"
      and p: "push run (build_payload (pushed_env tokens stored (env_file_values file))) w1 = (r, w')"
      using False calculation assms(3) cur read(1)
      by (auto simp: secrets_main_def Let_def split: if_splits sum.splits prod.splits)
    have "Q k (value_of ?s k) (value_of (pushed_env tokens ?s (env_file_values file)) k)" for k
      using pushed_env_keeps(1) [where stored = ?s] pushed_env_keeps(2,3) [where stored = ?s and k = k] by (simp add: Q_def)
    with push_keeps [OF assms(1) p read(1), of Q] refl read(2) [OF c] calculation show ?thesis by auto
  qed
  moreover have "list_all printable ls" if "out = Exits c ls" for c ls
    using secrets_main_prints [OF assms(3) [unfolded that]] .
  moreover have "''DATABASE_URL'' \<in> set KEYS" by (simp add: KEYS_def)
  ultimately show ?thesis by (auto simp: Q_def)
qed

theorem secrets_main_keeps_witness:
  "\<exists>out w'. secrets_main (\<lambda>s. None) (demo_gcloud True) (\<lambda>e w. (True, w)) [''t1'', ''t2''] (Secrets_Push False)
      (Some [(''SENTRY_DSN'', ''dsn''), (''DATABASE_URL'', ''mine'')]) [] = (out, w')
     \<and> value_of (stored_keys demo_latest w') ''DATABASE_URL'' = []"
proof -
  obtain out w' where run: "secrets_main (\<lambda>s. None) (demo_gcloud True) (\<lambda>e w. (True, w)) [''t1'', ''t2''] (Secrets_Push False)
      (Some [(''SENTRY_DSN'', ''dsn''), (''DATABASE_URL'', ''mine'')]) [] = (out, w')" by (metis prod.exhaust)
  have "value_of (stored_keys demo_latest []) ''DATABASE_URL'' = []"
    by (simp add: stored_keys_def demo_latest_def value_of_def dict_get_or_def)
  with secrets_main_keeps [OF demo_secret_manager _ run] run show ?thesis by auto
qed

section \<open>What the migration command tells\<close>

lemma apply_all_pending:
  "distinct files \<Longrightarrow> apply_migrations runs files lg = (lg', True) \<Longrightarrow> lg' = lg @ pending_migrations files lg"
proof (induction files arbitrary: lg)
  case (Cons f fs)
  then have other: "pending_migrations fs (lg @ [f]) = pending_migrations fs lg"
    unfolding pending_migrations_def by (intro filter_cong) auto
  show ?case
  proof (cases "f \<in> set lg")
    case True
    with Cons show ?thesis by (simp add: pending_migrations_def)
  next
    case False
    with Cons.prems have "apply_migrations runs fs (lg @ [f]) = (lg', True)" "distinct fs" by (auto split: if_splits)
    from Cons.IH [OF this(2,1)] other False show ?thesis by (simp add: pending_migrations_def)
  qed
qed (simp add: pending_migrations_def)

text \<open>A dry run changes nothing and names exactly what the real run then applies, in the order it applies them.\<close>

lemma dry_run_tells:
  assumes "distinct files"
    and "migrate_main http ca_exists ca connects runs files True site lg = (Exits 0 told, lg1)"
    and "migrate_main http ca_exists ca connects runs files False site lg1 = (Exits 0 said, lg2)"
  shows "lg1 = lg"
    and "\<exists>todo. told = [''pending: '' @ or_word ''none'' todo] \<and> said = [tick @ ''applied: '' @ or_word ''nothing, already current'' todo]
      \<and> lg2 = Some (log_entries lg @ todo)"
    and "migrate_main http ca_exists ca connects runs files True site lg2 = (Exits 0 [''pending: none''], lg2)"
proof -
  obtain target where target: "admin_connection http ca_exists ca (case site of None \<Rightarrow> [] | Some e \<Rightarrow> e) = Inr target"
    and connects: "connects target"
    using assms(2) by (auto simp: migrate_main_def stops_with_def split: sum.splits if_splits)
  let ?todo = "pending_migrations files (log_entries lg)"
  show lg1: "lg1 = lg" using assms(2) connects by (simp add: migrate_main_def target)
  obtain lg' where run: "apply_migrations runs files (log_entries lg) = (lg', True)" and said: "lg2 = Some lg'"
      "said = [tick @ ''applied: '' @ or_word ''nothing, already current'' (drop (length (log_entries lg)) lg')]"
    using assms(3) connects by (auto simp: migrate_main_def target lg1 split: prod.splits if_splits)
  have all: "lg' = log_entries lg @ ?todo" by (rule apply_all_pending [OF assms(1) run])
  then show "\<exists>todo. told = [''pending: '' @ or_word ''none'' todo] \<and> said = [tick @ ''applied: '' @ or_word ''nothing, already current'' todo]
      \<and> lg2 = Some (log_entries lg @ todo)"
    using assms(2) connects said by (intro exI [of _ ?todo]) (auto simp: migrate_main_def target)
  have "pending_migrations files lg' = []" unfolding all by (auto simp: pending_migrations_def filter_empty_conv)
  then show "migrate_main http ca_exists ca connects runs files True site lg2 = (Exits 0 [''pending: none''], lg2)"
    using connects by (simp add: migrate_main_def target said log_entries_def or_word_def)
qed

section \<open>What the login command leaves\<close>

text \<open>Exit code 0 means that Postgres and the secret hold the same new password. On any other way out the role is as it was,
  except where the exception of the commit itself leaves the program; so the message \<open>Postgres is unchanged\<close> is true
  wherever it is printed.\<close>

lemma login_main_ends:
  assumes "secret_manager loads run latest"
    and "login_main loads run verifier refused session http http_again ca_exists ca password rotating (Some site) (db, w) = (out, db', w')"
  shows "(\<exists>n h. out = Exits 0 [tick @ ROLE @ '' ready, DATABASE_URL stored in dealfinder-env v'' @ nat_digits n]
      \<and> pg_verifier db' = Some (verifier password)
      \<and> value_of (stored_keys latest w') ''DATABASE_URL'' = pooler_url (value_of site ''SUPABASE_PROJECT_ID'') h password)
    \<or> ((\<forall>ls. out \<noteq> Exits 0 ls) \<and> (db' = db \<or> out = Raises Commit_Failed))"
proof -
  let ?ref = "value_of site ''SUPABASE_PROJECT_ID''"
  obtain r db1 w1 where p: "provision loads run verifier refused session (pooler_host http_again ?ref (the (management_token site)))
      ?ref password rotating (db, w) = (r, db1, w1)" by (metis prod.exhaust)
  have stops: "stops_with e \<noteq> Exits c ls" "stops_with Commit_Failed = Raises Commit_Failed" for e c ls by (simp_all add: stops_with_def)
  show ?thesis
  proof (cases "login_missing site = [] \<and> (\<exists>target. admin_connection http ca_exists ca site = Inr target)")
    case True
    with assms(2) p provision_outcomes [OF assms(1) p] stops show ?thesis
      by (cases r) (auto simp: login_main_def stored_keys_def Let_def split: if_splits)
  next
    case False
    with assms(2) stops show ?thesis by (auto simp: login_main_def Let_def split: sum.splits if_splits)
  qed
qed

end
