(* ===== verification/Llm_Extract.thy ===== *)
theory Llm_Extract
  imports Features Inference
begin

text \<open>
  Structured output from a language model: the prompts and the parsing of \<open>dealfinder/extract.py\<close> (a listing's
  specs) and \<open>dealfinder/llm.py\<close> (the products of a page). \<open>loads\<close> is the JSON parser, \<open>post\<close> the model endpoint for
  a prompt, \<open>generate\<close> the fine-tuned model with its tokenizer (\<open>None\<close>: anything there raises).
\<close>

section \<open>Prompts\<close>

definition dq :: string where "dq = [CHR 0x22]"
definition long_dash :: string where "long_dash = map char_of [226, 128, 148 :: nat]"

definition build_prompt :: "string \<Rightarrow> string" where
  "build_prompt text =
     ''Extract electronics specs from the listing as JSON with keys '' @
     ''brand (string|null, the true manufacturer '' @ long_dash @ '' NOT the retailer), '' @
     ''category (string|null), condition ('' @ dq @ ''new'' @ dq @ ''|'' @ dq @ ''refurb'' @ dq @ ''|'' @ dq @ ''used'' @ dq @ ''), '' @
     ''model (string|null). Use null if absent. Return ONLY the JSON.'' @ [CHR 10, CHR 10] @
     ''Listing: '' @ text"

definition page_prompt :: "string \<Rightarrow> string \<Rightarrow> string" where
  "page_prompt page query =
     ''From the page text, extract purchasable products as JSON: '' @
     ''{'' @ dq @ ''products'' @ dq @ '':[{'' @ dq @ ''title'' @ dq @ '':string,'' @ dq @ ''price'' @ dq @ '':number,'' @ dq @ ''store'' @ dq @
     '':string,'' @ dq @ ''url'' @ dq @ '':string}]}. '' @
     ''Only items with a real numeric price relevant to '' @ dq @ query @ dq @ ''. Text:'' @ [CHR 10] @ take 6000 page"

section \<open>The object in a reply\<close>

definition OBJECT_RE :: rx where
  \<comment> \<open>greedy, and the dot matches line ends\<close>
  "OBJECT_RE = Cat (lit CHR ''{'') (Cat (Star (Cls (\<lambda>c. True))) (lit CHR ''}''))"

definition json_text :: "string \<Rightarrow> string" where
  "json_text raw = (case rx_text OBJECT_RE (py_strip raw) of Some t \<Rightarrow> t | None \<Rightarrow> raw)"

definition first_json :: "(string \<Rightarrow> json option) \<Rightarrow> string \<Rightarrow> json option" where
  "first_json loads raw = loads (json_text raw)"

section \<open>Specs of a listing\<close>

definition text_field :: "string \<Rightarrow> (string \<times> json) list \<Rightarrow> string option option" where
  \<comment> \<open>\<open>str | None = None\<close>; the outer \<open>None\<close>: the value does not fit\<close>
  "text_field k d = (case map_of d k of
     None \<Rightarrow> Some None | Some JNull \<Rightarrow> Some None | Some (JStr s) \<Rightarrow> Some (Some s) | Some v \<Rightarrow> None)"

definition condition_field :: "(string \<times> json) list \<Rightarrow> string option" where
  \<comment> \<open>\<open>condition: str = ''new''\<close>\<close>
  "condition_field d = (case map_of d ''condition'' of None \<Rightarrow> Some ''new'' | Some (JStr s) \<Rightarrow> Some s | Some v \<Rightarrow> None)"

definition validate_specs :: "json \<Rightarrow> listing_specs option" where
  \<comment> \<open>\<open>ListingSpecs.model_validate\<close>\<close>
  "validate_specs v = (case v of
     JObj d \<Rightarrow> (case (text_field ''brand'' d, text_field ''category'' d, condition_field d, text_field ''model'' d) of
         (Some b, Some c, Some cond, Some m) \<Rightarrow> Some \<lparr>ls_brand = b, ls_category = c, ls_condition = cond, ls_model = m\<rparr>
       | _ \<Rightarrow> None)
   | _ \<Rightarrow> None)"

definition parse_llm_json :: "(string \<Rightarrow> json option) \<Rightarrow> string \<Rightarrow> listing_specs option" where
  "parse_llm_json loads raw = Option.bind (first_json loads raw) validate_specs"

definition adapter_extract :: "(string \<Rightarrow> json option) \<Rightarrow> (string \<Rightarrow> string option) \<Rightarrow> string \<Rightarrow> listing_specs option" where
  "adapter_extract loads generate text = Option.bind (generate (build_prompt text)) (parse_llm_json loads)"

definition openrouter_extract ::
  "(string \<Rightarrow> json option) \<Rightarrow> environ \<Rightarrow> (string \<Rightarrow> string \<Rightarrow> posted) \<Rightarrow> string \<Rightarrow> listing_specs option" where
  "openrouter_extract loads env post text =
     (case llm_chat env (post (build_prompt text)) [] of
        Inr (Some raw) \<Rightarrow> parse_llm_json loads raw
      | _ \<Rightarrow> None)"

definition client_extract :: "(string \<Rightarrow> json option) \<Rightarrow> (string \<Rightarrow> string + string) \<Rightarrow> string \<Rightarrow> string + listing_specs" where
  \<comment> \<open>\<open>ask\<close>: the client's reply; what it raises, and a reply outside the schema, reach the caller\<close>
  "client_extract loads ask text =
     (case ask (build_prompt text) of
        Inl e \<Rightarrow> Inl e
      | Inr raw \<Rightarrow> (case parse_llm_json loads raw of None \<Rightarrow> Inl ''invalid reply'' | Some ls \<Rightarrow> Inr ls))"

definition extract_specs ::
  "(string \<Rightarrow> json option) \<Rightarrow> environ \<Rightarrow> (string \<Rightarrow> string \<Rightarrow> posted) \<Rightarrow> (string \<Rightarrow> string option) option \<Rightarrow>
   (string \<Rightarrow> string + string) option \<Rightarrow> string \<Rightarrow> string + listing_specs" where
  \<comment> \<open>\<open>llm_extract\<close> with its three ways to ask a model\<close>
  "extract_specs loads env post adapter client text =
     llm_extract (map_option (adapter_extract loads) adapter) (map_option (client_extract loads) client)
       (if llm_available env then Some (openrouter_extract loads env post) else None) text"

section \<open>Products of a page\<close>

datatype page_error = Chat_Failed llm_error | Bad_Json | Bad_Shape

definition extract_products ::
  "(string \<Rightarrow> json option) \<Rightarrow> environ \<Rightarrow> (string \<Rightarrow> string \<Rightarrow> posted) \<Rightarrow> string \<Rightarrow> string \<Rightarrow> int \<Rightarrow> page_error + json list" where
  \<comment> \<open>\<open>Bad_Shape\<close>: a null reply, a reply that is no object, \<open>products\<close> that cannot be sliced as a list\<close>
  "extract_products loads env post page query max_items =
     (case llm_chat env (post (page_prompt page query)) [] of
        Inl e \<Rightarrow> Inl (Chat_Failed e)
      | Inr None \<Rightarrow> Inl Bad_Shape
      | Inr (Some raw) \<Rightarrow> (case first_json loads raw of
            None \<Rightarrow> Inl Bad_Json
          | Some data \<Rightarrow>
              (if \<not> is_obj data then Inl Bad_Shape
               else if \<not> j_truthy (j_get ''products'' data) then Inr []
               else (case j_get ''products'' data of JArr ps \<Rightarrow> Inr (py_slice_to max_items ps) | _ \<Rightarrow> Inl Bad_Shape))))"

section \<open>The outermost braces\<close>

lemma to_last_none: "c \<notin> set s \<Longrightarrow> rx_run (Cat (Star (Cls (\<lambda>c. True))) (lit c)) (pv, s, g) = []"
  by (induction s arbitrary: pv) (auto simp: lit_def)

lemma to_last: "c \<notin> set post \<Longrightarrow> \<exists>others. rx_run (Cat (Star (Cls (\<lambda>c. True))) (lit c)) (pv, x @ c # post, g) = (Some c, post, g) # others"
proof (induction x arbitrary: pv)
  case Nil
  then show ?case using to_last_none [of c post "Some c" g] by (simp add: lit_def del: concat_eq_Nil_conv)
next
  case (Cons a x)
  from Cons.IH [OF Cons.prems, of "Some a"] show ?case by (auto simp: lit_def)
qed

lemma object_found:
  assumes "CHR ''{'' \<notin> set before" and "CHR ''}'' \<notin> set behind"
  shows "rx_text OBJECT_RE (before @ CHR ''{'' # x @ CHR ''}'' # behind) = Some (CHR ''{'' # x @ [CHR ''}''])"
proof -
  have "\<exists>q. rx_search_from OBJECT_RE pv (before @ CHR ''{'' # x @ CHR ''}'' # behind) =
      Some (CHR ''{'' # x @ CHR ''}'' # behind, q, behind, None)" for pv
    using assms(1)
  proof (induction before arbitrary: pv)
    case Nil
    obtain others where "rx_run (Cat (Star (Cls (\<lambda>c. True))) (lit CHR ''}'')) (Some CHR ''{'', x @ CHR ''}'' # behind, None) =
        (Some CHR ''}'', behind, None) # others"
      using to_last [OF assms(2)] by blast
    then show ?case by (simp add: OBJECT_RE_def rx_at_def lit_def)
  next
    case (Cons a before)
    then have "a \<noteq> CHR ''{''" by auto
    then have "rx_at OBJECT_RE pv (a # before @ CHR ''{'' # x @ CHR ''}'' # behind) = None"
      by (simp add: OBJECT_RE_def rx_at_def lit_def)
    with Cons show ?case by simp
  qed
  then obtain q where "rx_search_from OBJECT_RE None (before @ CHR ''{'' # x @ CHR ''}'' # behind) =
      Some (CHR ''{'' # x @ CHR ''}'' # behind, q, behind, None)" by blast
  then show ?thesis by (simp add: rx_text_def)
qed

lemma dropWhile_stop: "\<not> P c \<Longrightarrow> dropWhile P (xs @ c # ys) = dropWhile P xs @ c # ys"
  by (induction xs) auto

lemma strip_around: "py_strip (before @ CHR ''{'' # x @ CHR ''}'' # behind) =
    dropWhile is_space before @ CHR ''{'' # x @ CHR ''}'' # rev (dropWhile is_space (rev behind))"
proof -
  have brace: "\<not> is_space CHR ''{''" "\<not> is_space CHR ''}''" by (simp_all add: is_space_def ord_def)
  have "rev (dropWhile is_space before @ CHR ''{'' # x @ CHR ''}'' # behind) =
      rev behind @ CHR ''}'' # rev (dropWhile is_space before @ CHR ''{'' # x)" by simp
  then show ?thesis unfolding py_strip_def dropWhile_stop [of is_space, OF brace(1)]
    by (simp only: dropWhile_stop [of is_space, OF brace(2)]) simp
qed

text \<open>Prose and code fences around the object do not matter, as long as they hold no brace of the wrong side.\<close>

lemma json_text_embedded:
  assumes "CHR ''{'' \<notin> set before" and "CHR ''}'' \<notin> set behind"
  shows "json_text (before @ CHR ''{'' # x @ CHR ''}'' # behind) = CHR ''{'' # x @ [CHR ''}'']"
proof -
  have "CHR ''{'' \<notin> set (dropWhile is_space before)" "CHR ''}'' \<notin> set (rev (dropWhile is_space (rev behind)))"
    using assms by (auto dest: set_dropWhileD)
  from object_found [OF this, of x] show ?thesis by (simp add: json_text_def strip_around)
qed

section \<open>What comes out\<close>

text \<open>Without an explicit client the extraction never fails, and what it returns is either the specs a model's reply was
  validated to, or those of the rules.\<close>

lemma extract_specs_answers:
  obtains ls where "extract_specs loads env post adapter None text = Inr ls"
    and "(\<exists>generate raw. adapter = Some generate \<and> generate (build_prompt text) = Some raw \<and> parse_llm_json loads raw = Some ls)
      \<or> (\<exists>raw. llm_chat env (post (build_prompt text)) [] = Inr (Some raw) \<and> parse_llm_json loads raw = Some ls)
      \<or> ls = rule_extract text"
proof -
  have ad: "adapter_extract loads gen text = Some ls \<Longrightarrow> \<exists>raw. gen (build_prompt text) = Some raw \<and> parse_llm_json loads raw = Some ls" for gen ls
    by (auto simp: adapter_extract_def bind_eq_Some_conv)
  have op: "openrouter_extract loads env post text = Some ls \<Longrightarrow>
      \<exists>raw. llm_chat env (post (build_prompt text)) [] = Inr (Some raw) \<and> parse_llm_json loads raw = Some ls" for ls
    by (auto simp: openrouter_extract_def split: sum.splits option.splits)
  show ?thesis
  proof (cases "Option.bind adapter (\<lambda>gen. adapter_extract loads gen text)")
    case (Some ls)
    then show ?thesis using ad by (intro that [of ls]) (auto simp: extract_specs_def llm_extract_def bind_eq_Some_conv)
  next
    case None
    then have "Option.bind (map_option (adapter_extract loads) adapter) (\<lambda>f. f text) = None"
      by (cases adapter) simp_all
    then have rest: "extract_specs loads env post adapter None text =
        (case if llm_available env then openrouter_extract loads env post text else None of Some ls \<Rightarrow> Inr ls | None \<Rightarrow> Inr (rule_extract text))"
      by (simp add: extract_specs_def llm_extract_def)
    show ?thesis
    proof (cases "if llm_available env then openrouter_extract loads env post text else None")
      case (Some ls)
      with rest op show ?thesis by (intro that [of ls]) (auto split: if_splits)
    next
      case none: None
      with rest show ?thesis by (intro that [of "rule_extract text"]) simp_all
    qed
  qed
qed

lemma extract_products_cut: "extract_products loads env post page query max_items = extract_products loads env post (take 6000 page) query max_items"
  by (simp add: extract_products_def page_prompt_def)

lemma extract_products_bound:
  assumes "extract_products loads env post page query (int n) = Inr ps" shows "length ps \<le> n"
  using assms by (auto simp: extract_products_def split: sum.splits option.splits if_splits json.splits)

end
