(* ===== verification/Title_Cache.thy ===== *)
theory Title_Cache
  imports Snapshot Userdata Inference
begin

text \<open>
  The committed title vectors and what is built from them: the cache file (\<open>dealfinder/embed.py\<close>), the vectors in
  product order (\<open>dealfinder/models.py\<close>), the worker's catalog (\<open>dealfinder/worker.py\<close>) and the database seed
  (\<open>data/seed.py\<close>). The embedding model is \<open>emb\<close>, the rounding to a 32-bit float \<open>f32\<close>; the file is the pair of
  its ids and vectors.
\<close>

type_synonym title_cache = "string list \<times> pyfloat list list"

section \<open>The cache file\<close>

definition build_title_embeddings ::
  "(string list \<Rightarrow> pyfloat list list) \<Rightarrow> (pyfloat \<Rightarrow> pyfloat) \<Rightarrow> row list \<Rightarrow> load_error + title_cache" where
  "build_title_embeddings emb f32 items =
     andthen (collect (text_col ''id'') items) (\<lambda>ids.
     andthen (collect (text_col ''title'') items) (\<lambda>ts. Inr (ids, map (map f32) (emb ts))))"

definition load_title_embeddings :: "title_cache option \<Rightarrow> title_cache option" where
  \<comment> \<open>\<open>None\<close>: there is no such file; a 32-bit float is read back as the number it is\<close>
  "load_title_embeddings file = file"

section \<open>Vectors in product order\<close>

definition vector_order :: "string list \<Rightarrow> (string, nat) dict" where
  "vector_order ids = foldl (\<lambda>d (i, pid). dict_set pid i d) [] (List.enumerate 0 ids)"

definition aligned_embeddings :: "product list \<Rightarrow> title_cache \<Rightarrow> pyfloat list list option" where
  \<comment> \<open>\<open>None\<close>: a product without a vector (\<open>KeyError\<close>)\<close>
  "aligned_embeddings ps cache = those (map (\<lambda>p. map_option (\<lambda>k. snd cache ! k) (dict_get (vector_order (fst cache)) (p_id p))) ps)"

record catalog =
  ct_products :: "product list"
  ct_embeddings :: "pyfloat list list"
  ct_medians :: "(string, pyfloat) dict"

definition load_worker_catalog :: "json \<Rightarrow> title_cache \<Rightarrow> load_error + catalog" where
  "load_worker_catalog data cache =
     andthen (load_snapshot data) (\<lambda>items.
     andthen (load_products data) (\<lambda>ps.
     andthen (case load_catalog_embeddings ps (fst cache) (snd cache) of None \<Rightarrow> Inl (Key_Error ''id'') | Some emb \<Rightarrow> Inr emb) (\<lambda>emb.
     andthen (collect (\<lambda>r. andthen (text_col ''id'' r) (\<lambda>i. andthen (num_col ''median_price_at_capture'' r) (\<lambda>m. Inr (i, m)))) items) (\<lambda>ms.
       Inr \<lparr>ct_products = ps, ct_embeddings = emb, ct_medians = foldl (\<lambda>d (i, m). dict_set i m d) [] ms\<rparr>))))"

section \<open>The seed\<close>

definition seed_row :: "product \<Rightarrow> product" where
  \<comment> \<open>the eight columns the seed writes\<close>
  "seed_row p = (mk_product (p_id p) (title p) (brand p) [] (price p) (url p) (source p))\<lparr>currency := currency p, image_url := image_url p\<rparr>"

definition seed_rows :: "(pyfloat \<Rightarrow> pyfloat) \<Rightarrow> product list \<Rightarrow> title_cache \<Rightarrow> (product \<times> pyfloat option \<times> pyfloat list option) list" where
  "seed_rows f32 ps cache =
     concat (map (\<lambda>p. case dict_get (vector_order (fst cache)) (p_id p) of
         None \<Rightarrow> [] | Some k \<Rightarrow> [(seed_row p, None, Some (map f32 (snd cache ! k)))]) ps)"

definition seed :: "(pyfloat \<Rightarrow> pyfloat) \<Rightarrow> product list \<Rightarrow> title_cache \<Rightarrow> pyfloat \<Rightarrow> offer list \<Rightarrow> (offer list \<times> nat) option" where
  \<comment> \<open>for the default tenant, after the migrations; \<open>None\<close>: the upsert raised, and its transaction is rolled back\<close>
  "seed f32 ps cache now rows =
     (let srs = seed_rows f32 ps cache in
      if upsert_fits srs then Some (upsert \<lparr>sc_tenant = ''public'', sc_user = []\<rparr> now srs rows) else None)"

section \<open>Every product has its own vector\<close>

lemma vector_order_get:
  assumes "distinct ids" and "k < length ids" shows "dict_get (vector_order ids) (ids ! k) = Some k"
proof -
  have other: "pid \<notin> snd ` set xs \<Longrightarrow> dict_get (foldl (\<lambda>d (i, pid). dict_set pid i d) d xs) pid = dict_get d pid" for pid d and xs :: "(nat \<times> string) list"
    by (induction xs arbitrary: d) auto
  have "distinct ids \<Longrightarrow> k < length ids \<Longrightarrow>
      dict_get (foldl (\<lambda>d (i, pid). dict_set pid i d) d (List.enumerate n ids)) (ids ! k) = Some (n + k)" for d n
  proof (induction ids arbitrary: d n k)
    case (Cons a ids)
    show ?case
    proof (cases k)
      case 0
      have "a \<notin> snd ` set (List.enumerate (Suc n) ids)" using Cons.prems(1) by (metis distinct.simps(2) list.set_map map_snd_enumerate)
      with 0 other show ?thesis by simp
    next
      case (Suc j)
      with Cons.IH [of j "dict_set a n d" "Suc n"] Cons.prems show ?thesis by simp
    qed
  qed simp
  from this [of "[]" 0] assms show ?thesis by (simp add: vector_order_def)
qed

text \<open>A cache that is built from the rows of the catalog gives every product the vector of its own title, in product order.\<close>

lemma built_cache_aligned:
  assumes "build_title_embeddings emb f32 items = Inr cache" and "collect (text_col ''id'') items = Inr ids"
    and "collect (text_col ''title'') items = Inr ts"
    and "distinct ids" and "map p_id ps = ids" and "length (emb ts) = length ts"
  shows "aligned_embeddings ps cache = Some (map (map f32) (emb ts))"
proof -
  have cache: "cache = (ids, map (map f32) (emb ts))" using assms(1-3) by (simp add: build_title_embeddings_def)
  have "length ts = length items" "length ids = length items"
    using assms(2,3) by (auto simp: collect_Inr dest: list_all2_lengthD)
  with assms(5,6) have len: "length ps = length ids" "length (emb ts) = length ids" by auto
  let ?get = "\<lambda>p. map_option (\<lambda>k. snd cache ! k) (dict_get (vector_order (fst cache)) (p_id p))"
  have "map ?get ps = map Some (map (map f32) (emb ts))"
  proof (rule nth_equalityI)
    fix k assume "k < length (map ?get ps)"
    then have k: "k < length ps" by simp
    then have "p_id (ps ! k) = ids ! k" using assms(5) by (metis nth_map)
    then have "dict_get (vector_order ids) (p_id (ps ! k)) = Some k" using vector_order_get [OF assms(4)] k len by simp
    with k len show "map ?get ps ! k = map Some (map (map f32) (emb ts)) ! k" by (simp add: cache)
  qed (use len in simp)
  moreover have "those (map Some xs) = Some xs" for xs :: "'a list" by (induction xs) simp_all
  ultimately show ?thesis by (simp only: aligned_embeddings_def)
qed

lemma aligned_is_catalog: "aligned_embeddings ps cache = load_catalog_embeddings ps (fst cache) (snd cache)"
  by (simp add: aligned_embeddings_def load_catalog_embeddings_def vector_order_def Let_def)

section \<open>A second upsert refreshes what the first wrote\<close>

definition settled :: "scope \<Rightarrow> pyfloat \<Rightarrow> product \<Rightarrow> pyfloat option \<Rightarrow> pyfloat list option \<Rightarrow> offer list \<Rightarrow> bool" where
  \<comment> \<open>the row is there, and is what an upsert at time \<open>now\<close> makes of it\<close>
  "settled s now p tm v rows \<longleftrightarrow>
     (\<exists>r \<in> set rows. o_tenant r = sc_tenant s \<and> o_id r = p_id p)
   \<and> (\<forall>r \<in> set rows. o_tenant r = sc_tenant s \<and> o_id r = p_id p \<longrightarrow> r = refreshed_row s now p tm v r)"

lemma refreshed_twice:
  "refreshed_row s now p tm v (refreshed_row s now p tm v r) = refreshed_row s now p tm v r"
  "refreshed_row s now p tm v (offer_row s now p tm v) = offer_row s now p tm v"
  "refreshed_row s now' p None v r = (refreshed_row s now p None v r)\<lparr>o_fetched := now'\<rparr>"
  by (auto simp: refreshed_row_def offer_row_def split: option.splits)

lemma settled_after: "settled s now p tm v (upsert_row s now p tm v rows)"
proof (cases "\<exists>r \<in> set rows. o_tenant r = sc_tenant s \<and> o_id r = p_id p")
  case True
  then obtain r where "r \<in> set rows" "o_tenant r = sc_tenant s" "o_id r = p_id p" by blast
  then have "refreshed_row s now p tm v r \<in> set (upsert_row s now p tm v rows)"
    by (auto simp: upsert_row_def on_conflict_def image_iff)
  moreover have "r' = refreshed_row s now p tm v r'"
    if "r' \<in> set (upsert_row s now p tm v rows)" "o_tenant r' = sc_tenant s" "o_id r' = p_id p" for r'
    using that True by (auto simp: upsert_row_def on_conflict_def refreshed_twice)
  ultimately show ?thesis unfolding settled_def by (meson offer_row_keys(7,8))
qed (auto simp: settled_def upsert_row_def on_conflict_def refreshed_twice)

lemma settled_row:
  assumes "settled s now p tm v rows" and "r \<in> set rows" and "o_tenant r = sc_tenant s" and "o_id r = p_id p"
  shows "o_title r = title p" and "o_price r = price p" and "v = Some x \<Longrightarrow> o_vec r = Some (vec_text x)"
    and "o_fetched r = (case tm of None \<Rightarrow> now | Some t \<Rightarrow> t)"
proof -
  have r: "r = refreshed_row s now p tm v r" using assms by (simp add: settled_def)
  show "o_title r = title p" "o_price r = price p" "v = Some x \<Longrightarrow> o_vec r = Some (vec_text x)"
    by (subst r, simp)+
  show "o_fetched r = (case tm of None \<Rightarrow> now | Some t \<Rightarrow> t)" by (subst r) (simp add: refreshed_row_def offer_row_def)
qed

lemma settled_other: "p_id q \<noteq> p_id p \<Longrightarrow> settled s now p tm v rows \<Longrightarrow> settled s now p tm v (upsert_row s now' q tm' v' rows)"
  by (auto simp: settled_def upsert_row_def on_conflict_def)

lemma settled_again:
  assumes "settled s now p None v rows"
  shows "upsert_row s now' p None v rows = map (\<lambda>r. if o_tenant r = sc_tenant s \<and> o_id r = p_id p then r\<lparr>o_fetched := now'\<rparr> else r) rows"
proof -
  have "refreshed_row s now' p None v r = r\<lparr>o_fetched := now'\<rparr>"
    if "r \<in> set rows" "o_tenant r = sc_tenant s" "o_id r = p_id p" for r
    using that assms refreshed_twice(3) [of s now' p v r now] by (simp add: settled_def)
  with assms show ?thesis by (auto simp: settled_def upsert_row_def on_conflict_def)
qed

definition stored_vec :: "product \<Rightarrow> pyfloat list option \<Rightarrow> pyfloat list option" where
  "stored_vec p v = (if may_embed (source p) then v else None)"

lemma upsert_keeps_settled:
  "p_id p \<notin> p_id ` fst ` set ps \<Longrightarrow> settled s now p tm v rows \<Longrightarrow> settled s now p tm v (fst (upsert s now ps rows))"
proof (induction ps arbitrary: rows)
  case (Cons q ps)
  obtain p' tm' v' where q: "q = (p', tm', v')" by (cases q) auto
  with Cons show ?case by (auto simp: Let_def split_beta settled_other)
qed simp

lemma upsert_settles:
  "distinct (map p_id (map fst ps)) \<Longrightarrow> (p, tm, v) \<in> set ps \<Longrightarrow> may_store (source p) \<Longrightarrow>
   settled s now p tm (stored_vec p v) (fst (upsert s now ps rows))"
proof (induction ps arbitrary: rows)
  case (Cons q ps)
  obtain p' tm' v' where q: "q = (p', tm', v')" by (cases q) auto
  show ?case
  proof (cases "q = (p, tm, v)")
    case True
    then have "p_id p \<notin> p_id ` fst ` set ps" using Cons.prems(1) by (auto simp: image_image comp_def)
    with True Cons.prems(3) show ?thesis
      by (simp add: Let_def split_beta upsert_keeps_settled settled_after stored_vec_def)
  next
    case False
    with Cons.prems have "(p, tm, v) \<in> set ps" "distinct (map p_id (map fst ps))" by auto
    with Cons.IH Cons.prems(3) show ?thesis by (simp add: q Let_def split_beta)
  qed
qed simp

definition stored_ids :: "(product \<times> pyfloat option \<times> pyfloat list option) list \<Rightarrow> string set" where
  "stored_ids ps = {p_id (fst q) |q. q \<in> set ps \<and> may_store (source (fst q))}"

definition touched :: "scope \<Rightarrow> pyfloat \<Rightarrow> string set \<Rightarrow> offer list \<Rightarrow> offer list" where
  \<comment> \<open>only the time stamps of these rows are new\<close>
  "touched s now ids rows = map (\<lambda>r. if o_tenant r = sc_tenant s \<and> o_id r \<in> ids then r\<lparr>o_fetched := now\<rparr> else r) rows"

lemma upsert_again:
  assumes "distinct (map p_id (map fst ps))"
    and "\<And>p tm v. (p, tm, v) \<in> set ps \<Longrightarrow> may_store (source p) \<Longrightarrow> tm = None \<and> settled s now p None (stored_vec p v) rows"
  shows "fst (upsert s now' ps rows) = touched s now' (stored_ids ps) rows"
  using assms
proof (induction ps arbitrary: rows)
  case Nil
  then show ?case by (simp add: touched_def stored_ids_def)
next
  case (Cons q ps)
  obtain p tm v where q: "q = (p, tm, v)" by (cases q) auto
  have d: "distinct (map p_id (map fst ps))" "p_id p \<notin> stored_ids ps" using Cons.prems(1) q by (force simp: stored_ids_def)+
  show ?case
  proof (cases "may_store (source p)")
    case False
    then have "stored_ids (q # ps) = stored_ids ps" by (auto simp: stored_ids_def q)
    moreover have "fst (upsert s now' ps rows) = touched s now' (stored_ids ps) rows"
      by (rule Cons.IH [OF d(1)]) (use Cons.prems(2) in auto)
    ultimately show ?thesis using False by (simp add: q)
  next
    case True
    let ?rows = "upsert_row s now' p None (stored_vec p v) rows"
    have p: "tm = None" "settled s now p None (stored_vec p v) rows" using Cons.prems(2) [of p tm v] True q by auto
    have ids: "stored_ids (q # ps) = insert (p_id p) (stored_ids ps)" using True by (auto simp: stored_ids_def q)
    have "tm' = None \<and> settled s now p' None (stored_vec p' v') ?rows" if "(p', tm', v') \<in> set ps" "may_store (source p')" for p' tm' v'
    proof -
      have "p_id p' \<in> stored_ids ps" using that by (force simp: stored_ids_def)
      then have "p_id p \<noteq> p_id p'" using d(2) by auto
      then show ?thesis using Cons.prems(2) [of p' tm' v'] that by (simp add: settled_other)
    qed
    from Cons.IH [OF d(1) this] have "fst (upsert s now' ps ?rows) = touched s now' (stored_ids ps) ?rows" .
    also have "\<dots> = touched s now' (stored_ids (q # ps)) rows"
      using d(2) by (auto simp: settled_again [OF p(2)] touched_def ids)
    finally show ?thesis using True p(1) by (simp add: q Let_def split_beta stored_vec_def)
  qed
qed

lemma upsert_count: "snd (upsert s now ps rows) = length (filter (\<lambda>q. may_store (source (fst q))) ps)"
proof (induction ps arbitrary: rows)
  case (Cons q ps)
  then show ?case by (cases q) (simp add: Let_def split_beta)
qed simp

lemma seed_rows_ids: "set (map p_id (map fst (seed_rows f32 ps cache))) \<subseteq> p_id ` set ps"
  by (auto simp: seed_rows_def seed_row_def mk_product_def split: option.splits)

lemma seed_rows_distinct: "distinct (map p_id ps) \<Longrightarrow> distinct (map p_id (map fst (seed_rows f32 ps cache)))"
proof (induction ps)
  case (Cons p ps)
  have "p_id p \<notin> set (map p_id (map fst (seed_rows f32 ps cache)))"
    using seed_rows_ids [of f32 ps cache] Cons.prems by auto
  with Cons show ?case by (auto simp: seed_rows_def seed_row_def mk_product_def split: option.splits)
qed (simp add: seed_rows_def)

lemma vector_order_iff:
  assumes "distinct ids"
  shows "dict_get (vector_order ids) x = Some k \<longleftrightarrow> k < length ids \<and> x = ids ! k"
proof
  have "dict_get (foldl (\<lambda>d (i, pid). dict_set pid i d) d xs) x = Some k \<Longrightarrow> (k, x) \<in> set xs \<or> dict_get d x = Some k"
    for d and xs :: "(nat \<times> string) list"
  proof (induction xs arbitrary: d)
    case (Cons y xs)
    obtain i pid where y: "y = (i, pid)" by (cases y)
    from Cons.IH [of "dict_set pid i d"] Cons.prems show ?case by (auto simp: y split: if_splits)
  qed simp
  from this [of "[]" "List.enumerate 0 ids"] show "dict_get (vector_order ids) x = Some k \<Longrightarrow> k < length ids \<and> x = ids ! k"
    by (auto simp: vector_order_def in_set_enumerate_eq)
qed (auto intro: vector_order_get [OF assms])

lemma seed_row_simps [simp]:
  "p_id (seed_row p) = p_id p" "title (seed_row p) = title p" "price (seed_row p) = price p" "source (seed_row p) = source p"
  by (simp_all add: seed_row_def mk_product_def)

lemma seed_rows_iff:
  "distinct ids \<Longrightarrow> (q, tm, v) \<in> set (seed_rows f32 ps (ids, vectors)) \<longleftrightarrow>
     (\<exists>p \<in> set ps. \<exists>k < length ids. p_id p = ids ! k \<and> q = seed_row p \<and> tm = None \<and> v = Some (map f32 (vectors ! k)))"
  unfolding seed_rows_def by (auto simp: vector_order_iff split: option.splits) (metis vector_order_iff)+

lemma seed_rows_fits:
  assumes "distinct ids"
  shows "upsert_fits (seed_rows f32 ps (ids, vectors)) \<longleftrightarrow>
    (\<forall>p \<in> set ps. \<forall>k < length ids. p_id p = ids ! k \<and> may_store (source p) \<and> may_embed (source p) \<longrightarrow> length (vectors ! k) = 384)"
proof -
  have "upsert_fits (seed_rows f32 ps (ids, vectors)) \<longleftrightarrow>
    (\<forall>q tm v. (q, tm, v) \<in> set (seed_rows f32 ps (ids, vectors)) \<longrightarrow> may_store (source q) \<and> may_embed (source q) \<longrightarrow> vec_fits v)"
    by (auto simp: upsert_fits_def list_all_iff)
  also have "\<dots> \<longleftrightarrow> (\<forall>p \<in> set ps. \<forall>k < length ids. p_id p = ids ! k \<longrightarrow> may_store (source (seed_row p)) \<and>
      may_embed (source (seed_row p)) \<longrightarrow> vec_fits (Some (map f32 (vectors ! k))))"
    unfolding seed_rows_iff [OF assms] by blast
  finally show ?thesis by (auto simp: vec_fits_def EMBED_DIM_def)
qed

lemma seed_settles:
  assumes "distinct (map p_id ps)" and "seed f32 ps (ids, vectors) t1 rows = Some (rows1, n)"
    and "(p, tm, v) \<in> set (seed_rows f32 ps (ids, vectors))" and "may_store (source p)"
  shows "settled \<lparr>sc_tenant = ''public'', sc_user = []\<rparr> t1 p tm (stored_vec p v) rows1"
proof -
  have "upsert \<lparr>sc_tenant = ''public'', sc_user = []\<rparr> t1 (seed_rows f32 ps (ids, vectors)) rows = (rows1, n)"
    using assms(2) by (simp add: seed_def Let_def split: if_splits)
  with upsert_settles [OF seed_rows_distinct [OF assms(1)] assms(3,4), of "\<lparr>sc_tenant = ''public'', sc_user = []\<rparr>" t1 rows]
  show ?thesis by simp
qed

lemma seed_stored:
  assumes "distinct (map p_id ps)" and "distinct ids" and "seed f32 ps (ids, vectors) t1 rows = Some (rows1, n)"
    and "p \<in> set ps" "k < length ids" "p_id p = ids ! k" "may_store (source p)"
  shows "(\<exists>r \<in> set rows1. o_tenant r = ''public'' \<and> o_id r = p_id p)
    \<and> (\<forall>r \<in> set rows1. o_tenant r = ''public'' \<and> o_id r = p_id p \<longrightarrow>
         o_title r = title p \<and> o_price r = price p \<and> o_fetched r = t1
       \<and> (may_embed (source p) \<longrightarrow> o_vec r = Some (map (py_round 6) (map f32 (vectors ! k)))))"
proof -
  have "(seed_row p, None, Some (map f32 (vectors ! k))) \<in> set (seed_rows f32 ps (ids, vectors))"
    using assms(4-6) by (auto simp: seed_rows_iff [OF assms(2)])
  from seed_settles [OF assms(1,3) this] assms(7)
  have st: "settled \<lparr>sc_tenant = ''public'', sc_user = []\<rparr> t1 (seed_row p) None (stored_vec (seed_row p) (Some (map f32 (vectors ! k)))) rows1"
    by simp
  note row = settled_row [OF st]
  show ?thesis using st row by (auto simp: settled_def stored_vec_def vec_text_def)
qed

lemma seed_stored_ids:
  "distinct ids \<Longrightarrow> x \<in> stored_ids (seed_rows f32 ps (ids, vectors)) \<longleftrightarrow>
     (\<exists>p \<in> set ps. x = p_id p \<and> p_id p \<in> set ids \<and> may_store (source p))"
proof -
  assume d: "distinct ids"
  have "x \<in> stored_ids (seed_rows f32 ps (ids, vectors)) \<longleftrightarrow>
      (\<exists>q tm v. (q, tm, v) \<in> set (seed_rows f32 ps (ids, vectors)) \<and> may_store (source q) \<and> x = p_id q)"
    by (force simp: stored_ids_def)
  also have "\<dots> \<longleftrightarrow> (\<exists>p \<in> set ps. x = p_id p \<and> p_id p \<in> set ids \<and> may_store (source p))"
  proof -
    have ids: "y \<in> set ids \<longleftrightarrow> (\<exists>k < length ids. y = ids ! k)" for y by (auto simp: in_set_conv_nth)
    show ?thesis unfolding seed_rows_iff [OF d] ids by (metis seed_row_simps(1,4))
  qed
  finally show ?thesis .
qed

lemma seed_again:
  assumes "distinct (map p_id ps)" and "distinct ids" and "seed f32 ps (ids, vectors) t1 rows = Some (rows1, n)"
  shows "seed f32 ps (ids, vectors) t2 rows1 =
    Some (map (\<lambda>r. if o_tenant r = ''public'' \<and> (\<exists>p \<in> set ps. o_id r = p_id p \<and> p_id p \<in> set ids \<and> may_store (source p))
                   then r\<lparr>o_fetched := t2\<rparr> else r) rows1, n)"
proof -
  let ?s = "\<lparr>sc_tenant = ''public'', sc_user = []\<rparr>" and ?ps = "seed_rows f32 ps (ids, vectors)"
  have fits: "upsert_fits ?ps" and n: "n = snd (upsert ?s t1 ?ps rows)"
    using assms(3) by (auto simp: seed_def Let_def split: if_splits)
  have "tm = None \<and> settled ?s t1 p None (stored_vec p v) rows1" if "(p, tm, v) \<in> set ?ps" "may_store (source p)" for p tm v
    using seed_settles [OF assms(1,3) that] that(1) by (auto simp: seed_rows_iff [OF assms(2)])
  from upsert_again [OF seed_rows_distinct [OF assms(1)] this]
  have "fst (upsert ?s t2 ?ps rows1) = touched ?s t2 (stored_ids ?ps) rows1" by blast
  moreover have "snd (upsert ?s t2 ?ps rows1) = n" by (simp add: n upsert_count)
  ultimately have "seed f32 ps (ids, vectors) t2 rows1 = Some (touched ?s t2 (stored_ids ?ps) rows1, n)"
    using fits by (simp add: seed_def prod_eq_iff)
  then show ?thesis by (simp add: touched_def seed_stored_ids [OF assms(2)])
qed

text \<open>C37: Seeding again refreshes time stamps and nothing else. For a catalog and a cache with distinct ids and a vector per
  id, a seed fails (and then writes nothing) exactly when a vector it would store does not have 384 components. After a
  seed at time \<open>t1\<close>, each catalog product whose source may be stored and whose id is in the cache is in the table under
  the default tenant, always with its own title and price, the time \<open>t1\<close> and, where its source may be embedded, its own
  cached vector as a 32-bit float written with six decimals. A second seed at time \<open>t2\<close> succeeds and reports the same
  number of rows; the table is the one the first left, but that exactly those rows carry the time \<open>t2\<close>.\<close>

theorem seed_idempotent:
  assumes "distinct (map p_id ps)" and "distinct ids" and "length vectors = length ids"
  shows "(seed f32 ps (ids, vectors) t1 rows = None \<longleftrightarrow>
        (\<exists>p \<in> set ps. \<exists>k < length ids. p_id p = ids ! k \<and> may_store (source p) \<and> may_embed (source p) \<and> length (vectors ! k) \<noteq> 384))
    \<and> (\<forall>rows1 n. seed f32 ps (ids, vectors) t1 rows = Some (rows1, n) \<longrightarrow>
        (\<forall>p \<in> set ps. \<forall>k < length ids. p_id p = ids ! k \<and> may_store (source p) \<longrightarrow>
            (\<exists>r \<in> set rows1. o_tenant r = ''public'' \<and> o_id r = p_id p)
          \<and> (\<forall>r \<in> set rows1. o_tenant r = ''public'' \<and> o_id r = p_id p \<longrightarrow>
               o_title r = title p \<and> o_price r = price p \<and> o_fetched r = t1
             \<and> (may_embed (source p) \<longrightarrow> o_vec r = Some (map (py_round 6) (map f32 (vectors ! k))))))
      \<and> seed f32 ps (ids, vectors) t2 rows1 =
          Some (map (\<lambda>r. if o_tenant r = ''public'' \<and> (\<exists>p \<in> set ps. o_id r = p_id p \<and> p_id p \<in> set ids \<and> may_store (source p))
                         then r\<lparr>o_fetched := t2\<rparr> else r) rows1, n))"
proof -
  have "seed f32 ps (ids, vectors) t1 rows = None \<longleftrightarrow>
      (\<exists>p \<in> set ps. \<exists>k < length ids. p_id p = ids ! k \<and> may_store (source p) \<and> may_embed (source p) \<and> length (vectors ! k) \<noteq> 384)"
    using seed_rows_fits [OF assms(2), of f32 ps vectors] by (auto simp: seed_def Let_def)
  with seed_stored [OF assms(1,2)] seed_again [OF assms(1,2)] show ?thesis by blast
qed

definition demo_stocked :: product where
  "demo_stocked = mk_product ''q20i'' ''Anker Q20i'' None ''audio'' 40 ''u'' ''RapidAPI:Best Buy''"

theorem seed_idempotent_witness:
  "\<exists>rows1 r. seed (\<lambda>x. x) [demo_stocked] ([''q20i''], [replicate 384 1]) 5 [] = Some (rows1, 1)
   \<and> r \<in> set rows1 \<and> o_tenant r = ''public'' \<and> o_id r = ''q20i'' \<and> o_fetched r = 5
   \<and> (\<exists>rows2. seed (\<lambda>x. x) [demo_stocked] ([''q20i''], [replicate 384 1]) 6 rows1 = Some (rows2, 1)
      \<and> r\<lparr>o_fetched := 6\<rparr> \<in> set rows2)"
proof -
  have d: "p_id demo_stocked = ''q20i''" "may_store (source demo_stocked)"
    by (simp_all add: demo_stocked_def mk_product_def may_store_def policy_for_def source_key_def POLICIES_def course_def course_keys_def py_before_def dict_get_def)
  note claim = seed_idempotent [of "[demo_stocked]" "[''q20i'']" "[replicate 384 1]" "\<lambda>x. x" 5 "[]" 6]
  have "seed (\<lambda>x. x) [demo_stocked] ([''q20i''], [replicate 384 1]) 5 [] \<noteq> None" using claim by simp
  then obtain rows1 n where one: "seed (\<lambda>x. x) [demo_stocked] ([''q20i''], [replicate 384 1]) 5 [] = Some (rows1, n)" by auto
  have "seed_rows (\<lambda>x. x) [demo_stocked] ([''q20i''], [replicate 384 1]) = [(seed_row demo_stocked, None, Some (replicate 384 1))]"
    by (simp add: seed_rows_def vector_order_def d dict_get_def)
  with one have "n = snd (upsert \<lparr>sc_tenant = ''public'', sc_user = []\<rparr> 5 [(seed_row demo_stocked, None, Some (replicate 384 1))] [])"
    by (simp add: seed_def Let_def split: if_splits)
  then have n: "n = 1" by (simp add: upsert_count d)
  from claim one n d obtain r where r: "r \<in> set rows1" "o_tenant r = ''public''" "o_id r = ''q20i''" "o_fetched r = 5"
    by auto
  from claim one n d have two: "seed (\<lambda>x. x) [demo_stocked] ([''q20i''], [replicate 384 1]) 6 rows1 =
      Some (map (\<lambda>r. if o_tenant r = ''public'' \<and> o_id r = ''q20i'' then r\<lparr>o_fetched := 6\<rparr> else r) rows1, 1)"
    by simp
  then have "\<exists>rows2. seed (\<lambda>x. x) [demo_stocked] ([''q20i''], [replicate 384 1]) 6 rows1 = Some (rows2, 1) \<and> r\<lparr>o_fetched := 6\<rparr> \<in> set rows2"
    using r by (force simp: image_iff)
  with one n r show ?thesis by blast
qed

end
