(* ===== verification/Db_Session.thy ===== *)
theory Db_Session
  imports Userdata
begin

text \<open>
  \<open>dealfinder/db.py\<close> at the level of the Postgres session: pooled connections, transactions, and the transaction-local
  role, search path and variables that the policies of \<open>dealfinder/migrations\<close> read; with \<open>migrate.schema_ready\<close> and the
  program of \<open>dealfinder/retention.py\<close>. \<open>Userdata\<close> speaks of scopes; here a scope is what \<open>scoped\<close> makes of a
  connection, whatever ran on that connection before. Transactions follow each other: what Postgres does with two that
  overlap is outside the model.
\<close>

section \<open>Connections\<close>

record settings =
  se_role :: string
  se_path :: "string list"
  se_vars :: "(string, string) dict"

record connection =
  cn_session :: settings
  cn_local :: "settings option"  \<comment> \<open>inside a transaction\<close>

definition current_settings :: "connection \<Rightarrow> settings" where
  "current_settings c = (case cn_local c of None \<Rightarrow> cn_session c | Some l \<Rightarrow> l)"

datatype set_local =
    Set_Role string
  | Set_Path "string list"
  | Set_Config "(string \<times> string) list"

fun apply_set :: "set_local \<Rightarrow> settings \<Rightarrow> settings" where
  "apply_set (Set_Role r) l = l\<lparr>se_role := r\<rparr>"
| "apply_set (Set_Path p) l = l\<lparr>se_path := p\<rparr>"
| "apply_set (Set_Config kvs) l = l\<lparr>se_vars := foldl (\<lambda>d (k, v). dict_set k v d) (se_vars l) kvs\<rparr>"

definition run_set_local :: "connection \<Rightarrow> set_local \<Rightarrow> connection" where
  \<comment> \<open>outside a transaction it has no effect\<close>
  "run_set_local c s = c\<lparr>cn_local := map_option (apply_set s) (cn_local c)\<rparr>"

definition begin_tx :: "connection \<Rightarrow> connection" where
  "begin_tx c = c\<lparr>cn_local := Some (current_settings c)\<rparr>"

definition end_tx :: "connection \<Rightarrow> connection" where
  \<comment> \<open>COMMIT or ROLLBACK: role and path revert; a variable the session never had stays behind as the empty text\<close>
  "end_tx c = (case cn_local c of
     None \<Rightarrow> c
   | Some l \<Rightarrow> \<lparr>cn_session = (cn_session c)\<lparr>se_vars := foldl (\<lambda>d k. if dict_has d k then d else dict_set k [] d)
                  (se_vars (cn_session c)) (dict_keys (se_vars l))\<rparr>, cn_local = None\<rparr>)"

section \<open>The two scopes\<close>

definition SEARCH_PATH :: "string list" where "SEARCH_PATH = [''dealfinder'', ''extensions'', ''public'']"

definition scoped_setup :: "string \<Rightarrow> string option \<Rightarrow> set_local list" where
  "scoped_setup tenant user =
     [Set_Role ''dealfinder_app'', Set_Path SEARCH_PATH,
      Set_Config [(''app.tenant_id'', tenant), (''app.user_id'', case user of None \<Rightarrow> [] | Some u \<Rightarrow> u)]]"

definition job_setup :: "set_local list" where "job_setup = [Set_Role ''dealfinder_job'', Set_Path SEARCH_PATH]"

type_synonym tx_body = "settings \<Rightarrow> database \<Rightarrow> settings \<times> database option"

text \<open>What the \<open>with\<close> block does under the settings it finds: it may change them for the rest of the transaction, and it
  leaves a database, or raises (\<open>None\<close>).\<close>

definition transaction :: "set_local list \<Rightarrow> tx_body \<Rightarrow> connection \<times> database \<Rightarrow> (connection \<times> database) \<times> settings" where
  \<comment> \<open>also the settings the body starts with\<close>
  "transaction sets body s =
     (let c = foldl run_set_local (begin_tx (fst s)) sets; st = current_settings c; (l, r) = body st (snd s)
      in ((end_tx (c\<lparr>cn_local := Some l\<rparr>), case r of None \<Rightarrow> snd s | Some db \<Rightarrow> db), st))"

definition scoped :: "string option \<Rightarrow> string \<Rightarrow> tx_body \<Rightarrow> connection \<times> database \<Rightarrow> (connection \<times> database) \<times> settings" where
  "scoped user tenant = transaction (scoped_setup tenant user)"

definition job_scope :: "tx_body \<Rightarrow> connection \<times> database \<Rightarrow> (connection \<times> database) \<times> settings" where
  "job_scope = transaction job_setup"

section \<open>The pool\<close>

datatype db_call =
    Scoped "string option" string tx_body
  | Job tx_body
  | Plain  \<comment> \<open>\<open>ping\<close> and \<open>schema_current\<close>: one query without a scope\<close>

definition run_db_call :: "nat \<Rightarrow> db_call \<Rightarrow> connection list \<times> database \<Rightarrow> (connection list \<times> database) \<times> settings option" where
  \<comment> \<open>on the connection the pool hands out\<close>
  "run_db_call i q s =
     (let (cs, db) = s in
      case q of
        Scoped user tenant body \<Rightarrow> (case scoped user tenant body (cs ! i, db) of ((c, db'), st) \<Rightarrow> ((cs[i := c], db'), Some st))
      | Job body \<Rightarrow> (case job_scope body (cs ! i, db) of ((c, db'), st) \<Rightarrow> ((cs[i := c], db'), Some st))
      | Plain \<Rightarrow> ((cs[i := end_tx (begin_tx (cs ! i))], db), None))"

fun run_db_calls :: "(nat \<times> db_call) list \<Rightarrow> connection list \<times> database \<Rightarrow> (connection list \<times> database) \<times> settings option list" where
  "run_db_calls [] s = (s, [])"
| "run_db_calls ((i, q) # qs) s = (let (s1, st) = run_db_call i q s; (s2, sts) = run_db_calls qs s1 in (s2, st # sts))"

section \<open>The policies\<close>

definition app_var :: "string \<Rightarrow> settings \<Rightarrow> string option" where
  \<comment> \<open>\<open>current_setting(name, true)\<close>\<close>
  "app_var k st = dict_get (se_vars st) k"

definition granted :: "settings \<Rightarrow> bool" where
  \<comment> \<open>the roles with rights on the tables; the login role has none and does not inherit them\<close>
  "granted st \<longleftrightarrow> se_role st \<in> {''dealfinder_app'', ''dealfinder_job''}"

definition sees_offer :: "settings \<Rightarrow> offer \<Rightarrow> bool" where
  \<comment> \<open>\<open>tenant_isolation\<close> or \<open>job_all\<close>\<close>
  "sees_offer st r \<longleftrightarrow> granted st \<and> (app_var ''app.tenant_id'' st = Some (o_tenant r) \<or> se_role st = ''dealfinder_job'')"

definition sees_watch :: "settings \<Rightarrow> watch \<Rightarrow> bool" where
  "sees_watch st r \<longleftrightarrow> granted st \<and> (app_var ''app.user_id'' st = Some (wa_user r) \<or> se_role st = ''dealfinder_job'')"

definition sees_saved :: "settings \<Rightarrow> saved_search \<Rightarrow> bool" where
  "sees_saved st r \<longleftrightarrow> granted st \<and> (app_var ''app.user_id'' st = Some (sv_user r) \<or> se_role st = ''dealfinder_job'')"

section \<open>The rest of the module\<close>

definition ping :: "unit option option \<Rightarrow> bool" where
  \<comment> \<open>\<open>None\<close>: no connection in time; \<open>Some None\<close>: the query raised\<close>
  "ping answer \<longleftrightarrow> answer = Some (Some ())"

definition schema_ready :: "string list \<Rightarrow> string list option option \<Rightarrow> bool" where
  \<comment> \<open>\<open>None\<close>: no connection; \<open>Some None\<close>: no log table, everything is pending\<close>
  "schema_ready files lg \<longleftrightarrow> (case lg of
     None \<Rightarrow> False | Some l \<Rightarrow> pending_migrations files (case l of None \<Rightarrow> [] | Some d \<Rightarrow> d) = [])"

definition retention_main :: "pyfloat \<Rightarrow> bool \<Rightarrow> connection \<times> database \<Rightarrow> (int \<times> (nat \<times> nat) option) \<times> connection \<times> database" where
  \<comment> \<open>exit code and printed counts; the flag: nothing raises, neither the connection nor a statement\<close>
  "retention_main now works s =
     (let body = (\<lambda>st db. (st, if works then Some (fst (purge_expired RETENTION_MARGIN_S now db)) else None));
          s' = fst (job_scope body s)
      in if works then ((0, Some (snd (purge_expired RETENTION_MARGIN_S now (snd s)))), s') else ((1, None), s'))"

section \<open>Nothing is left on a connection\<close>

definition plain_session :: "settings \<Rightarrow> settings \<Rightarrow> bool" where
  \<comment> \<open>the same role and path, and no variable has a value that it did not have\<close>
  "plain_session base st \<longleftrightarrow> se_role st = se_role base \<and> se_path st = se_path base
     \<and> (\<forall>k. dict_get_or (se_vars st) k [] = dict_get_or (se_vars base) k [])"

definition idle_at :: "settings \<Rightarrow> connection \<Rightarrow> bool" where
  "idle_at base c \<longleftrightarrow> cn_local c = None \<and> plain_session base (cn_session c)"

lemma blanks_only: "dict_get_or (foldl (\<lambda>d k. if dict_has d k then d else dict_set k [] d) d ks) x [] = dict_get_or d x []"
proof (induction ks arbitrary: d)
  case (Cons k ks)
  have "dict_get_or (if dict_has d k then d else dict_set k [] d) x [] = dict_get_or d x []"
    by (auto simp: dict_get_or_def dict_has_def dict_get_def split: option.splits)
  with Cons.IH show ?case by simp
qed simp

lemma end_tx_idle: "plain_session base (cn_session c) \<Longrightarrow> cn_local c = Some l \<Longrightarrow> idle_at base (end_tx c)"
  by (simp add: idle_at_def end_tx_def plain_session_def blanks_only del: dict_has_iff)

lemma setup_keeps: "cn_session (foldl run_set_local c sets) = cn_session c"
  by (induction sets arbitrary: c) (simp_all add: run_set_local_def)

lemma setup_settings: "current_settings (foldl run_set_local (begin_tx c) sets) = foldl (\<lambda>l s. apply_set s l) (current_settings c) sets"
proof -
  have "cn_local c = Some l \<Longrightarrow> cn_local (foldl run_set_local c sets) = Some (foldl (\<lambda>l s. apply_set s l) l sets)" for c l
    by (induction sets arbitrary: c l) (simp_all add: run_set_local_def)
  then show ?thesis by (simp add: current_settings_def begin_tx_def)
qed

lemma transaction_idle:
  assumes "idle_at base c" and "transaction sets body (c, db) = ((c', db'), st)"
  shows "idle_at base c'" and "st = foldl (\<lambda>l s. apply_set s l) (cn_session c) sets"
proof -
  have session: "cn_session (foldl run_set_local (begin_tx c) sets) = cn_session c" by (simp add: setup_keeps begin_tx_def)
  show "idle_at base c'"
    using assms by (auto simp: transaction_def Let_def session idle_at_def [of base c] intro!: end_tx_idle split: prod.splits)
  show "st = foldl (\<lambda>l s. apply_set s l) (cn_session c) sets"
    using assms by (auto simp: transaction_def Let_def setup_settings idle_at_def split: prod.splits) (simp add: current_settings_def)
qed

definition call_scope :: "string option \<Rightarrow> string \<Rightarrow> scope" where
  "call_scope user tenant = \<lparr>sc_tenant = tenant, sc_user = (case user of None \<Rightarrow> [] | Some u \<Rightarrow> u)\<rparr>"

definition body_settings :: "db_call \<Rightarrow> settings option \<Rightarrow> bool" where
  \<comment> \<open>what the policies show the body of a call\<close>
  "body_settings q st \<longleftrightarrow> (case q of
     Scoped user tenant body \<Rightarrow> (case st of None \<Rightarrow> False | Some l \<Rightarrow>
         sees_offer l = own_offer (call_scope user tenant) \<and> sees_watch l = own_watch (call_scope user tenant)
       \<and> sees_saved l = own_saved (call_scope user tenant) \<and> se_path l = SEARCH_PATH)
   | Job body \<Rightarrow> (case st of None \<Rightarrow> False | Some l \<Rightarrow>
         sees_offer l = (\<lambda>r. True) \<and> sees_watch l = (\<lambda>r. True) \<and> sees_saved l = (\<lambda>r. True) \<and> se_path l = SEARCH_PATH)
   | Plain \<Rightarrow> st = None)"

lemma scoped_settings: "body_settings (Scoped user tenant body) (Some (foldl (\<lambda>l s. apply_set s l) st (scoped_setup tenant user)))"
  by (auto simp: body_settings_def scoped_setup_def sees_offer_def sees_watch_def sees_saved_def granted_def app_var_def
    own_offer_def own_watch_def own_saved_def call_scope_def fun_eq_iff)

lemma job_settings: "body_settings (Job body) (Some (foldl (\<lambda>l s. apply_set s l) st job_setup))"
  by (simp add: body_settings_def job_setup_def sees_offer_def sees_watch_def sees_saved_def granted_def fun_eq_iff)

lemma run_db_call_idle:
  assumes "list_all (idle_at base) cs" and "i < length cs" and "run_db_call i q (cs, db) = ((cs', db'), st)"
  shows "list_all (idle_at base) cs' \<and> length cs' = length cs \<and> body_settings q st"
proof -
  have c: "idle_at base (cs ! i)" using assms(1,2) by (simp add: list_all_length)
  have upd: "list_all (idle_at base) (cs[i := c'])" if "idle_at base c'" for c'
    using that assms(1) by (auto simp: list_all_length nth_list_update assms(2))
  show ?thesis
  proof (cases q)
    case (Scoped user tenant body)
    obtain c' db1 l where t: "transaction (scoped_setup tenant user) body (cs ! i, db) = ((c', db1), l)" by (metis prod.exhaust)
    from transaction_idle [OF c t] Scoped assms(3) t show ?thesis
      using upd scoped_settings by (auto simp: run_db_call_def scoped_def)
  next
    case (Job body)
    obtain c' db1 l where t: "transaction job_setup body (cs ! i, db) = ((c', db1), l)" by (metis prod.exhaust)
    from transaction_idle [OF c t] Job assms(3) t show ?thesis
      using upd job_settings by (auto simp: run_db_call_def job_scope_def)
  next
    case Plain
    have "idle_at base (end_tx (begin_tx (cs ! i)))"
      using c by (intro end_tx_idle) (simp_all add: begin_tx_def idle_at_def)
    with Plain assms(3) upd show ?thesis by (auto simp: run_db_call_def body_settings_def)
  qed
qed

text \<open>C4: A pooled connection carries nothing over. For any sequence of transactions on any connections of the pool, whatever
  their bodies do, change or raise: under \<open>scoped\<close> a body sees exactly the rows of its own tenant and its own user, under
  \<open>job_scope\<close> all rows, no matter what ran before on that connection; and afterwards every connection is outside a
  transaction with the login role, the path and the variable values it was opened with, so that a query outside a
  scope, as the login role, sees no row.\<close>

theorem pool_carries_nothing_over:
  assumes "list_all (idle_at base) cs" and "list_all (\<lambda>q. fst q < length cs) qs"
    and "run_db_calls qs (cs, db) = ((cs', db'), sts)" and "se_role base = ''dealfinder_svc''"
  shows "list_all2 body_settings (map snd qs) sts \<and> list_all (idle_at base) cs' \<and> length cs' = length cs
    \<and> (\<forall>c \<in> set cs'. \<forall>r. \<not> sees_offer (cn_session c) r)"
proof -
  have "list_all2 body_settings (map snd qs) sts \<and> list_all (idle_at base) cs' \<and> length cs' = length cs"
    using assms(1-3)
  proof (induction qs arbitrary: cs db sts)
    case (Cons q qs)
    obtain i f where q: "q = (i, f)" by (cases q)
    obtain cs1 db1 st where one: "run_db_call i f (cs, db) = ((cs1, db1), st)" by (metis prod.exhaust)
    obtain sts' where rest: "run_db_calls qs (cs1, db1) = ((cs', db'), sts')" "sts = st # sts'"
      using Cons.prems(3) q one by (auto split: prod.splits)
    have "list_all (idle_at base) cs1 \<and> length cs1 = length cs \<and> body_settings f st"
      by (rule run_db_call_idle [OF Cons.prems(1) _ one]) (use Cons.prems(2) q in simp)
    with Cons.IH [OF _ _ rest(1)] Cons.prems(2) rest(2) q show ?case by simp
  qed simp
  moreover from this have "\<forall>c \<in> set cs'. \<not> granted (cn_session c)"
    using assms(4) by (auto simp: list_all_iff idle_at_def plain_session_def granted_def)
  ultimately show ?thesis by (auto simp: sees_offer_def)
qed

definition demo_login :: settings where "demo_login = \<lparr>se_role = ''dealfinder_svc'', se_path = [], se_vars = []\<rparr>"

theorem pool_carries_nothing_over_witness:
  "case run_db_calls [(0, Scoped (Some ''ann'') ''t1'' (\<lambda>st db. (st, None))), (0, Scoped None ''t2'' (\<lambda>st db. (st, Some db)))]
      ([\<lparr>cn_session = demo_login, cn_local = None\<rparr>], \<lparr>offers = [], watchlist = [], saved = []\<rparr>) of
     (s, sts) \<Rightarrow> list_all2 body_settings [Scoped (Some ''ann'') ''t1'' (\<lambda>st db. (st, None)), Scoped None ''t2'' (\<lambda>st db. (st, Some db))] sts"
proof -
  obtain cs' db' sts where run: "run_db_calls [(0, Scoped (Some ''ann'') ''t1'' (\<lambda>st db. (st, None))), (0, Scoped None ''t2'' (\<lambda>st db. (st, Some db)))]
      ([\<lparr>cn_session = demo_login, cn_local = None\<rparr>], \<lparr>offers = [], watchlist = [], saved = []\<rparr>) = ((cs', db'), sts)"
    by (metis prod.exhaust)
  from pool_carries_nothing_over [of demo_login, OF _ _ run] show ?thesis unfolding run
    by (simp add: idle_at_def plain_session_def demo_login_def)
qed

lemma schema_ready_current: "schema_ready files (Some (Some lg)) \<longleftrightarrow> schema_current files lg"
  by (auto simp: schema_ready_def schema_current_def pending_migrations_def filter_empty_conv)

lemma retention_main_all_or_nothing:
  "case retention_main now works (c, db) of ((code, counts), c', db') \<Rightarrow>
     if works then code = 0 \<and> (\<exists>n m. counts = Some (n, m) \<and> purge_expired RETENTION_MARGIN_S now db = (db', n, m))
     else code = 1 \<and> counts = None \<and> db' = db"
  by (cases "purge_expired RETENTION_MARGIN_S now db") (auto simp: retention_main_def job_scope_def transaction_def Let_def split_beta)

section \<open>The store's scopes are these\<close>

text \<open>What one statement does under the settings it finds. A role without rights on a table may not name it; a SELECT or a
  DELETE reaches the rows its policies show; a new row must satisfy them, and so must a row that a conflict updates. The
  type \<open>vector\<close> and its operators are found in the schema \<open>extensions\<close>, through the search path. A statement that raises
  is \<open>None\<close>.\<close>

definition vectors_known :: "settings \<Rightarrow> bool" where
  "vectors_known st \<longleftrightarrow> ''extensions'' \<in> set (se_path st)"

definition select_rows :: "settings \<Rightarrow> ('r \<Rightarrow> bool) \<Rightarrow> ('r \<Rightarrow> bool) \<Rightarrow> 'r list \<Rightarrow> 'r list option" where
  "select_rows st sees wh rows = (if granted st then Some (filter (\<lambda>r. sees r \<and> wh r) rows) else None)"

definition insert_row :: "settings \<Rightarrow> ('r \<Rightarrow> bool) \<Rightarrow> 'r \<Rightarrow> 'r list \<Rightarrow> 'r list option" where
  "insert_row st sees new rows = (if granted st \<and> sees new then Some (rows @ [new]) else None)"

definition upsert_into :: "settings \<Rightarrow> ('r \<Rightarrow> bool) \<Rightarrow> ('r \<Rightarrow> bool) \<Rightarrow> ('r \<Rightarrow> 'r) \<Rightarrow> 'r \<Rightarrow> 'r list \<Rightarrow> 'r list option" where
  "upsert_into st sees same upd new rows =
     (if granted st \<and> sees new \<and> (\<forall>r \<in> set rows. same r \<longrightarrow> sees r \<and> sees (upd r))
      then Some (on_conflict same upd new rows) else None)"

definition delete_rows :: "settings \<Rightarrow> ('r \<Rightarrow> bool) \<Rightarrow> ('r \<Rightarrow> bool) \<Rightarrow> 'r list \<Rightarrow> ('r list \<times> nat) option" where
  "delete_rows st sees wh rows =
     (if granted st then Some (filter (\<lambda>r. \<not> (sees r \<and> wh r)) rows, length (filter (\<lambda>r. sees r \<and> wh r) rows)) else None)"

text \<open>The store's operations, statement by statement. The scope \<open>s\<close> holds the tenant and the user the caller passed, which the
  statements name in the rows they write; what they see is a matter of the settings. A body that raises leaves no database.\<close>

fun session_upsert :: "settings \<Rightarrow> scope \<Rightarrow> pyfloat \<Rightarrow> (product \<times> pyfloat option \<times> pyfloat list option) list \<Rightarrow> offer list \<Rightarrow>
    (offer list \<times> nat) option" where
  "session_upsert st s now [] rows = Some (rows, 0)"
| "session_upsert st s now ((p, tm, v) # ps) rows =
     (if \<not> may_store (source p) then session_upsert st s now ps rows
      else (let v' = (if may_embed (source p) then v else None) in
            if \<not> (vectors_known st \<and> vec_fits v') then None
            else (case upsert_into st (sees_offer st) (\<lambda>r. o_tenant r = sc_tenant s \<and> o_id r = p_id p)
                      (refreshed_row s now p tm v') (offer_row s now p tm v') rows of
                None \<Rightarrow> None
              | Some rows' \<Rightarrow> map_option (\<lambda>(rs, n). (rs, Suc n)) (session_upsert st s now ps rows'))))"

definition session_watch ::
  "settings \<Rightarrow> scope \<Rightarrow> pyfloat \<Rightarrow> string \<Rightarrow> pyfloat option \<Rightarrow> database \<Rightarrow> database option \<times> reply" where
  "session_watch st s now i target db =
     (case select_rows st (sees_offer st) (\<lambda>r. o_id r = i) (offers db) of
        None \<Rightarrow> (None, RFailed)
      | Some [] \<Rightarrow> (None, RWatch (Inl LookupFailed))
      | Some (off # _) \<Rightarrow>
          if \<not> may_store (o_source off) then (None, RWatch (Inl LookupFailed))
          else (case (select_rows st (sees_watch st) (\<lambda>r. wa_offer r = i) (watchlist db),
                      select_rows st (sees_watch st) (\<lambda>r. True) (watchlist db)) of
             (Some watched, Some mine) \<Rightarrow>
               if watched = [] \<and> length mine \<ge> WATCH_LIMIT then (None, RWatch (Inl LimitExceeded))
               else (let new = watch_row s now off target; same = (\<lambda>r. wa_user r = sc_user s \<and> wa_offer r = i) in
                 case upsert_into st (sees_watch st) same
                     (\<lambda>r. new\<lparr>wa_tenant := wa_tenant r, wa_created := wa_created r\<rparr>) new (watchlist db) of
                   None \<Rightarrow> (None, RFailed)
                 | Some rows \<Rightarrow>
                     if \<not> positive_price target then (None, RWatch (Inl CheckViolation))
                     else (Some (db\<lparr>watchlist := rows\<rparr>), RWatch (Inr (the (find same rows)))))
           | _ \<Rightarrow> (None, RFailed)))"

definition session_save ::
  "settings \<Rightarrow> scope \<Rightarrow> pyfloat \<Rightarrow> string \<Rightarrow> string \<Rightarrow> pyfloat option \<Rightarrow> database \<Rightarrow> database option \<times> reply" where
  "session_save st s now new_id query max_price db =
     (case select_rows st (sees_saved st) (\<lambda>r. True) (saved db) of
        None \<Rightarrow> (None, RFailed)
      | Some mine \<Rightarrow>
          if length mine \<ge> SAVED_SEARCH_LIMIT then (None, RSaved (Inl LimitExceeded))
          else (let new = \<lparr>sv_id = new_id, sv_user = sc_user s, sv_query = query, sv_max = max_price, sv_created = now\<rparr> in
            case insert_row st (sees_saved st) new (saved db) of
              None \<Rightarrow> (None, RFailed)
            | Some rows \<Rightarrow>
                if \<not> (1 \<le> py_len query \<and> py_len query \<le> 200 \<and> positive_price max_price) then (None, RSaved (Inl CheckViolation))
                else (Some (db\<lparr>saved := rows\<rparr>), RSaved (Inr new))))"

fun session_exec :: "(pyfloat list \<Rightarrow> pyfloat list \<Rightarrow> pyfloat) \<Rightarrow> settings \<Rightarrow> scope \<Rightarrow> pyfloat \<Rightarrow> request \<Rightarrow> database \<Rightarrow>
    database option \<times> reply" where
  "session_exec cdist st s now (Upsert ps) db =
     (case session_upsert st s now ps (offers db) of
        None \<Rightarrow> (None, RFailed) | Some (rows, n) \<Rightarrow> (Some (db\<lparr>offers := rows\<rparr>), RCount n))"
| "session_exec cdist st s now (Semantic q k) db =
     (if \<not> vectors_known st then (None, RFailed)
      else (case select_rows st (sees_offer st) (\<lambda>r. o_vec r \<noteq> None) (offers db) of
        None \<Rightarrow> (None, RFailed) | Some rows \<Rightarrow> (Some db, ROffers (nearest cdist q k rows))))"
| "session_exec cdist st s now CountOffers db =
     (case select_rows st (sees_offer st) (\<lambda>r. True) (offers db) of
        None \<Rightarrow> (None, RFailed) | Some rows \<Rightarrow> (Some db, RCount (length rows)))"
| "session_exec cdist st s now (AddWatch i t) db = session_watch st s now i t db"
| "session_exec cdist st s now ListWatch db =
     (case select_rows st (sees_watch st) (\<lambda>r. True) (watchlist db) of
        None \<Rightarrow> (None, RFailed)
      | Some rows \<Rightarrow> (Some db, RWatches (map (\<lambda>r. (r, hit r)) (sort_key (\<lambda>r. - wa_created r) rows))))"
| "session_exec cdist st s now (RemoveWatch i) db =
     (case delete_rows st (sees_watch st) (\<lambda>r. wa_offer r = i) (watchlist db) of
        None \<Rightarrow> (None, RFailed) | Some (rows, n) \<Rightarrow> (Some (db\<lparr>watchlist := rows\<rparr>), RCount n))"
| "session_exec cdist st s now (AddSaved i q m) db = session_save st s now i q m db"
| "session_exec cdist st s now ListSaved db =
     (case select_rows st (sees_saved st) (\<lambda>r. True) (saved db) of
        None \<Rightarrow> (None, RFailed) | Some rows \<Rightarrow> (Some db, RSearches (sort_key (\<lambda>r. - sv_created r) rows)))"
| "session_exec cdist st s now (RemoveSaved i) db =
     (case delete_rows st (sees_saved st) (\<lambda>r. sv_id r = i) (saved db) of
        None \<Rightarrow> (None, RFailed) | Some (rows, n) \<Rightarrow> (Some (db\<lparr>saved := rows\<rparr>), RCount n))"

definition request_body :: "(pyfloat list \<Rightarrow> pyfloat list \<Rightarrow> pyfloat) \<Rightarrow> scope \<Rightarrow> pyfloat \<Rightarrow> request \<Rightarrow> tx_body" where
  "request_body cdist s now q st db = (st, fst (session_exec cdist st s now q db))"

fun run_sessions :: "(pyfloat list \<Rightarrow> pyfloat list \<Rightarrow> pyfloat) \<Rightarrow> (nat \<times> string option \<times> string \<times> pyfloat \<times> request) list \<Rightarrow>
    connection list \<times> database \<Rightarrow> (connection list \<times> database) \<times> reply list" where
  \<comment> \<open>each request on the connection the pool hands out; its reply is computed under the settings its body starts with\<close>
  "run_sessions cdist [] x = (x, [])"
| "run_sessions cdist ((i, user, tenant, now, q) # qs) x =
     (let s = call_scope user tenant;
          (x1, st) = run_db_call i (Scoped user tenant (request_body cdist s now q)) x;
          r = snd (session_exec cdist (the st) s now q (snd x));
          (x2, rs) = run_sessions cdist qs x1
      in (x2, r # rs))"

fun scoped_replies :: "(pyfloat list \<Rightarrow> pyfloat list \<Rightarrow> pyfloat) \<Rightarrow> (scope \<times> pyfloat \<times> request) list \<Rightarrow> database \<Rightarrow> reply list" where
  "scoped_replies cdist [] db = []"
| "scoped_replies cdist ((s, t, q) # qs) db = snd (exec cdist s t q db) # scoped_replies cdist qs (fst (exec cdist s t q db))"

definition touches :: "request \<Rightarrow> bool" where
  \<comment> \<open>it runs at least one statement on a table\<close>
  "touches q \<longleftrightarrow> (case q of Upsert ps \<Rightarrow> \<exists>x \<in> set ps. may_store (source (fst x)) | _ \<Rightarrow> True)"

text \<open>Under the settings of a scope, each operation is the store's.\<close>

lemma scope_statements:
  assumes "body_settings (Scoped user tenant body) (Some st)"
  shows "granted st" and "vectors_known st" and "sees_offer st = own_offer (call_scope user tenant)"
    and "sees_watch st = own_watch (call_scope user tenant)" and "sees_saved st = own_saved (call_scope user tenant)"
proof -
  show seen: "sees_offer st = own_offer (call_scope user tenant)" "sees_watch st = own_watch (call_scope user tenant)"
    "sees_saved st = own_saved (call_scope user tenant)" and "vectors_known st"
    using assms by (simp_all add: body_settings_def vectors_known_def SEARCH_PATH_def)
  have "own_saved (call_scope user tenant) \<lparr>sv_id = [], sv_user = sc_user (call_scope user tenant), sv_query = [], sv_max = None, sv_created = 0\<rparr>"
    by simp
  then show "granted st" unfolding seen(3) [symmetric] by (simp add: sees_saved_def)
qed

lemma session_upsert_scoped:
  assumes "granted st" and "vectors_known st" and "sees_offer st = own_offer s"
  shows "session_upsert st s now ps rows = (if upsert_fits ps then Some (upsert s now ps rows) else None)"
proof (induction ps arbitrary: rows)
  case Nil
  show ?case by (simp add: upsert_fits_def)
next
  case (Cons q ps)
  obtain p tm v where q: "q = (p, tm, v)" by (cases q) auto
  have "upsert_into st (sees_offer st) (\<lambda>r. o_tenant r = sc_tenant s \<and> o_id r = p_id p)
      (refreshed_row s now p tm v') (offer_row s now p tm v') rows = Some (upsert_row s now p tm v' rows)" for v'
    by (simp add: upsert_into_def assms own_offer_def upsert_row_def)
  with Cons.IH show ?case by (auto simp: q upsert_fits_def assms(2) Let_def vec_fits_def split: prod.splits)
qed

lemma find_filter_hd: "find P xs = (case filter P xs of [] \<Rightarrow> None | x # _ \<Rightarrow> Some x)"
  by (induction xs) simp_all

lemma session_watch_scoped:
  assumes "granted st" and "sees_offer st = own_offer s" and "sees_watch st = own_watch s"
  shows "session_watch st s now i target db =
    (case add_watch s now i target db of (db', r) \<Rightarrow> (case r of Inl e \<Rightarrow> None | Inr w \<Rightarrow> Some db', RWatch r))"
proof (cases "filter (\<lambda>r. own_offer s r \<and> o_id r = i) (offers db)")
  case Nil
  then have "find (\<lambda>r. own_offer s r \<and> o_id r = i) (offers db) = None" by (auto simp: find_None_iff filter_empty_conv)
  with Nil show ?thesis by (simp add: session_watch_def add_watch_def select_rows_def assms)
next
  case (Cons off rest)
  then have found: "find (\<lambda>r. own_offer s r \<and> o_id r = i) (offers db) = Some off" by (simp add: find_filter_hd)
  have watched: "filter (\<lambda>r. own_watch s r \<and> wa_offer r = i) rows = [] \<longleftrightarrow> \<not> (\<exists>r \<in> set (filter (own_watch s) rows). wa_offer r = i)" for rows
    by (auto simp: filter_empty_conv)
  have up: "upsert_into st (own_watch s) (\<lambda>r. wa_user r = sc_user s \<and> wa_offer r = i)
      (\<lambda>r. (watch_row s now off target)\<lparr>wa_tenant := wa_tenant r, wa_created := wa_created r\<rparr>) (watch_row s now off target) rows =
    Some (on_conflict (\<lambda>r. wa_user r = sc_user s \<and> wa_offer r = i)
      (\<lambda>r. (watch_row s now off target)\<lparr>wa_tenant := wa_tenant r, wa_created := wa_created r\<rparr>) (watch_row s now off target) rows)" for rows
    by (simp add: upsert_into_def assms(1) own_watch_def watch_row_def)
  show ?thesis
    by (auto simp: session_watch_def add_watch_def select_rows_def assms Cons found up watched Let_def not_le)
qed

lemma session_exec_scoped:
  assumes "body_settings (Scoped user tenant body) (Some st)" and "s = call_scope user tenant"
  shows "snd (session_exec cdist st s now q db) = snd (exec cdist s now q db)"
    and "(case fst (session_exec cdist st s now q db) of None \<Rightarrow> db | Some db' \<Rightarrow> db') = fst (exec cdist s now q db)"
proof -
  note st = scope_statements [OF assms(1), folded assms(2)]
  have same: "fst (add_watch s now i t db) = db" if "snd (add_watch s now i t db) = Inl e" for i t e
    using that by (auto simp: add_watch_def Let_def split: option.splits if_splits)
  have "snd (session_exec cdist st s now q db) = snd (exec cdist s now q db)
    \<and> (case fst (session_exec cdist st s now q db) of None \<Rightarrow> db | Some db' \<Rightarrow> db') = fst (exec cdist s now q db)"
  proof (cases q)
    case (AddWatch i t)
    with same [of i t] show ?thesis
      by (cases "snd (add_watch s now i t db)") (simp_all add: session_watch_scoped st split_beta)
  next
    case (AddSaved i x m)
    then show ?thesis by (simp add: session_save_def add_saved_search_def select_rows_def insert_row_def st Let_def)
  qed (simp_all add: session_upsert_scoped st select_rows_def delete_rows_def semantic_search_def count_offers_def list_watch_def
        list_saved_searches_def remove_watch_def remove_saved_search_def split_beta Let_def)
  then show "snd (session_exec cdist st s now q db) = snd (exec cdist s now q db)"
    and "(case fst (session_exec cdist st s now q db) of None \<Rightarrow> db | Some db' \<Rightarrow> db') = fst (exec cdist s now q db)" by blast+
qed

text \<open>Outside a scope, as the login role, no request reaches a row.\<close>

lemma session_upsert_refused:
  "\<not> granted st \<Longrightarrow> session_upsert st s now ps rows = (if \<exists>x \<in> set ps. may_store (source (fst x)) then None else Some (rows, 0))"
proof (induction ps arbitrary: rows)
  case (Cons q ps)
  then show ?case by (cases q) (auto simp: upsert_into_def Let_def)
qed simp

lemma session_exec_refused:
  "\<not> granted st \<Longrightarrow> touches q \<Longrightarrow> session_exec cdist st s now q db = (None, RFailed)"
  by (cases q) (simp_all add: touches_def session_upsert_refused session_watch_def session_save_def select_rows_def delete_rows_def)

text \<open>C20: The sessions implement the store's scopes. Requests run statement by statement through pooled connections, each in its
  own transaction: under the role, the path and the variables that \<open>scoped\<close> sets, the policies and the rights they meet
  leave the tables as the scoped operations of the store leave them one after the other, and give the same replies. On
  the same connections without a scope, as the login role, every request that runs a statement on a table fails.\<close>

theorem sessions_refine_scopes:
  assumes "list_all (idle_at base) cs" and "list_all (\<lambda>(i, rest). i < length cs) qs" and "se_role base = ''dealfinder_svc''"
  shows "snd (fst (run_sessions cdist qs (cs, db))) =
      run_scoped cdist (map (\<lambda>(i, user, tenant, now, q). (call_scope user tenant, now, q)) qs) db
    \<and> snd (run_sessions cdist qs (cs, db)) =
      scoped_replies cdist (map (\<lambda>(i, user, tenant, now, q). (call_scope user tenant, now, q)) qs) db
    \<and> (\<forall>c \<in> set cs. \<forall>s now q. touches q \<longrightarrow> session_exec cdist (cn_session c) s now q db = (None, RFailed))"
proof -
  have "\<forall>c \<in> set cs. \<not> granted (cn_session c)"
    using assms(1,3) by (auto simp: list_all_iff idle_at_def plain_session_def granted_def)
  then have refused: "\<forall>c \<in> set cs. \<forall>s now q. touches q \<longrightarrow> session_exec cdist (cn_session c) s now q db = (None, RFailed)"
    by (blast intro: session_exec_refused)
  have "snd (fst (run_sessions cdist qs (cs, db))) =
      run_scoped cdist (map (\<lambda>(i, user, tenant, now, q). (call_scope user tenant, now, q)) qs) db
    \<and> snd (run_sessions cdist qs (cs, db)) =
      scoped_replies cdist (map (\<lambda>(i, user, tenant, now, q). (call_scope user tenant, now, q)) qs) db"
    using assms(1,2)
  proof (induction qs arbitrary: cs db)
    case (Cons x qs)
    obtain i user tenant now q where x: "x = (i, user, tenant, now, q)" by (cases x) auto
    let ?s = "call_scope user tenant" and ?b = "request_body cdist (call_scope user tenant) now q"
    obtain cs1 db1 st where one: "run_db_call i (Scoped user tenant ?b) (cs, db) = ((cs1, db1), st)"
      by (metis prod.exhaust)
    have i: "i < length cs" using Cons.prems(2) x by simp
    note idle = run_db_call_idle [OF Cons.prems(1) i one]
    then obtain l where l: "st = Some l" "body_settings (Scoped user tenant ?b) (Some l)"
      by (cases st) (auto simp: body_settings_def)
    note same = session_exec_scoped [OF l(2) refl]
    have "db1 = (case fst (session_exec cdist l ?s now q db) of None \<Rightarrow> db | Some db' \<Rightarrow> db')"
      using one l(1) by (auto simp: run_db_call_def scoped_def transaction_def Let_def request_body_def split: prod.splits option.splits)
    then have db1: "db1 = fst (exec cdist ?s now q db)" using same(2) by simp
    have "list_all (\<lambda>(i, rest). i < length cs1) qs" using Cons.prems(2) idle by simp
    from Cons.IH [OF _ this, of db1] idle db1 same(1) show ?case
      by (simp add: x one split_beta l(1) Let_def)
  qed simp
  with refused show ?thesis by blast
qed

definition demo_requests :: "(nat \<times> string option \<times> string \<times> pyfloat \<times> request) list" where
  "demo_requests = [(0, Some ''ann'', ''t1'', 1, AddSaved ''i'' ''tv'' None), (0, Some ''bob'', ''t1'', 2, ListSaved),
     (0, Some ''ann'', ''t1'', 3, ListSaved)]"

theorem sessions_refine_scopes_witness:
  "snd (run_sessions (\<lambda>u v. 0) demo_requests ([\<lparr>cn_session = demo_login, cn_local = None\<rparr>], \<lparr>offers = [], watchlist = [], saved = []\<rparr>)) =
   (let r = \<lparr>sv_id = ''i'', sv_user = ''ann'', sv_query = ''tv'', sv_max = None, sv_created = 1\<rparr>
    in [RSaved (Inr r), RSearches [], RSearches [r]])"
proof -
  have "snd (run_sessions (\<lambda>u v. 0) demo_requests ([\<lparr>cn_session = demo_login, cn_local = None\<rparr>], \<lparr>offers = [], watchlist = [], saved = []\<rparr>)) =
    scoped_replies (\<lambda>u v. 0) (map (\<lambda>(i, user, tenant, now, q). (call_scope user tenant, now, q)) demo_requests)
      \<lparr>offers = [], watchlist = [], saved = []\<rparr>"
    by (rule sessions_refine_scopes [of demo_login, THEN conjunct2, THEN conjunct1])
      (simp_all add: idle_at_def plain_session_def demo_requests_def demo_login_def)
  moreover have "scoped_replies (\<lambda>u v. 0) (map (\<lambda>(i, user, tenant, now, q). (call_scope user tenant, now, q)) demo_requests)
      \<lparr>offers = [], watchlist = [], saved = []\<rparr> =
    (let r = \<lparr>sv_id = ''i'', sv_user = ''ann'', sv_query = ''tv'', sv_max = None, sv_created = 1\<rparr>
     in [RSaved (Inr r), RSearches [], RSearches [r]])"
  proof -
    have "py_len ''tv'' = 2" by code_simp
    then show ?thesis
      by (simp add: demo_requests_def add_saved_search_def list_saved_searches_def own_saved_def SAVED_SEARCH_LIMIT_def
          positive_price_def call_scope_def sort_key_def Let_def)
  qed
  ultimately show ?thesis by simp
qed

end
