(* ===== verification/Inference_Report.thy ===== *)
theory Inference_Report
  imports Title_Cache
begin

text \<open>
  The report of \<open>dealfinder/inference.py\<close> and its route in \<open>dealfinder/serve.py\<close>: the measured cache batch over the
  committed title vectors, the batching model at its default constants, and the two references that nothing here
  measures. \<open>None\<close> is a \<open>KeyError\<close> or \<open>IndexError\<close>: an item without a vector, or fewer than two XM5 listings.
\<close>

section \<open>The measured batch\<close>

definition vector_of :: "title_cache \<Rightarrow> string \<Rightarrow> pyfloat list option" where
  "vector_of cache i = map_option (\<lambda>k. snd cache ! k) (dict_get (vector_order (fst cache)) i)"

definition title_of :: "snap_item list \<Rightarrow> string \<Rightarrow> string option" where
  \<comment> \<open>\<open>by_id[i]['title']\<close>\<close>
  "title_of items i = map_option si_title (find (\<lambda>r. si_id r = i) (rev items))"

definition xm5_listings :: "snap_item list \<Rightarrow> snap_item list" where
  "xm5_listings items = take 2 (filter (\<lambda>r. py_in ''WH-1000XM5'' (si_title r)) items)"

definition near_cosine :: "pyfloat list \<Rightarrow> pyfloat list \<Rightarrow> pyfloat" where
  "near_cosine v0 v1 = py_round 4 (dot v0 v1 / (vnorm v0 * vnorm v1))"

definition demo_batch :: "snap_item list \<Rightarrow> title_cache \<Rightarrow> ((pyfloat list \<times> string) list \<times> pyfloat) option" where
  "demo_batch items cache =
     (case (those (map (\<lambda>i. Option.bind (vector_of cache i) (\<lambda>v. map_option (Pair v) (title_of items i))) (demo_batch_ids items)),
            map (\<lambda>r. vector_of cache (si_id r)) (xm5_listings items)) of
        (Some batch, [Some v0, Some v1]) \<Rightarrow> Some (batch, near_cosine v0 v1)
      | _ \<Rightarrow> None)"

record cache_figures =
  cf_report :: cache_report
  cf_cosine :: pyfloat
  cf_measured :: bool

definition cache_figures_at :: "snap_item list \<Rightarrow> title_cache \<Rightarrow> pyfloat \<Rightarrow> cache_figures option" where
  "cache_figures_at items cache threshold =
     map_option (\<lambda>(batch, c). \<lparr>cf_report = measure_cache_hit_rate batch threshold, cf_cosine = c, cf_measured = True\<rparr>)
       (demo_batch items cache)"

section \<open>The references\<close>

datatype figure = Figure pyfloat | Remark string

record anchored =
  an_name :: string
  an_note :: string
  an_numbers :: "(string, figure) dict"
  an_script :: string
  an_illustrative :: bool

definition quantization_reference :: anchored where
  "quantization_reference =
     \<lparr>an_name = ''quantization (INT8 / INT4)'',
      an_note = ''Illustrative expectations only '' @ (map char_of [226, 128, 148 :: nat]) @ '' requires a GPU to measure. 4-bit '' @
        ''weights roughly quarter the model's VRAM footprint; throughput and '' @
        ''any quality delta are hardware/model specific and must be measured on '' @
        ''the target device, not asserted here.'',
      an_numbers = [(''fp16_vram_gb'', Figure 16), (''int8_vram_gb'', Figure 8), (''int4_vram_gb'', Figure 4),
        (''note'', Remark ''figures illustrate the ~4x VRAM reduction shape, not a benchmark'')],
      an_script = ''scripts/bench_quantization.py'', an_illustrative = True\<rparr>"

definition vllm_reference :: anchored where
  "vllm_reference =
     \<lparr>an_name = ''vLLM (continuous batching + PagedAttention)'',
      an_note = ''Illustrative only '' @ (map char_of [226, 128, 148 :: nat]) @ '' requires a GPU. vLLM raises throughput under '' @
        ''concurrency by packing requests (continuous batching) and paging the '' @
        ''KV cache; the exact tokens/sec depends on model + GPU and must be '' @
        ''benchmarked on the target, not quoted from here.'',
      an_numbers = [(''baseline_tokens_per_s'', Figure 900), (''vllm_tokens_per_s'', Figure 3200),
        (''note'', Remark ''shape only (concurrency win); measure on your own GPU'')],
      an_script = ''scripts/bench_vllm.py'', an_illustrative = True\<rparr>"

section \<open>The report\<close>

record inference_view =
  iv_cache_095 :: cache_figures
  iv_cache_090 :: cache_figures
  iv_batching :: batching
  iv_anchored :: "anchored list"

definition run_inference_report :: "snap_item list \<Rightarrow> title_cache \<Rightarrow> inference_view option" where
  "run_inference_report items cache =
     (case (cache_figures_at items cache 0.95, cache_figures_at items cache 0.90) of
        (Some a, Some b) \<Rightarrow> Some \<lparr>iv_cache_095 = a, iv_cache_090 = b, iv_batching = model_batching_throughput 64 0.02 0.001,
            iv_anchored = [quantization_reference, vllm_reference]\<rparr>
      | _ \<Rightarrow> None)"

record anchored_shown =
  as_name :: string
  as_illustrative :: bool
  as_numbers :: "(string, figure) dict"
  as_script :: string

definition inference_route :: "inference_view \<Rightarrow> cache_figures \<times> cache_figures \<times> batching \<times> anchored_shown list" where
  \<comment> \<open>the reply leaves out the notes\<close>
  "inference_route v = (iv_cache_095 v, iv_cache_090 v, iv_batching v,
     map (\<lambda>a. \<lparr>as_name = an_name a, as_illustrative = an_illustrative a, as_numbers = an_numbers a, as_script = an_script a\<rparr>) (iv_anchored v))"

section \<open>What the figures are\<close>

text \<open>The batching model at its constants says 1.344 s against 0.084 s, a factor of 16, as the route's documentation does.\<close>

lemma batching_figures:
  assumes "run_inference_report items cache = Some v"
  shows "iv_batching v = \<lparr>bt_n = 64, bt_per_item = 1.344, bt_batched = 0.084, bt_speedup = 16\<rparr>"
  using assms by (auto simp: run_inference_report_def model_batching_throughput_def Let_def py_round_def round_half_even_def
    split: option.splits)

lemma references_are_marked: "a \<in> set [quantization_reference, vllm_reference] \<Longrightarrow> an_illustrative a"
  by (auto simp: quantization_reference_def vllm_reference_def)

text \<open>A query that is asked twice in a row hits the second time, whatever the cache held, if the vector is as near to itself as
  the threshold asks.\<close>

lemma asked_again_hits:
  assumes "sc_threshold c \<le> cache_sim v v"
  shows "snd (foldl cache_run_step (c, n) [(v, x), (v, y)]) \<ge> Suc n"
    and "sc_threshold (fst (foldl cache_run_step (c, n) [(v, x), (v, y)])) = sc_threshold c"
proof -
  have hit: "cache_get v (cache_put v x c) \<noteq> None"
    using cache_get_None [of v "cache_put v x c" v] assms by (auto simp: cache_put_def)
  show "snd (foldl cache_run_step (c, n) [(v, x), (v, y)]) \<ge> Suc n"
    using hit by (auto simp: cache_run_step_def split: option.splits)
  show "sc_threshold (fst (foldl cache_run_step (c, n) [(v, x), (v, y)])) = sc_threshold c"
    by (auto simp: cache_run_step_def cache_put_def split: option.splits)
qed

lemma run_step_mono: "snd (foldl cache_run_step s qs) \<ge> snd s"
proof (induction qs arbitrary: s)
  case (Cons q qs)
  have "snd (cache_run_step s q) \<ge> snd s" by (simp add: cache_run_step_def split: option.split)
  with Cons.IH [of "cache_run_step s q"] show ?case by simp
qed simp

text \<open>So the batch of the report, its base queries twice each and the pair behind them, has at least one hit per base.\<close>

lemma repeats_hit:
  assumes "\<forall>b \<in> set bases. threshold \<le> cache_sim (fst b) (fst b)"
  shows "cr_hits (measure_cache_hit_rate (concat (map (\<lambda>b. [b, b]) bases) @ pair) threshold) \<ge> length bases"
proof -
  have "\<forall>b \<in> set bases. sc_threshold c \<le> cache_sim (fst b) (fst b) \<Longrightarrow>
      snd (foldl cache_run_step (c, n) (concat (map (\<lambda>b. [b, b]) bases))) \<ge> n + length bases" for c n
  proof (induction bases arbitrary: c n)
    case (Cons b bases)
    obtain v x where b: "b = (v, x)" by (cases b)
    obtain c1 n1 where two: "foldl cache_run_step (c, n) [(v, x), (v, x)] = (c1, n1)" by (metis prod.exhaust)
    have more_hits: "n1 \<ge> Suc n" "sc_threshold c1 = sc_threshold c"
      using asked_again_hits [of c v n x x] Cons.prems b two by simp_all
    then have rest: "snd (foldl cache_run_step (c1, n1) (concat (map (\<lambda>b. [b, b]) bases))) \<ge> n1 + length bases"
      using Cons.prems by (intro Cons.IH) simp
    have eq: "foldl cache_run_step (c, n) (concat (map (\<lambda>b. [b, b]) (b # bases))) =
        foldl cache_run_step (c1, n1) (concat (map (\<lambda>b. [b, b]) bases))"
      using two b by simp
    show ?case unfolding eq using more_hits(1) rest by simp
  qed simp
  from this [of "new_cache threshold" 0] assms
  have "snd (foldl cache_run_step (new_cache threshold, 0) (concat (map (\<lambda>b. [b, b]) bases))) \<ge> length bases"
    by (simp add: new_cache_def)
  with run_step_mono [of "foldl cache_run_step (new_cache threshold, 0) (concat (map (\<lambda>b. [b, b]) bases))" pair]
  show ?thesis by (simp add: measure_cache_hit_rate_def Let_def)
qed

end
