(* ===== verification/Offline_Eval.thy ===== *)
theory Offline_Eval
  imports Inference Deal_Score
begin

text \<open>
  The offline figures of two programs: the leave-one-out evaluation of the recommenders (\<open>dealfinder/run_recs.py\<close>) and the
  test error and verdicts of the baseline price model (\<open>dealfinder/train_model.py\<close>, with \<open>dealfinder/dealmodel.py\<close>).
  numpy's seeded permutation is \<open>perm\<close>, the least-squares fit \<open>fit\<close>.
\<close>

section \<open>Leave one out\<close>

definition EVAL_K :: nat where "EVAL_K = 5"

definition popularity :: "pyfloat list list \<Rightarrow> nat list" where
  "popularity rows = sort_key (\<lambda>j. - sum_list (column rows j)) [0..<width rows]"

record left_out =
  lo_held :: nat
  lo_recs :: "nat list"
  lo_popular :: "nat list"

definition leave_one_out :: "pyfloat list list \<Rightarrow> pyfloat list \<Rightarrow> left_out option" where
  \<comment> \<open>\<open>None\<close>: a user with fewer than two likes is skipped; the similarities are those of the full matrix\<close>
  "leave_one_out rows likes =
     (let liked = liked_items likes in
      if length liked < 2 then None
      else (let held = last liked; train = likes[held := 0]
            in Some \<lparr>lo_held = held, lo_recs = collaborative_recommend train rows (int EVAL_K),
                     lo_popular = take EVAL_K (filter (\<lambda>j. train ! j = 0) (popularity rows))\<rparr>))"

definition eval_users :: "pyfloat list list \<Rightarrow> left_out list" where
  "eval_users rows = map the (filter (\<lambda>u. u \<noteq> None) (map (leave_one_out rows) rows))"

definition hit_rate :: "nat list \<Rightarrow> nat \<Rightarrow> pyfloat" where
  \<comment> \<open>\<open>precision_at_k(recs, {held}, K)\<close>\<close>
  "hit_rate recs held = the (precision_at_k recs {held} EVAL_K)"

record eval_figures =
  eg_users :: nat
  eg_precision :: pyfloat
  eg_ndcg :: pyfloat
  eg_popularity :: pyfloat

definition offline_eval :: "pyfloat list list \<Rightarrow> eval_figures option" where
  \<comment> \<open>\<open>None\<close>: no user has two likes, and numpy's mean over nothing is not a number\<close>
  "offline_eval rows =
     (let us = eval_users rows in
      if us = [] then None
      else Some \<lparr>eg_users = length us, eg_precision = mean_of (map (\<lambda>u. hit_rate (lo_recs u) (lo_held u)) us),
                 eg_ndcg = mean_of (map (\<lambda>u. ndcg_at_k (lo_recs u) {lo_held u} EVAL_K) us),
                 eg_popularity = mean_of (map (\<lambda>u. hit_rate (lo_popular u) (lo_held u)) us)\<rparr>)"

section \<open>The price model's test\<close>

definition ANCHOR_MEDIAN :: pyfloat where "ANCHOR_MEDIAN = 162.97"

definition fit_price_model :: "fitter \<Rightarrow> product list \<Rightarrow> int list \<Rightarrow> pyfloat" where
  "fit_price_model fit ps = fit (feature_matrix ps) (map price ps)"

record test_figures =
  tf_train :: nat
  tf_test :: nat
  tf_mae :: pyfloat
  tf_r2 :: pyfloat

definition model_test :: "(nat \<Rightarrow> nat list) \<Rightarrow> fitter \<Rightarrow> product list \<Rightarrow> test_figures" where
  "model_test perm fit ps =
     (let (tr, te) = train_test_split (perm (length ps)) 0.25; model = fit_price_model fit (map (\<lambda>i. ps ! i) tr);
          truth = map (\<lambda>i. price (ps ! i)) te; pred = map (\<lambda>i. model (featurize (ps ! i))) te
      in \<lparr>tf_train = length tr, tf_test = length te, tf_mae = mae truth pred, tf_r2 = r2 truth pred\<rparr>)"

definition anchor_verdicts :: "fitter \<Rightarrow> product list \<Rightarrow> (product \<times> verdict_rec) list" where
  \<comment> \<open>what is printed: the deals and the suspicious ones of the audio category, in catalog order\<close>
  "anchor_verdicts fit ps =
     (let audio = filter (\<lambda>p. category p = ''audio'') ps; model = fit_price_model fit audio
      in filter (\<lambda>(p, v). v_label v \<in> {Deal, Suspicious})
           (map (\<lambda>p. (p, verdict (price p) ANCHOR_MEDIAN (model (featurize p)))) audio))"

section \<open>What the figures can be\<close>

lemma single_hit: "distinct recs \<Longrightarrow> length (filter (\<lambda>r. r = held) (take k recs)) \<le> 1"
proof -
  assume "distinct recs"
  then have "distinct (filter (\<lambda>r. r = held) (take k recs))" by simp
  moreover have "set (filter (\<lambda>r. r = held) (take k recs)) \<subseteq> {held}" by auto
  ultimately show ?thesis by (metis card_mono card.empty card.insert distinct_card empty_iff finite.emptyI finite.insertI One_nat_def)
qed

lemma hit_rate_bounds:
  assumes "distinct recs" shows "0 \<le> hit_rate recs held \<and> hit_rate recs held \<le> 1 / of_nat EVAL_K"
  using single_hit [OF assms, of held EVAL_K] by (auto simp: hit_rate_def precision_at_k_def EVAL_K_def)

lemma leave_one_out_distinct:
  "leave_one_out rows likes = Some u \<Longrightarrow> distinct (lo_recs u) \<and> distinct (lo_popular u)"
  by (auto simp: leave_one_out_def Let_def collaborative_recommend_def popularity_def split: if_splits)

lemma eval_users_from: "u \<in> set (eval_users rows) \<Longrightarrow> \<exists>likes \<in> set rows. leave_one_out rows likes = Some u"
  by (auto simp: eval_users_def)

text \<open>One item is held out per user, so neither recommender can exceed a precision of one in five.\<close>

lemma mean_at_most: "xs \<noteq> [] \<Longrightarrow> \<forall>x \<in> set xs. 0 \<le> x \<and> x \<le> b \<Longrightarrow> 0 \<le> mean_of xs \<and> mean_of xs \<le> b"
proof -
  assume "xs \<noteq> []" and bound: "\<forall>x \<in> set xs. 0 \<le> x \<and> x \<le> b"
  have "sum_list xs \<le> of_nat (length xs) * b \<and> 0 \<le> sum_list xs" using bound by (induction xs) (auto simp: algebra_simps)
  with \<open>xs \<noteq> []\<close> show ?thesis by (auto simp: mean_of_def divide_le_eq mult.commute)
qed

lemma offline_eval_bounds:
  assumes "offline_eval rows = Some f"
  shows "0 \<le> eg_precision f \<and> eg_precision f \<le> 1 / 5 \<and> 0 \<le> eg_popularity f \<and> eg_popularity f \<le> 1 / 5 \<and> eg_users f \<le> length rows"
proof -
  let ?us = "eval_users rows"
  have us: "?us \<noteq> []" using assms by (auto simp: offline_eval_def Let_def split: if_splits)
  have bounds: "0 \<le> hit_rate (lo_recs u) (lo_held u) \<and> hit_rate (lo_recs u) (lo_held u) \<le> 1 / 5
      \<and> 0 \<le> hit_rate (lo_popular u) (lo_held u) \<and> hit_rate (lo_popular u) (lo_held u) \<le> 1 / 5" if "u \<in> set ?us" for u
  proof -
    from eval_users_from [OF that] obtain likes where "leave_one_out rows likes = Some u" by blast
    from leave_one_out_distinct [OF this] hit_rate_bounds show ?thesis by (simp add: EVAL_K_def)
  qed
  have "length ?us \<le> length rows" unfolding eval_users_def by (simp add: le_trans [OF length_filter_le])
  moreover have "0 \<le> mean_of (map (\<lambda>u. hit_rate (lo_recs u) (lo_held u)) ?us) \<and> mean_of (map (\<lambda>u. hit_rate (lo_recs u) (lo_held u)) ?us) \<le> 1 / 5"
    by (rule mean_at_most) (use us bounds in auto)
  moreover have "0 \<le> mean_of (map (\<lambda>u. hit_rate (lo_popular u) (lo_held u)) ?us) \<and> mean_of (map (\<lambda>u. hit_rate (lo_popular u) (lo_held u)) ?us) \<le> 1 / 5"
    by (rule mean_at_most) (use us bounds in auto)
  ultimately show ?thesis using assms us by (auto simp: offline_eval_def Let_def)
qed

text \<open>The held-out like is not out of the matrix: of two items that only one user liked, holding out the second leaves the
  first as its exact neighbour, and the recommender finds it, with no other user to learn it from.\<close>

lemma held_out_leaks:
  "leave_one_out [[1, 1, 0], [0, 0, 1]] [1, 1, 0] = Some u \<Longrightarrow> lo_held u = 1 \<and> hd (lo_recs u) = 1"
proof -
  have liked: "liked_items [1, 1, 0] = [0, 1]" "liked_items [1, 0, 0] = [0]" by (simp_all add: liked_items_def upt_rec)
  have cols: "transpose_rows [[1, 1, 0], [0, 0, 1]] = [[1, 0], [1, 0], [0, 1]]"
    by (simp add: transpose_rows_def width_def column_def upt_rec)
  have score: "cf_score [1, 0, 0] [[1, 1, 0], [0, 0, 1]] 1 = 1" "cf_score [1, 0, 0] [[1, 1, 0], [0, 0, 1]] 2 = 0"
    by (simp_all add: cf_score_def liked cols cosine_sim_def unit_row_def vnorm_def dot_def)
  have "filter (\<lambda>j. j \<notin> set (liked_items [1, 0, 0])) [0..<width [[1, 1, 0], [0, 0, 1 :: pyfloat]]] = [1, 2]"
    by (simp add: liked width_def upt_rec)
  then have "collaborative_recommend [1, 0, 0] [[1, 1, 0], [0, 0, 1]] (int EVAL_K) = [1, 2]"
    using score by (simp add: collaborative_recommend_def EVAL_K_def py_slice_to_def)
  moreover assume "leave_one_out [[1, 1, 0], [0, 0, 1]] [1, 1, 0] = Some u"
  ultimately show "lo_held u = 1 \<and> hd (lo_recs u) = 1" by (auto simp: leave_one_out_def liked)
qed

text \<open>Only offers that undercut the anchor median by the deal margin are named.\<close>

lemma anchor_verdicts_below:
  assumes "(p, v) \<in> set (anchor_verdicts fit ps)"
  shows "p \<in> set ps \<and> category p = ''audio'' \<and> median_signal (price p) ANCHOR_MEDIAN \<ge> DEAL_MEDIAN_FRAC"
  using assms by (auto simp: anchor_verdicts_def Let_def verdict_def verdict_with_def split: if_splits)

end
