(* ===== verification/Auth_Report.thy ===== *)
theory Auth_Report
  imports Reports
begin

text \<open>
  The \<open>/auth\<close> report of \<open>dealfinder/serve.py\<close>: nine tokens, signed with a throwaway key or a wrong one, go through the
  verifier of \<open>Auth\<close>. PyJWT is a parameter: \<open>mint\<close> signs claims with a private key (ES256), \<open>forge\<close> with a guessed secret
  (HS256), \<open>decode\<close> and \<open>kid_of\<close> are the verifier's.
\<close>

section \<open>The tokens\<close>

definition DEMO_ISSUER :: string where "DEMO_ISSUER = ''https://demo-ref.supabase.co/auth/v1''"
definition DEMO_KID :: string where "DEMO_KID = ''demo-kid''"
definition AUDIENCE :: string where "AUDIENCE = ''authenticated''"

definition demo_claims :: "int \<Rightarrow> string option \<Rightarrow> string \<Rightarrow> string \<Rightarrow> int \<Rightarrow> json" where
  \<comment> \<open>no subject where \<open>drop_sub\<close> is given\<close>
  "demo_claims now sub email role delta =
     JObj ((case sub of None \<Rightarrow> [] | Some s \<Rightarrow> [(''sub'', JStr s)]) @
       [(''email'', JStr email), (''aud'', JStr AUDIENCE), (''iss'', JStr DEMO_ISSUER), (''iat'', JInt now), (''exp'', JInt (now + delta)),
        (''app_metadata'', JObj [(''plan'', JStr role)])])"

definition plain_claims :: "int \<Rightarrow> string \<Rightarrow> json" where
  "plain_claims now role = demo_claims now (Some ''user-123'') ''a@b.com'' role 3600"

definition tampered :: "string \<Rightarrow> string" where
  "tampered t = take (length t - 3) t @ (if drop (length t - 3) t \<noteq> ''aaa'' then ''aaa'' else ''bbb'')"

definition small_dot :: string where "small_dot = '' '' @ map char_of [194, 183 :: nat] @ '' ''"
definition arrow_to :: string where "arrow_to = '' '' @ map char_of [226, 134, 146 :: nat] @ '' ''"

definition auth_report ::
  "('s \<Rightarrow> json \<Rightarrow> string) \<Rightarrow> (json \<Rightarrow> string) \<Rightarrow> (string \<Rightarrow> string option option) \<Rightarrow> (string \<Rightarrow> 'k \<Rightarrow> string \<Rightarrow> decoded) \<Rightarrow>
   's \<Rightarrow> 's \<Rightarrow> 'k \<Rightarrow> int \<Rightarrow> (string \<times> (http_error + user)) list" where
  \<comment> \<open>\<open>demo\<close> and \<open>other\<close> are the private keys, \<open>public\<close> is the demo key's public half\<close>
  "auth_report mint forge kid_of decode demo other public now =
     (let verify = (\<lambda>token need. auth_verdict (verify_with_jwks kid_of decode token [(Some DEMO_KID, public)] DEMO_ISSUER) need) in
      [(''valid'' @ small_dot @ ''pro'', verify (mint demo (demo_claims now (Some ''u1'') ''pro@x.com'' ''pro'' 3600)) None),
       (''valid'' @ small_dot @ ''free'', verify (mint demo (demo_claims now (Some ''u2'') ''free@x.com'' ''free'' 3600)) None),
       (''expired'', verify (mint demo (demo_claims now (Some ''user-123'') ''a@b.com'' ''free'' (-10))) None),
       (''tampered'', verify (tampered (mint demo (plain_claims now ''free''))) None),
       (''wrong key'', verify (mint other (plain_claims now ''free'')) None),
       (''HS256 forgery'', verify (forge (plain_claims now ''pro'')) None),
       (''missing subject'', verify (mint demo (demo_claims now None ''a@b.com'' ''free'' 3600)) None),
       (''role gate: free'' @ arrow_to @ ''/pro'', verify (mint demo (plain_claims now ''free'')) (Some ''pro'')),
       (''role gate: pro'' @ arrow_to @ ''/pro'', verify (mint demo (plain_claims now ''pro'')) (Some ''pro''))])"

section \<open>The verdicts\<close>

definition demo_signed :: "int \<Rightarrow> json list" where
  \<comment> \<open>the claims that are signed with the demo key\<close>
  "demo_signed now = [demo_claims now (Some ''u1'') ''pro@x.com'' ''pro'' 3600, demo_claims now (Some ''u2'') ''free@x.com'' ''free'' 3600,
     demo_claims now (Some ''user-123'') ''a@b.com'' ''free'' (-10), demo_claims now None ''a@b.com'' ''free'' 3600,
     plain_claims now ''free'', plain_claims now ''pro'']"

definition expiry_of :: "json \<Rightarrow> int" where
  "expiry_of c = (case j_get ''exp'' c of JInt t \<Rightarrow> t | _ \<Rightarrow> 0)"

text \<open>What PyJWT documents, for these tokens: a signature of the key's private half over claims with the right audience and
  issuer is good until it expires; one of another key, an algorithm outside the list, and a changed signature are not.
  Every header names the demo key.\<close>

definition jwt_laws ::
  "('s \<Rightarrow> json \<Rightarrow> string) \<Rightarrow> (json \<Rightarrow> string) \<Rightarrow> (string \<Rightarrow> string option option) \<Rightarrow> (string \<Rightarrow> 'k \<Rightarrow> string \<Rightarrow> decoded) \<Rightarrow>
   's \<Rightarrow> 's \<Rightarrow> 'k \<Rightarrow> int \<Rightarrow> bool" where
  "jwt_laws mint forge kid_of decode demo other public now \<longleftrightarrow>
     (\<forall>c \<in> set (demo_signed now). kid_of (mint demo c) = Some (Some DEMO_KID)
        \<and> decode (mint demo c) public DEMO_ISSUER = (if expiry_of c \<le> now then Expired else Claims c))
   \<and> (\<forall>t \<in> {tampered (mint demo (plain_claims now ''free'')), mint other (plain_claims now ''free''), forge (plain_claims now ''pro'')}.
        kid_of t = Some (Some DEMO_KID) \<and> decode t public DEMO_ISSUER = BadToken)"

text \<open>So the report shows what its notes say: users for the two valid tokens and for the pro behind the gate, 403 for the free one,
  and 401 for everything else.\<close>

lemma auth_report_verdicts:
  assumes "jwt_laws mint forge kid_of decode demo other public now"
  shows "map snd (auth_report mint forge kid_of decode demo other public now) =
    [Inr \<lparr>u_id = ''u1'', u_email = Some ''pro@x.com'', u_role = ''pro''\<rparr>, Inr \<lparr>u_id = ''u2'', u_email = Some ''free@x.com'', u_role = ''free''\<rparr>,
     Inl (401, ''token expired''), Inl invalid_token, Inl invalid_token, Inl invalid_token, Inl (401, ''token missing subject''),
     Inl (403, ''requires role '' @ [CHR 0x27] @ ''pro'' @ [CHR 0x27]),
     Inr \<lparr>u_id = ''user-123'', u_email = Some ''a@b.com'', u_role = ''pro''\<rparr>]"
proof -
  have good: "verify_with_jwks kid_of decode (mint demo c) [(Some DEMO_KID, public)] DEMO_ISSUER =
      (if expiry_of c \<le> now then Inl (401, ''token expired'') else Inr c)" if "c \<in> set (demo_signed now)" for c
    using assms that by (auto simp: jwt_laws_def verify_with_jwks_def key_from_set_def decode_claims_def)
  have bad: "verify_with_jwks kid_of decode t [(Some DEMO_KID, public)] DEMO_ISSUER = Inl invalid_token"
    if "t \<in> {tampered (mint demo (plain_claims now ''free'')), mint other (plain_claims now ''free''), forge (plain_claims now ''pro'')}" for t
    using assms that by (auto simp: jwt_laws_def verify_with_jwks_def key_from_set_def decode_claims_def)
  have expiry: "expiry_of (demo_claims now sub email role delta) = now + delta" for sub email role delta
    by (simp add: expiry_of_def demo_claims_def split: option.split)
  have subject: "j_truthy (j_get ''sub'' (demo_claims now sub email role delta)) \<longleftrightarrow> (case sub of None \<Rightarrow> False | Some s \<Rightarrow> s \<noteq> [])"
    for sub email role delta by (simp add: demo_claims_def split: option.split)
  have users: "user_of (demo_claims now (Some s) email role delta) =
      Inr \<lparr>u_id = s, u_email = Some email, u_role = (if role = [] then ''free'' else role)\<rparr>" for s email role delta
    by (simp add: demo_claims_def user_of_def role_from_claims_def app_metadata_def j_or_def Let_def)
  show ?thesis
    by (simp add: auth_report_def good bad demo_signed_def plain_claims_def expiry auth_verdict_def subject users Let_def)
qed

end
