(* ===== verification/Script_Runs.thy ===== *)
theory Script_Runs
  imports Scripts Torch_Head Auth
begin

text \<open>
  The programs of \<open>scripts/\<close> around the decisions of \<open>Scripts\<close>: the calls they make in order, the lines they print (one
  text per \<open>print\<close>) and their exit codes. The cloud command, the tools of the host, HTTP, sleeping and the clock are
  parameters; text output of a tool is given as it is, or as its lines where the code splits it.
\<close>

section \<open>Signs\<close>

definition GREEN :: string where "GREEN = CHR 0x1B # ''[32m''"
definition YELLOW :: string where "YELLOW = CHR 0x1B # ''[33m''"
definition RED :: string where "RED = CHR 0x1B # ''[31m''"
definition DIM :: string where "DIM = CHR 0x1B # ''[2m''"
definition OFF :: string where "OFF = CHR 0x1B # ''[0m''"

definition sign_tick :: string where "sign_tick = map char_of [226, 156, 147 :: nat]"
definition sign_cross :: string where "sign_cross = map char_of [226, 156, 151 :: nat]"
definition sign_warn :: string where "sign_warn = map char_of [226, 154, 160 :: nat]"
definition sign_dot :: string where "sign_dot = map char_of [226, 128, 162 :: nat]"
definition sign_dash :: string where "sign_dash = map char_of [226, 128, 148 :: nat]"
definition sign_arrow :: string where "sign_arrow = map char_of [226, 134, 146 :: nat]"

section \<open>The audit of the deployed product\<close>

datatype gcloud_error =
    Call_Failed string string  \<comment> \<open>\<open>GcloudError\<close>: what, and its whole error text\<close>
  | Bad_Reply  \<comment> \<open>a reply of another shape: \<open>KeyError\<close>, \<open>ValueError\<close>\<close>

type_synonym gcloud_runner = "string list \<Rightarrow> string + string"

definition gcloud_call :: "gcloud_runner \<Rightarrow> string list \<Rightarrow> gcloud_error + string" where
  "gcloud_call run args = (case run (''gcloud'' # args @ [''--quiet'']) of
     Inl err \<Rightarrow> Inl (Call_Failed (args ! 0 @ '' '' @ args ! 1) err) | Inr out \<Rightarrow> Inr out)"

fun gcloud_message :: "gcloud_error \<Rightarrow> string" where
  "gcloud_message (Call_Failed what err) = ''gcloud '' @ what @ '' failed: '' @ take 200 (py_strip err)"
| "gcloud_message Bad_Reply = []"

definition api_disabled :: "string \<Rightarrow> bool" where
  "api_disabled err \<longleftrightarrow> list_ex (\<lambda>s. py_in s err) [''SERVICE_DISABLED'', ''has not been used'', ''not enabled on project'']"

definition scheduler_jobs_in :: "gcloud_runner \<Rightarrow> string \<Rightarrow> gcloud_error + int option" where
  \<comment> \<open>\<open>_scheduler_jobs\<close>; \<open>None\<close>: the project does not have the API\<close>
  "scheduler_jobs_in run project =
     (case gcloud_call run [''scheduler'', ''locations'', ''list'', ''--project'', project, ''--format=value(locationId)''] of
        Inl (Call_Failed what err) \<Rightarrow> (if api_disabled err then Inr None else Inl (Call_Failed what err))
      | Inl Bad_Reply \<Rightarrow> Inl Bad_Reply
      | Inr out \<Rightarrow> andthen (collect (\<lambda>loc. andthen
            (gcloud_call run [''scheduler'', ''jobs'', ''list'', ''--project'', project, ''--location'', loc, ''--format=value(name)''])
            (\<lambda>t. Inr (int (length (py_words t))))) (py_words out)) (\<lambda>ns. Inr (Some (sum_list ns))))"

definition at_key :: "string \<Rightarrow> json \<Rightarrow> gcloud_error + json" where
  "at_key k v = (case v of JObj d \<Rightarrow> (case map_of d k of None \<Rightarrow> Inl Bad_Reply | Some x \<Rightarrow> Inr x) | _ \<Rightarrow> Inl Bad_Reply)"

definition get_key :: "string \<Rightarrow> json \<Rightarrow> json \<Rightarrow> gcloud_error + json" where
  "get_key k absent v = (case v of JObj d \<Rightarrow> Inr (case map_of d k of None \<Rightarrow> absent | Some x \<Rightarrow> x) | _ \<Rightarrow> Inl Bad_Reply)"

definition int_or_fail :: "(string \<Rightarrow> int option) \<Rightarrow> string \<Rightarrow> gcloud_error + int" where
  "int_or_fail as_int s = (case as_int s of None \<Rightarrow> Inl Bad_Reply | Some n \<Rightarrow> Inr n)"

definition scale_of :: "(string \<Rightarrow> int option) \<Rightarrow> string \<Rightarrow> json \<Rightarrow> gcloud_error + int option" where
  \<comment> \<open>annotations are texts\<close>
  "scale_of as_int k ann = (case ann of
     JObj d \<Rightarrow> (case map_of d k of None \<Rightarrow> Inr None | Some (JStr s) \<Rightarrow> andthen (int_or_fail as_int s) (\<lambda>n. Inr (Some n)) | _ \<Rightarrow> Inl Bad_Reply)
   | _ \<Rightarrow> Inl Bad_Reply)"

definition after_slash :: "string \<Rightarrow> string" where
  \<comment> \<open>\<open>s.rsplit(slash, 1)[-1]\<close>\<close>
  "after_slash s = rev (takeWhile (\<lambda>c. c \<noteq> CHR ''/'') (rev s))"

definition texts_in :: "json \<Rightarrow> gcloud_error + string list" where
  "texts_in v = (case v of JArr xs \<Rightarrow> Inr (concat (map (\<lambda>x. case x of JStr s \<Rightarrow> [s] | _ \<Rightarrow> []) xs)) | _ \<Rightarrow> Inl Bad_Reply)"

definition gather :: "gcloud_runner \<Rightarrow> (string \<Rightarrow> json option) \<Rightarrow> (string \<Rightarrow> int option) \<Rightarrow> string \<Rightarrow> gcloud_error + deployed" where
  \<comment> \<open>the calls of \<open>live_report\<close>, in its order\<close>
  "gather run loads as_int project =
     (let region = ''us-central1''; call = gcloud_call run;
          parse = (\<lambda>t. case loads t of None \<Rightarrow> Inl Bad_Reply | Some v \<Rightarrow> Inr v) in
      andthen (call [''run'', ''services'', ''describe'', ''dealfinder-api'', ''--region'', region, ''--project'', project, ''--format=json'']) (\<lambda>svc_text.
      andthen (parse svc_text) (\<lambda>svc. andthen (at_key ''spec'' svc) (\<lambda>spec. andthen (at_key ''template'' spec) (\<lambda>template.
      andthen (at_key ''metadata'' template) (\<lambda>md. andthen (get_key ''annotations'' (JObj []) md) (\<lambda>ann.
      andthen (scale_of as_int ''autoscaling.knative.dev/minScale'' ann) (\<lambda>min_scale.
      andthen (scale_of as_int ''autoscaling.knative.dev/maxScale'' ann) (\<lambda>max_scale.
      andthen (call [''billing'', ''projects'', ''describe'', project, ''--format=value(billingAccountName)'']) (\<lambda>acc.
        let account = after_slash (py_strip acc) in
      andthen (call [''billing'', ''projects'', ''list'', ''--billing-account='' @ account, ''--format=value(projectId)'']) (\<lambda>projects.
      andthen (collect (scheduler_jobs_in run) (py_words projects)) (\<lambda>jobs.
      andthen (call [''secrets'', ''versions'', ''list'', ''dealfinder-env'', ''--project'', project, ''--filter=state:ENABLED'', ''--format=value(name)'']) (\<lambda>versions.
      andthen (call [''artifacts'', ''repositories'', ''describe'', ''dealfinder'', ''--location'', region, ''--project'', project, ''--format=value(sizeBytes)'']) (\<lambda>raw.
      andthen (if py_strip raw \<noteq> [] then andthen (int_or_fail as_int (py_strip raw)) (\<lambda>n. Inr (Some n, []))
               else andthen (call [''artifacts'', ''docker'', ''images'', ''list'', region @ ''-docker.pkg.dev/'' @ project @ ''/dealfinder'', ''--format=value(metadata.imageSizeBytes)''])
                 (\<lambda>images. Inr (None, py_words images))) (\<lambda>(size, image_sizes).
      andthen (call [''projects'', ''describe'', project, ''--format=value(projectNumber)'']) (\<lambda>number.
      andthen (call [''billing'', ''budgets'', ''list'', ''--billing-account='' @ account, ''--format=json'']) (\<lambda>budget_text.
      andthen (parse (if budget_text = [] then ''[]'' else budget_text)) (\<lambda>budgets.
      andthen (case budgets of JArr bs \<Rightarrow>
          collect (\<lambda>b. andthen (get_key ''budgetFilter'' (JObj []) b) (\<lambda>f. andthen (get_key ''projects'' (JArr []) f) texts_in)) bs
        | _ \<Rightarrow> Inl Bad_Reply) (\<lambda>covered.
        Inr \<lparr>dp_min_scale = min_scale, dp_max_scale = max_scale, dp_jobs = jobs, dp_versions = int (length (py_words versions)),
             dp_size = size, dp_image_sizes = image_sizes, dp_budget_projects = covered, dp_number = py_strip number\<rparr>)))))))))))))))))))"

definition audit_line :: "audit \<Rightarrow> string" where
  \<comment> \<open>the value of the budget check prints as a boolean\<close>
  "audit_line c =
     (let show = (\<lambda>n. if au_name c = ''budget alert on the project'' then (if n = 1 then ''True'' else ''False'') else int_str n)
      in (if au_ok c then GREEN @ sign_tick else RED @ sign_cross) @ '' '' @ au_name c @ '': '' @ show (au_value c) @
         '' (limit '' @ show (au_limit c) @ '')'' @ OFF)"

definition audit_main :: "gcloud_runner \<Rightarrow> (string \<Rightarrow> json option) \<Rightarrow> (string \<Rightarrow> int option) \<Rightarrow> string \<Rightarrow> (int \<times> string list) option" where
  \<comment> \<open>\<open>_live\<close>; \<open>None\<close>: a malformed reply leaves the program as an exception\<close>
  "audit_main run loads as_int project =
     (case gather run loads as_int project of
        Inl (Call_Failed what err) \<Rightarrow> Some (1, [RED @ sign_cross @ '' '' @ gcloud_message (Call_Failed what err) @ OFF])
      | Inl Bad_Reply \<Rightarrow> None
      | Inr d \<Rightarrow> Some (live_exit (Some (live_report d)), map audit_line (live_report d)))"

lemma audit_main_exit:
  assumes "audit_main run loads as_int project = Some (code, ls)"
  shows "code = live_exit (case gather run loads as_int project of Inl e \<Rightarrow> None | Inr d \<Rightarrow> Some (live_report d))"
  using assms by (auto simp: audit_main_def live_exit_def split: sum.splits gcloud_error.splits)

text \<open>An audit that exits 0 has read every limit, and each holds.\<close>

lemma audit_passes:
  assumes "audit_main run loads as_int project = Some (0, ls)"
  obtains d where "gather run loads as_int project = Inr d" and "\<forall>c \<in> set (live_report d). au_ok c" and "ls = map audit_line (live_report d)"
  using assms by (auto simp: audit_main_def live_exit_def list_all_iff split: sum.splits gcloud_error.splits if_splits)

lemma scheduler_only_disabled:
  "scheduler_jobs_in run project = Inr None \<Longrightarrow>
   \<exists>err. run [''gcloud'', ''scheduler'', ''locations'', ''list'', ''--project'', project, ''--format=value(locationId)'', ''--quiet''] = Inl err \<and> api_disabled err"
  by (auto simp: scheduler_jobs_in_def gcloud_call_def andthen_def split: sum.splits if_splits)

section \<open>The preflight's report\<close>

definition METERED_LABELS :: "(string \<times> string \<times> string) list" where
  "METERED_LABELS =
     [(''Apify (Google-Shopping actor)'', ''APIFY_TOKEN'', ''pay-per-event credits''),
      (''Amazon (Apify 'junglee' actor)'', ''APIFY_TOKEN'', ''14-day trial, then ~$40+/mo''),
      (''Firecrawl (broad-web)'', ''FIRECRAWL_API_KEY'', ''free credits, then paid'')]"

definition armed_costs :: "environ \<Rightarrow> (string \<times> string) list" where
  "armed_costs env = map (\<lambda>(n, k, c). (n, c)) (filter (\<lambda>(n, k, c). paid_ok env \<and> has_var env k) METERED_LABELS)"

definition preflight_main :: "string list option \<Rightarrow> environ \<Rightarrow> int \<times> string list" where
  \<comment> \<open>without \<open>--live\<close>\<close>
  "preflight_main file env0 =
     (let env = load_dotenv file env0;
          head_line = DIM @ ''DealFinder cost preflight '' @ sign_dash @ '' mirrors the gating in the code.'' @ OFF @ [CHR 10]
      in if armed_costs env = [] \<and> paid_models env = [] then
           (0, [head_line, GREEN @ sign_tick @ '' No paid surfaces armed '' @ sign_dash @ '' you're at $0.'' @ OFF] @
             (if dormant env = [] then [] else [DIM @ ''  (keys present but DEALFINDER_ENABLE_PAID_SOURCES is off, '' @
                ''so they cannot bill: '' @ py_join '', '' (dormant env) @ '')'' @ OFF]) @
             (if has_var env ''OPENROUTER_API_KEY'' then [DIM @ ''  (OPENROUTER_API_KEY set, but the default model tier is '' @
                ''free-only '' @ sign_dash @ '' no per-token charges)'' @ OFF] else []))
         else
           (1, [head_line, RED @ sign_warn @ '' Paid surfaces are ARMED '' @ sign_dash @ '' running the app can incur charges:'' @ OFF] @
             map (\<lambda>(n, c). ''  '' @ YELLOW @ sign_dot @ '' '' @ n @ OFF @ '' '' @ sign_dash @ '' '' @ c) (armed_costs env) @
             map (\<lambda>m. ''  '' @ YELLOW @ sign_dot @ '' LLM model '' @ m @ OFF @ '' '' @ sign_dash @ '' per-token (non-free)'') (paid_models env) @
             [[CHR 10] @ DIM @ ''Disarm: unset DEALFINDER_ENABLE_PAID_SOURCES and OPENROUTER_MODELS '' @
                ''(and revoke keys / cancel rentals). See COST.md '' @ sign_arrow @ '' Teardown.'' @ OFF]))"

text \<open>The exit code is the decision of \<open>Scripts\<close>, and an alarm names every armed source and every paid model.\<close>

lemma preflight_main_exit: "fst (preflight_main file env) = preflight (load_dotenv file env)"
proof -
  have "armed_costs e = [] \<longleftrightarrow> armed e = []" for e
    by (auto simp: armed_costs_def armed_def METERED_LABELS_def METERED_def filter_empty_conv)
  then show ?thesis by (simp add: preflight_main_def preflight_def Let_def)
qed

lemma preflight_main_names:
  assumes "fst (preflight_main file env) = 1"
  shows "length (snd (preflight_main file env)) = 3 + length (armed (load_dotenv file env)) + length (paid_models (load_dotenv file env))"
proof -
  have "length (armed_costs e) = length (armed e)" for e
    by (simp add: armed_costs_def armed_def METERED_LABELS_def METERED_def)
  with assms show ?thesis by (auto simp: preflight_main_def Let_def split: if_splits)
qed

section \<open>The disk check\<close>

definition run_tool :: "(int \<times> string) option \<Rightarrow> string option" where
  \<comment> \<open>\<open>_run\<close>: exit code and output; \<open>None\<close>: not found, or too slow\<close>
  "run_tool r = (case r of None \<Rightarrow> None | Some (code, out) \<Rightarrow> if code = 0 then Some out else None)"

definition split_lines :: "string \<Rightarrow> string list" where
  "split_lines s = (let ls = py_split_on (CHR 10) s in if ls \<noteq> [] \<and> last ls = [] then butlast ls else ls)"

definition disk_cap :: "string \<Rightarrow> nat option" where
  \<comment> \<open>\<open>None\<close>: not a whole number of GiB\<close>
  "disk_cap d = (let n = rev (dropWhile (\<lambda>c. c \<in> set ''GiB'') (rev d)) in
     if n \<noteq> [] \<and> list_all is_digit n then Some (digits_val 0 n) else None)"

definition vm_line :: "pyfloat \<Rightarrow> string list \<Rightarrow> string" where
  "vm_line free_gb cols =
     (let warn = (case disk_cap (cols ! 5) of
          Some n \<Rightarrow> if of_nat n \<ge> free_gb then ''  '' @ sign_warn @ '' larger than host '' @ sign_dash @ '' see RESOURCES.md'' else []
        | None \<Rightarrow> [])
      in ''  colima VM disk    '' @ DIM @ ''cap '' @ cols ! 5 @ '', '' @ cols ! 1 @ OFF @ YELLOW @ warn @ OFF)"

definition vm_report :: "pyfloat \<Rightarrow> string option \<Rightarrow> string" where
  "vm_report free_gb out =
     (case find (\<lambda>cols. length cols \<ge> 6 \<and> cols ! 1 \<in> {''Running'', ''Stopped''})
         (map py_words (case out of None \<Rightarrow> [] | Some t \<Rightarrow> split_lines t)) of
        Some cols \<Rightarrow> vm_line free_gb cols
      | None \<Rightarrow> ''  colima VM disk    '' @ DIM @ ''(colima not found / not reporting)'' @ OFF)"

definition disk_main ::
  "string list \<Rightarrow> pyfloat \<Rightarrow> string option \<Rightarrow> string option \<Rightarrow> string option \<Rightarrow> (int \<times> string list) option" where
  \<comment> \<open>over the arguments, the free space in GiB and the outputs of colima, du and docker; \<open>None\<close>: \<open>du\<close> printed blanks only, and
     taking its first word raises\<close>
  "disk_main argv free_gb colima du docker =
     (let lowest = disk_floor argv;
          color = (if free_gb \<ge> lowest then GREEN else if free_gb \<ge> lowest / 2 then YELLOW else RED);
          du_words = (case du of None \<Rightarrow> [] | Some t \<Rightarrow> py_words t) in
      if (case du of None \<Rightarrow> False | Some t \<Rightarrow> t \<noteq> []) \<and> du_words = [] then None
      else Some (disk_exit free_gb lowest,
        [DIM @ ''DealFinder disk footprint '' @ sign_dash @ '' the dev-stack machine budget.'' @ OFF @ [CHR 10],
         ''  host free space   '' @ color @ pad_space 6 (fmt_fixed 1 free_gb) @ '' GiB'' @ OFF @ ''   (floor '' @ fmt_fixed 0 lowest @ '' GiB)'',
         vm_report free_gb colima] @
        (if du_words = [] then [] else [''  VM image on disk  '' @ DIM @ hd du_words @ '' (~/.colima; reclaim by prune or recreate)'' @ OFF]) @
        (case docker of
           Some t \<Rightarrow> if t \<noteq> [] then [[CHR 10] @ DIM @ ''  docker system df:'' @ OFF] @ map (\<lambda>l. ''    '' @ l) (split_lines t)
             else [[CHR 10] @ ''  '' @ DIM @ ''docker daemon not reachable (VM stopped?) '' @ sign_dash @ '' start it to see/reclaim'' @
               '' image + build-cache usage'' @ OFF]
         | None \<Rightarrow> [[CHR 10] @ ''  '' @ DIM @ ''docker daemon not reachable (VM stopped?) '' @ sign_dash @ '' start it to see/reclaim'' @
               '' image + build-cache usage'' @ OFF]) @
        [[]] @
        (if free_gb \<ge> lowest then [GREEN @ sign_tick @ '' Healthy headroom.'' @ OFF @ '' A full-ML image build (~8 GiB) needs the floor free;'' @ '' you have room.'']
         else [RED @ sign_warn @ '' Low disk ('' @ fmt_fixed 1 free_gb @ '' GiB free).'' @ OFF @ '' Reclaim before any heavy build:'',
           ''  '' @ DIM @ ''docker system prune -af && docker builder prune -af   # cache + dangling (safe)'' @ OFF,
           ''  '' @ DIM @ ''docker compose down -v                                # this stack's containers+volumes'' @ OFF,
           ''  '' @ DIM @ ''see RESOURCES.md '' @ sign_arrow @ '' Reclaim for the deep option (recreate the VM)'' @ OFF])))"

text \<open>The tools only add lines: without them the check still answers, and its code depends on the free space alone.\<close>

lemma disk_main_exit: "disk_main argv free_gb colima du docker = Some (code, ls) \<Longrightarrow> code = disk_exit free_gb (disk_floor argv)"
  by (auto simp: disk_main_def Let_def split: if_splits)

lemma disk_main_degrades: "(\<exists>r. disk_main argv free_gb colima du docker = Some r) \<longleftrightarrow> (\<forall>t. du = Some t \<longrightarrow> t = [] \<or> py_words t \<noteq> [])"
  by (auto simp: disk_main_def Let_def split: option.splits)

section \<open>The load test\<close>

definition statuses_text :: "(nat, nat) dict \<Rightarrow> string" where
  "statuses_text d = ''{'' @ py_join '', '' (map (\<lambda>(s, n). nat_digits s @ '': '' @ nat_digits n) (sort_key fst d)) @ ''}''"

definition least :: "pyfloat list \<Rightarrow> pyfloat" where "least xs = fold min (tl xs) (hd xs)"
definition greatest :: "pyfloat list \<Rightarrow> pyfloat" where "greatest xs = fold max (tl xs) (hd xs)"

definition load_report :: "string \<Rightarrow> sample \<Rightarrow> pyfloat \<Rightarrow> nat \<Rightarrow> string list" where
  "load_report name s wall asked =
     (let ms = sp_latencies s; p = (\<lambda>q. fmt_fixed 1 (percentile ms q)) in
      [[CHR 10] @ name,
       ''  requests   : '' @ nat_digits asked @ ''  (ok='' @ nat_digits (length ms) @ '', errors='' @ nat_digits (sp_errors s) @ '')'',
       ''  statuses   : '' @ statuses_text (sp_statuses s)] @
      (if ms = [] then [] else [''  latency ms : p50='' @ p 50 @ ''  '' @ ''p95='' @ p 95 @ ''  '' @ ''p99='' @ p 99 @ ''  '' @
         ''(min='' @ fmt_fixed 1 (least ms) @ '', '' @ ''max='' @ fmt_fixed 1 (greatest ms) @ '', '' @ ''mean='' @ fmt_fixed 1 (mean_of ms) @ '')'']) @
      [''  throughput : '' @ fmt_fixed 1 (throughput s wall) @ '' req/s  (wall '' @ fmt_fixed 2 wall @ ''s)''])"

datatype probe = Answered nat | Unreachable string string  \<comment> \<open>the name of the exception and its text\<close>

record load_args =
  la_base :: string
  la_requests :: nat
  la_concurrency :: nat
  la_query :: string

definition load_path :: "string \<Rightarrow> string" where
  \<comment> \<open>\<open>QueryParams\<close> gives back the text it was made of\<close>
  "load_path query = ''/search?q='' @ query"

definition load_main ::
  "(string \<Rightarrow> probe) \<Rightarrow> (string \<Rightarrow> nat \<Rightarrow> nat \<Rightarrow> (nat \<times> pyfloat) option list \<times> pyfloat) \<Rightarrow> (string \<Rightarrow> string) \<Rightarrow> load_args \<Rightarrow> int \<times> string list" where
  \<comment> \<open>\<open>fire url total concurrency\<close>: the replies and the wall time; \<open>repr\<close> is the query between quotes\<close>
  "load_main ask fire repr a =
     (let base = py_rstrip CHR ''/'' (la_base a) in
      case ask (base @ ''/healthz'') of
        Unreachable kind why \<Rightarrow>
          (2, [''App is NOT up at '' @ base @ ''/healthz ('' @ kind @ '': '' @ why @ '').'',
               ''Start it first, e.g.: .venv/bin/uvicorn dealfinder.serve:app --port 8000'',
               ''Refusing to report latencies against a server that isn't running.''])
      | Answered status \<Rightarrow>
          (if status \<noteq> 200 then
             (2, [''App at '' @ base @ ''/healthz returned '' @ nat_digits status @ ''; expected 200. '' @
                  ''Start it with `.venv/bin/uvicorn dealfinder.serve:app --port 8000`.''])
           else
             (let (hz, hz_wall) = fire (base @ ''/healthz'') (la_requests a) (la_concurrency a);
                  (se, se_wall) = fire (base @ load_path (la_query a)) (la_requests a) (la_concurrency a)
              in (0, [''App is UP at '' @ base @ '' '' @ sign_dash @ '' running load test '' @
                      ''(requests='' @ nat_digits (la_requests a) @ '', concurrency='' @ nat_digits (la_concurrency a) @ '').''] @
                     load_report ''GET /healthz'' (run_endpoint hz) hz_wall (la_requests a) @
                     load_report (''GET /search?q='' @ repr (la_query a)) (run_endpoint se) se_wall (la_requests a)))))"

text \<open>No figures from a server that is not up: then nothing is fired, and what a load would have measured cannot matter.\<close>

lemma load_main_honest:
  assumes "fst (load_main ask fire repr a) \<noteq> 0"
  shows "load_main ask fire' repr a = load_main ask fire repr a" and "fst (load_main ask fire repr a) = 2"
  using assms by (auto simp: load_main_def Let_def split_beta split: probe.splits if_splits)

lemma load_main_exit: "fst (load_main ask fire repr a) =
    load_test_exit (case ask (py_rstrip CHR ''/'' (la_base a) @ ''/healthz'') of Answered n \<Rightarrow> Some n | Unreachable k w \<Rightarrow> None)"
  by (auto simp: load_main_def load_test_exit_def Let_def split_beta split: probe.splits)

text \<open>The query is pasted into the URL as it is, so what a server reads as the parameter ends at the first ampersand.\<close>

lemma load_query_cut:
  "CHR ''&'' \<notin> set q \<Longrightarrow> takeWhile (\<lambda>c. c \<noteq> CHR ''&'') (drop (length ''/search?q='') (load_path (q @ CHR ''&'' # rest))) = q"
  by (auto simp: load_path_def takeWhile_append)

section \<open>The cold-start measurement\<close>

definition timed_get :: "(string \<Rightarrow> 'w \<Rightarrow> nat option \<times> 'w) \<Rightarrow> ('w \<Rightarrow> pyfloat \<times> 'w) \<Rightarrow> string \<Rightarrow> 'w \<Rightarrow> pyfloat option \<times> 'w" where
  \<comment> \<open>the request between two readings of the clock; \<open>None\<close>: it raised, or answered a status that fails the run\<close>
  "timed_get get clock u w =
     (let (t0, w1) = clock w in
      case get u w1 of
        (None, w2) \<Rightarrow> (None, w2)
      | (Some status, w2) \<Rightarrow> (if coldstart_accepts u status then (let (t1, w3) = clock w2 in (Some (t1 - t0), w3)) else (None, w2)))"

fun measure_cold ::
  "('w \<Rightarrow> bool \<times> 'w) \<Rightarrow> ('w \<Rightarrow> 'w) \<Rightarrow> (string \<Rightarrow> 'w \<Rightarrow> nat option \<times> 'w) \<Rightarrow> ('w \<Rightarrow> pyfloat \<times> 'w) \<Rightarrow> string \<Rightarrow> nat \<Rightarrow> 'w
    \<Rightarrow> (pyfloat \<times> pyfloat) list option \<times> 'w" where
  \<comment> \<open>\<open>redeploy\<close> says whether the cloud command succeeded\<close>
  "measure_cold redeploy wait get clock base 0 w = (Some [], w)"
| "measure_cold redeploy wait get clock base (Suc n) w =
     (case redeploy w of
        (False, w1) \<Rightarrow> (None, w1)
      | (True, w1) \<Rightarrow>
          (case timed_get get clock (base @ ''/health'') (wait w1) of
             (None, w2) \<Rightarrow> (None, w2)
           | (Some h, w2) \<Rightarrow>
               (case timed_get get clock (base @ ''/readyz'') w2 of
                  (None, w3) \<Rightarrow> (None, w3)
                | (Some r, w3) \<Rightarrow>
                    (case measure_cold redeploy wait get clock base n w3 of
                       (rest, w4) \<Rightarrow> (map_option ((#) (h, r)) rest, w4)))))"

definition cold_lines :: "(pyfloat \<times> pyfloat) list \<Rightarrow> (int \<times> string list) option" where
  \<comment> \<open>\<open>report\<close>; \<open>None\<close>: the median of no run raises\<close>
  "cold_lines runs =
     (let hs = map fst runs; slow = filter (\<lambda>h. h > GATE_S) hs in
      case (py_median hs, py_median (map snd runs)) of
        (Some mh, Some mr) \<Rightarrow> Some (coldstart_report runs,
          map (\<lambda>(i, h, r). ''run '' @ nat_digits i @ '': health '' @ fmt_fixed 1 h @ ''s readyz '' @ fmt_fixed 1 r @ ''s'') (List.enumerate 1 runs) @
          [''median: health '' @ fmt_fixed 1 mh @ ''s '' @ ''readyz '' @ fmt_fixed 1 mr @ ''s''] @
          (if slow = [] then [] else [sign_cross @ '' a cold /health took '' @ fmt_fixed 1 (greatest slow) @ ''s, over the '' @ fmt_fixed 0 GATE_S @ ''s gate'']))
      | _ \<Rightarrow> None)"

definition coldstart_main ::
  "('w \<Rightarrow> bool \<times> 'w) \<Rightarrow> ('w \<Rightarrow> 'w) \<Rightarrow> (string \<Rightarrow> 'w \<Rightarrow> nat option \<times> 'w) \<Rightarrow> ('w \<Rightarrow> pyfloat \<times> 'w) \<Rightarrow> string \<Rightarrow> nat \<Rightarrow> 'w
    \<Rightarrow> (int \<times> string list) option \<times> 'w" where
  "coldstart_main redeploy wait get clock base runs w =
     (case measure_cold redeploy wait get clock (py_rstrip CHR ''/'' base) runs w of
        (None, w1) \<Rightarrow> (None, w1)
      | (Some ms, w1) \<Rightarrow> (cold_lines ms, w1))"

lemma measure_cold_length: "measure_cold redeploy wait get clock base n w = (Some ms, w') \<Longrightarrow> length ms = n"
  by (induction n arbitrary: w ms w') (auto split: prod.splits bool.splits option.splits)

text \<open>The program answers exactly when at least one run is asked for and none fails, and then 0 exactly when no cold start took
  longer than the gate.\<close>

lemma coldstart_main_result:
  assumes "measure_cold redeploy wait get clock (py_rstrip CHR ''/'' base) n w = (Some ms, w')"
  shows "(case fst (coldstart_main redeploy wait get clock base n w) of
     None \<Rightarrow> n = 0
   | Some (code, ls) \<Rightarrow> 0 < n \<and> length ls = n + 1 + nat code \<and> (code = 0 \<longleftrightarrow> (\<forall>(h, r) \<in> set ms. h \<le> 10)))"
proof -
  have n: "length ms = n" by (rule measure_cold_length [OF assms])
  have empty: "filter (\<lambda>h. h > GATE_S) (map fst ms) = [] \<longleftrightarrow> filter (\<lambda>(h, r). h > GATE_S) ms = []"
    by (auto simp: filter_empty_conv)
  show ?thesis
  proof (cases ms)
    case Nil
    then show ?thesis using n assms by (simp add: coldstart_main_def cold_lines_def py_median_None [THEN iffD2])
  next
    case (Cons x xs)
    then obtain mh mr where "py_median (map fst ms) = Some mh" "py_median (map snd ms) = Some mr"
      using py_median_None [of "map fst ms"] py_median_None [of "map snd ms"] by (metis list.discI list.map_disc_iff not_None_eq)
    with n assms Cons empty show ?thesis
      by (auto simp: coldstart_main_def cold_lines_def coldstart_report_def Let_def filter_empty_conv GATE_S_def length_enumerate not_less split_beta)
  qed
qed

section \<open>The price head's program and the benchmarks\<close>

definition torch_main :: "torch_result option \<Rightarrow> (int \<times> string list)" where
  \<comment> \<open>\<open>None\<close>: torch is not installed\<close>
  "torch_main r = (case r of
     None \<Rightarrow> (1, [''torch is not installed. Install the CPU wheel: pip install torch''])
   | Some t \<Rightarrow> (0, [''PyTorch MLP price head (real training loop)'',
        ''  train / test rows : '' @ nat_digits (tt_n_train t) @ '' / '' @ nat_digits (tt_n_test t),
        ''  epochs            : '' @ nat_digits (tt_epochs t),
        ''  test MAE          : $'' @ fmt_fixed 2 (tt_mae t),
        ''  final train loss  : '' @ fmt_fixed 5 (tt_loss t) @ '' (standardized MSE)'']))"

definition has_gpu :: "bool option \<Rightarrow> bool" where
  \<comment> \<open>\<open>None\<close>: importing torch or asking it raises\<close>
  "has_gpu cuda = (cuda = Some True)"

definition quantization_main :: "bool option \<Rightarrow> (string \<Rightarrow> pyfloat) \<Rightarrow> string list" where
  \<comment> \<open>\<open>peak\<close>: the bytes allocated at most while generating in that configuration\<close>
  "quantization_main cuda peak =
     (if \<not> has_gpu cuda then
        [''No CUDA GPU detected. This benchmark measures real VRAM/latency for '' @
         ''fp16 vs INT8 vs INT4 and will NOT print fabricated numbers on CPU.'' @ [CHR 10] @
         ''Run it on a GPU host to get measured figures for your device.'']
      else map (\<lambda>name. name @ '': peak VRAM '' @ fmt_fixed 2 (peak name / 1000000000) @ '' GB (measured on this GPU)'') [''fp16'', ''int8'', ''int4''])"

definition vllm_main :: "bool option \<Rightarrow> nat \<Rightarrow> (nat \<Rightarrow> nat list \<times> pyfloat) \<Rightarrow> string list option" where
  \<comment> \<open>\<open>generate n\<close>: the tokens of each of \<open>n\<close> outputs and the seconds; \<open>None\<close>: no time passed (\<open>ZeroDivisionError\<close>)\<close>
  "vllm_main cuda concurrency generate =
     (if \<not> has_gpu cuda then
        Some [''No CUDA GPU detected. This benchmark measures real aggregate '' @
          ''tokens/sec under concurrency and will NOT print fabricated numbers on '' @
          ''CPU.'' @ [CHR 10] @ ''Run it on a GPU host to get measured figures for your device.'']
      else (case generate concurrency of (tokens, dt) \<Rightarrow>
        (if dt = 0 then None
         else Some [''vLLM: '' @ nat_digits (sum_list tokens) @ '' tokens in '' @ fmt_fixed 2 dt @ ''s = '' @
           fmt_fixed 0 (of_nat (sum_list tokens) / dt) @ '' tokens/sec (measured on this GPU, '' @ ''concurrency='' @ nat_digits concurrency @ '')''])))"

text \<open>Without a GPU the benchmarks print no figure: nothing that could be measured enters their output.\<close>

lemma no_gpu_no_figures:
  "cuda \<noteq> Some True \<Longrightarrow> quantization_main cuda peak = quantization_main cuda peak' \<and> vllm_main cuda n g = vllm_main cuda n' g' \<and> vllm_main cuda n g \<noteq> None"
  by (simp add: quantization_main_def vllm_main_def has_gpu_def)

end
