(* ===== verification/Demo_Data.thy ===== *)
theory Demo_Data
  imports Snapshot Inference Search Mlops
begin

text \<open>
  The sample data and the small programs that show the parts at work: \<open>data/make_catalog.py\<close>,
  \<open>data/make_interactions.py\<close>, and \<open>run_ingest.py\<close>, \<open>run_extract.py\<close>, \<open>run_search.py\<close>, \<open>run_evals.py\<close> and the first half of
  \<open>run_recs.py\<close> in \<open>dealfinder/\<close>. numpy's seeded generator is a parameter: the draws of a row, or a stream of draws with
  its state.
\<close>

section \<open>The synthetic tents\<close>

definition INTERCEPT :: pyfloat where "INTERCEPT = 60"
definition TENT_BRANDS :: "(string \<times> int) list" where
  "TENT_BRANDS = [(''SummitPro'', 3), (''TrailLite'', 3), (''BasecampCo'', 2), (''RidgeRunner'', 2), (''ValueOutdoors'', 1), (''BudgetTrail'', 1)]"
definition TENTS :: nat where "TENTS = 28"
definition DEAL_IDS :: "nat list" where "DEAL_IDS = [3, 9, 17, 24]"

definition tent_price :: "int \<Rightarrow> pyfloat \<Rightarrow> int \<Rightarrow> int \<Rightarrow> pyfloat" where
  \<comment> \<open>\<open>fair_price\<close>\<close>
  "tent_price cap wkg season tier = INTERCEPT + 70 * of_int cap + - 40 * wkg + 55 * of_int season + 60 * of_int tier"

record tent_draw =
  td_cap :: int
  td_weight :: pyfloat
  td_season :: int
  td_brand :: nat
  td_noise :: pyfloat
  td_markdown :: pyfloat  \<comment> \<open>drawn for the deals only\<close>

definition two_digits :: "nat \<Rightarrow> string" where "two_digits i = pad_left 2 (nat_digits i)"

definition drawn_price :: "nat \<Rightarrow> tent_draw \<Rightarrow> pyfloat" where
  "drawn_price i d =
     (let fair = tent_price (td_cap d) (py_round 1 (td_weight d)) (td_season d) (snd (TENT_BRANDS ! td_brand d)) + td_noise d
      in if i \<in> set DEAL_IDS then fair * td_markdown d else fair)"

definition tent :: "nat \<Rightarrow> tent_draw \<Rightarrow> product" where
  \<comment> \<open>as the loader reads the row back; the weight prints with one digit\<close>
  "tent i d =
     (let wkg = py_round 1 (td_weight d); b = fst (TENT_BRANDS ! td_brand d) in
      \<lparr>p_id = ''tent-'' @ two_digits i,
       title = b @ '' '' @ int_str (td_cap d) @ ''P '' @ (if wkg < 1.8 then ''UL '' else []) @ ''Tent'',
       brand = Some b, category = ''tents'', price = py_round 2 (max (drawn_price i d) 39), currency = ''USD'',
       url = ''https://example.com/tent-'' @ two_digits i, source = ''dataset'', image_url = None, sku = None, regular_price = None,
       marketplace = None, condition = ''new'',
       specs = [(''capacity'', int_str (td_cap d)), (''weight_kg'', fmt_fixed 1 wkg), (''season'', int_str (td_season d))], price_history = []\<rparr>)"

definition make_catalog :: "(nat \<Rightarrow> tent_draw) \<Rightarrow> product list" where
  "make_catalog draws = map (\<lambda>i. tent i (draws i)) [0..<TENTS]"

text \<open>No tent is below 39, and the marked-down ones are the only rows whose draw is scaled.\<close>

lemma make_catalog_prices: "p \<in> set (make_catalog draws) \<Longrightarrow> 39 \<le> price p"
proof -
  assume "p \<in> set (make_catalog draws)"
  then obtain i where p: "p = tent i (draws i)" by (auto simp: make_catalog_def)
  have "py_round 2 39 = 39" by (simp add: py_round_def round_half_even_def)
  then show ?thesis using py_round_mono [of 39 "max (drawn_price i (draws i)) 39" 2] by (simp add: p tent_def Let_def)
qed

lemma make_catalog_ids: "map p_id (make_catalog draws) = map (\<lambda>i. ''tent-'' @ two_digits i) [0..<28] \<and> distinct (map p_id (make_catalog draws))"
proof -
  have ids: "map p_id (make_catalog draws) = map (\<lambda>i. ''tent-'' @ two_digits i) [0..<28]"
    by (simp add: make_catalog_def tent_def Let_def TENTS_def)
  have "distinct (map (\<lambda>i. ''tent-'' @ two_digits i) [0..<28])" by code_simp
  with ids show ?thesis by simp
qed

section \<open>The likes\<close>

record liked_item =
  lk_id :: string
  lk_query :: string
  lk_title :: string

definition by_query :: "liked_item list \<Rightarrow> string \<Rightarrow> nat \<Rightarrow> liked_item list" where
  "by_query items q n = take n (filter (\<lambda>i. lk_query i = q) items)"

definition likes_catalog :: "liked_item list \<Rightarrow> liked_item list" where
  "likes_catalog items = filter (\<lambda>i. lk_query i = ''noise cancelling headphones'') items @ by_query items ''wireless earbuds'' 3 @
     by_query items ''bluetooth speaker'' 2 @ by_query items ''mechanical keyboard'' 2 @ by_query items ''smartwatch'' 2"

definition title_index :: "liked_item list \<Rightarrow> (string, nat) dict" where
  "title_index items = foldl (\<lambda>d (k, i). dict_set (lk_title i) k d) [] (List.enumerate 0 items)"

definition index_of :: "(string, nat) dict \<Rightarrow> string \<Rightarrow> nat option" where
  \<comment> \<open>\<open>None\<close>: no title holds the text (\<open>StopIteration\<close>)\<close>
  "index_of d needle = map_option snd (find (\<lambda>(t, k). py_in needle t) d)"

definition COHORTS :: "string list list" where
  "COHORTS =
     [[''Sony WH-1000XM5 Wireless Headphones'', ''WH-1000XM5 Wireless Noise-Canceling'', ''WH-1000XM6'', ''Sony WH-CH720N Noise'', ''Sony WH-CH720N/P''],
      [''Sony WH-1000XM5 Wireless Headphones'', ''Bose QuietComfort Noise'', ''WH-1000XM6'', ''Bose QuietComfort Ultra'', ''Beats Studio Pro''],
      [''Anker Soundcore Q20i'', ''JBL Tune 770NC'', ''Soundcore Space 2'', ''Cowin SE7''],
      [''ProBuds'', ''Go Air Pop'', ''Pop+''], [''HyperX'', ''Glorious''], [''Armitron'', ''Withit'']]"

definition USERS_PER_COHORT :: nat where "USERS_PER_COHORT = 12"

fun like_members :: "('s \<Rightarrow> pyfloat \<times> 's) \<Rightarrow> nat list \<Rightarrow> nat list \<times> 's \<Rightarrow> nat list \<times> 's" where
  "like_members random [] s = s"
| "like_members random (m # ms) (r, s) =
     (let (x, s') = random s in like_members random ms (if x < 0.85 then r[m := 1] else r, s'))"

fun noise_likes :: "(nat \<Rightarrow> 's \<Rightarrow> nat \<times> 's) \<Rightarrow> nat \<Rightarrow> nat \<Rightarrow> nat list \<times> 's \<Rightarrow> nat list \<times> 's" where
  "noise_likes below n 0 s = s"
| "noise_likes below n (Suc k) (r, s) = (let (j, s') = below n s in noise_likes below n k (r[j := 1], s'))"

definition user_row :: "('s \<Rightarrow> pyfloat \<times> 's) \<Rightarrow> (nat \<Rightarrow> 's \<Rightarrow> nat \<times> 's) \<Rightarrow> nat \<Rightarrow> nat list \<Rightarrow> 's \<Rightarrow> nat list \<times> 's" where
  "user_row random below n members s =
     (let (r, s1) = like_members random members (replicate n 0, s); (k, s2) = below 2 s1 in noise_likes below n k (r, s2))"

fun user_rows :: "('s \<Rightarrow> pyfloat \<times> 's) \<Rightarrow> (nat \<Rightarrow> 's \<Rightarrow> nat \<times> 's) \<Rightarrow> nat \<Rightarrow> nat list list \<Rightarrow> 's \<Rightarrow> nat list list" where
  \<comment> \<open>one row per entry of the list, the members of that user's cohort\<close>
  "user_rows random below n [] s = []"
| "user_rows random below n (ms # mss) s = (let (r, s') = user_row random below n ms s in r # user_rows random below n mss s')"

record interactions =
  in_ids :: "string list"
  in_titles :: "string list"
  in_matrix :: "nat list list"

definition make_interactions :: "('s \<Rightarrow> pyfloat \<times> 's) \<Rightarrow> (nat \<Rightarrow> 's \<Rightarrow> nat \<times> 's) \<Rightarrow> 's \<Rightarrow> liked_item list \<Rightarrow> interactions option" where
  "make_interactions random below seed items =
     (let cat = likes_catalog items in
      case those (map (\<lambda>c. those (map (index_of (title_index cat)) c)) COHORTS) of
        None \<Rightarrow> None
      | Some cohorts \<Rightarrow> Some \<lparr>in_ids = map lk_id cat, in_titles = map lk_title cat,
          in_matrix = user_rows random below (length cat) (concat (map (replicate USERS_PER_COHORT) cohorts)) seed\<rparr>)"

definition zero_one :: "nat list \<Rightarrow> bool" where "zero_one r \<longleftrightarrow> list_all (\<lambda>x. x = 0 \<or> x = 1) r"

lemma zero_one_update: "zero_one r \<Longrightarrow> zero_one (r[j := 1])"
  using set_update_subset_insert [of r j 1] by (auto simp: zero_one_def list_all_iff)

lemma like_members_01: "zero_one r \<Longrightarrow> zero_one (fst (like_members random ms (r, s))) \<and> length (fst (like_members random ms (r, s))) = length r"
proof (induction ms arbitrary: r s)
  case (Cons m ms)
  obtain x s' where "random s = (x, s')" by (cases "random s")
  then show ?case using Cons.IH [of "if x < 0.85 then r[m := 1] else r" s'] Cons.prems zero_one_update [of r m] by (auto split: if_splits)
qed simp

lemma noise_likes_01: "zero_one r \<Longrightarrow> zero_one (fst (noise_likes below n k (r, s))) \<and> length (fst (noise_likes below n k (r, s))) = length r"
proof (induction k arbitrary: r s)
  case (Suc k)
  obtain j s' where "below n s = (j, s')" by (cases "below n s")
  then show ?case using Suc.IH [of "r[j := 1]" s'] Suc.prems zero_one_update [of r j] by auto
qed simp

lemma user_row_01: "zero_one (fst (user_row random below n ms s)) \<and> length (fst (user_row random below n ms s)) = n"
proof -
  obtain r s1 where r: "like_members random ms (replicate n 0, s) = (r, s1)" by (cases "like_members random ms (replicate n 0, s)")
  obtain k s2 where k: "below 2 s1 = (k, s2)" by (cases "below 2 s1")
  have "zero_one (replicate n 0)" by (simp add: zero_one_def list_all_length)
  from like_members_01 [OF this, of random ms s] r have "zero_one r" "length r = n" by simp_all
  with noise_likes_01 [of r below n k s2] r k show ?thesis by (simp add: user_row_def)
qed

text \<open>The file is a matrix over its ids, a row per user, of zeros and ones: what \<open>load_interactions\<close> and the recommenders read.\<close>

lemma make_interactions_matrix:
  assumes "make_interactions random below seed items = Some f"
  shows "length (in_matrix f) = 72 \<and> (\<forall>r \<in> set (in_matrix f). length r = length (in_ids f) \<and> zero_one r) \<and> length (in_titles f) = length (in_ids f)"
proof -
  have rows: "length (user_rows random below n mss s) = length mss
      \<and> (\<forall>r \<in> set (user_rows random below n mss s). length r = n \<and> zero_one r)" for n mss s
  proof (induction mss arbitrary: s)
    case (Cons ms mss)
    obtain r s' where r: "user_row random below n ms s = (r, s')" by (cases "user_row random below n ms s")
    with Cons.IH [of s'] user_row_01 [of random below n ms s] show ?case by auto
  qed simp
  obtain cohorts where c: "those (map (\<lambda>c. those (map (index_of (title_index (likes_catalog items))) c)) COHORTS) = Some cohorts"
    using assms by (auto simp: make_interactions_def Let_def split: option.splits)
  have "length xs = length ys" if "those xs = Some ys" for xs :: "'x option list" and ys
    using that by (induction xs arbitrary: ys) (auto split: option.splits)
  from this [OF c] have six: "length cohorts = 6" by (simp add: COHORTS_def)
  have "length (concat (map (replicate 12) cs)) = 12 * length cs" for cs :: "nat list list" by (induction cs) simp_all
  with six have "length (concat (map (replicate USERS_PER_COHORT) cohorts)) = 72" by (simp add: USERS_PER_COHORT_def)
  with rows [of "length (likes_catalog items)"] assms c show ?thesis
    by (auto simp: make_interactions_def Let_def)
qed

section \<open>The programs\<close>

definition run_ingest :: "(json \<Rightarrow> string) \<Rightarrow> json \<Rightarrow> (string, product) dict \<Rightarrow> load_error + (nat \<times> nat) \<times> (string, product) dict" where
  \<comment> \<open>how many are kept and written, and the table after it\<close>
  "run_ingest to_str data table =
     andthen (dataset_source to_str data) (\<lambda>ps.
       let kept = ingest [ps]; (table', n) = save kept table in Inr ((length kept, n), table'))"

definition LISTINGS :: "string list" where
  "LISTINGS =
     [''Walmart - COWIN SE7 Active Noise Cancelling Headphones Bluetooth'',
      ''Anker Soundcore Q20i Hybrid Active Noise Cancelling Headphones'',
      ''Sony WH-1000XM5 Wireless Headphones'',
      ''SAMSUNG 990 PRO 2TB PCIe 4.0 NVMe M.2 Internal SSD'',
      ''Apple MacBook Air M2 (Refurbished) 13-inch Laptop'']"

definition run_extract :: "(string \<times> listing_specs) list" where
  "run_extract = map (\<lambda>t. (t, rule_extract t)) LISTINGS"

record search_stages =
  sg_semantic :: "nat list"
  sg_keyword :: "nat list"
  sg_hybrid :: "nat list"
  sg_value :: "(product \<times> pyfloat) list"

definition SEARCH_QUERY :: string where "SEARCH_QUERY = ''noise cancelling headphones''"

definition query_catalog :: "(string \<times> string) list \<Rightarrow> product list \<Rightarrow> product list" where
  \<comment> \<open>of the whole catalog, the rows found for the query; the first argument: id and query of every item\<close>
  "query_catalog asked ps = filter (\<lambda>p. p_id p \<in> fst ` set (filter (\<lambda>x. snd x = SEARCH_QUERY) asked)) ps"

definition run_search ::
  "(string list \<Rightarrow> pyfloat list list) \<Rightarrow> fitter \<Rightarrow> (string \<times> string) list \<Rightarrow> (string, pyfloat) dict \<Rightarrow> product list \<Rightarrow> string list \<times> pyfloat list list \<Rightarrow>
   search_stages option" where
  \<comment> \<open>\<open>None\<close>: a row has no cached vector (\<open>KeyError\<close>)\<close>
  "run_search emb fit asked medians ps cache =
     (let cat = query_catalog asked ps in
      case load_catalog_embeddings cat (fst cache) (snd cache) of
        None \<Rightarrow> None
      | Some vs \<Rightarrow>
          (let semantic = map fst (cosine_rank (hd (emb [SEARCH_QUERY])) vs 5);
               keyword = map fst (bm25_search (new_bm25 (map product_text cat)) SEARCH_QUERY 5)
           in Some \<lparr>sg_semantic = semantic, sg_keyword = keyword, sg_hybrid = rrf_fuse [semantic, keyword] 60 (Some 5),
                sg_value = map snd (search_catalog emb fit SEARCH_QUERY cat vs medians 5 0.5)\<rparr>))"

definition run_evals :: "fitter \<Rightarrow> product list \<Rightarrow> golden list \<Rightarrow> eval_report \<times> eval_report \<times> string \<times> pyfloat" where
  "run_evals fit ps gs =
     (let two = evaluate (two_signal_ranker fit ps) gs; med = evaluate median_only_ranker gs
      in (two, med, ab_compare ''two_signal'' (ev_precision two) ''median_only'' (ev_precision med)))"

definition REFERENCE :: string where "REFERENCE = ''Sony WH-1000XM5 Wireless Headphones''"

definition liked_index :: "string list \<Rightarrow> (string, string) dict \<Rightarrow> nat option" where
  "liked_index ids titles =
     (case find (\<lambda>i. dict_get titles (ids ! i) \<in> {None, Some REFERENCE}) [0..<length ids] of
        None \<Rightarrow> None | Some i \<Rightarrow> if dict_get titles (ids ! i) = None then None else Some i)"

definition run_recs_demo ::
  "product list \<Rightarrow> pyfloat list list \<Rightarrow> string list \<Rightarrow> (string, string) dict \<Rightarrow> pyfloat list list \<Rightarrow> (product list \<times> nat list) option" where
  \<comment> \<open>titles by id; \<open>None\<close>: nothing is called as the reference (\<open>StopIteration\<close>), or an id before it has no title (\<open>KeyError\<close>)\<close>
  "run_recs_demo ps emb ids titles likes =
     (case (similar_products ps emb REFERENCE 3, liked_index ids titles) of
        (Some like_it, Some i) \<Rightarrow> Some (like_it, collaborative_recommend ((replicate (length ids) 0)[i := 1]) likes 3)
      | _ \<Rightarrow> None)"

text \<open>What the ingestion writes is what a later load reads: every kept product, under its id.\<close>

lemma run_ingest_counts:
  "run_ingest to_str data table = Inr ((kept, n), table') \<Longrightarrow>
   n = kept \<and> (\<exists>ps. dataset_source to_str data = Inr ps \<and> kept = length (ingest [ps]) \<and> table' = fst (save (ingest [ps]) table))"
  by (auto simp: run_ingest_def Let_def andthen_eq_Inr save_def)

text \<open>The demonstration never recommends the item the user is said to like.\<close>

lemma run_recs_demo_new:
  assumes "run_recs_demo ps emb ids titles likes = Some (like_it, recs)" and "j \<in> set recs"
  shows "j < width likes \<and> liked_index ids titles \<noteq> Some j"
proof -
  obtain i where i: "liked_index ids titles = Some i" and recs: "recs = collaborative_recommend ((replicate (length ids) 0)[i := 1]) likes 3"
    using assms(1) by (auto simp: run_recs_demo_def split: option.splits)
  have "i < length ids" using i by (auto simp: liked_index_def find_Some_iff split: option.splits if_splits)
  then have liked: "i \<in> set (liked_items ((replicate (length ids) 0)[i := 1]))" by (simp add: liked_items_def)
  have "j < width likes \<and> j \<notin> set (liked_items ((replicate (length ids) 0)[i := 1]))"
    using assms(2) set_py_slice_to by (fastforce simp: recs collaborative_recommend_def)
  with liked i show ?thesis by auto
qed

end
