(* ===== verification/Spec2Isabelle.thy ===== *)
theory Spec2Isabelle
  imports Prelude PyStr Json Settings Schema Deal_Score Licensing Union_Find Dedup Aggregate Features Compliance
    Ratelimit Billing Auth Userdata Live_Sources Shop Rx_Facts Search Rag Agentic_Rag Orchestrate Tool_Trust Context_Window Inference Http_Edge Accounts_Api Serve Worker
    Snapshot Dataset Flows Mlops Tracking Agent_Loop Deploy Scripts Mcp Reports Model_Once Shopper_Agent Deploy_Cli
    Llm_Extract Title_Cache Db_Session Inference_Report Offline_Eval Auth_Report Torch_Head Script_Runs Demo_Data
begin

text \<open>
  A verification development of DealFinder, the Python package \<open>dealfinder\<close> with its deployment and maintenance
  scripts (\<open>deploy/\<close>, \<open>scripts/\<close>, \<open>data/\<close>). This is the root theory: it imports every other one and
  states how they fit together. Each theory opens with what it models; file names below are those of the repository.

  \<^bold>\<open>The program.\<close> Live connectors and a committed snapshot yield rows of one product schema. A search asks
  the connectors tier by tier, merges and deduplicates their rows, scores them by two signals (the cross-source
  median and the residual against a fair-price model) as far as each store's licence allows, and answers over HTTP.
  Around it stand accounts on Postgres under row-level security, billing, a suggestions worker, retrieval-augmented
  answers with a reviewer, an agent loop, the offline ML parts, and the tools that deploy and audit the service.

  \<^bold>\<open>Theories and sources.\<close>
  \<^item> Shared: \<open>Prelude\<close> (dictionaries, Python's sorts, minima, medians, rounding, slices), \<open>PyStr\<close> (strings and a
    backtracking matcher for \<open>re\<close>), \<open>Rx_Facts\<close> (splitting a text for a pattern), \<open>Json\<close>, \<open>Settings\<close>
    (\<open>settings.py\<close>, the environment as a dictionary).
  \<^item> Rows and scores: \<open>Schema\<close> (\<open>schema.py\<close>, \<open>ingest.py\<close>, \<open>store.py\<close>), \<open>Deal_Score\<close> (\<open>deal.py\<close>,
    \<open>dealscore.py\<close>), \<open>Licensing\<close> (\<open>licensing.py\<close>), \<open>Features\<close> (\<open>features.py\<close>, \<open>extract.py\<close>,
    \<open>nl_to_sql\<close> of \<open>tools.py\<close>), \<open>Llm_Extract\<close> (prompts and replies of \<open>extract.py\<close> and \<open>llm.py\<close>).
  \<^item> The live search: \<open>Union_Find\<close> and \<open>Dedup\<close> (\<open>dedup.py\<close>), \<open>Aggregate\<close> (\<open>aggregate.py\<close>),
    \<open>Live_Sources\<close> (\<open>live_sources.py\<close>), \<open>Shop\<close> (\<open>shop.py\<close>).
  \<^item> Retrieval and generation: \<open>Search\<close> (\<open>search.py\<close>, \<open>ranking.py\<close>, \<open>dealmodel.py\<close>, the cache of
    \<open>embed.py\<close>), \<open>Rag\<close> (\<open>rag.py\<close>), \<open>Agentic_Rag\<close> (\<open>agentic_rag.py\<close>), \<open>Orchestrate\<close>
    (\<open>orchestrate.py\<close>), \<open>Context_Window\<close> (\<open>context.py\<close>), \<open>Inference\<close> (\<open>llm.py\<close>, \<open>inference.py\<close>,
    \<open>cache.py\<close>, \<open>recommend.py\<close>), \<open>Title_Cache\<close> (the title vectors of \<open>embed.py\<close>, the worker's catalog, \<open>data/seed.py\<close>),
    \<open>Agent_Loop\<close> (\<open>agent.py\<close>), \<open>Shopper_Agent\<close> (\<open>run_agent.py\<close> with the SQL tools of \<open>tools.py\<close>), \<open>Mcp\<close> (\<open>mcp_server.py\<close>).
  \<^item> Protection: \<open>Compliance\<close> (\<open>safety.py\<close>, \<open>compliance.py\<close>), \<open>Ratelimit\<close> (\<open>ratelimit.py\<close>),
    \<open>Tool_Trust\<close> (\<open>tool_trust.py\<close>), \<open>Auth\<close> (\<open>auth.py\<close>, \<open>tenancy.py\<close>), \<open>Billing\<close> (\<open>billing.py\<close>).
  \<^item> Data of accounts: \<open>Userdata\<close> (\<open>db.py\<close>, \<open>pgstore.py\<close>, \<open>userstore.py\<close>, \<open>retention.py\<close>,
    \<open>migrate.py\<close> and the policies of \<open>migrations/\<close>), \<open>Db_Session\<close> (the pooled sessions of \<open>db.py\<close> beneath it), \<open>Worker\<close> (\<open>worker.py\<close>), \<open>Model_Once\<close> (the model's
    double-checked lock in \<open>embed.py\<close>, the pools of \<open>db.py\<close>).
  \<^item> The service, \<open>serve.py\<close>: \<open>Http_Edge\<close> (middlewares, error echo, readiness), \<open>Accounts_Api\<close> (account
    routes), \<open>Serve\<close> (the other routes), \<open>Reports\<close>, \<open>Auth_Report\<close> and \<open>Inference_Report\<close> (the report routes).
  \<^item> Offline: \<open>Snapshot\<close> (\<open>snapshot.py\<close>, \<open>sources.py\<close>), \<open>Dataset\<close> (\<open>dataset.py\<close>), \<open>Flows\<close>
    (\<open>flows.py\<close>, \<open>models/good_deals.sql\<close>), \<open>Mlops\<close> (\<open>ops.py\<close>, \<open>evals.py\<close>, \<open>mlops.py\<close>),
    \<open>Tracking\<close> and \<open>Torch_Head\<close> (\<open>models.py\<close>, \<open>tracking.py\<close>), \<open>Offline_Eval\<close> (\<open>run_recs.py\<close>, \<open>train_model.py\<close>),
    \<open>Demo_Data\<close> (\<open>data/make_catalog.py\<close>, \<open>make_interactions.py\<close> and the other \<open>run_*.py\<close>).
  \<^item> Operations: \<open>Deploy\<close> and \<open>Deploy_Cli\<close> (\<open>deploy/secrets.py\<close>, \<open>prod_db.py\<close>, \<open>create_login_role.py\<close>, their operations and
    their programs), \<open>Scripts\<close> and \<open>Script_Runs\<close> (\<open>scripts/\<close> and \<open>data/build_snapshot.py\<close>, decisions and programs).

  \<^bold>\<open>How the model reads.\<close> Classes are records, enumerations and tagged values are datatypes, a function of the
  source is a definition of its name. State is passed explicitly: the breaker's cooldowns, the limiter's windows, the
  key-set cache, the rows of the database, the worker's memory, the readiness flags. What raises is \<open>Inl\<close> of an
  error, or \<open>None\<close> where there is only one way to fail. Threads are modelled where the code shares state between
  them: as explicit outcomes read in the code's order (\<open>Aggregate\<close>), as the cache another thread may have changed
  (\<open>Auth\<close>), and as a step relation over interleaved threads (\<open>Model_Once\<close>). Whatever is not in the
  repository is an argument: the clock, HTTP, the embedding model, scikit-learn and torch, numpy's seeded generator,
  Postgres' and the validation library's conversions, the cloud command, Stripe, PyJWT, the LLM.
  What is assumed of such an argument is a hypothesis of the theorem that needs it, and each has a witness.

  \<^bold>\<open>Interfaces.\<close> \<open>partition_structure\<close> (what the clustering loop needs of the union-find, provided by
  \<open>Union_Find\<close>), \<open>breaker\<close> (the cooldowns that the tier loop relies on), \<open>license\<close> (a permission holds only under
  a policy that grants it), \<open>sliding_window\<close> (what one limiter call does to its key, used by \<open>Ratelimit\<close>),
  \<open>metered\<close> (a quota gate), \<open>isolated\<close> (a transaction sees and changes only its scope). Each is interpreted on
  the model's own definitions in the theory of its provider.

  \<^bold>\<open>What is shown.\<close> The properties carry the ids C1 to C40 in the order of importance.
  \<^item> Licences and isolation: no rating where a store forbids it (\<open>Shop\<close>), no row of another tenant or user is seen
    or changed, from the SQL up to the account routes (\<open>Userdata\<close>, \<open>Accounts_Api\<close>), a pooled connection carries nothing over and the
    sessions implement the store's scopes (\<open>Db_Session\<close>), and what is kept beyond a licence is purged.
  \<^item> The edge: requests that skip the Worker have no effect, a client that waits as told is let through, limits hold
    and memory stays bounded, error bodies are JSON, and only complete anonymous answers are cached.
  \<^item> The search: escalation asks no tier too many, a benched source is not asked, clusters are exactly the closure of
    the pairwise test and keep the cheapest offer, verdicts follow the thresholds, the stream is the exact-key merge, and a question's SQL returns what the question asks for.
  \<^item> Generation: answers quote retrieved listings at their prices, a draft is released only with the reviewer's
    approval or as the extractive answer, the retrieval loop ends, the packed context fits its budget, and a tool that needs
    approval runs only right after it.
  \<^item> State over time: nobody is notified twice and nothing found is lost, one embedding model is built however the
    threads interleave, signing keys are fetched rarely and are current, quotas are never exceeded.
  \<^item> Offline and operations: the grouped split leaks no query, a failed provisioning leaves Postgres as it was, the
    secrets program keeps what is stored and prints none of it, a second seed changes nothing.
  Beside the properties every theory has the lemmas that make its operations correct, for instance
  \<open>Flows.run_pipeline_result\<close>, \<open>Mlops.promoted_only_if_better\<close>, \<open>Dataset.temporal_split_no_peeking\<close>,
  \<open>Torch_Head.tracked_winner\<close>, \<open>Deploy.pooler_url_host\<close>, \<open>Scripts.preflight_exact\<close> (the cost preflight agrees with the gates of
  the application), \<open>Script_Runs.load_main_honest\<close>, \<open>Offline_Eval.held_out_leaks\<close>, \<open>Auth_Report.auth_report_verdicts\<close>.

  \<^bold>\<open>Bounds and fuel.\<close> Python's floats are exact reals, so statements about prices and scores hold up to rounding;
  NaN and the infinities appear only where the code treats them (\<open>Http_Edge\<close>, \<open>Accounts_Api\<close>). Texts are
  bytes, and the character classes are those of ASCII. \<open>uf_find\<close> is a \<open>partial_function\<close>, proved to return on every
  parent list the program builds. The fuel of \<open>py_replace\<close> and of the agentic loop is the length of the text and the
  number of hops, which the code itself bounds; the regular-expression matcher recurses on the rest of the text.

  \<^bold>\<open>Not modelled.\<close> Parsing the command line, and the layout of what the \<open>run_*.py\<close> programs print; autograd and the fits
  of scikit-learn (the content of the torch loops, the GPU benchmarks and the notebook), numpy's generator, PyJWT's and Stripe's
  cryptography; file formats (\<open>.npz\<close>, SQLite, HTML parsing); how Postgres schedules transactions that overlap; starting the
  warm-up thread at boot; and everything that is not Python (the frontend,
  the edge Worker, infrastructure files).
\<close>

end
